(* ===== verification/Prelude.thy ===== *)
theory Prelude
  imports Main "HOL-Library.Word"
begin

text \<open>
  What the components of the development share: the machine types of the Rust code at their
  width, the saturating and wrapping arithmetic they use, the \<open>Option\<close> combinators of the
  standard library, and one locale for state machines with an invariant.

  An \<open>Instant\<close> is a natural number of nanoseconds on the process clock, a \<open>Duration\<close> a
  natural number of nanoseconds. Adding a duration to an instant is unbounded here (the code
  only adds durations of at most minutes or hours, far from the platform's limit).
\<close>

subsection \<open>Machine types\<close>

type_synonym u8 = "8 word"
type_synonym u16 = "16 word"
type_synonym u64 = "64 word"
type_synonym usize = "64 word"
type_synonym instant = nat
type_synonym duration = nat

named_theorems machine_simps \<open>facts that evaluate machine arithmetic\<close>

definition secs :: "nat \<Rightarrow> duration" where
  "secs n = n * 1000000000"

lemma secs_mono [simp]: "secs m \<le> secs n \<longleftrightarrow> m \<le> n"
  by (simp add: secs_def)

lemma secs_less [simp]: "secs m < secs n \<longleftrightarrow> m < n"
  by (simp add: secs_def)

subsection \<open>Saturating and wrapping counters\<close>

text \<open>\<open>saturating_add(1)\<close>, \<open>saturating_sub(1)\<close> and \<open>wrapping_add(1)\<close> at any width.\<close>

definition sat_inc :: "'a::len word \<Rightarrow> 'a word" where
  "sat_inc x = (if x = - 1 then x else x + 1)"

definition sat_dec :: "'a::len word \<Rightarrow> 'a word" where
  "sat_dec x = (if x = 0 then x else x - 1)"

lemma unat_sat_inc: "unat (sat_inc x) = min (Suc (unat x)) (2 ^ LENGTH('a) - 1)"
  for x :: "'a::len word"
proof (cases "x = - 1")
  case True
  then show ?thesis
    by (simp add: sat_inc_def unsigned_minus_1_eq_mask mask_eq_exp_minus_1)
next
  case False
  then have nz: "1 + x \<noteq> 0"
    by (metis add.inverse_unique add.inverse_inverse)
  then have suc: "unat (1 + x) = Suc (unat x)"
    by (rule unatSuc)
  have "unat (1 + x) < 2 ^ LENGTH('a)"
    by (rule unsigned_less)
  with suc False show ?thesis by (simp add: sat_inc_def add.commute)
qed

lemma unat_sat_dec: "unat (sat_dec x) = unat x - 1"
  for x :: "'a::len word"
proof (cases "x = 0")
  case True
  then show ?thesis by (simp add: sat_dec_def)
next
  case False
  then have "Suc (unat (x - 1)) = unat x"
    using unatSuc [of "x - 1"] by simp
  with False show ?thesis by (simp add: sat_dec_def)
qed

text \<open>The token issuers of the coordinator: wrap around and skip zero.\<close>

definition next_token :: "u64 \<Rightarrow> u64" where
  "next_token t = (let t' = t + 1 in if t' = 0 then 1 else t')"

lemma next_token_nonzero [simp]: "next_token t \<noteq> 0"
  by (simp add: next_token_def Let_def)

subsection \<open>Numbers in decimal\<close>

fun decimal :: "nat \<Rightarrow> string" where
  "decimal n = (if n < 10 then [char_of (48 + n)] else decimal (n div 10) @ [char_of (48 + n mod 10)])"

declare decimal.simps [simp del]

lemma decimal_length: "n < 10 ^ k \<Longrightarrow> 0 < k \<Longrightarrow> length (decimal n) \<le> k"
proof (induction k arbitrary: n)
  case (Suc k)
  show ?case
  proof (cases "n < 10")
    case True
    then show ?thesis by (simp add: decimal.simps [of n])
  next
    case False
    have "n div 10 < 10 ^ k" using Suc.prems(1) by (simp add: less_mult_imp_div_less mult.commute)
    moreover from this False have "0 < k" by (cases k) auto
    ultimately have "length (decimal (n div 10)) \<le> k" by (rule Suc.IH)
    then show ?thesis using False by (simp add: decimal.simps [of n])
  qed
qed simp

subsection \<open>Option combinators\<close>

definition is_some_and :: "('a \<Rightarrow> bool) \<Rightarrow> 'a option \<Rightarrow> bool" where
  "is_some_and P x = (case x of None \<Rightarrow> False | Some a \<Rightarrow> P a)"

definition is_none_or :: "('a \<Rightarrow> bool) \<Rightarrow> 'a option \<Rightarrow> bool" where
  "is_none_or P x = (case x of None \<Rightarrow> True | Some a \<Rightarrow> P a)"

lemma is_some_and_simps [simp]:
  "is_some_and P None = False" "is_some_and P (Some a) = P a"
  by (simp_all add: is_some_and_def)

lemma is_none_or_simps [simp]:
  "is_none_or P None = True" "is_none_or P (Some a) = P a"
  by (simp_all add: is_none_or_def)

lemma is_some_and_iff: "is_some_and P x \<longleftrightarrow> (\<exists>a. x = Some a \<and> P a)"
  by (cases x) auto

lemma is_none_or_iff: "is_none_or P x \<longleftrightarrow> (\<forall>a. x = Some a \<longrightarrow> P a)"
  by (cases x) auto

subsection \<open>State machines with an invariant\<close>

text \<open>
  A component that moves by steps, and an invariant every step keeps: whatever is reached from
  a state with the invariant has it.
\<close>

locale invariant_machine =
  fixes step :: "'s \<Rightarrow> 's \<Rightarrow> bool"
    and inv :: "'s \<Rightarrow> bool"
  assumes inv_step: "inv s \<Longrightarrow> step s t \<Longrightarrow> inv t"
begin

lemma inv_reach: "step\<^sup>*\<^sup>* s t \<Longrightarrow> inv s \<Longrightarrow> inv t"
  by (induction rule: rtranclp_induct) (auto intro: inv_step)

lemma reach_induct [consumes 2, case_names base step]:
  assumes "step\<^sup>*\<^sup>* s t" and "inv s"
    and "P s"
    and "\<And>t u. step\<^sup>*\<^sup>* s t \<Longrightarrow> inv t \<Longrightarrow> P t \<Longrightarrow> step t u \<Longrightarrow> P u"
  shows "P t"
  using assms(1)
proof (induction rule: rtranclp_induct)
  case base
  show ?case by (rule assms(3))
next
  case (step t u)
  from step.hyps(1) assms(2) have "inv t" by (rule inv_reach)
  with step assms(4) show ?case by blast
qed

end

end
