(* ===== verification/Maintenance_Coordinator.thy ===== *)
theory Maintenance_Coordinator
  imports Prelude
begin

text \<open>
  The maintenance coordinator of the daemon
  (\<open>crates/wenlan-server/src/maintenance_coordinator.rs\<close>): the mutex-protected state that
  decides when background writers, diagnostic analysis and one approved repair may run. Every
  definition here is one critical section of the code, a function of the coordinator's state,
  of the instant the code reads under the lock, and of the guard it consumes.

  A method that takes \<open>self\<close> by value drops the guard when it returns an error, so the error
  branches of the guard methods run the guard's \<open>Drop\<close> on the state, as Rust does. The
  \<open>Notify\<close> of the coordinator is the counter \<open>notify_calls\<close>: one for each
  \<open>notify_waiters()\<close>.
\<close>

subsection \<open>The approved request (\<open>crates/wenlan-types/src/repair.rs\<close>)\<close>

type_synonym manifest_id = string
type_synonym repair_digest = string

record apply_repair_request =
  req_manifest_id :: manifest_id
  approved_manifest_digest :: repair_digest
  approval :: string

datatype repair_contract_error = InvalidDigest | InvalidApplyRequest

definition is_ascii_digit :: "char \<Rightarrow> bool" where
  "is_ascii_digit ch \<longleftrightarrow> (let n = of_char ch :: nat in 48 \<le> n \<and> n \<le> 57)"

definition is_lower_hex_byte :: "char \<Rightarrow> bool" where
  "is_lower_hex_byte ch \<longleftrightarrow> is_ascii_digit ch \<or> (let n = of_char ch :: nat in 97 \<le> n \<and> n \<le> 102)"

definition is_lower_hex :: "string \<Rightarrow> nat \<Rightarrow> bool" where
  "is_lower_hex v len \<longleftrightarrow> length v = len \<and> list_all is_lower_hex_byte v"

definition repair_digest_parse :: "string \<Rightarrow> repair_contract_error + repair_digest" where
  "repair_digest_parse v = (if is_lower_hex v 64 then Inr v else Inl InvalidDigest)"

definition strip_prefix :: "string \<Rightarrow> string \<Rightarrow> string option" where
  "strip_prefix p v = (if take (length p) v = p then Some (drop (length p) v) else None)"

definition uuid_shape :: "string \<Rightarrow> bool" where
  "uuid_shape u \<longleftrightarrow> length u = 36 \<and>
     list_all (\<lambda>(i, ch). if i = 8 \<or> i = 13 \<or> i = 18 \<or> i = 23 then ch = CHR ''-''
                        else is_lower_hex_byte ch) (enumerate 0 u)"

definition valid_manifest_id :: "manifest_id \<Rightarrow> bool" where
  "valid_manifest_id v = (case strip_prefix ''repair_'' v of None \<Rightarrow> False | Some u \<Rightarrow> uuid_shape u)"

definition apply_request_try_new ::
    "manifest_id \<Rightarrow> repair_digest \<Rightarrow> string \<Rightarrow> repair_contract_error + apply_repair_request" where
  "apply_request_try_new m d a =
     (let expected = ''apply repair '' @ m @ '' '' @ d
      in if \<not> valid_manifest_id m \<or> a \<noteq> expected then Inl InvalidApplyRequest
         else Inr \<lparr>req_manifest_id = m, approved_manifest_digest = d, approval = a\<rparr>)"

subsection \<open>The coordinator's state\<close>

datatype fence_error = Busy | Conflict | Expired

record repair_lease =
  lease_manifest :: manifest_id
  lease_durable :: bool
  lease_attempt :: "u64 option"

record pending_repair =
  pending_manifest :: manifest_id
  pending_owners :: "u64 set"

record reserved_repair =
  predecessor_manifest :: manifest_id
  next_apply :: apply_repair_request
  expires_at :: instant
  rsv_generation :: u64

datatype resumption_seal = SealActive | SealCommitted

record coordinator =
  recovery_complete :: bool
  active_background :: usize
  active_analysis :: usize
  pending :: "pending_repair option"
  lease :: "repair_lease option"
  startup_claim :: "apply_repair_request option"
  startup_claim_complete :: bool
  reserved :: "reserved_repair option"
  expired_repairs :: "apply_repair_request list"
  next_pending_repair :: u64
  next_repair_attempt :: u64
  next_reservation :: u64
  runtime_resumption :: "resumption_seal option"
  notify_calls :: nat

definition new_coordinator :: coordinator where
  "new_coordinator = \<lparr>recovery_complete = False, active_background = 0, active_analysis = 0,
     pending = None, lease = None, startup_claim = None, startup_claim_complete = False,
     reserved = None, expired_repairs = [], next_pending_repair = 0, next_repair_attempt = 0,
     next_reservation = 0, runtime_resumption = None, notify_calls = 0\<rparr>"

definition notify_waiters :: "coordinator \<Rightarrow> coordinator" where
  "notify_waiters c = c\<lparr>notify_calls := Suc (notify_calls c)\<rparr>"

definition notify_if :: "bool \<Rightarrow> coordinator \<Rightarrow> coordinator" where
  "notify_if b c = (if b then notify_waiters c else c)"

subsection \<open>Private operations on the state\<close>

definition repair_allows_analysis :: "coordinator \<Rightarrow> bool" where
  "repair_allows_analysis c = is_none_or (\<lambda>l. lease_durable l \<and> lease_attempt l = None) (lease c)"

definition issue_pending_repair :: "coordinator \<Rightarrow> u64 \<times> coordinator" where
  "issue_pending_repair c =
     (let t = next_token (next_pending_repair c) in (t, c\<lparr>next_pending_repair := t\<rparr>))"

definition issue_repair_attempt :: "coordinator \<Rightarrow> u64 \<times> coordinator" where
  "issue_repair_attempt c =
     (let t = next_token (next_repair_attempt c) in (t, c\<lparr>next_repair_attempt := t\<rparr>))"

definition issue_reservation :: "coordinator \<Rightarrow> u64 \<times> coordinator" where
  "issue_reservation c =
     (let t = next_token (next_reservation c) in (t, c\<lparr>next_reservation := t\<rparr>))"

definition remove_pending_owner :: "manifest_id \<Rightarrow> u64 \<Rightarrow> coordinator \<Rightarrow> bool \<times> coordinator" where
  "remove_pending_owner m ow c =
     (case pending c of
        Some p \<Rightarrow>
          if pending_manifest p = m
          then let removed = (ow \<in> pending_owners p);
                   owners = pending_owners p - {ow};
                   empty = (owners = {})
               in (removed \<or> empty,
                   c\<lparr>pending := if empty then None else Some (p\<lparr>pending_owners := owners\<rparr>)\<rparr>)
          else (False, c)
      | None \<Rightarrow> (False, c))"

definition clear_pending_manifest :: "manifest_id \<Rightarrow> coordinator \<Rightarrow> coordinator" where
  "clear_pending_manifest m c =
     (if is_some_and (\<lambda>p. pending_manifest p = m) (pending c) then c\<lparr>pending := None\<rparr> else c)"

definition repair_is_expired :: "coordinator \<Rightarrow> apply_repair_request \<Rightarrow> bool" where
  "repair_is_expired c r \<longleftrightarrow> r \<in> set (expired_repairs c)"

definition record_expired_repair :: "apply_repair_request \<Rightarrow> coordinator \<Rightarrow> coordinator" where
  "record_expired_repair r c =
     (if r \<in> set (expired_repairs c) then c else c\<lparr>expired_repairs := expired_repairs c @ [r]\<rparr>)"

definition expire_reservation :: "instant \<Rightarrow> coordinator \<Rightarrow> bool \<times> coordinator" where
  "expire_reservation now c =
     (case reserved c of
        None \<Rightarrow> (False, c)
      | Some r \<Rightarrow>
          if expires_at r > now then (False, c)
          else (True, record_expired_repair (next_apply r) (c\<lparr>reserved := None\<rparr>)))"

subsection \<open>Admission of background writers and of analysis\<close>

definition finish_recovery :: "coordinator \<Rightarrow> coordinator" where
  "finish_recovery c = notify_waiters (c\<lparr>recovery_complete := True\<rparr>)"

text \<open>\<open>True\<close> is the guard \<open>Some (BackgroundMaintenanceGuard)\<close>.\<close>

definition try_begin_background :: "instant \<Rightarrow> coordinator \<Rightarrow> bool \<times> coordinator" where
  "try_begin_background now c =
     (let (expired, c1) = expire_reservation now c
      in if \<not> recovery_complete c1 \<or> active_analysis c1 \<noteq> 0 \<or> pending c1 \<noteq> None
            \<or> lease c1 \<noteq> None \<or> reserved c1 \<noteq> None \<or> runtime_resumption c1 \<noteq> None
         then (False, notify_if expired c1)
         else (True, notify_if expired (c1\<lparr>active_background := sat_inc (active_background c1)\<rparr>)))"

text \<open>One turn of the loop of \<open>begin_background\<close>; \<open>False\<close> is awaiting the notification.\<close>

definition begin_background_poll :: "instant \<Rightarrow> coordinator \<Rightarrow> bool \<times> coordinator" where
  "begin_background_poll now c =
     (let (expired, c1) = expire_reservation now c
      in if recovery_complete c1 \<and> active_analysis c1 = 0 \<and> pending c1 = None
            \<and> lease c1 = None \<and> reserved c1 = None \<and> runtime_resumption c1 = None
         then (True, notify_if expired (c1\<lparr>active_background := sat_inc (active_background c1)\<rparr>))
         else (False, notify_if expired c1))"

definition begin_analysis_poll :: "instant \<Rightarrow> coordinator \<Rightarrow> bool \<times> coordinator" where
  "begin_analysis_poll now c =
     (let (expired, c1) = expire_reservation now c
      in if recovery_complete c1 \<and> active_background c1 = 0 \<and> pending c1 = None
            \<and> repair_allows_analysis c1 \<and> reserved c1 = None \<and> runtime_resumption c1 = None
         then (True, notify_if expired (c1\<lparr>active_analysis := sat_inc (active_analysis c1)\<rparr>))
         else (False, notify_if expired c1))"

definition drop_background :: "coordinator \<Rightarrow> coordinator" where
  "drop_background c = notify_waiters (c\<lparr>active_background := sat_dec (active_background c)\<rparr>)"

definition drop_analysis :: "coordinator \<Rightarrow> coordinator" where
  "drop_analysis c = notify_waiters (c\<lparr>active_analysis := sat_dec (active_analysis c)\<rparr>)"

subsection \<open>Acquiring the repair fence\<close>

record fence_guard =
  guard_manifest :: manifest_id
  guard_attempt :: "u64 option"
  retain_on_drop :: bool

record registration =
  reg_manifest :: manifest_id
  reg_owner :: u64
  reg_active :: bool

definition new_registration :: "manifest_id \<Rightarrow> u64 \<Rightarrow> registration" where
  "new_registration m ow = \<lparr>reg_manifest = m, reg_owner = ow, reg_active = True\<rparr>"

definition disarm :: "registration \<Rightarrow> registration" where
  "disarm r = r\<lparr>reg_active := False\<rparr>"

definition drop_registration :: "registration option \<Rightarrow> coordinator \<Rightarrow> coordinator" where
  "drop_registration reg c =
     (case reg of
        None \<Rightarrow> c
      | Some r \<Rightarrow>
          if \<not> reg_active r then c
          else let (changed, c1) = remove_pending_owner (reg_manifest r) (reg_owner r) c
               in notify_if changed c1)"

definition mk_guard :: "manifest_id \<Rightarrow> u64 \<Rightarrow> fence_guard" where
  "mk_guard m t = \<lparr>guard_manifest = m, guard_attempt = Some t, retain_on_drop = False\<rparr>"

definition provisional_lease :: "manifest_id \<Rightarrow> u64 \<Rightarrow> repair_lease" where
  "provisional_lease m t = \<lparr>lease_manifest = m, lease_durable = False, lease_attempt = Some t\<rparr>"

datatype acquire_poll = Ready "fence_error + fence_guard" | Waiting

text \<open>The branch of a poll that finds the reservation of a chained apply.\<close>

definition acquire_reserved ::
    "manifest_id \<Rightarrow> apply_repair_request option \<Rightarrow> reserved_repair \<Rightarrow> coordinator
     \<Rightarrow> acquire_poll \<times> coordinator" where
  "acquire_reserved m req r c =
     (if req \<noteq> Some (next_apply r) then (Ready (Inl Conflict), c)
      else if active_background c \<noteq> 0 \<or> active_analysis c \<noteq> 0 \<or> lease c \<noteq> None
      then (Ready (Inl Busy), c)
      else let (t, c1) = issue_repair_attempt c
           in (Ready (Inr (mk_guard m t)),
               c1\<lparr>reserved := None, lease := Some (provisional_lease m t)\<rparr>))"

text \<open>The branch that finds a lease: a retry of a durable fence takes its attempt.\<close>

definition acquire_retry ::
    "manifest_id \<Rightarrow> registration option \<Rightarrow> repair_lease \<Rightarrow> coordinator
     \<Rightarrow> acquire_poll \<times> registration option \<times> coordinator" where
  "acquire_retry m reg l c =
     (if lease_manifest l \<noteq> m then (Ready (Inl Conflict), reg, c)
      else if active_analysis c \<noteq> 0 \<or> \<not> lease_durable l \<or> lease_attempt l \<noteq> None
      then (Ready (Inl Busy), reg, c)
      else let (t, c1) = issue_repair_attempt c;
               c2 = c1\<lparr>lease := Some (l\<lparr>lease_attempt := Some t\<rparr>)\<rparr>
           in (case reg of
                 None \<Rightarrow> (Ready (Inr (mk_guard m t)), None, c2)
               | Some r \<Rightarrow> (Ready (Inr (mk_guard m t)), Some (disarm r),
                           snd (remove_pending_owner m (reg_owner r) c2))))"

text \<open>The branch without a lease: register as a pending owner, and take the fence if no writer
  and no analysis is active.\<close>

definition pending_owner ::
    "registration option \<Rightarrow> coordinator \<Rightarrow> u64 \<times> coordinator" where
  "pending_owner reg c =
     (case reg of Some r \<Rightarrow> (reg_owner r, c) | None \<Rightarrow> issue_pending_repair c)"

definition insert_pending_owner :: "manifest_id \<Rightarrow> u64 \<Rightarrow> coordinator \<Rightarrow> coordinator" where
  "insert_pending_owner m ow c =
     c\<lparr>pending := Some (case pending c of
                         Some p \<Rightarrow> p\<lparr>pending_owners := insert ow (pending_owners p)\<rparr>
                       | None \<Rightarrow> \<lparr>pending_manifest = m, pending_owners = {ow}\<rparr>)\<rparr>"

definition acquire_pending ::
    "manifest_id \<Rightarrow> registration option \<Rightarrow> coordinator
     \<Rightarrow> acquire_poll \<times> registration option \<times> coordinator" where
  "acquire_pending m reg c =
     (if is_some_and (\<lambda>p. pending_manifest p \<noteq> m) (pending c) then (Ready (Inl Conflict), reg, c)
      else let (ow, c1) = pending_owner reg c;
               c2 = insert_pending_owner m ow c1;
               reg' = (case reg of None \<Rightarrow> new_registration m ow | Some r \<Rightarrow> r)
           in if active_background c2 = 0 \<and> active_analysis c2 = 0
              then let (t, c3) = issue_repair_attempt c2;
                       c4 = snd (remove_pending_owner m ow c3)
                   in (Ready (Inr (mk_guard m t)), Some (disarm reg'),
                       c4\<lparr>lease := Some (provisional_lease m t)\<rparr>)
              else (Waiting, Some reg', c2))"

text \<open>One critical section of \<open>acquire_repair_inner\<close>, before anything of it is dropped.\<close>

definition acquire_repair_poll ::
    "manifest_id \<Rightarrow> apply_repair_request option \<Rightarrow> instant \<Rightarrow> registration option \<Rightarrow> coordinator
     \<Rightarrow> acquire_poll \<times> registration option \<times> coordinator" where
  "acquire_repair_poll m req now reg c =
     (let (expired, c0) = expire_reservation now c;
          c1 = notify_if expired c0
      in if \<not> recovery_complete c1 then (Ready (Inl Busy), reg, c1)
         else if runtime_resumption c1 \<noteq> None then (Ready (Inl Busy), reg, c1)
         else if startup_claim_complete c1 then (Ready (Inl Conflict), reg, c1)
         else if is_some_and (\<lambda>claim. req \<noteq> Some claim) (startup_claim c1)
         then (Ready (Inl Conflict), reg, c1)
         else if is_some_and (repair_is_expired c1) req then (Ready (Inl Expired), reg, c1)
         else (case reserved c1 of
                 Some r \<Rightarrow> let (p, c2) = acquire_reserved m req r c1 in (p, reg, c2)
               | None \<Rightarrow>
                   (case lease c1 of
                      Some l \<Rightarrow> acquire_retry m reg l c1
                    | None \<Rightarrow> acquire_pending m reg c1)))"

text \<open>A whole turn of the loop: the poll, and, when the call returns, the drop of its
  registration. A call that would wait past its deadline returns \<open>Busy\<close>.\<close>

datatype acquire_turn = Returned "fence_error + fence_guard" | Awaiting "registration option"

definition acquire_repair_turn ::
    "manifest_id \<Rightarrow> apply_repair_request option \<Rightarrow> instant \<Rightarrow> instant \<Rightarrow> registration option
     \<Rightarrow> coordinator \<Rightarrow> acquire_turn \<times> coordinator" where
  "acquire_repair_turn m req deadline now reg c =
     (case acquire_repair_poll m req now reg c of
        (Ready r, reg', c') \<Rightarrow> (Returned r, drop_registration reg' c')
      | (Waiting, reg', c') \<Rightarrow>
          if now \<ge> deadline then (Returned (Inl Busy), drop_registration reg' c')
          else (Awaiting reg', c'))"

definition acquire_approved_turn ::
    "apply_repair_request \<Rightarrow> instant \<Rightarrow> instant \<Rightarrow> registration option \<Rightarrow> coordinator
     \<Rightarrow> acquire_turn \<times> coordinator" where
  "acquire_approved_turn r deadline now reg c =
     acquire_repair_turn (req_manifest_id r) (Some r) deadline now reg c"

definition acquire_repair_verification ::
    "manifest_id \<Rightarrow> coordinator \<Rightarrow> (fence_error + fence_guard) \<times> coordinator" where
  "acquire_repair_verification m c =
     (if runtime_resumption c \<noteq> None then (Inl Busy, c)
      else (case lease c of
              None \<Rightarrow> (Inl Expired, c)
            | Some l \<Rightarrow>
                if lease_manifest l \<noteq> m then (Inl Conflict, c)
                else if active_analysis c \<noteq> 0 \<or> \<not> lease_durable l \<or> lease_attempt l \<noteq> None
                then (Inl Busy, c)
                else let (t, c1) = issue_repair_attempt c
                     in (Inr (mk_guard m t), c1\<lparr>lease := Some (l\<lparr>lease_attempt := Some t\<rparr>)\<rparr>)))"

definition matches_handoff ::
    "manifest_id \<Rightarrow> apply_repair_request \<Rightarrow> instant \<Rightarrow> coordinator \<Rightarrow> bool \<times> coordinator" where
  "matches_handoff pre nxt now c =
     (let (expired, c1) = expire_reservation now c
      in (is_some_and (\<lambda>r. predecessor_manifest r = pre \<and> next_apply r = nxt) (reserved c1),
          notify_if expired c1))"

definition expire_reserved_repair :: "u64 \<Rightarrow> instant \<Rightarrow> coordinator \<Rightarrow> coordinator" where
  "expire_reserved_repair gen now c =
     (case reserved c of
        Some r \<Rightarrow>
          if rsv_generation r = gen \<and> expires_at r \<le> now
          then notify_waiters (record_expired_repair (next_apply r) (c\<lparr>reserved := None\<rparr>))
          else c
      | None \<Rightarrow> c)"

definition rearm_approved_repair ::
    "apply_repair_request \<Rightarrow> coordinator \<Rightarrow> (fence_error + unit) \<times> coordinator" where
  "rearm_approved_repair r c =
     (if recovery_complete c then (Inl Conflict, c)
      else if active_background c \<noteq> 0 then (Inl Busy, c)
      else if pending c \<noteq> None \<or> reserved c \<noteq> None then (Inl Conflict, c)
      else if is_some_and (\<lambda>claim. claim \<noteq> r) (startup_claim c) then (Inl Conflict, c)
      else (case lease c of
              Some l \<Rightarrow>
                if lease_manifest l \<noteq> req_manifest_id r then (Inl Conflict, c)
                else (Inr (), c\<lparr>startup_claim := Some r, startup_claim_complete := False\<rparr>)
            | None \<Rightarrow>
                (Inr (), c\<lparr>lease := Some \<lparr>lease_manifest = req_manifest_id r,
                                           lease_durable = True, lease_attempt = None\<rparr>,
                          startup_claim := Some r, startup_claim_complete := False\<rparr>)))"

subsection \<open>The fence guard\<close>

definition owns_attempt :: "manifest_id \<Rightarrow> u64 \<Rightarrow> repair_lease \<Rightarrow> bool" where
  "owns_attempt m t l \<longleftrightarrow> lease_manifest l = m \<and> lease_attempt l = Some t"

definition drop_fence :: "fence_guard \<Rightarrow> coordinator \<Rightarrow> coordinator" where
  "drop_fence g c =
     (case guard_attempt g of
        None \<Rightarrow> c
      | Some t \<Rightarrow>
          (case lease c of
             Some l \<Rightarrow>
               if owns_attempt (guard_manifest g) t l
               then notify_waiters
                      (if lease_durable l \<or> retain_on_drop g
                       then c\<lparr>lease := Some (l\<lparr>lease_durable := True, lease_attempt := None\<rparr>)\<rparr>
                       else c\<lparr>lease := None\<rparr>)
               else c
           | None \<Rightarrow> c))"

definition retain_on_uncertain_drop :: "fence_guard \<Rightarrow> fence_guard" where
  "retain_on_uncertain_drop g = g\<lparr>retain_on_drop := True\<rparr>"

definition retain_until_verification ::
    "fence_guard \<Rightarrow> coordinator \<Rightarrow> (fence_error + unit) \<times> coordinator" where
  "retain_until_verification g c =
     (case guard_attempt g of
        None \<Rightarrow> (Inl Expired, drop_fence g c)
      | Some t \<Rightarrow>
          (case lease c of
             Some l \<Rightarrow>
               if owns_attempt (guard_manifest g) t l
               then (Inr (), notify_waiters (clear_pending_manifest (guard_manifest g)
                       (c\<lparr>lease := Some (l\<lparr>lease_durable := True, lease_attempt := None\<rparr>)\<rparr>)))
               else (Inl Conflict, drop_fence g c)
           | None \<Rightarrow> (Inl Expired, drop_fence g c)))"

definition claims_manifest :: "coordinator \<Rightarrow> manifest_id \<Rightarrow> bool" where
  "claims_manifest c m = is_some_and (\<lambda>r. req_manifest_id r = m) (startup_claim c)"

definition release_after_precommit_failure ::
    "fence_guard \<Rightarrow> coordinator \<Rightarrow> (fence_error + unit) \<times> coordinator" where
  "release_after_precommit_failure g c =
     (case guard_attempt g of
        None \<Rightarrow> (Inl Expired, drop_fence g c)
      | Some t \<Rightarrow>
          (case lease c of
             Some l \<Rightarrow>
               if owns_attempt (guard_manifest g) t l
               then (Inr (), notify_waiters
                       (if claims_manifest c (guard_manifest g)
                        then c\<lparr>lease := Some (l\<lparr>lease_durable := True, lease_attempt := None\<rparr>)\<rparr>
                        else clear_pending_manifest (guard_manifest g) (c\<lparr>lease := None\<rparr>)))
               else (Inl Conflict, drop_fence g c)
           | None \<Rightarrow> (Inl Expired, drop_fence g c)))"

definition release_after_verification ::
    "fence_guard \<Rightarrow> coordinator \<Rightarrow> (fence_error + unit) \<times> coordinator" where
  "release_after_verification g c =
     (case guard_attempt g of
        None \<Rightarrow> (Inl Expired, drop_fence g c)
      | Some t \<Rightarrow>
          (case lease c of
             Some l \<Rightarrow>
               if owns_attempt (guard_manifest g) t l \<and> lease_durable l
               then let c1 = clear_pending_manifest (guard_manifest g) (c\<lparr>lease := None\<rparr>)
                    in (Inr (), notify_waiters
                          (if claims_manifest c1 (guard_manifest g)
                           then c1\<lparr>startup_claim_complete := True\<rparr> else c1))
               else if lease_manifest l = guard_manifest g then (Inl Busy, drop_fence g c)
               else (Inl Conflict, drop_fence g c)
           | None \<Rightarrow> (Inl Expired, drop_fence g c)))"

text \<open>\<open>handoff_after_verification\<close>: \<open>t0\<close> is the instant read before the lock is taken. The third
  component is the generation of the expiry task the code spawns, to fire after \<open>ttl\<close>.\<close>

definition handoff_after_verification ::
    "fence_guard \<Rightarrow> apply_repair_request \<Rightarrow> duration \<Rightarrow> instant \<Rightarrow> coordinator
     \<Rightarrow> (fence_error + unit) \<times> coordinator \<times> u64 option" where
  "handoff_after_verification g nxt ttl t0 c =
     (if ttl = 0 \<or> req_manifest_id nxt = guard_manifest g then (Inl Conflict, drop_fence g c, None)
      else (case guard_attempt g of
        None \<Rightarrow> (Inl Expired, drop_fence g c, None)
      | Some t \<Rightarrow>
          (case lease c of
             Some l \<Rightarrow>
               if owns_attempt (guard_manifest g) t l \<and> lease_durable l
               then let (gen, c1) = issue_reservation c
                    in if repair_is_expired c1 nxt then (Inl Expired, drop_fence g c1, None)
                       else let c2 = clear_pending_manifest (guard_manifest g) (c1\<lparr>lease := None\<rparr>);
                                c3 = (if claims_manifest c2 (guard_manifest g)
                                      then c2\<lparr>startup_claim := Some nxt,
                                              startup_claim_complete := False\<rparr>
                                      else c2)
                            in (Inr (), c3\<lparr>reserved := Some
                                  \<lparr>predecessor_manifest = guard_manifest g, next_apply = nxt,
                                   expires_at = t0 + ttl, rsv_generation = gen\<rparr>\<rparr>, Some gen)
               else if lease_manifest l = guard_manifest g then (Inl Busy, drop_fence g c, None)
               else (Inl Conflict, drop_fence g c, None)
           | None \<Rightarrow> (Inl Expired, drop_fence g c, None))))"

subsection \<open>Resuming the normal runtime\<close>

definition begin_runtime_resumption ::
    "apply_repair_request \<Rightarrow> coordinator \<Rightarrow> (fence_error + unit) \<times> coordinator" where
  "begin_runtime_resumption r c =
     (if runtime_resumption c \<noteq> None then (Inl Busy, c)
      else if \<not> recovery_complete c \<or> \<not> startup_claim_complete c then (Inl Busy, c)
      else if startup_claim c \<noteq> Some r then (Inl Conflict, c)
      else if active_background c \<noteq> 0 \<or> active_analysis c \<noteq> 0 \<or> pending c \<noteq> None
              \<or> lease c \<noteq> None \<or> reserved c \<noteq> None then (Inl Busy, c)
      else (Inr (), c\<lparr>runtime_resumption := Some SealActive\<rparr>))"

definition commit_resumption :: "coordinator \<Rightarrow> coordinator" where
  "commit_resumption c = c\<lparr>runtime_resumption := Some SealCommitted\<rparr>"

definition drop_resumption :: "bool \<Rightarrow> coordinator \<Rightarrow> coordinator" where
  "drop_resumption committed c =
     (if committed then c else notify_waiters (c\<lparr>runtime_resumption := None\<rparr>))"

end
