(* ===== verification/Coordinator_System.thy ===== *)
theory Coordinator_System
  imports Maintenance_Coordinator
begin

text \<open>
  The coordinator inside the daemon: the clock, the guards that are alive, the calls that wait
  for the fence and the expiry tasks of the reservations, with one rule of \<open>sys_step\<close> per
  critical section of the code, in any interleaving. The invariant \<open>sys_inv\<close> says what the
  coordinator's fields mean for the guards that are alive; the properties follow from it.
\<close>

subsection \<open>The system\<close>

text \<open>A live guard holds a reference-counted pointer, so fewer than \<open>2^64 - 1\<close> are alive; the two
  rules that create a counted guard say so.\<close>

definition max_live :: nat where
  "max_live = 2 ^ 64 - 1"

record waiter =
  w_request :: apply_repair_request
  w_deadline :: instant
  w_reg :: "registration option"

record system =
  coord :: coordinator
  clock :: instant
  bg_live :: nat
  an_live :: nat
  fences :: "fence_guard list"
  waiters :: "waiter list"
  seals :: nat
  timers :: "(u64 \<times> instant) list"

definition init_system :: system where
  "init_system = \<lparr>coord = new_coordinator, clock = 0, bg_live = 0, an_live = 0, fences = [],
     waiters = [], seals = 0, timers = []\<rparr>"

definition granted :: "fence_error + fence_guard \<Rightarrow> fence_guard list" where
  "granted r = (case r of Inl _ \<Rightarrow> [] | Inr g \<Rightarrow> [g])"

inductive sys_step :: "system \<Rightarrow> system \<Rightarrow> bool" where
  tick: "sys_step s (s\<lparr>clock := clock s + d\<rparr>)"
| recovered: "sys_step s (s\<lparr>coord := finish_recovery (coord s)\<rparr>)"
| bg_try: "try_begin_background (clock s) (coord s) = (ok, c) \<Longrightarrow> (ok \<longrightarrow> bg_live s < max_live) \<Longrightarrow>
    sys_step s (s\<lparr>coord := c, bg_live := bg_live s + of_bool ok\<rparr>)"
| bg_poll: "begin_background_poll (clock s) (coord s) = (ok, c) \<Longrightarrow> (ok \<longrightarrow> bg_live s < max_live) \<Longrightarrow>
    sys_step s (s\<lparr>coord := c, bg_live := bg_live s + of_bool ok\<rparr>)"
| bg_drop: "0 < bg_live s \<Longrightarrow>
    sys_step s (s\<lparr>coord := drop_background (coord s), bg_live := bg_live s - 1\<rparr>)"
| an_poll: "begin_analysis_poll (clock s) (coord s) = (ok, c) \<Longrightarrow> (ok \<longrightarrow> an_live s < max_live) \<Longrightarrow>
    sys_step s (s\<lparr>coord := c, an_live := an_live s + of_bool ok\<rparr>)"
| an_drop: "0 < an_live s \<Longrightarrow>
    sys_step s (s\<lparr>coord := drop_analysis (coord s), an_live := an_live s - 1\<rparr>)"
| acq_call: "sys_step s (s\<lparr>waiters := \<lparr>w_request = r, w_deadline = clock s + wait, w_reg = None\<rparr>
                                     # waiters s\<rparr>)"
| acq_return: "w \<in> set (waiters s) \<Longrightarrow>
    acquire_approved_turn (w_request w) (w_deadline w) (clock s) (w_reg w) (coord s)
      = (Returned r, c) \<Longrightarrow>
    sys_step s (s\<lparr>coord := c, waiters := remove1 w (waiters s), fences := granted r @ fences s\<rparr>)"
| acq_await: "w \<in> set (waiters s) \<Longrightarrow>
    acquire_approved_turn (w_request w) (w_deadline w) (clock s) (w_reg w) (coord s)
      = (Awaiting reg, c) \<Longrightarrow>
    sys_step s (s\<lparr>coord := c, waiters := w\<lparr>w_reg := reg\<rparr> # remove1 w (waiters s)\<rparr>)"
| acq_abandon: "w \<in> set (waiters s) \<Longrightarrow>
    sys_step s (s\<lparr>coord := drop_registration (w_reg w) (coord s),
                  waiters := remove1 w (waiters s)\<rparr>)"
| verify: "acquire_repair_verification m (coord s) = (r, c) \<Longrightarrow>
    sys_step s (s\<lparr>coord := c, fences := granted r @ fences s\<rparr>)"
| handoff_query: "matches_handoff pre nxt (clock s) (coord s) = (b, c) \<Longrightarrow>
    sys_step s (s\<lparr>coord := c\<rparr>)"
| guard_flag: "g \<in> set (fences s) \<Longrightarrow>
    sys_step s (s\<lparr>fences := retain_on_uncertain_drop g # remove1 g (fences s)\<rparr>)"
| guard_drop: "g \<in> set (fences s) \<Longrightarrow>
    sys_step s (s\<lparr>coord := drop_fence g (coord s), fences := remove1 g (fences s)\<rparr>)"
| guard_retain: "g \<in> set (fences s) \<Longrightarrow> retain_until_verification g (coord s) = (r, c) \<Longrightarrow>
    sys_step s (s\<lparr>coord := c, fences := remove1 g (fences s)\<rparr>)"
| guard_precommit: "g \<in> set (fences s) \<Longrightarrow>
    release_after_precommit_failure g (coord s) = (r, c) \<Longrightarrow>
    sys_step s (s\<lparr>coord := c, fences := remove1 g (fences s)\<rparr>)"
| guard_verified: "g \<in> set (fences s) \<Longrightarrow> release_after_verification g (coord s) = (r, c) \<Longrightarrow>
    sys_step s (s\<lparr>coord := c, fences := remove1 g (fences s)\<rparr>)"
| guard_handoff: "g \<in> set (fences s) \<Longrightarrow> t0 \<le> clock s \<Longrightarrow>
    handoff_after_verification g nxt ttl t0 (coord s) = (r, c, spawned) \<Longrightarrow>
    sys_step s (s\<lparr>coord := c, fences := remove1 g (fences s),
                  timers := (case spawned of None \<Rightarrow> timers s
                             | Some gen \<Rightarrow> (gen, clock s + ttl) # timers s)\<rparr>)"
| timer_fire: "(gen, t) \<in> set (timers s) \<Longrightarrow> t \<le> clock s \<Longrightarrow>
    sys_step s (s\<lparr>coord := expire_reserved_repair gen (clock s) (coord s),
                  timers := remove1 (gen, t) (timers s)\<rparr>)"
| rearm: "rearm_approved_repair r (coord s) = (res, c) \<Longrightarrow> sys_step s (s\<lparr>coord := c\<rparr>)"
| resume_begin: "begin_runtime_resumption r (coord s) = (res, c) \<Longrightarrow>
    sys_step s (s\<lparr>coord := c, seals := seals s + of_bool (res = Inr ())\<rparr>)"
| resume_commit: "0 < seals s \<Longrightarrow>
    sys_step s (s\<lparr>coord := commit_resumption (coord s), seals := seals s - 1\<rparr>)"
| resume_drop: "0 < seals s \<Longrightarrow>
    sys_step s (s\<lparr>coord := drop_resumption False (coord s), seals := seals s - 1\<rparr>)"

definition reachable :: "system \<Rightarrow> bool" where
  "reachable s \<longleftrightarrow> sys_step\<^sup>*\<^sup>* init_system s"

subsection \<open>The invariant of the coordinator alone\<close>

definition coord_inv :: "coordinator \<Rightarrow> bool" where
  "coord_inv c \<longleftrightarrow>
     (active_background c \<noteq> 0 \<longrightarrow> active_analysis c = 0 \<and> lease c = None \<and> reserved c = None
        \<and> runtime_resumption c = None \<and> recovery_complete c)
   \<and> (active_analysis c \<noteq> 0 \<longrightarrow> repair_allows_analysis c \<and> reserved c = None
        \<and> runtime_resumption c = None \<and> recovery_complete c)
   \<and> (pending c \<noteq> None \<longrightarrow> recovery_complete c \<and> runtime_resumption c = None \<and> reserved c = None)
   \<and> (reserved c \<noteq> None \<longrightarrow> lease c = None)
   \<and> (runtime_resumption c \<noteq> None \<longrightarrow> lease c = None \<and> reserved c = None \<and> recovery_complete c)
   \<and> is_none_or (\<lambda>l. lease_durable l \<or> lease_attempt l \<noteq> None) (lease c)
   \<and> is_none_or (\<lambda>p. pending_owners p \<noteq> {}
        \<and> is_none_or (\<lambda>l. lease_manifest l = pending_manifest p) (lease c)) (pending c)
   \<and> is_none_or (\<lambda>r. next_apply r \<notin> set (expired_repairs c)) (reserved c)"

text \<open>The attempt that owns the lease: the manifest and the token, if one is running.\<close>

definition attempt_of :: "coordinator \<Rightarrow> (manifest_id \<times> u64) option" where
  "attempt_of c = (case lease c of None \<Rightarrow> None
     | Some l \<Rightarrow> map_option (\<lambda>t. (lease_manifest l, t)) (lease_attempt l))"

definition fence_inv :: "coordinator \<Rightarrow> fence_guard list \<Rightarrow> bool" where
  "fence_inv c gs \<longleftrightarrow> map (\<lambda>g. (guard_manifest g, guard_attempt g)) gs
     = (case attempt_of c of None \<Rightarrow> [] | Some (m, t) \<Rightarrow> [(m, Some t)])"

text \<open>The owners a pending repair waits for are registrations of calls still waiting.\<close>

definition live_owner :: "waiter list \<Rightarrow> manifest_id \<Rightarrow> u64 \<Rightarrow> bool" where
  "live_owner ws m ow \<longleftrightarrow> (\<exists>w r. w \<in> set ws \<and> w_reg w = Some r \<and> reg_active r
     \<and> reg_manifest r = m \<and> reg_owner r = ow)"

definition waiter_inv :: "coordinator \<Rightarrow> waiter list \<Rightarrow> bool" where
  "waiter_inv c ws \<longleftrightarrow>
     (\<forall>w \<in> set ws. is_none_or (\<lambda>r. reg_active r \<and> reg_manifest r = req_manifest_id (w_request w))
        (w_reg w))
   \<and> is_none_or (\<lambda>p. \<forall>ow \<in> pending_owners p. live_owner ws (pending_manifest p) ow) (pending c)"

definition timer_inv :: "coordinator \<Rightarrow> (u64 \<times> instant) list \<Rightarrow> bool" where
  "timer_inv c ts \<longleftrightarrow> is_none_or
     (\<lambda>r. \<exists>t. (rsv_generation r, t) \<in> set ts \<and> expires_at r \<le> t) (reserved c)"

definition sys_inv :: "system \<Rightarrow> bool" where
  "sys_inv s \<longleftrightarrow>
     coord_inv (coord s)
   \<and> unat (active_background (coord s)) = bg_live s
   \<and> unat (active_analysis (coord s)) = an_live s
   \<and> fence_inv (coord s) (fences s)
   \<and> waiter_inv (coord s) (waiters s)
   \<and> seals s = of_bool (runtime_resumption (coord s) = Some SealActive)
   \<and> timer_inv (coord s) (timers s)"


subsection \<open>What the private operations change\<close>

definition reserved_at :: "instant \<Rightarrow> coordinator \<Rightarrow> reserved_repair option" where
  "reserved_at now c = (case reserved c of None \<Rightarrow> None
     | Some r \<Rightarrow> if expires_at r > now then Some r else None)"

definition expired_at :: "instant \<Rightarrow> coordinator \<Rightarrow> apply_repair_request list" where
  "expired_at now c = expired_repairs (snd (expire_reservation now c))"

lemma notify_if_eq: "notify_if b c = c\<lparr>notify_calls := notify_calls c + of_bool b\<rparr>"
  by (simp add: notify_if_def notify_waiters_def)

lemma notify_waiters_eq: "notify_waiters c = c\<lparr>notify_calls := Suc (notify_calls c)\<rparr>"
  by (rule notify_waiters_def)

lemma expire_reservation_eq:
  "expire_reservation now c =
     (reserved c \<noteq> None \<and> reserved_at now c = None,
      c\<lparr>reserved := reserved_at now c, expired_repairs := expired_at now c\<rparr>)"
  by (auto simp: expire_reservation_def reserved_at_def expired_at_def record_expired_repair_def
      split: option.splits)

lemma set_expired_at:
  "set (expired_at now c) = set (expired_repairs c)
     \<union> (case reserved c of None \<Rightarrow> {} | Some r \<Rightarrow> if expires_at r > now then {} else {next_apply r})"
  by (auto simp: expired_at_def expire_reservation_def record_expired_repair_def
      split: option.splits)

lemma expired_mono: "r \<in> set (expired_repairs c) \<Longrightarrow> r \<in> set (expired_at now c)"
  by (simp add: set_expired_at)

lemma reserved_at_Some: "reserved_at now c = Some r \<Longrightarrow> reserved c = Some r \<and> now < expires_at r"
  by (auto simp: reserved_at_def split: option.splits if_splits)

lemma expired_at_same: "reserved_at now c = Some r \<Longrightarrow> expired_at now c = expired_repairs c"
  by (auto simp: reserved_at_def expired_at_def expire_reservation_def
      split: option.splits if_splits)

lemma begin_background_poll_eq: "begin_background_poll now c = try_begin_background now c"
  by (auto simp: begin_background_poll_def try_begin_background_def split: prod.splits)

lemma sat_inc_nonzero: "sat_inc x \<noteq> (0 :: usize)"
proof -
  have "unat (sat_inc x) = min (Suc (unat x)) (2 ^ 64 - 1)"
    using unat_sat_inc [of x] by simp
  then show ?thesis by auto
qed

lemma sat_dec_nonzero: "sat_dec x \<noteq> (0 :: usize) \<Longrightarrow> x \<noteq> 0"
  by (auto simp: sat_dec_def)

text \<open>What is left of a pending repair when an owner goes.\<close>

definition without_owner :: "manifest_id \<Rightarrow> u64 \<Rightarrow> pending_repair option \<Rightarrow> pending_repair option" where
  "without_owner m ow p = (case p of None \<Rightarrow> None
     | Some q \<Rightarrow> if pending_manifest q = m
        then if pending_owners q - {ow} = {} then None
             else Some (q\<lparr>pending_owners := pending_owners q - {ow}\<rparr>)
        else Some q)"

lemma snd_remove_pending_owner:
  "snd (remove_pending_owner m ow c) = c\<lparr>pending := without_owner m ow (pending c)\<rparr>"
  by (auto simp: remove_pending_owner_def without_owner_def Let_def split: option.splits)

lemma drop_registration_eq:
  "\<exists>n. drop_registration reg c
     = c\<lparr>pending := (case reg of None \<Rightarrow> pending c
                  | Some r \<Rightarrow> if reg_active r
                      then without_owner (reg_manifest r) (reg_owner r) (pending c) else pending c),
        notify_calls := n\<rparr>"
proof (cases reg)
  case None
  then show ?thesis by (intro exI [of _ "notify_calls c"]) (simp add: drop_registration_def)
next
  case (Some r)
  show ?thesis
  proof (cases "reg_active r")
    case True
    obtain b c1 where rem: "remove_pending_owner (reg_manifest r) (reg_owner r) c = (b, c1)"
      by fastforce
    then have "c1 = c\<lparr>pending := without_owner (reg_manifest r) (reg_owner r) (pending c)\<rparr>"
      using snd_remove_pending_owner [of "reg_manifest r" "reg_owner r" c] by simp
    with rem Some True show ?thesis
      by (intro exI [of _ "notify_calls c + of_bool b"])
         (simp add: drop_registration_def notify_if_eq)
  next
    case False
    with Some show ?thesis
      by (intro exI [of _ "notify_calls c"]) (simp add: drop_registration_def)
  qed
qed

lemma without_owner_Some:
  "without_owner m ow p = Some q \<Longrightarrow> \<exists>q0. p = Some q0 \<and> pending_manifest q = pending_manifest q0
     \<and> pending_owners q \<subseteq> pending_owners q0
     \<and> (pending_owners q0 \<noteq> {} \<longrightarrow> pending_owners q \<noteq> {})
     \<and> (pending_manifest q0 = m \<longrightarrow> ow \<notin> pending_owners q)"
  by (auto simp: without_owner_def split: option.splits if_splits)

lemma clear_pending_manifest_eq:
  "clear_pending_manifest m c = c\<lparr>pending :=
     (if is_some_and (\<lambda>p. pending_manifest p = m) (pending c) then None else pending c)\<rparr>"
  by (simp add: clear_pending_manifest_def)

lemmas coord_update_eqs =
  expire_reservation_eq notify_if_eq notify_waiters_eq snd_remove_pending_owner
  clear_pending_manifest_eq

text \<open>Most operations first expire the reservation that is due, and notify.\<close>

definition settle :: "instant \<Rightarrow> coordinator \<Rightarrow> coordinator" where
  "settle now c = notify_if (fst (expire_reservation now c)) (snd (expire_reservation now c))"

lemma settle_eq:
  "settle now c = c\<lparr>reserved := reserved_at now c, expired_repairs := expired_at now c,
     notify_calls := notify_calls c + of_bool (reserved c \<noteq> None \<and> reserved_at now c = None)\<rparr>"
  by (simp add: settle_def coord_update_eqs)

lemma settle_sel [simp]:
  "recovery_complete (settle now c) = recovery_complete c"
  "active_background (settle now c) = active_background c"
  "active_analysis (settle now c) = active_analysis c"
  "pending (settle now c) = pending c"
  "lease (settle now c) = lease c"
  "startup_claim (settle now c) = startup_claim c"
  "startup_claim_complete (settle now c) = startup_claim_complete c"
  "reserved (settle now c) = reserved_at now c"
  "expired_repairs (settle now c) = expired_at now c"
  "runtime_resumption (settle now c) = runtime_resumption c"
  by (simp_all add: settle_eq)

definition admits_background :: "coordinator \<Rightarrow> bool" where
  "admits_background c \<longleftrightarrow> recovery_complete c \<and> active_analysis c = 0 \<and> pending c = None
     \<and> lease c = None \<and> reserved c = None \<and> runtime_resumption c = None"

definition admits_analysis :: "coordinator \<Rightarrow> bool" where
  "admits_analysis c \<longleftrightarrow> recovery_complete c \<and> active_background c = 0 \<and> pending c = None
     \<and> repair_allows_analysis c \<and> reserved c = None \<and> runtime_resumption c = None"

lemma try_begin_background_eq:
  "try_begin_background now c =
     (let c1 = settle now c
      in if admits_background c1
         then (True, c1\<lparr>active_background := sat_inc (active_background c1)\<rparr>) else (False, c1))"
  by (auto simp: try_begin_background_def admits_background_def settle_def Let_def notify_if_eq
      split: prod.splits)

lemma repair_allows_analysis_cong [simp]:
  "repair_allows_analysis (settle now c) = repair_allows_analysis c"
  by (simp add: repair_allows_analysis_def)

lemma begin_analysis_poll_eq:
  "begin_analysis_poll now c =
     (let c1 = settle now c
      in if admits_analysis c1
         then (True, c1\<lparr>active_analysis := sat_inc (active_analysis c1)\<rparr>) else (False, c1))"
  by (auto simp: begin_analysis_poll_def admits_analysis_def settle_def Let_def notify_if_eq
      repair_allows_analysis_def split: prod.splits)

lemma matches_handoff_eq: "snd (matches_handoff pre nxt now c) = settle now c"
  by (simp add: matches_handoff_def settle_def split_beta)

subsection \<open>The cases of an acquiring poll\<close>

lemma acquire_reserved_cases:
  assumes "acquire_reserved m req r c = (p, c')"
  obtains (refused) e where "p = Ready (Inl e)" "c' = c"
  | (granted) t where "p = Ready (Inr (mk_guard m t))" "req = Some (next_apply r)"
      "active_background c = 0" "active_analysis c = 0" "lease c = None"
      "c' = c\<lparr>next_repair_attempt := t, reserved := None, lease := Some (provisional_lease m t)\<rparr>"
proof (cases "req = Some (next_apply r) \<and> active_background c = 0 \<and> active_analysis c = 0
    \<and> lease c = None")
  case True
  with assms show thesis
    by (intro granted [of "next_token (next_repair_attempt c)"])
       (simp_all add: acquire_reserved_def issue_repair_attempt_def Let_def)
next
  case False
  with assms have "\<exists>e. p = Ready (Inl e) \<and> c' = c"
    by (auto simp: acquire_reserved_def split: if_splits)
  then show thesis using refused by blast
qed

lemma acquire_retry_cases:
  assumes "acquire_retry m reg l c = (p, reg', c')"
  obtains (refused) e where "p = Ready (Inl e)" "reg' = reg" "c' = c"
  | (granted) t where "p = Ready (Inr (mk_guard m t))" "reg' = map_option disarm reg"
      "lease_manifest l = m" "lease_durable l" "lease_attempt l = None" "active_analysis c = 0"
      "c' = c\<lparr>next_repair_attempt := t, lease := Some (l\<lparr>lease_attempt := Some t\<rparr>),
              pending := (case reg of None \<Rightarrow> pending c
                          | Some r \<Rightarrow> without_owner m (reg_owner r) (pending c))\<rparr>"
proof (cases "lease_manifest l = m \<and> active_analysis c = 0 \<and> lease_durable l
    \<and> lease_attempt l = None")
  case True
  with assms show thesis
    by (intro granted [of "next_token (next_repair_attempt c)"])
       (auto simp: acquire_retry_def issue_repair_attempt_def Let_def coord_update_eqs
         split: option.splits)
next
  case False
  with assms have "\<exists>e. p = Ready (Inl e) \<and> reg' = reg \<and> c' = c"
    by (auto simp: acquire_retry_def split: if_splits)
  then show thesis using refused by blast
qed

lemma acquire_pending_cases:
  assumes "acquire_pending m reg c = (p, reg', c')"
  obtains (refused) e where "p = Ready (Inl e)" "reg' = reg" "c' = c"
  | (granted) ow n t where "p = Ready (Inr (mk_guard m t))"
      "reg' = Some (disarm (case reg of None \<Rightarrow> new_registration m ow | Some r \<Rightarrow> r))"
      "is_none_or (\<lambda>q. pending_manifest q = m) (pending c)" "is_none_or (\<lambda>r. ow = reg_owner r) reg"
      "active_background c = 0" "active_analysis c = 0"
      "c' = (insert_pending_owner m ow c)\<lparr>next_pending_repair := n, next_repair_attempt := t,
              pending := without_owner m ow (pending (insert_pending_owner m ow c)),
              lease := Some (provisional_lease m t)\<rparr>"
  | (waiting) ow n where "p = Waiting"
      "reg' = Some (case reg of None \<Rightarrow> new_registration m ow | Some r \<Rightarrow> r)"
      "is_none_or (\<lambda>q. pending_manifest q = m) (pending c)" "is_none_or (\<lambda>r. ow = reg_owner r) reg"
      "active_background c \<noteq> 0 \<or> active_analysis c \<noteq> 0"
      "c' = (insert_pending_owner m ow c)\<lparr>next_pending_repair := n\<rparr>"
proof -
  obtain ow n where ow: "pending_owner reg c = (ow, c\<lparr>next_pending_repair := n\<rparr>)"
      "is_none_or (\<lambda>r. ow = reg_owner r) reg"
    by (cases reg) (auto simp: pending_owner_def issue_pending_repair_def Let_def
        intro: that [of _ "next_pending_repair c"])
  show thesis
  proof (cases "is_some_and (\<lambda>q. pending_manifest q \<noteq> m) (pending c)")
    case True
    with assms show thesis by (intro refused [of Conflict]) (simp_all add: acquire_pending_def)
  next
    case False
    then have m: "is_none_or (\<lambda>q. pending_manifest q = m) (pending c)"
      by (auto simp: is_some_and_iff is_none_or_iff)
    show thesis
    proof (cases "active_background c = 0 \<and> active_analysis c = 0")
      case True
      from assms False True ow(1) show thesis
        by (intro granted [OF _ _ m ow(2), where n = n and t = "next_token (next_repair_attempt c)"])
           (auto simp: acquire_pending_def issue_repair_attempt_def insert_pending_owner_def
             Let_def coord_update_eqs)
    next
      case act: False
      from assms False act ow(1) show thesis
        by (intro waiting [OF _ _ m ow(2), where n = n])
           (auto simp: acquire_pending_def insert_pending_owner_def Let_def)
    qed
  qed
qed

lemma acquire_repair_poll_cases:
  assumes "acquire_repair_poll m req now reg c = (p, reg', c')"
  defines "c1 \<equiv> settle now c"
  obtains
    (refused) e where "p = Ready (Inl e)" "reg' = reg" "c' = c1"
  | (chained) r t where "p = Ready (Inr (mk_guard m t))" "reg' = reg"
      "recovery_complete c1" "runtime_resumption c1 = None" "\<not> startup_claim_complete c1"
      "is_none_or (\<lambda>claim. req = Some claim) (startup_claim c1)"
      "is_none_or (\<lambda>q. \<not> repair_is_expired c1 q) req"
      "reserved c1 = Some r" "req = Some (next_apply r)"
      "active_background c1 = 0" "active_analysis c1 = 0" "lease c1 = None"
      "c' = c1\<lparr>next_repair_attempt := t, reserved := None, lease := Some (provisional_lease m t)\<rparr>"
  | (retry) l t where "p = Ready (Inr (mk_guard m t))" "reg' = map_option disarm reg"
      "recovery_complete c1" "runtime_resumption c1 = None" "\<not> startup_claim_complete c1"
      "is_none_or (\<lambda>claim. req = Some claim) (startup_claim c1)"
      "is_none_or (\<lambda>q. \<not> repair_is_expired c1 q) req"
      "reserved c1 = None" "lease c1 = Some l" "lease_manifest l = m" "lease_durable l"
      "lease_attempt l = None" "active_analysis c1 = 0"
      "c' = c1\<lparr>next_repair_attempt := t, lease := Some (l\<lparr>lease_attempt := Some t\<rparr>),
               pending := (case reg of None \<Rightarrow> pending c1
                           | Some r \<Rightarrow> without_owner m (reg_owner r) (pending c1))\<rparr>"
  | (fresh) ow n t where "p = Ready (Inr (mk_guard m t))"
      "reg' = Some (disarm (case reg of None \<Rightarrow> new_registration m ow | Some r \<Rightarrow> r))"
      "recovery_complete c1" "runtime_resumption c1 = None" "\<not> startup_claim_complete c1"
      "is_none_or (\<lambda>claim. req = Some claim) (startup_claim c1)"
      "is_none_or (\<lambda>q. \<not> repair_is_expired c1 q) req"
      "reserved c1 = None" "lease c1 = None" "is_none_or (\<lambda>q. pending_manifest q = m) (pending c1)"
      "is_none_or (\<lambda>r. ow = reg_owner r) reg"
      "active_background c1 = 0" "active_analysis c1 = 0"
      "c' = (insert_pending_owner m ow c1)\<lparr>next_pending_repair := n, next_repair_attempt := t,
               pending := without_owner m ow (pending (insert_pending_owner m ow c1)),
               lease := Some (provisional_lease m t)\<rparr>"
  | (waiting) ow n where "p = Waiting"
      "reg' = Some (case reg of None \<Rightarrow> new_registration m ow | Some r \<Rightarrow> r)"
      "recovery_complete c1" "runtime_resumption c1 = None" "\<not> startup_claim_complete c1"
      "is_none_or (\<lambda>claim. req = Some claim) (startup_claim c1)"
      "is_none_or (\<lambda>q. \<not> repair_is_expired c1 q) req"
      "reserved c1 = None" "lease c1 = None" "is_none_or (\<lambda>q. pending_manifest q = m) (pending c1)"
      "is_none_or (\<lambda>r. ow = reg_owner r) reg"
      "active_background c1 \<noteq> 0 \<or> active_analysis c1 \<noteq> 0"
      "c' = (insert_pending_owner m ow c1)\<lparr>next_pending_repair := n\<rparr>"
proof -
  have poll: "acquire_repair_poll m req now reg c =
     (if \<not> recovery_complete c1 \<or> runtime_resumption c1 \<noteq> None then (Ready (Inl Busy), reg, c1)
      else if startup_claim_complete c1
              \<or> is_some_and (\<lambda>claim. req \<noteq> Some claim) (startup_claim c1)
      then (Ready (Inl Conflict), reg, c1)
      else if is_some_and (repair_is_expired c1) req then (Ready (Inl Expired), reg, c1)
      else (case reserved c1 of
              Some r \<Rightarrow> let (p, c2) = acquire_reserved m req r c1 in (p, reg, c2)
            | None \<Rightarrow> (case lease c1 of Some l \<Rightarrow> acquire_retry m reg l c1
                        | None \<Rightarrow> acquire_pending m reg c1)))"
    unfolding acquire_repair_poll_def c1_def settle_def Let_def split_beta by simp
  consider (err) e where "p = Ready (Inl e)" "reg' = reg" "c' = c1"
    | (res) r where "recovery_complete c1" "runtime_resumption c1 = None"
        "\<not> startup_claim_complete c1" "is_none_or (\<lambda>claim. req = Some claim) (startup_claim c1)"
        "is_none_or (\<lambda>q. \<not> repair_is_expired c1 q) req" "reserved c1 = Some r" "reg' = reg"
        "acquire_reserved m req r c1 = (p, c')"
    | (ret) l where "recovery_complete c1" "runtime_resumption c1 = None"
        "\<not> startup_claim_complete c1" "is_none_or (\<lambda>claim. req = Some claim) (startup_claim c1)"
        "is_none_or (\<lambda>q. \<not> repair_is_expired c1 q) req" "reserved c1 = None" "lease c1 = Some l"
        "acquire_retry m reg l c1 = (p, reg', c')"
    | (pen) "recovery_complete c1" "runtime_resumption c1 = None"
        "\<not> startup_claim_complete c1" "is_none_or (\<lambda>claim. req = Some claim) (startup_claim c1)"
        "is_none_or (\<lambda>q. \<not> repair_is_expired c1 q) req" "reserved c1 = None" "lease c1 = None"
        "acquire_pending m reg c1 = (p, reg', c')"
    using assms(1) unfolding poll
    by (auto simp: is_some_and_iff is_none_or_iff split: if_splits option.splits prod.splits)
  then show thesis
  proof cases
    case err
    then show thesis by (rule refused)
  next
    case res
    from res(8) show thesis
    proof (cases rule: acquire_reserved_cases)
      case (refused e)
      with res(7) show thesis by (intro that(1))
    next
      case (granted t)
      show thesis by (rule chained [OF granted(1) res(7) res(1-6) granted(2-6)])
    qed
  next
    case ret
    from ret(8) show thesis
    proof (cases rule: acquire_retry_cases)
      case (refused e)
      then show thesis by (intro that(1))
    next
      case (granted t)
      show thesis by (rule retry [OF granted(1,2) ret(1-7) granted(3-7)])
    qed
  next
    case pen
    from pen(8) show thesis
    proof (cases rule: acquire_pending_cases)
      case (refused e)
      then show thesis by (intro that(1))
    next
      case (granted ow n t)
      show thesis by (rule fresh [OF granted(1,2) pen(1-7) granted(3-7)])
    next
      case (waiting ow n)
      show thesis by (rule that(5) [OF waiting(1,2) pen(1-7) waiting(3-6)])
    qed
  qed
qed

end
