(* ===== verification/Coordinator_Invariant.thy ===== *)
theory Coordinator_Invariant
  imports Coordinator_System
begin

text \<open>
  Every step of the coordinator's system keeps \<open>sys_inv\<close>: one lemma per kind of step, and the
  machine interpreted in the locale \<open>invariant_machine\<close>.
\<close>

subsection \<open>Frame\<close>

lemma attempt_of_cong: "lease c = lease c' \<Longrightarrow> attempt_of c = attempt_of c'"
  by (simp add: attempt_of_def)

lemma fence_inv_cong: "lease c = lease c' \<Longrightarrow> fence_inv c gs = fence_inv c' gs"
  using attempt_of_cong [of c c'] by (simp add: fence_inv_def)

lemma waiter_inv_cong: "pending c = pending c' \<Longrightarrow> waiter_inv c ws = waiter_inv c' ws"
  by (simp add: waiter_inv_def)

lemma timer_inv_cong: "reserved c = reserved c' \<Longrightarrow> timer_inv c ts = timer_inv c' ts"
  by (simp add: timer_inv_def)

lemmas sys_frame = fence_inv_cong waiter_inv_cong timer_inv_cong

lemma coord_inv_settle: "coord_inv c \<Longrightarrow> coord_inv (settle now c)"
  by (auto simp: coord_inv_def reserved_at_def expired_at_same is_none_or_iff
      split: option.splits if_splits)

lemma timer_inv_settle: "timer_inv c ts \<Longrightarrow> timer_inv (settle now c) ts"
  by (auto simp: timer_inv_def is_none_or_iff dest: reserved_at_Some)

lemma sys_inv_settle: "sys_inv s \<Longrightarrow> sys_inv (s\<lparr>coord := settle now (coord s)\<rparr>)"
  using fence_inv_cong [of "settle now (coord s)" "coord s" "fences s"]
    waiter_inv_cong [of "settle now (coord s)" "coord s" "waiters s"]
  by (simp add: sys_inv_def coord_inv_settle timer_inv_settle)

subsection \<open>Background writers and analysis\<close>

lemma unat_sat_inc_live: "unat x < max_live \<Longrightarrow> unat (sat_inc x) = Suc (unat x)" for x :: usize
  using unat_sat_inc [of x] by (simp add: max_live_def)

lemma inv_admit_background:
  assumes "sys_inv s" "admits_background (coord s)" "bg_live s < max_live"
  shows "sys_inv (s\<lparr>coord := (coord s)\<lparr>active_background := sat_inc (active_background (coord s))\<rparr>,
                    bg_live := Suc (bg_live s)\<rparr>)"
  using assms unat_sat_inc_live [of "active_background (coord s)"]
  by (auto simp: sys_inv_def admits_background_def coord_inv_def cong: sys_frame)
   (simp_all add: fence_inv_def waiter_inv_def timer_inv_def attempt_of_def)

lemma inv_admit_analysis:
  assumes "sys_inv s" "admits_analysis (coord s)" "an_live s < max_live"
  shows "sys_inv (s\<lparr>coord := (coord s)\<lparr>active_analysis := sat_inc (active_analysis (coord s))\<rparr>,
                    an_live := Suc (an_live s)\<rparr>)"
  using assms unat_sat_inc_live [of "active_analysis (coord s)"]
  by (auto simp: sys_inv_def admits_analysis_def coord_inv_def repair_allows_analysis_def)
   (simp_all add: fence_inv_def waiter_inv_def timer_inv_def attempt_of_def)

lemma coord_inv_fewer:
  assumes "coord_inv c" "b \<noteq> 0 \<Longrightarrow> active_background c \<noteq> 0" "a \<noteq> 0 \<Longrightarrow> active_analysis c \<noteq> 0"
  shows "coord_inv (c\<lparr>active_background := b, active_analysis := a, notify_calls := n\<rparr>)"
proof -
  have "b = 0 \<or> active_background c \<noteq> 0" "a = 0 \<or> active_analysis c \<noteq> 0"
    using assms(2,3) by blast+
  with assms(1) show ?thesis
    by (elim disjE) (auto simp: coord_inv_def repair_allows_analysis_def)
qed

lemma inv_drop_background:
  assumes "sys_inv s"
  shows "sys_inv (s\<lparr>coord := drop_background (coord s), bg_live := bg_live s - 1\<rparr>)"
  using assms coord_inv_fewer [of "coord s" "sat_dec (active_background (coord s))"
      "active_analysis (coord s)" "Suc (notify_calls (coord s))"]
  by (simp add: sys_inv_def drop_background_def notify_waiters_eq unat_sat_dec sat_dec_nonzero)
     (simp add: fence_inv_def waiter_inv_def timer_inv_def attempt_of_def)

lemma inv_drop_analysis:
  assumes "sys_inv s"
  shows "sys_inv (s\<lparr>coord := drop_analysis (coord s), an_live := an_live s - 1\<rparr>)"
  using assms coord_inv_fewer [of "coord s" "active_background (coord s)"
      "sat_dec (active_analysis (coord s))" "Suc (notify_calls (coord s))"]
  by (simp add: sys_inv_def drop_analysis_def notify_waiters_eq unat_sat_dec sat_dec_nonzero)
     (simp add: fence_inv_def waiter_inv_def timer_inv_def attempt_of_def)

lemma inv_finish_recovery: "sys_inv s \<Longrightarrow> sys_inv (s\<lparr>coord := finish_recovery (coord s)\<rparr>)"
  by (auto simp: sys_inv_def finish_recovery_def notify_waiters_eq coord_inv_def
      repair_allows_analysis_def fence_inv_def waiter_inv_def timer_inv_def attempt_of_def)

subsection \<open>Calls that wait for the fence\<close>

text \<open>What a pending repair may become when the call with registration \<open>reg\<close> goes.\<close>

definition shrunk ::
    "registration option \<Rightarrow> pending_repair option \<Rightarrow> pending_repair option \<Rightarrow> bool" where
  "shrunk reg P p \<longleftrightarrow> is_none_or (\<lambda>q. pending_owners q \<noteq> {}
     \<and> is_some_and (\<lambda>q0. pending_manifest q = pending_manifest q0
                       \<and> pending_owners q \<subseteq> pending_owners q0) p
     \<and> is_none_or (\<lambda>r. reg_manifest r = pending_manifest q \<longrightarrow> reg_owner r \<notin> pending_owners q) reg) P"

lemma shrunk_simps [simp]:
  "shrunk reg None p"
  "is_none_or (\<lambda>q. pending_owners q \<noteq> {}) p \<Longrightarrow> shrunk None p p"
  by (auto simp: shrunk_def is_none_or_iff is_some_and_iff)

lemma shrunk_without_owner:
  assumes "is_none_or (\<lambda>q. pending_owners q \<noteq> {}) p"
  shows "shrunk (Some r) (without_owner (reg_manifest r) (reg_owner r) p) p"
  using assms
  by (auto simp: shrunk_def without_owner_def is_none_or_iff is_some_and_iff
      split: option.splits if_splits)

lemma shrunk_insert_without:
  assumes "is_none_or (\<lambda>q. pending_manifest q = m) (pending c)"
    and "is_none_or (\<lambda>r. reg_manifest r = m \<and> ow = reg_owner r) reg"
  shows "shrunk reg (without_owner m ow (pending (insert_pending_owner m ow c))) (pending c)"
  using assms
  by (auto simp: shrunk_def without_owner_def insert_pending_owner_def is_none_or_iff
      is_some_and_iff split: option.splits if_splits)

lemma coord_inv_owners: "coord_inv c \<Longrightarrow> is_none_or (\<lambda>q. pending_owners q \<noteq> {}) (pending c)"
  by (auto simp: coord_inv_def is_none_or_iff)

lemma coord_inv_shrunk:
  assumes "coord_inv c" "shrunk reg P (pending c)"
  shows "coord_inv (c\<lparr>pending := P, notify_calls := n\<rparr>)"
proof (cases P)
  case None
  with assms(1) show ?thesis by (simp add: coord_inv_def repair_allows_analysis_def)
next
  case (Some q)
  with assms(2) obtain q0 where "pending c = Some q0" "pending_owners q \<noteq> {}"
      "pending_manifest q = pending_manifest q0"
    by (auto simp: shrunk_def is_some_and_iff)
  with assms(1) Some show ?thesis by (simp add: coord_inv_def repair_allows_analysis_def)
qed

lemma waiter_inv_shrunk:
  assumes inv: "waiter_inv c ws" and sh: "shrunk (w_reg w) (pending c') (pending c)"
  shows "waiter_inv c' (remove1 w ws)"
proof -
  have "live_owner (remove1 w ws) (pending_manifest q) ow"
    if q: "pending c' = Some q" and ow: "ow \<in> pending_owners q" for q ow
  proof -
    from sh q obtain q0 where q0: "pending c = Some q0" "pending_manifest q = pending_manifest q0"
        "pending_owners q \<subseteq> pending_owners q0"
      and gone: "is_none_or (\<lambda>r. reg_manifest r = pending_manifest q
        \<longrightarrow> reg_owner r \<notin> pending_owners q) (w_reg w)"
      by (auto simp: shrunk_def is_some_and_iff)
    from inv q0 ow have "live_owner ws (pending_manifest q) ow"
      by (auto simp: waiter_inv_def)
    then obtain w' r where w': "w' \<in> set ws" "w_reg w' = Some r" "reg_active r"
        "reg_manifest r = pending_manifest q" "reg_owner r = ow"
      by (auto simp: live_owner_def)
    with gone ow have "w' \<noteq> w" by auto
    with w' show ?thesis by (auto simp: live_owner_def intro!: exI [of _ w'])
  qed
  moreover have "is_none_or (\<lambda>r. reg_active r \<and> reg_manifest r = req_manifest_id (w_request x)) (w_reg x)"
    if "x \<in> set (remove1 w ws)" for x
    using inv that notin_set_remove1 [of x ws w] by (auto simp: waiter_inv_def)
  ultimately show ?thesis by (auto simp: waiter_inv_def is_none_or_iff)
qed

lemma inv_leave:
  assumes "sys_inv s" "shrunk (w_reg w) P (pending (coord s))"
  shows "sys_inv (s\<lparr>coord := (coord s)\<lparr>pending := P, notify_calls := n\<rparr>,
                    waiters := remove1 w (waiters s)\<rparr>)"
  using assms coord_inv_shrunk [of "coord s" "w_reg w" P n]
    waiter_inv_shrunk [of "coord s" "waiters s" w "(coord s)\<lparr>pending := P, notify_calls := n\<rparr>"]
    fence_inv_cong [of "(coord s)\<lparr>pending := P, notify_calls := n\<rparr>" "coord s" "fences s"]
    timer_inv_cong [of "(coord s)\<lparr>pending := P, notify_calls := n\<rparr>" "coord s" "timers s"]
  by (simp add: sys_inv_def)

lemma waiter_reg:
  "waiter_inv c ws \<Longrightarrow> w \<in> set ws
    \<Longrightarrow> is_none_or (\<lambda>r. reg_active r \<and> reg_manifest r = req_manifest_id (w_request w)) (w_reg w)"
  by (simp add: waiter_inv_def)

lemma inv_abandon:
  assumes inv: "sys_inv s" and w: "w \<in> set (waiters s)"
  shows "sys_inv (s\<lparr>coord := drop_registration (w_reg w) (coord s),
                    waiters := remove1 w (waiters s)\<rparr>)"
proof -
  obtain n where n: "drop_registration (w_reg w) (coord s) = (coord s)\<lparr>pending :=
      (case w_reg w of None \<Rightarrow> pending (coord s) | Some r \<Rightarrow> if reg_active r
         then without_owner (reg_manifest r) (reg_owner r) (pending (coord s))
         else pending (coord s)), notify_calls := n\<rparr>"
    using drop_registration_eq by blast
  have own: "is_none_or (\<lambda>q. pending_owners q \<noteq> {}) (pending (coord s))"
    using inv by (simp add: sys_inv_def coord_inv_owners)
  have act: "is_none_or reg_active (w_reg w)"
    using inv w waiter_reg [of "coord s" "waiters s" w] by (auto simp: sys_inv_def is_none_or_iff)
  show ?thesis
    unfolding n
    by (rule inv_leave [OF inv])
       (use own act in \<open>auto split: option.splits intro: shrunk_without_owner\<close>)
qed


text \<open>A turn that starts with a lease in the hands of the call, or adds the call to the pending
  owners.\<close>

lemma inv_granted:
  assumes inv: "sys_inv s" and idle: "attempt_of (coord s) = None"
    and c': "coord_inv c'" "lease c' = Some l" "lease_manifest l = m" "lease_attempt l = Some t"
      "active_background c' = active_background (coord s)"
      "active_analysis c' = active_analysis (coord s)"
      "runtime_resumption c' = runtime_resumption (coord s)"
    and sh: "shrunk (w_reg w) (pending c') (pending (coord s))"
    and rs: "is_none_or (\<lambda>r. reserved (coord s) = Some r) (reserved c')"
  shows "sys_inv (s\<lparr>coord := c', waiters := remove1 w (waiters s),
                    fences := mk_guard m t # fences s\<rparr>)"
  using inv idle c' waiter_inv_shrunk [of "coord s" "waiters s" w c', OF _ sh] rs
  by (auto simp: sys_inv_def fence_inv_def attempt_of_def mk_guard_def timer_inv_def is_none_or_iff)

lemma coord_inv_provisional:
  assumes "recovery_complete c" "runtime_resumption c = None"
    "active_background c = 0" "active_analysis c = 0" "reserved c = None"
    "lease c = Some (provisional_lease m t)"
    "is_none_or (\<lambda>q. pending_manifest q = m \<and> pending_owners q \<noteq> {}) (pending c)"
  shows "coord_inv c"
  using assms by (auto simp: coord_inv_def provisional_lease_def is_none_or_iff)

lemma shrunk_is_none_or:
  assumes "shrunk reg P p" "is_none_or (\<lambda>q. pending_manifest q = m) p"
  shows "is_none_or (\<lambda>q. pending_manifest q = m \<and> pending_owners q \<noteq> {}) P"
  using assms by (auto simp: shrunk_def is_none_or_iff is_some_and_iff)

lemma drop_registration_disarmed [simp]:
  "drop_registration (map_option disarm reg) c = c"
  "drop_registration (Some (disarm r)) c = c"
  by (simp_all add: drop_registration_def disarm_def split: option.split)

lemma reg_of_waiter:
  assumes "sys_inv s" "w \<in> set (waiters s)"
  shows "is_none_or (\<lambda>r. reg_active r \<and> reg_manifest r = req_manifest_id (w_request w)) (w_reg w)"
  using assms by (auto simp: sys_inv_def intro: waiter_reg)

lemma inv_acq_poll_granted:
  assumes inv: "sys_inv s" and w: "w \<in> set (waiters s)"
    and poll: "acquire_repair_poll (req_manifest_id (w_request w)) (Some (w_request w)) now
      (w_reg w) (coord s) = (Ready (Inr g), reg', c')"
  shows "sys_inv (s\<lparr>coord := drop_registration reg' c', waiters := remove1 w (waiters s),
      fences := g # fences s\<rparr>)"
proof -
  let ?m = "req_manifest_id (w_request w)" and ?c = "settle now (coord s)"
  let ?s = "s\<lparr>coord := ?c\<rparr>"
  have inv1: "sys_inv ?s" by (rule sys_inv_settle [OF inv])
  then have ci: "coord_inv ?c" by (simp add: sys_inv_def)
  have reg: "is_none_or (\<lambda>r. reg_active r \<and> reg_manifest r = ?m) (w_reg w)"
    by (rule reg_of_waiter [OF inv w])
  have own: "is_none_or (\<lambda>q. pending_owners q \<noteq> {}) (pending ?c)" by (rule coord_inv_owners [OF ci])
  from poll show ?thesis
  proof (cases rule: acquire_repair_poll_cases)
    case (chained r t)
    have np: "pending ?c = None" using ci chained(8) by (auto simp: coord_inv_def)
    have dr: "drop_registration reg' c' = c'\<lparr>pending := None\<rparr>"
      using np chained(2,13) reg
      by (cases "w_reg w") (auto simp: drop_registration_def remove_pending_owner_def notify_if_eq)
    have "coord_inv (c'\<lparr>pending := None\<rparr>)"
      by (rule coord_inv_provisional [of _ ?m t]) (use chained in auto)
    with chained np dr inv_granted [OF inv1, of "c'\<lparr>pending := None\<rparr>" "provisional_lease ?m t" ?m t w]
    show ?thesis by (simp add: attempt_of_def provisional_lease_def)
  next
    case (retry l t)
    have sh: "shrunk (w_reg w) (pending c') (pending ?c)"
    proof (cases "w_reg w")
      case None
      with own show ?thesis by (simp add: retry(14))
    next
      case (Some a)
      with reg shrunk_without_owner [OF own, of a] show ?thesis by (simp add: retry(14))
    qed
    have "coord_inv (?c\<lparr>pending := pending c', notify_calls := notify_calls ?c\<rparr>)"
      by (rule coord_inv_shrunk [OF ci sh])
    then have "coord_inv c'"
      using retry by (auto simp: coord_inv_def is_none_or_iff repair_allows_analysis_def)
    with retry sh inv_granted [OF inv1, of c' "l\<lparr>lease_attempt := Some t\<rparr>" ?m t w]
    show ?thesis by (simp add: attempt_of_def)
  next
    case (fresh ow n t)
    have sh: "shrunk (w_reg w) (pending c') (pending ?c)"
      using shrunk_insert_without [of ?m ?c ow "w_reg w"] fresh reg
      by (auto simp: is_none_or_iff)
    have "coord_inv c'"
      using shrunk_is_none_or [OF sh, of ?m] fresh
      by (intro coord_inv_provisional [of c' ?m t]) (auto simp: insert_pending_owner_def)
    with fresh sh inv_granted [OF inv1, of c' "provisional_lease ?m t" ?m t w]
    show ?thesis by (simp add: attempt_of_def provisional_lease_def insert_pending_owner_def)
  qed auto
qed


lemma inv_acq_refused:
  assumes inv: "sys_inv s" and w: "w \<in> set (waiters s)"
    and poll: "acquire_repair_poll m req now (w_reg w) (coord s) = (Ready (Inl e), reg', c')"
  shows "sys_inv (s\<lparr>coord := drop_registration reg' c', waiters := remove1 w (waiters s)\<rparr>)"
  using poll
proof (cases rule: acquire_repair_poll_cases)
  case (refused e')
  have "sys_inv (s\<lparr>coord := settle now (coord s)\<rparr>)" by (rule sys_inv_settle [OF inv])
  from inv_abandon [OF this, of w] w refused show ?thesis by simp
qed auto

lemma inv_acq_waiting:
  assumes inv: "sys_inv s" and w: "w \<in> set (waiters s)"
    and poll: "acquire_repair_poll (req_manifest_id (w_request w)) req now (w_reg w) (coord s)
      = (Waiting, reg', c')"
  shows "sys_inv (s\<lparr>coord := c', waiters := w\<lparr>w_reg := reg'\<rparr> # remove1 w (waiters s)\<rparr>)"
proof -
  let ?m = "req_manifest_id (w_request w)" and ?c = "settle now (coord s)"
  let ?s = "s\<lparr>coord := ?c\<rparr>"
  have inv1: "sys_inv ?s" by (rule sys_inv_settle [OF inv])
  have reg: "is_none_or (\<lambda>r. reg_active r \<and> reg_manifest r = ?m) (w_reg w)"
    by (rule reg_of_waiter [OF inv w])
  from poll show ?thesis
  proof (cases rule: acquire_repair_poll_cases)
    case (waiting ow n)
    let ?ws = "w\<lparr>w_reg := reg'\<rparr> # remove1 w (waiters s)"
    obtain r' where r': "reg' = Some r'" "reg_active r'" "reg_manifest r' = ?m" "reg_owner r' = ow"
      using waiting(2,11) reg by (auto simp: new_registration_def is_none_or_iff split: option.splits)
    have mono: "live_owner ?ws ?m ow'" if "live_owner (waiters s) ?m ow'" for ow'
    proof -
      from that obtain x r where x: "x \<in> set (waiters s)" "w_reg x = Some r" "reg_active r"
          "reg_manifest r = ?m" "reg_owner r = ow'"
        by (auto simp: live_owner_def)
      show ?thesis
      proof (cases "x = w")
        case True
        with x waiting(2,11) r' show ?thesis by (auto simp: live_owner_def)
      next
        case False
        with x show ?thesis by (auto simp: live_owner_def intro!: exI [of _ x])
      qed
    qed
    have ci: "coord_inv c'"
      using inv1 waiting by (auto simp: sys_inv_def coord_inv_def insert_pending_owner_def
        is_none_or_iff repair_allows_analysis_def split: option.splits)
    have wi: "waiter_inv c' ?ws"
    proof -
      have old: "is_none_or (\<lambda>q. \<forall>ow \<in> pending_owners q.
          live_owner (waiters s) (pending_manifest q) ow) (pending ?c)"
        using inv1 by (simp add: sys_inv_def waiter_inv_def)
      have new: "live_owner ?ws ?m ow" using r' by (auto simp: live_owner_def)
      have "is_none_or (\<lambda>q. \<forall>ow \<in> pending_owners q. live_owner ?ws (pending_manifest q) ow)
          (pending c')"
        using old mono new waiting(10,13)
        by (auto simp: insert_pending_owner_def is_none_or_iff split: option.splits)
      moreover have "is_none_or (\<lambda>r. reg_active r \<and> reg_manifest r = req_manifest_id (w_request x))
          (w_reg x)" if "x \<in> set ?ws" for x
        using that r' reg_of_waiter [OF inv, of x] set_remove1_subset [of w "waiters s"] by auto
      ultimately show ?thesis by (simp add: waiter_inv_def)
    qed
    show ?thesis
      using inv1 ci wi waiting(13) by (simp add: sys_inv_def insert_pending_owner_def fence_inv_def
        attempt_of_def timer_inv_def)
  qed auto
qed


lemma inv_acq_return:
  assumes inv: "sys_inv s" and w: "w \<in> set (waiters s)"
    and turn: "acquire_approved_turn (w_request w) (w_deadline w) (clock s) (w_reg w) (coord s)
      = (Returned r, c)"
  shows "sys_inv (s\<lparr>coord := c, waiters := remove1 w (waiters s), fences := granted r @ fences s\<rparr>)"
proof -
  obtain p reg' c' where poll: "acquire_repair_poll (req_manifest_id (w_request w))
      (Some (w_request w)) (clock s) (w_reg w) (coord s) = (p, reg', c')"
    by (metis prod_cases3)
  show ?thesis
  proof (cases p)
    case (Ready res)
    with poll turn have c: "c = drop_registration reg' c'" "r = res"
      by (simp_all add: acquire_approved_turn_def acquire_repair_turn_def)
    show ?thesis
    proof (cases res)
      case (Inl e)
      with poll Ready c inv_acq_refused [OF inv w] show ?thesis by (simp add: granted_def)
    next
      case (Inr g)
      with poll Ready c inv_acq_poll_granted [OF inv w] show ?thesis by (simp add: granted_def)
    qed
  next
    case Waiting
    with poll turn have c: "c = drop_registration reg' c'" "r = Inl Busy"
      by (auto simp: acquire_approved_turn_def acquire_repair_turn_def split: if_splits)
    let ?w = "w\<lparr>w_reg := reg'\<rparr>"
    have "sys_inv (s\<lparr>coord := c', waiters := ?w # remove1 w (waiters s)\<rparr>)"
      using inv_acq_waiting [OF inv w] poll Waiting by simp
    from inv_abandon [OF this, of ?w] c show ?thesis by (simp add: granted_def)
  qed
qed

lemma inv_acq_await:
  assumes inv: "sys_inv s" and w: "w \<in> set (waiters s)"
    and turn: "acquire_approved_turn (w_request w) (w_deadline w) (clock s) (w_reg w) (coord s)
      = (Awaiting reg, c)"
  shows "sys_inv (s\<lparr>coord := c, waiters := w\<lparr>w_reg := reg\<rparr> # remove1 w (waiters s)\<rparr>)"
proof -
  have "acquire_repair_poll (req_manifest_id (w_request w))
      (Some (w_request w)) (clock s) (w_reg w) (coord s) = (Waiting, reg, c)"
    using turn by (auto simp: acquire_approved_turn_def acquire_repair_turn_def
        split: prod.splits acquire_poll.splits if_splits)
  then show ?thesis by (rule inv_acq_waiting [OF inv w])
qed

subsection \<open>The live fence\<close>

lemma fence_inv_idle [simp]: "attempt_of c = None \<Longrightarrow> fence_inv c gs \<longleftrightarrow> gs = []"
  by (simp add: fence_inv_def)

lemma fence_owns:
  assumes "sys_inv s" "g \<in> set (fences s)"
  obtains l t where "lease (coord s) = Some l" "guard_attempt g = Some t"
    "owns_attempt (guard_manifest g) t l" "lease_manifest l = guard_manifest g"
    "lease_attempt l = Some t" "fences s = [g]"
    "active_background (coord s) = 0" "active_analysis (coord s) = 0"
    "reserved (coord s) = None" "runtime_resumption (coord s) = None"
  using assms
  by (cases "lease (coord s)")
     (auto simp: sys_inv_def coord_inv_def fence_inv_def attempt_of_def owns_attempt_def
       repair_allows_analysis_def map_eq_Cons_conv split: option.splits)

lemma inv_release:
  assumes inv: "sys_inv s" and g: "g \<in> set (fences s)"
    and c': "coord_inv c'" "attempt_of c' = None"
      "active_background c' = active_background (coord s)"
      "active_analysis c' = active_analysis (coord s)"
      "runtime_resumption c' = runtime_resumption (coord s)"
      "pending c' = pending (coord s) \<or> pending c' = None"
    and ts: "timer_inv c' ts"
  shows "sys_inv (s\<lparr>coord := c', fences := remove1 g (fences s), timers := ts\<rparr>)"
proof -
  have "fences s = [g]" using fence_owns [OF inv g] by metis
  then show ?thesis using inv c' ts
    by (auto simp: sys_inv_def waiter_inv_def)
qed

lemma inv_release_keep:
  assumes "sys_inv s" "g \<in> set (fences s)" "coord_inv c'" "attempt_of c' = None"
      "active_background c' = active_background (coord s)"
      "active_analysis c' = active_analysis (coord s)"
      "runtime_resumption c' = runtime_resumption (coord s)"
      "pending c' = pending (coord s) \<or> pending c' = None"
      "reserved c' = None"
  shows "sys_inv (s\<lparr>coord := c', fences := remove1 g (fences s)\<rparr>)"
  using inv_release [OF assms(1-8), of "timers s"] assms(9) by (simp add: timer_inv_def)

lemma coord_inv_no_lease:
  assumes "coord_inv c"
  shows "coord_inv (c\<lparr>lease := None\<rparr>)"
  using assms by (auto simp: coord_inv_def repair_allows_analysis_def is_none_or_iff)

lemma coord_inv_durable:
  assumes "coord_inv c" "lease c = Some l"
  shows "coord_inv (c\<lparr>lease := Some (l\<lparr>lease_durable := True, lease_attempt := None\<rparr>)\<rparr>)"
  using assms by (auto simp: coord_inv_def repair_allows_analysis_def is_none_or_iff)

lemma coord_inv_calls: "coord_inv (c\<lparr>notify_calls := n\<rparr>) = coord_inv c"
  by (simp add: coord_inv_def repair_allows_analysis_def)

lemma coord_inv_claim:
  "coord_inv (c\<lparr>startup_claim := x\<rparr>) = coord_inv c"
  "coord_inv (c\<lparr>startup_claim_complete := b\<rparr>) = coord_inv c"
  by (simp_all add: coord_inv_def repair_allows_analysis_def)

lemma coord_inv_clear: "coord_inv c \<Longrightarrow> coord_inv (clear_pending_manifest m c)"
  by (simp add: clear_pending_manifest_def coord_inv_def repair_allows_analysis_def)

lemma clear_pending_sel [simp]:
  "lease (clear_pending_manifest m c) = lease c"
  "active_background (clear_pending_manifest m c) = active_background c"
  "active_analysis (clear_pending_manifest m c) = active_analysis c"
  "reserved (clear_pending_manifest m c) = reserved c"
  "runtime_resumption (clear_pending_manifest m c) = runtime_resumption c"
  "recovery_complete (clear_pending_manifest m c) = recovery_complete c"
  "expired_repairs (clear_pending_manifest m c) = expired_repairs c"
  "startup_claim (clear_pending_manifest m c) = startup_claim c"
  "pending (clear_pending_manifest m c) =
     (if is_some_and (\<lambda>p. pending_manifest p = m) (pending c) then None else pending c)"
  by (simp_all add: clear_pending_manifest_def)

lemmas fence_moves = coord_inv_no_lease coord_inv_durable coord_inv_calls coord_inv_claim
  coord_inv_clear notify_waiters_eq attempt_of_def timer_inv_def

lemma inv_guard_drop:
  assumes inv: "sys_inv s" and g: "g \<in> set (fences s)"
  shows "sys_inv (s\<lparr>coord := drop_fence g (coord s), fences := remove1 g (fences s)\<rparr>)"
proof -
  from inv have ci: "coord_inv (coord s)" by (simp add: sys_inv_def)
  obtain l t where "lease (coord s) = Some l" "guard_attempt g = Some t"
    "owns_attempt (guard_manifest g) t l" "reserved (coord s) = None"
    using fence_owns [OF inv g] by metis
  then show ?thesis
    using ci by (intro inv_release_keep [OF inv g]) (simp_all add: drop_fence_def fence_moves)
qed

lemma inv_guard_retain:
  assumes inv: "sys_inv s" and g: "g \<in> set (fences s)"
    and op: "retain_until_verification g (coord s) = (r, c)"
  shows "sys_inv (s\<lparr>coord := c, fences := remove1 g (fences s)\<rparr>)"
proof -
  from inv have ci: "coord_inv (coord s)" by (simp add: sys_inv_def)
  obtain l t where "lease (coord s) = Some l" "guard_attempt g = Some t"
    "owns_attempt (guard_manifest g) t l" "reserved (coord s) = None"
    using fence_owns [OF inv g] by metis
  then show ?thesis
    using ci op by (intro inv_release_keep [OF inv g])
       (auto simp: retain_until_verification_def fence_moves split: if_splits)
qed


lemma inv_guard_precommit:
  assumes inv: "sys_inv s" and g: "g \<in> set (fences s)"
    and op: "release_after_precommit_failure g (coord s) = (r, c)"
  shows "sys_inv (s\<lparr>coord := c, fences := remove1 g (fences s)\<rparr>)"
proof -
  from inv have ci: "coord_inv (coord s)" by (simp add: sys_inv_def)
  obtain l t where "lease (coord s) = Some l" "guard_attempt g = Some t"
    "owns_attempt (guard_manifest g) t l" "reserved (coord s) = None"
    using fence_owns [OF inv g] by metis
  then show ?thesis
    using ci op by (intro inv_release_keep [OF inv g])
       (auto simp: release_after_precommit_failure_def fence_moves split: if_splits)
qed

lemma inv_guard_verified:
  assumes inv: "sys_inv s" and g: "g \<in> set (fences s)"
    and op: "release_after_verification g (coord s) = (r, c)"
  shows "sys_inv (s\<lparr>coord := c, fences := remove1 g (fences s)\<rparr>)"
proof -
  from inv have ci: "coord_inv (coord s)" by (simp add: sys_inv_def)
  obtain l t where o: "lease (coord s) = Some l" "guard_attempt g = Some t"
    "owns_attempt (guard_manifest g) t l" "reserved (coord s) = None" "lease_manifest l = guard_manifest g"
    using fence_owns [OF inv g] by metis
  show ?thesis
  proof (cases "lease_durable l")
    case True
    with o ci op show ?thesis by (intro inv_release_keep [OF inv g])
       (auto simp: release_after_verification_def Let_def fence_moves split: if_splits)
  next
    case False
    with o op have "c = drop_fence g (coord s)" by (auto simp: release_after_verification_def)
    with inv_guard_drop [OF inv g] show ?thesis by simp
  qed
qed


lemma inv_guard_handoff:
  assumes inv: "sys_inv s" and g: "g \<in> set (fences s)" and t0: "t0 \<le> clock s"
    and op: "handoff_after_verification g nxt ttl t0 (coord s) = (r, c, spawned)"
  shows "sys_inv (s\<lparr>coord := c, fences := remove1 g (fences s),
                    timers := (case spawned of None \<Rightarrow> timers s
                               | Some gen \<Rightarrow> (gen, clock s + ttl) # timers s)\<rparr>)"
proof -
  from inv have ci: "coord_inv (coord s)" by (simp add: sys_inv_def)
  obtain l t where o: "lease (coord s) = Some l" "guard_attempt g = Some t"
    "owns_attempt (guard_manifest g) t l" "reserved (coord s) = None"
    "lease_manifest l = guard_manifest g" "active_background (coord s) = 0"
    "active_analysis (coord s) = 0" "runtime_resumption (coord s) = None"
    using fence_owns [OF inv g] by metis
  have dropped: "sys_inv (s\<lparr>coord := drop_fence g (coord s\<lparr>next_reservation := n\<rparr>),
      fences := remove1 g (fences s)\<rparr>)" for n
    using o ci by (intro inv_release_keep [OF inv g])
      (auto simp: drop_fence_def fence_moves coord_inv_def repair_allows_analysis_def
        is_none_or_iff)
  have pend: "is_none_or (\<lambda>p. pending_manifest p = guard_manifest g) (pending (coord s))"
    using ci o(1,5) by (auto simp: coord_inv_def is_none_or_iff)
  let ?gen = "next_token (next_reservation (coord s))"
  show ?thesis
  proof (cases "ttl \<noteq> 0 \<and> req_manifest_id nxt \<noteq> guard_manifest g \<and> lease_durable l
      \<and> \<not> repair_is_expired (coord s) nxt")
    case True
    with o op have spawned: "spawned = Some ?gen"
      by (auto simp: handoff_after_verification_def issue_reservation_def Let_def
          repair_is_expired_def split: if_splits)
    from True o op pend have c: "lease c = None \<and> pending c = None
        \<and> reserved c = Some \<lparr>predecessor_manifest = guard_manifest g, next_apply = nxt,
           expires_at = t0 + ttl, rsv_generation = ?gen\<rparr>
        \<and> active_background c = 0 \<and> active_analysis c = 0 \<and> runtime_resumption c = None
        \<and> expired_repairs c = expired_repairs (coord s)"
      by (cases "pending (coord s)")
        (auto simp: handoff_after_verification_def issue_reservation_def Let_def
          repair_is_expired_def)
    have "coord_inv c"
      using True by (auto simp: c coord_inv_def repair_is_expired_def)
    with c o t0 spawned show ?thesis
      by (intro inv_release [OF inv g]) (auto simp: attempt_of_def timer_inv_def)
  next
    case False
    with o op have "spawned = None \<and> (c = drop_fence g (coord s)
        \<or> c = drop_fence g ((coord s)\<lparr>next_reservation := ?gen\<rparr>))"
      by (auto simp: handoff_after_verification_def issue_reservation_def Let_def
          repair_is_expired_def split: if_splits)
    with dropped inv_guard_drop [OF inv g] show ?thesis by auto
  qed
qed

lemma inv_verify:
  assumes inv: "sys_inv s" and op: "acquire_repair_verification m (coord s) = (r, c)"
  shows "sys_inv (s\<lparr>coord := c, fences := granted r @ fences s\<rparr>)"
proof (cases r)
  case (Inl e)
  with op have "c = coord s"
    by (auto simp: acquire_repair_verification_def issue_repair_attempt_def Let_def
        split: if_splits option.splits)
  with inv Inl show ?thesis by (simp add: granted_def)
next
  case (Inr g)
  with op obtain l t where o: "lease (coord s) = Some l" "lease_manifest l = m" "lease_durable l"
      "lease_attempt l = None" "active_analysis (coord s) = 0" "g = mk_guard m t"
      "c = (coord s)\<lparr>next_repair_attempt := t, lease := Some (l\<lparr>lease_attempt := Some t\<rparr>)\<rparr>"
    by (auto simp: acquire_repair_verification_def issue_repair_attempt_def Let_def
        split: if_splits option.splits)
  have "coord_inv c"
    using inv o by (auto simp: sys_inv_def coord_inv_def is_none_or_iff)
  with inv o Inr show ?thesis
    by (auto simp: sys_inv_def granted_def fence_inv_def attempt_of_def mk_guard_def
        waiter_inv_def timer_inv_def)
qed

lemma inv_timer_fire:
  assumes inv: "sys_inv s" and t: "(gen, t) \<in> set (timers s)" and due: "t \<le> clock s"
  shows "sys_inv (s\<lparr>coord := expire_reserved_repair gen (clock s) (coord s),
                    timers := remove1 (gen, t) (timers s)\<rparr>)"
proof (cases "is_some_and (\<lambda>r. rsv_generation r = gen \<and> expires_at r \<le> clock s)
    (reserved (coord s))")
  case True
  then obtain r where r: "reserved (coord s) = Some r" "rsv_generation r = gen"
      "expires_at r \<le> clock s" by (auto simp: is_some_and_iff)
  then show ?thesis
    using inv by (auto simp: expire_reserved_repair_def record_expired_repair_def
      notify_waiters_eq sys_inv_def coord_inv_def repair_allows_analysis_def fence_inv_def
      attempt_of_def waiter_inv_def timer_inv_def)
next
  case False
  then have same: "expire_reserved_repair gen (clock s) (coord s) = coord s"
    by (auto simp: expire_reserved_repair_def split: option.splits)
  have "timer_inv (coord s) (remove1 (gen, t) (timers s))"
  proof (cases "reserved (coord s)")
    case (Some r)
    with inv obtain t' where t': "(rsv_generation r, t') \<in> set (timers s)" "expires_at r \<le> t'"
      by (auto simp: sys_inv_def timer_inv_def)
    have "(rsv_generation r, t') \<noteq> (gen, t)"
    proof
      assume "(rsv_generation r, t') = (gen, t)"
      with False Some t'(2) due show False by simp
    qed
    with Some t' show ?thesis by (auto simp: timer_inv_def intro!: exI [of _ t'])
  qed (simp add: timer_inv_def)
  with inv same show ?thesis by (simp add: sys_inv_def)
qed

lemma inv_rearm:
  assumes inv: "sys_inv s" and op: "rearm_approved_repair r (coord s) = (res, c)"
  shows "sys_inv (s\<lparr>coord := c\<rparr>)"
proof -
  from op consider (same) "c = coord s"
    | (kept) "c = (coord s)\<lparr>startup_claim := Some r, startup_claim_complete := False\<rparr>"
    | (fresh) "c = (coord s)\<lparr>lease := Some \<lparr>lease_manifest = req_manifest_id r,
          lease_durable = True, lease_attempt = None\<rparr>, startup_claim := Some r,
          startup_claim_complete := False\<rparr>" "lease (coord s) = None"
        "\<not> recovery_complete (coord s)" "reserved (coord s) = None" "pending (coord s) = None"
    by (auto simp: rearm_approved_repair_def split: if_splits option.splits)
  then show ?thesis
  proof cases
    case same
    with inv show ?thesis by simp
  next
    case kept
    with inv show ?thesis
      by (simp add: sys_inv_def coord_inv_claim fence_inv_def attempt_of_def waiter_inv_def
          timer_inv_def)
  next
    case fresh
    with inv show ?thesis
      by (auto simp: sys_inv_def coord_inv_def fence_inv_def attempt_of_def waiter_inv_def
          timer_inv_def)
  qed
qed

lemma inv_resume_begin:
  assumes inv: "sys_inv s" and op: "begin_runtime_resumption r (coord s) = (res, c)"
  shows "sys_inv (s\<lparr>coord := c, seals := seals s + of_bool (res = Inr ())\<rparr>)"
  using inv op
  by (auto simp: begin_runtime_resumption_def sys_inv_def coord_inv_def fence_inv_def
      attempt_of_def waiter_inv_def timer_inv_def split: if_splits)

lemma inv_resume_end:
  assumes inv: "sys_inv s" and live: "0 < seals s"
  shows "sys_inv (s\<lparr>coord := commit_resumption (coord s), seals := seals s - 1\<rparr>)"
    and "sys_inv (s\<lparr>coord := drop_resumption False (coord s), seals := seals s - 1\<rparr>)"
  using inv live
  by (auto simp: commit_resumption_def drop_resumption_def notify_waiters_eq sys_inv_def
      coord_inv_def fence_inv_def attempt_of_def waiter_inv_def timer_inv_def
      repair_allows_analysis_def split: if_splits)

lemma inv_guard_flag:
  assumes inv: "sys_inv s" and g: "g \<in> set (fences s)"
  shows "sys_inv (s\<lparr>fences := retain_on_uncertain_drop g # remove1 g (fences s)\<rparr>)"
proof -
  have "fences s = [g]" using fence_owns [OF inv g] by metis
  with inv show ?thesis by (simp add: sys_inv_def fence_inv_def retain_on_uncertain_drop_def)
qed

lemma live_owner_Cons: "live_owner ws m ow \<Longrightarrow> live_owner (w # ws) m ow"
  by (auto simp: live_owner_def)

lemma inv_call:
  "sys_inv s \<Longrightarrow> sys_inv (s\<lparr>waiters := \<lparr>w_request = r, w_deadline = d, w_reg = None\<rparr> # waiters s\<rparr>)"
  by (auto simp: sys_inv_def waiter_inv_def is_none_or_iff intro: live_owner_Cons)

subsection \<open>Every step keeps the invariant\<close>

lemma inv_bg_try:
  assumes inv: "sys_inv s" and op: "try_begin_background (clock s) (coord s) = (ok, c)"
    and room: "ok \<longrightarrow> bg_live s < max_live"
  shows "sys_inv (s\<lparr>coord := c, bg_live := bg_live s + of_bool ok\<rparr>)"
  using sys_inv_settle [OF inv, of "clock s"] op room
    inv_admit_background [of "s\<lparr>coord := settle (clock s) (coord s)\<rparr>"]
  by (auto simp: try_begin_background_eq Let_def split: if_splits)

lemma inv_an_poll:
  assumes inv: "sys_inv s" and op: "begin_analysis_poll (clock s) (coord s) = (ok, c)"
    and room: "ok \<longrightarrow> an_live s < max_live"
  shows "sys_inv (s\<lparr>coord := c, an_live := an_live s + of_bool ok\<rparr>)"
  using sys_inv_settle [OF inv, of "clock s"] op room
    inv_admit_analysis [of "s\<lparr>coord := settle (clock s) (coord s)\<rparr>"]
  by (auto simp: begin_analysis_poll_eq Let_def split: if_splits)

lemma inv_tick: "sys_inv s \<Longrightarrow> sys_inv (s\<lparr>clock := n\<rparr>)"
  by (simp add: sys_inv_def)

lemma inv_handoff_query:
  "sys_inv s \<Longrightarrow> matches_handoff pre nxt now (coord s) = (b, c) \<Longrightarrow> sys_inv (s\<lparr>coord := c\<rparr>)"
  using matches_handoff_eq [of pre nxt now "coord s"] by (simp add: sys_inv_settle)

lemma sys_inv_step:
  assumes "sys_inv s" "sys_step s s'"
  shows "sys_inv s'"
  using assms(2)
proof cases
  case (bg_try ok c)
  show ?thesis unfolding bg_try(1) by (rule inv_bg_try [OF assms(1) bg_try(2,3)])
next
  case (bg_poll ok c)
  show ?thesis unfolding bg_poll(1)
    by (rule inv_bg_try [OF assms(1) _ bg_poll(3)]) (use bg_poll(2) in \<open>simp add: begin_background_poll_eq\<close>)
next
  case (an_poll ok c)
  show ?thesis unfolding an_poll(1) by (rule inv_an_poll [OF assms(1) an_poll(2,3)])
next
  case (resume_begin r res c)
  show ?thesis unfolding resume_begin(1) by (rule inv_resume_begin [OF assms(1) resume_begin(2)])
next
  case (guard_handoff g t0 nxt ttl r c spawned)
  show ?thesis unfolding guard_handoff(1)
    by (rule inv_guard_handoff [OF assms(1) guard_handoff(2-4)])
qed (auto intro: assms(1) inv_tick inv_finish_recovery inv_drop_background inv_drop_analysis inv_call inv_acq_return inv_acq_await inv_abandon inv_verify
    inv_handoff_query inv_guard_flag inv_guard_drop inv_guard_retain inv_guard_precommit
    inv_guard_verified inv_timer_fire inv_rearm inv_resume_end simp del: One_nat_def)

lemma sys_inv_init: "sys_inv init_system"
  by (simp add: sys_inv_def init_system_def new_coordinator_def coord_inv_def fence_inv_def
      attempt_of_def waiter_inv_def timer_inv_def)

interpretation coord_machine: invariant_machine sys_step sys_inv
  by unfold_locales (rule sys_inv_step)

lemma reachable_inv: "reachable s \<Longrightarrow> sys_inv s"
  unfolding reachable_def by (rule coord_machine.inv_reach [OF _ sys_inv_init])

end
