(* ===== verification/Coordinator_Properties.thy ===== *)
theory Coordinator_Properties
  imports Coordinator_Invariant
begin

text \<open>
  What the coordinator promises to the daemon: exclusion of writers, analysis and the repair
  fence, the guard methods that cannot fail on a live guard, the permanence of the committed
  seal and of the expired requests, the exactness of a chained reservation, and that whatever
  makes a waiting caller admissible also notifies it.
\<close>

subsection \<open>What a granted fence shows\<close>

lemma acquire_turn_granted:
  assumes "acquire_repair_turn m req deadline now reg c = (Returned (Inr g), c')"
  shows "\<exists>reg' c0. acquire_repair_poll m req now reg c = (Ready (Inr g), reg', c0)
     \<and> c' = drop_registration reg' c0"
  using assms
  by (auto simp: acquire_repair_turn_def split: prod.splits acquire_poll.splits if_splits)

lemma acquire_granted_facts:
  assumes "acquire_repair_turn m req deadline now reg c = (Returned (Inr g), c')"
  shows "recovery_complete c \<and> runtime_resumption c = None \<and> \<not> startup_claim_complete c
    \<and> is_none_or (\<lambda>claim. req = Some claim) (startup_claim c)
    \<and> is_none_or (\<lambda>r. r \<notin> set (expired_repairs c)) req
    \<and> is_none_or (\<lambda>r. req = Some (next_apply r)) (reserved_at now c)
    \<and> active_analysis c = 0"
proof -
  obtain reg' c0 where "acquire_repair_poll m req now reg c = (Ready (Inr g), reg', c0)"
    using acquire_turn_granted [OF assms] by blast
  then show ?thesis
    by (cases rule: acquire_repair_poll_cases)
       (auto simp: repair_is_expired_def is_none_or_iff expired_mono)
qed

subsection \<open>The seal and the tombstones are permanent\<close>

lemma drop_registration_sel [simp]:
  "runtime_resumption (drop_registration reg c) = runtime_resumption c"
  "expired_repairs (drop_registration reg c) = expired_repairs c"
  "startup_claim (drop_registration reg c) = startup_claim c"
  "lease (drop_registration reg c) = lease c"
  "reserved (drop_registration reg c) = reserved c"
  "recovery_complete (drop_registration reg c) = recovery_complete c"
  "active_background (drop_registration reg c) = active_background c"
  "active_analysis (drop_registration reg c) = active_analysis c"
  using drop_registration_eq [of reg c] by auto

lemma acquire_turn_keeps:
  assumes "acquire_repair_turn m req deadline now reg c = (r, c')"
  shows "runtime_resumption c' = runtime_resumption c"
    and "set (expired_repairs c) \<subseteq> set (expired_repairs c')"
proof -
  obtain p reg' c0 where poll: "acquire_repair_poll m req now reg c = (p, reg', c0)"
    by (metis prod_cases3)
  with assms have c': "c' = drop_registration reg' c0 \<or> c' = c0"
    by (auto simp: acquire_repair_turn_def split: acquire_poll.splits if_splits)
  from poll have "runtime_resumption c0 = runtime_resumption c \<and> expired_repairs c0 = expired_at now c"
    by (cases rule: acquire_repair_poll_cases) (auto simp: insert_pending_owner_def)
  with c' show "runtime_resumption c' = runtime_resumption c"
    "set (expired_repairs c) \<subseteq> set (expired_repairs c')"
    by (auto simp: expired_mono)
qed

lemma drop_fence_keeps [simp]:
  "runtime_resumption (drop_fence g c) = runtime_resumption c"
  "expired_repairs (drop_fence g c) = expired_repairs c"
  "startup_claim (drop_fence g c) = startup_claim c"
  by (simp_all add: drop_fence_def notify_waiters_eq split: option.split)

lemma guard_ops_keep:
  "retain_until_verification g c = (r, c') \<Longrightarrow> runtime_resumption c' = runtime_resumption c
     \<and> expired_repairs c' = expired_repairs c"
  "release_after_precommit_failure g c = (r, c') \<Longrightarrow> runtime_resumption c' = runtime_resumption c
     \<and> expired_repairs c' = expired_repairs c"
  "release_after_verification g c = (r, c') \<Longrightarrow> runtime_resumption c' = runtime_resumption c
     \<and> expired_repairs c' = expired_repairs c"
  "handoff_after_verification g nxt ttl t0 c = (r, c', sp) \<Longrightarrow>
     runtime_resumption c' = runtime_resumption c \<and> expired_repairs c' = expired_repairs c"
  by (auto simp: retain_until_verification_def release_after_precommit_failure_def
      release_after_verification_def handoff_after_verification_def notify_waiters_eq Let_def
      issue_reservation_def split: option.splits if_splits)

lemma expired_step:
  assumes "sys_step s t"
  shows "set (expired_repairs (coord s)) \<subseteq> set (expired_repairs (coord t))"
  using assms
proof cases
  case (acq_return w r c)
  then show ?thesis using acquire_turn_keeps by (simp add: acquire_approved_turn_def)
next
  case (acq_await w reg c)
  then show ?thesis using acquire_turn_keeps by (simp add: acquire_approved_turn_def)
next
  case (bg_try ok c)
  then show ?thesis by (auto simp: try_begin_background_eq Let_def expired_mono split: if_splits)
next
  case (bg_poll ok c)
  then show ?thesis
    by (auto simp: begin_background_poll_eq try_begin_background_eq Let_def expired_mono
        split: if_splits)
next
  case (an_poll ok c)
  then show ?thesis by (auto simp: begin_analysis_poll_eq Let_def expired_mono split: if_splits)
next
  case (handoff_query pre nxt b c)
  then show ?thesis using matches_handoff_eq [of pre nxt "clock s" "coord s"]
    by (auto simp: expired_mono)
next
  case (verify m r c)
  then show ?thesis
    by (auto simp: acquire_repair_verification_def issue_repair_attempt_def Let_def
        split: option.splits if_splits)
next
  case (rearm r res c)
  then show ?thesis by (auto simp: rearm_approved_repair_def split: option.splits if_splits)
next
  case (timer_fire gen t)
  then show ?thesis
    by (auto simp: expire_reserved_repair_def record_expired_repair_def notify_waiters_eq
        split: option.splits)
next
  case (resume_begin r res c)
  then show ?thesis by (auto simp: begin_runtime_resumption_def split: if_splits)
qed (auto dest: guard_ops_keep simp: finish_recovery_def drop_background_def drop_analysis_def
    notify_waiters_eq commit_resumption_def drop_resumption_def)

lemma committed_step:
  assumes "sys_inv s" "sys_step s t" "runtime_resumption (coord s) = Some SealCommitted"
  shows "runtime_resumption (coord t) = Some SealCommitted"
  using assms(2)
proof cases
  case (acq_return w r c)
  then show ?thesis using acquire_turn_keeps assms(3) by (simp add: acquire_approved_turn_def)
next
  case (acq_await w reg c)
  then show ?thesis using acquire_turn_keeps assms(3) by (simp add: acquire_approved_turn_def)
next
  case (bg_try ok c)
  then show ?thesis using assms(3) by (auto simp: try_begin_background_eq Let_def split: if_splits)
next
  case (bg_poll ok c)
  then show ?thesis using assms(3)
    by (auto simp: begin_background_poll_eq try_begin_background_eq Let_def split: if_splits)
next
  case (an_poll ok c)
  then show ?thesis using assms(3) by (auto simp: begin_analysis_poll_eq Let_def split: if_splits)
next
  case (handoff_query pre nxt b c)
  then show ?thesis using assms(3) matches_handoff_eq [of pre nxt "clock s" "coord s"] by auto
next
  case (verify m r c)
  then show ?thesis using assms(3) by (simp add: acquire_repair_verification_def)
next
  case (rearm r res c)
  then show ?thesis using assms(3)
    by (auto simp: rearm_approved_repair_def split: option.splits if_splits)
next
  case (timer_fire gen t)
  then show ?thesis using assms(3)
    by (auto simp: expire_reserved_repair_def record_expired_repair_def notify_waiters_eq
        split: option.splits)
next
  case (resume_begin r res c)
  then show ?thesis using assms(3) by (simp add: begin_runtime_resumption_def)
next
  case resume_drop
  then show ?thesis using assms(1,3) by (simp add: sys_inv_def)
qed (use assms(3) in \<open>auto dest: guard_ops_keep simp: finish_recovery_def drop_background_def
    drop_analysis_def notify_waiters_eq commit_resumption_def\<close>)


subsection \<open>Wake-ups\<close>

definition idle :: "coordinator \<Rightarrow> bool" where
  "idle c \<longleftrightarrow> active_background c = 0 \<and> active_analysis c = 0"

definition quiet :: "coordinator \<Rightarrow> coordinator \<Rightarrow> bool" where
  "quiet c c' \<longleftrightarrow> (admits_background c' \<longrightarrow> admits_background c)
     \<and> (admits_analysis c' \<longrightarrow> admits_analysis c) \<and> (idle c' \<longrightarrow> idle c)"

definition wakes :: "coordinator \<Rightarrow> coordinator \<Rightarrow> bool" where
  "wakes c c' \<longleftrightarrow> notify_calls c \<le> notify_calls c'
     \<and> (notify_calls c < notify_calls c' \<or> quiet c c')"

lemma wakes_refl [simp]: "wakes c c"
  by (simp add: wakes_def quiet_def)

lemma wakes_trans: "wakes c c1 \<Longrightarrow> wakes c1 c2 \<Longrightarrow> wakes c c2"
  by (auto simp: wakes_def quiet_def)

lemma wakes_notified: "notify_calls c < notify_calls c' \<Longrightarrow> wakes c c'"
  by (simp add: wakes_def)

lemma wakes_suc [simp]: "wakes c (c'\<lparr>notify_calls := Suc (notify_calls c)\<rparr>)"
  by (simp add: wakes_def)

lemma wakes_settle: "wakes c (settle now c)"
  by (cases "reserved c \<noteq> None \<and> reserved_at now c = None")
     (auto simp: wakes_def quiet_def settle_eq admits_background_def admits_analysis_def idle_def
       repair_allows_analysis_def reserved_at_def)

lemma wakes_drop_registration: "wakes c (drop_registration reg c)"
proof (cases "\<exists>r. reg = Some r \<and> reg_active r")
  case True
  then obtain r where r: "reg = Some r" "reg_active r" by blast
  obtain b c1 where rem: "remove_pending_owner (reg_manifest r) (reg_owner r) c = (b, c1)"
    by fastforce
  let ?P = "without_owner (reg_manifest r) (reg_owner r) (pending c)"
  have c1: "c1 = c\<lparr>pending := ?P\<rparr>"
    using snd_remove_pending_owner [of "reg_manifest r" "reg_owner r" c] rem by simp
  have "b \<or> c1 = c"
    using rem by (auto simp: remove_pending_owner_def Let_def split: option.splits if_splits)
  moreover have "drop_registration reg c = notify_if b c1"
    using r rem by (simp add: drop_registration_def)
  ultimately show ?thesis
    by (auto simp: notify_if_eq wakes_def quiet_def c1)
next
  case False
  then have "drop_registration reg c = c" by (auto simp: drop_registration_def split: option.split)
  then show ?thesis by simp
qed

lemma wakes_blocked:
  assumes "notify_calls c' = notify_calls c" "idle c' = idle c"
    and "pending c' \<noteq> None \<or> reserved c' \<noteq> None
      \<or> is_some_and (\<lambda>l. \<not> lease_durable l \<or> lease_attempt l \<noteq> None) (lease c')"
  shows "wakes c c'"
  using assms
  by (auto simp: wakes_def quiet_def admits_background_def admits_analysis_def
      repair_allows_analysis_def is_some_and_iff)

lemma wakes_poll:
  assumes "acquire_repair_poll m req now reg c = (p, reg', c')"
  shows "wakes c c'"
proof (rule wakes_trans [OF wakes_settle [of c now]])
  from assms show "wakes (settle now c) c'"
    by (cases rule: acquire_repair_poll_cases)
       (auto intro!: wakes_blocked simp: provisional_lease_def insert_pending_owner_def idle_def)
qed

lemma wakes_turn:
  "acquire_repair_turn m req deadline now reg c = (r, c') \<Longrightarrow> wakes c c'"
  by (auto simp: acquire_repair_turn_def split: prod.splits acquire_poll.splits if_splits
      dest: wakes_poll intro: wakes_trans [OF _ wakes_drop_registration])

lemma wakes_drop_fence: "wakes c (drop_fence g c)"
  by (auto simp: drop_fence_def notify_waiters_eq wakes_def quiet_def split: option.split)

lemma wakes_guard_ops:
  "retain_until_verification g c = (r, c') \<Longrightarrow> wakes c c'"
  "release_after_precommit_failure g c = (r, c') \<Longrightarrow> wakes c c'"
  "release_after_verification g c = (r, c') \<Longrightarrow> wakes c c'"
  by (auto simp: retain_until_verification_def release_after_precommit_failure_def
      release_after_verification_def notify_waiters_eq Let_def clear_pending_manifest_def
      intro!: wakes_drop_fence split: option.splits if_splits)

lemma wakes_handoff:
  assumes "handoff_after_verification g nxt ttl t0 c = (r, c', sp)"
  shows "wakes c c'"
proof -
  have "wakes c (drop_fence g (c\<lparr>next_reservation := n\<rparr>))" for n
    by (rule wakes_trans [OF _ wakes_drop_fence])
       (simp add: wakes_def quiet_def admits_background_def admits_analysis_def idle_def
         repair_allows_analysis_def)
  moreover from assms have "c' = drop_fence g c
      \<or> c' = drop_fence g (c\<lparr>next_reservation := next_token (next_reservation c)\<rparr>)
      \<or> notify_calls c' = notify_calls c \<and> idle c' = idle c \<and> reserved c' \<noteq> None"
    by (auto simp: handoff_after_verification_def issue_reservation_def Let_def
        clear_pending_manifest_def idle_def split: option.splits if_splits)
  ultimately show ?thesis using wakes_drop_fence wakes_blocked by metis
qed

lemma wakes_admissions:
  "try_begin_background now c = (ok, c') \<Longrightarrow> wakes c c'"
  "begin_analysis_poll now c = (ok, c') \<Longrightarrow> wakes c c'"
proof -
  have bg: "wakes c1 (c1\<lparr>active_background := sat_inc (active_background c1)\<rparr>)" for c1
    using sat_inc_nonzero [of "active_background c1"]
    by (auto simp: wakes_def quiet_def admits_background_def admits_analysis_def idle_def
        repair_allows_analysis_def)
  have an: "wakes c1 (c1\<lparr>active_analysis := sat_inc (active_analysis c1)\<rparr>)" for c1
    using sat_inc_nonzero [of "active_analysis c1"]
    by (auto simp: wakes_def quiet_def admits_background_def admits_analysis_def idle_def
        repair_allows_analysis_def)
  show "try_begin_background now c = (ok, c') \<Longrightarrow> wakes c c'"
    using wakes_settle [of c now] wakes_trans [OF wakes_settle bg]
    by (auto simp: try_begin_background_eq Let_def split: if_splits)
  show "begin_analysis_poll now c = (ok, c') \<Longrightarrow> wakes c c'"
    using wakes_settle [of c now] wakes_trans [OF wakes_settle an]
    by (auto simp: begin_analysis_poll_eq Let_def split: if_splits)
qed

lemma wakes_other:
  "acquire_repair_verification m c = (r, c') \<Longrightarrow> wakes c c'"
  "rearm_approved_repair q c = (u, c') \<Longrightarrow> wakes c c'"
  "begin_runtime_resumption q c = (u, c') \<Longrightarrow> wakes c c'"
  "wakes c (expire_reserved_repair gen now c)"
  "wakes c (commit_resumption c)" "wakes c (drop_resumption b c)"
  "wakes c (finish_recovery c)" "wakes c (drop_background c)" "wakes c (drop_analysis c)"
  by (auto simp: acquire_repair_verification_def rearm_approved_repair_def
      begin_runtime_resumption_def expire_reserved_repair_def record_expired_repair_def
      commit_resumption_def drop_resumption_def finish_recovery_def drop_background_def
      drop_analysis_def notify_waiters_eq wakes_def quiet_def issue_repair_attempt_def Let_def
      admits_background_def admits_analysis_def idle_def repair_allows_analysis_def
      split: option.splits if_splits)

lemma wakes_step: "sys_step s t \<Longrightarrow> wakes (coord s) (coord t)"
proof (induction rule: sys_step.induct)
  case (handoff_query pre nxt s b c)
  then show ?case using matches_handoff_eq [of pre nxt "clock s" "coord s"] wakes_settle
    by (metis snd_conv system.select_convs(1) system.surjective system.update_convs(1))
qed (auto simp: acquire_approved_turn_def begin_background_poll_eq
    intro: wakes_turn wakes_drop_registration wakes_drop_fence wakes_guard_ops wakes_handoff
      wakes_admissions wakes_other)


subsection \<open>A run of the system\<close>

definition demo_request :: apply_repair_request where
  "demo_request = \<lparr>req_manifest_id = ''a'', approved_manifest_digest = ''d'', approval = ''y''\<rparr>"

definition demo_waiter :: waiter where
  "demo_waiter = \<lparr>w_request = demo_request, w_deadline = 5, w_reg = None\<rparr>"

definition demo_recovered :: system where
  "demo_recovered = init_system\<lparr>coord := finish_recovery new_coordinator\<rparr>"

definition demo_fenced :: system where
  "demo_fenced = demo_recovered\<lparr>coord := (coord demo_recovered)\<lparr>next_pending_repair := 1,
     next_repair_attempt := 1, lease := Some (provisional_lease ''a'' 1)\<rparr>,
     fences := [mk_guard ''a'' 1]\<rparr>"

lemma reachable_step: "reachable s \<Longrightarrow> sys_step s t \<Longrightarrow> reachable t"
  unfolding reachable_def by (rule rtranclp.rtrancl_into_rtrancl)

lemma reachable_init: "reachable init_system"
  by (simp add: reachable_def)

lemma demo_recovered_reachable: "reachable demo_recovered"
  using reachable_step [OF reachable_init sys_step.recovered]
  by (simp add: demo_recovered_def init_system_def)

lemma demo_turn:
  "acquire_approved_turn demo_request 5 0 None (coord demo_recovered)
      = (Returned (Inr (mk_guard ''a'' 1)), coord demo_fenced)"
  by (simp add: acquire_approved_turn_def acquire_repair_turn_def acquire_repair_poll_def
        demo_recovered_def demo_fenced_def init_system_def new_coordinator_def finish_recovery_def
        notify_waiters_def expire_reservation_def notify_if_def acquire_pending_def
        pending_owner_def issue_pending_repair_def issue_repair_attempt_def next_token_def Let_def
        insert_pending_owner_def remove_pending_owner_def new_registration_def disarm_def
        drop_registration_def demo_request_def repair_is_expired_def)

lemma demo_fenced_reachable: "reachable demo_fenced"
proof -
  have call: "reachable (demo_recovered\<lparr>waiters := [demo_waiter]\<rparr>)"
    using reachable_step [OF demo_recovered_reachable
        sys_step.acq_call [of demo_recovered demo_request 5]]
    by (simp add: demo_recovered_def init_system_def demo_waiter_def)
  show ?thesis
    using reachable_step [OF call sys_step.acq_return [of demo_waiter _ "Inr (mk_guard ''a'' 1)"
          "coord demo_fenced"]] demo_turn
    by (simp add: demo_waiter_def demo_fenced_def demo_recovered_def init_system_def granted_def)
qed

text \<open>A run that restarts into the verification of a claimed repair: the rearmed lease, the
  attempt that verifies it, and what follows.\<close>

definition demo_claimed :: system where
  "demo_claimed = init_system\<lparr>coord := new_coordinator\<lparr>recovery_complete := True,
     lease := Some \<lparr>lease_manifest = ''a'', lease_durable = True, lease_attempt = Some 1\<rparr>,
     startup_claim := Some demo_request, next_repair_attempt := 1, notify_calls := 1\<rparr>,
     fences := [mk_guard ''a'' 1]\<rparr>"

definition demo_committed :: system where
  "demo_committed = init_system\<lparr>coord := new_coordinator\<lparr>recovery_complete := True,
     startup_claim := Some demo_request, startup_claim_complete := True,
     next_repair_attempt := 1, runtime_resumption := Some SealCommitted, notify_calls := 2\<rparr>\<rparr>"

definition demo_reservation :: reserved_repair where
  "demo_reservation = \<lparr>predecessor_manifest = ''a'',
     next_apply = demo_request\<lparr>req_manifest_id := ''b''\<rparr>, expires_at = 9, rsv_generation = 1\<rparr>"

definition demo_reserved :: system where
  "demo_reserved = init_system\<lparr>coord := new_coordinator\<lparr>recovery_complete := True,
     startup_claim := Some (next_apply demo_reservation), reserved := Some demo_reservation,
     next_repair_attempt := 1, next_reservation := 1, notify_calls := 1\<rparr>, timers := [(1, 9)]\<rparr>"

lemmas demo_defs = demo_claimed_def demo_committed_def demo_reserved_def demo_reservation_def
  init_system_def new_coordinator_def demo_request_def

lemma demo_claimed_reachable: "reachable demo_claimed"
proof -
  let ?l = "\<lparr>lease_manifest = ''a'', lease_durable = True, lease_attempt = None\<rparr>"
  let ?c = "new_coordinator\<lparr>lease := Some ?l, startup_claim := Some demo_request\<rparr>"
  have "reachable (init_system\<lparr>coord := ?c\<rparr>)"
    using reachable_step [OF reachable_init sys_step.rearm [of demo_request _ "Inr ()" ?c]]
    by (simp add: rearm_approved_repair_def demo_defs)
  from reachable_step [OF this sys_step.recovered]
  have "reachable (init_system\<lparr>coord := finish_recovery ?c\<rparr>)" by simp
  from reachable_step [OF this sys_step.verify [of "''a''" _ "Inr (mk_guard ''a'' 1)" "coord demo_claimed"]]
  show ?thesis
    by (simp add: acquire_repair_verification_def issue_repair_attempt_def next_token_def
        finish_recovery_def notify_waiters_def granted_def demo_defs)
qed

lemma demo_committed_reachable: "reachable demo_committed"
proof -
  let ?c = "(coord demo_committed)\<lparr>runtime_resumption := None\<rparr>"
  let ?d = "(coord demo_committed)\<lparr>runtime_resumption := Some SealActive\<rparr>"
  have "reachable (init_system\<lparr>coord := ?c\<rparr>)"
    using reachable_step [OF demo_claimed_reachable
        sys_step.guard_verified [of "mk_guard ''a'' 1" _ "Inr ()" ?c]]
    by (simp add: release_after_verification_def owns_attempt_def mk_guard_def Let_def
        clear_pending_manifest_def claims_manifest_def notify_waiters_def demo_defs)
  from reachable_step [OF this sys_step.resume_begin [of demo_request _ "Inr ()" ?d]]
  have "reachable (init_system\<lparr>coord := ?d, seals := 1\<rparr>)"
    by (simp add: begin_runtime_resumption_def demo_defs)
  from reachable_step [OF this sys_step.resume_commit]
  show ?thesis by (simp add: commit_resumption_def demo_defs)
qed

lemma demo_reserved_reachable: "reachable demo_reserved"
  using reachable_step [OF demo_claimed_reachable
      sys_step.guard_handoff [of "mk_guard ''a'' 1" _ 0 "next_apply demo_reservation" 9 "Inr ()"
        "coord demo_reserved" "Some 1"]]
  by (simp add: handoff_after_verification_def owns_attempt_def mk_guard_def Let_def
      issue_reservation_def next_token_def repair_is_expired_def clear_pending_manifest_def
      claims_manifest_def demo_defs)

subsection \<open>Exclusion\<close>

text \<open>C1 (exclusion): in every reachable state a live repair fence excludes every background
  writer, every analysis and every other fence, a live writer excludes analysis, and the
  coordinator's two counters are exactly the numbers of live guards.\<close>

theorem coordinator_exclusion:
  assumes "reachable s"
  shows "(fences s \<noteq> [] \<longrightarrow> bg_live s = 0 \<and> an_live s = 0 \<and> length (fences s) = 1 \<and> seals s = 0)
    \<and> (bg_live s \<noteq> 0 \<longrightarrow> an_live s = 0)
    \<and> unat (active_background (coord s)) = bg_live s
    \<and> unat (active_analysis (coord s)) = an_live s"
proof -
  have inv: "sys_inv s" by (rule reachable_inv [OF assms])
  have "bg_live s = 0 \<and> an_live s = 0 \<and> length (fences s) = 1 \<and> seals s = 0" if "fences s \<noteq> []"
  proof -
    from that have "hd (fences s) \<in> set (fences s)" by simp
    from fence_owns [OF inv this] show ?thesis using inv
      by (metis length_Cons list.size(3) One_nat_def sys_inv_def unsigned_0 option.distinct(1) of_bool_eq(1))
  qed
  moreover have "bg_live s \<noteq> 0 \<longrightarrow> an_live s = 0"
    using inv by (auto simp: sys_inv_def coord_inv_def)
  ultimately show ?thesis using inv by (simp add: sys_inv_def)
qed

lemma coordinator_exclusion_witness:
  "fences demo_fenced \<noteq> [] \<and> bg_live demo_fenced = 0 \<and> an_live demo_fenced = 0
    \<and> length (fences demo_fenced) = 1"
  using coordinator_exclusion [OF demo_fenced_reachable] by (simp add: demo_fenced_def)

text \<open>C8 (the guard methods cannot meet a foreign lease): on a guard alive in a reachable state,
  retaining and releasing before commit succeed, releasing after verification succeeds exactly
  when the lease is durable and answers \<open>Busy\<close> otherwise, and the lease names the guard's
  manifest and attempt. A handoff is refused only for its own arguments (no time to live, or the
  guard's own manifest), for a lease that is not durable, or for a next apply that has expired.\<close>

theorem live_fence_owns_its_lease:
  assumes "reachable s" "g \<in> set (fences s)"
  shows "\<exists>l t. lease (coord s) = Some l \<and> guard_attempt g = Some t
    \<and> owns_attempt (guard_manifest g) t l
    \<and> fst (retain_until_verification g (coord s)) = Inr ()
    \<and> fst (release_after_precommit_failure g (coord s)) = Inr ()
    \<and> fst (release_after_verification g (coord s))
        = (if lease_durable l then Inr () else Inl Busy)
    \<and> (\<forall>nxt ttl t0. fst (handoff_after_verification g nxt ttl t0 (coord s))
        = (if ttl = 0 \<or> req_manifest_id nxt = guard_manifest g then Inl Conflict
           else if \<not> lease_durable l then Inl Busy
           else if repair_is_expired (coord s) nxt then Inl Expired else Inr ()))"
proof -
  obtain l t where "lease (coord s) = Some l" "guard_attempt g = Some t"
    "owns_attempt (guard_manifest g) t l" "lease_manifest l = guard_manifest g"
    using fence_owns [OF reachable_inv [OF assms(1)] assms(2)] by metis
  then show ?thesis
    by (simp add: retain_until_verification_def release_after_precommit_failure_def
        release_after_verification_def handoff_after_verification_def issue_reservation_def
        repair_is_expired_def Let_def split: prod.splits)
qed

lemma live_fence_owns_its_lease_witness:
  "fst (retain_until_verification (mk_guard ''a'' 1) (coord demo_fenced)) = Inr ()"
  using live_fence_owns_its_lease [OF demo_fenced_reachable, of "mk_guard ''a'' 1"]
  by (auto simp: demo_fenced_def)


subsection \<open>Gating\<close>

lemma acquire_granted_lease:
  assumes "acquire_repair_turn m req deadline now reg c = (Returned (Inr g), c')"
  shows "\<exists>t l. g = mk_guard m t \<and> lease c' = Some l \<and> owns_attempt m t l"
proof -
  obtain reg' c0 where poll: "acquire_repair_poll m req now reg c = (Ready (Inr g), reg', c0)"
      and c': "c' = drop_registration reg' c0"
    using acquire_turn_granted [OF assms] by blast
  from poll show ?thesis
    by (cases rule: acquire_repair_poll_cases)
       (auto simp: c' owns_attempt_def provisional_lease_def)
qed

text \<open>C12 (what a granted fence shows): a call of \<open>acquire_approved_repair\<close> that returns a guard was
  made after recovery, with no sealed resumption, for the very request the startup claim and the
  chained reservation name (when there is one), for a request that never expired, with no
  analysis active; its guard names the request's manifest and owns the lease it leaves.\<close>

theorem approved_fence_gating:
  assumes "acquire_approved_turn r deadline now reg c = (Returned (Inr g), c')"
  shows "recovery_complete c \<and> runtime_resumption c = None \<and> \<not> startup_claim_complete c
    \<and> is_none_or ((=) r) (startup_claim c)
    \<and> r \<notin> set (expired_repairs c)
    \<and> is_none_or (\<lambda>q. r = next_apply q) (reserved_at now c)
    \<and> active_analysis c = 0
    \<and> guard_manifest g = req_manifest_id r
    \<and> (\<exists>t l. guard_attempt g = Some t \<and> lease c' = Some l \<and> owns_attempt (req_manifest_id r) t l)"
  using acquire_granted_facts acquire_granted_lease assms
  by (fastforce simp: acquire_approved_turn_def is_none_or_iff mk_guard_def)

lemma approved_fence_gating_witness:
  "recovery_complete (coord demo_recovered)
    \<and> demo_request \<notin> set (expired_repairs (coord demo_recovered))"
  using approved_fence_gating [OF demo_turn] by simp

text \<open>The two ways to start a background writer decide alike, and admit exactly
  after recovery with no analysis, no pending or leased repair, no reservation still running and
  no resumption seal; an analysis is admitted exactly when no writer is active, no repair is
  pending, the lease (if any) is durable without an attempt, and the rest likewise.\<close>

theorem admission_conditions:
  "begin_background_poll now c = try_begin_background now c
    \<and> fst (try_begin_background now c) = (recovery_complete c \<and> active_analysis c = 0
        \<and> pending c = None \<and> lease c = None \<and> runtime_resumption c = None
        \<and> (\<forall>r. reserved c = Some r \<longrightarrow> expires_at r \<le> now))
    \<and> fst (begin_analysis_poll now c) = (recovery_complete c \<and> active_background c = 0
        \<and> pending c = None \<and> repair_allows_analysis c \<and> runtime_resumption c = None
        \<and> (\<forall>r. reserved c = Some r \<longrightarrow> expires_at r \<le> now))"
  by (auto simp: begin_background_poll_eq try_begin_background_eq begin_analysis_poll_eq Let_def
      admits_background_def admits_analysis_def reserved_at_def split: option.splits if_splits)

lemma admission_conditions_witness:
  "fst (try_begin_background 5 (new_coordinator\<lparr>recovery_complete := True\<rparr>))
    \<and> \<not> fst (try_begin_background 5 new_coordinator)"
  using admission_conditions [of 5 "new_coordinator\<lparr>recovery_complete := True\<rparr>"]
    admission_conditions [of 5 new_coordinator]
  by (simp add: new_coordinator_def)

subsection \<open>Permanence\<close>

lemma expired_reach: "sys_step\<^sup>*\<^sup>* s t \<Longrightarrow> set (expired_repairs (coord s)) \<subseteq> set (expired_repairs (coord t))"
  by (induction rule: rtranclp_induct) (use expired_step in blast)+

lemma committed_reach:
  assumes "sys_step\<^sup>*\<^sup>* s t" "sys_inv s" "runtime_resumption (coord s) = Some SealCommitted"
  shows "runtime_resumption (coord t) = Some SealCommitted"
  using assms by (induction rule: coord_machine.reach_induct) (use committed_step in auto)

text \<open>C33 (the committed seal is final): once the resumption is committed, in every later state it
  still is, no background writer, no analysis and no repair fence is ever granted again.\<close>

theorem committed_seal_is_final:
  assumes "reachable s" "runtime_resumption (coord s) = Some SealCommitted" "sys_step\<^sup>*\<^sup>* s t"
  shows "runtime_resumption (coord t) = Some SealCommitted
    \<and> \<not> fst (try_begin_background now (coord t)) \<and> \<not> fst (begin_analysis_poll now (coord t))
    \<and> fst (acquire_approved_turn r deadline now reg (coord t)) \<noteq> Returned (Inr g)
    \<and> fst (acquire_repair_verification m (coord t)) = Inl Busy"
proof -
  have com: "runtime_resumption (coord t) = Some SealCommitted"
    using committed_reach [OF assms(3) reachable_inv [OF assms(1)] assms(2)] .
  moreover have "fst (acquire_approved_turn r deadline now reg (coord t)) \<noteq> Returned (Inr g)"
  proof
    assume "fst (acquire_approved_turn r deadline now reg (coord t)) = Returned (Inr g)"
    then obtain c' where "acquire_repair_turn (req_manifest_id r) (Some r) deadline now reg (coord t)
        = (Returned (Inr g), c')"
      by (metis acquire_approved_turn_def prod.collapse)
    from acquire_granted_facts [OF this] com show False by simp
  qed
  ultimately show ?thesis
    by (simp add: try_begin_background_eq begin_analysis_poll_eq Let_def admits_background_def
        admits_analysis_def acquire_repair_verification_def)
qed

lemma committed_seal_is_final_witness:
  "runtime_resumption (coord demo_committed) = Some SealCommitted
    \<and> \<not> fst (try_begin_background 7 (coord demo_committed))"
  using committed_seal_is_final [OF demo_committed_reachable, of demo_committed 7]
  by (simp add: demo_committed_def)

text \<open>A request whose reservation expired is never granted the fence
  again, in no later state and by no call.\<close>

theorem expired_request_is_never_granted:
  assumes "r \<in> set (expired_repairs (coord s))" "sys_step\<^sup>*\<^sup>* s t"
  shows "r \<in> set (expired_repairs (coord t))
    \<and> fst (acquire_approved_turn r deadline now reg (coord t)) \<noteq> Returned (Inr g)"
proof
  show r: "r \<in> set (expired_repairs (coord t))"
    using expired_reach [OF assms(2)] assms(1) by blast
  show "fst (acquire_approved_turn r deadline now reg (coord t)) \<noteq> Returned (Inr g)"
  proof
    assume "fst (acquire_approved_turn r deadline now reg (coord t)) = Returned (Inr g)"
    then obtain c' where "acquire_repair_turn (req_manifest_id r) (Some r) deadline now reg (coord t)
        = (Returned (Inr g), c')"
      by (metis acquire_approved_turn_def prod.collapse)
    from acquire_granted_facts [OF this] r show False by simp
  qed
qed

lemma expired_request_is_never_granted_witness:
  "let s = init_system\<lparr>coord := new_coordinator\<lparr>recovery_complete := True,
           expired_repairs := [demo_request]\<rparr>\<rparr>
   in demo_request \<in> set (expired_repairs (coord (s\<lparr>clock := clock s + 1\<rparr>)))"
  using expired_request_is_never_granted [of demo_request
      "init_system\<lparr>coord := new_coordinator\<lparr>recovery_complete := True,
           expired_repairs := [demo_request]\<rparr>\<rparr>",
      OF _ r_into_rtranclp [of sys_step, OF sys_step.tick [of _ 1]]]
  by (simp add: Let_def)

subsection \<open>Chained reservations\<close>

text \<open>C34 (a reservation is exclusive): while the reservation of a chained apply runs, no background
  writer and no analysis starts and no other request is granted the fence, while the reserved
  request is granted it (after recovery, when a startup claim names it and is still open).\<close>

theorem reservation_is_exclusive:
  assumes "reachable s" "reserved (coord s) = Some r" "now < expires_at r"
  shows "\<not> fst (try_begin_background now (coord s)) \<and> \<not> fst (begin_analysis_poll now (coord s))
    \<and> (\<forall>q. fst (acquire_approved_turn q deadline now reg (coord s)) = Returned (Inr g)
          \<longrightarrow> q = next_apply r)
    \<and> (recovery_complete (coord s) \<and> \<not> startup_claim_complete (coord s)
          \<and> is_none_or ((=) (next_apply r)) (startup_claim (coord s))
        \<longrightarrow> (\<exists>t. fst (acquire_approved_turn (next_apply r) deadline now None (coord s))
              = Returned (Inr (mk_guard (req_manifest_id (next_apply r)) t))))"
proof -
  let ?c = "coord s"
  have inv: "coord_inv ?c" using reachable_inv [OF assms(1)] by (simp add: sys_inv_def)
  have at: "reserved_at now ?c = Some r" using assms(2,3) by (simp add: reserved_at_def)
  have f: "lease ?c = None" "active_background ?c = 0" "active_analysis ?c = 0"
      "runtime_resumption ?c = None" "next_apply r \<notin> set (expired_repairs ?c)"
    using inv assms(2) by (auto simp: coord_inv_def)
  have only: "q = next_apply r"
    if "fst (acquire_approved_turn q deadline now reg ?c) = Returned (Inr g)" for q
  proof -
    from that obtain c' where "acquire_repair_turn (req_manifest_id q) (Some q) deadline now reg ?c
        = (Returned (Inr g), c')"
      by (metis acquire_approved_turn_def prod.collapse)
    from acquire_granted_facts [OF this] at show ?thesis by simp
  qed
  have grant: "\<exists>t. fst (acquire_approved_turn (next_apply r) deadline now None ?c)
      = Returned (Inr (mk_guard (req_manifest_id (next_apply r)) t))"
    if "recovery_complete ?c" "\<not> startup_claim_complete ?c"
      "is_none_or ((=) (next_apply r)) (startup_claim ?c)"
  proof -
    have "expire_reservation now ?c = (False, ?c)"
      using assms(2,3) by (simp add: expire_reservation_def)
    with that f assms(2) show ?thesis
      by (cases "startup_claim ?c")
         (auto simp: acquire_approved_turn_def acquire_repair_turn_def acquire_repair_poll_def
          notify_if_def acquire_reserved_def repair_is_expired_def issue_repair_attempt_def Let_def)
  qed
  from only grant at show ?thesis
    by (simp add: try_begin_background_eq begin_analysis_poll_eq Let_def admits_background_def
        admits_analysis_def)
qed

lemma reservation_is_exclusive_witness:
  "\<not> fst (try_begin_background 8 (coord demo_reserved))
    \<and> \<not> fst (begin_analysis_poll 8 (coord demo_reserved))"
  using reservation_is_exclusive [OF demo_reserved_reachable, of demo_reservation 8]
  by (simp add: demo_reserved_def demo_reservation_def)

text \<open>A reservation always has an expiry task of its generation to come, no
  earlier than its expiry; when the task fires the reservation is gone, its request is expired
  and the waiters are notified.\<close>

theorem reservation_expires:
  assumes "reachable s" "reserved (coord s) = Some r"
  shows "\<exists>t. (rsv_generation r, t) \<in> set (timers s)
    \<and> (\<forall>now \<ge> t. let c = expire_reserved_repair (rsv_generation r) now (coord s)
          in reserved c = None \<and> next_apply r \<in> set (expired_repairs c)
             \<and> notify_calls c = Suc (notify_calls (coord s)))"
proof -
  have "timer_inv (coord s) (timers s)" using reachable_inv [OF assms(1)] by (simp add: sys_inv_def)
  then obtain t where "(rsv_generation r, t) \<in> set (timers s)" "expires_at r \<le> t"
    using assms(2) by (auto simp: timer_inv_def)
  then show ?thesis using assms(2)
    by (auto simp: expire_reserved_repair_def notify_waiters_eq record_expired_repair_def Let_def)
qed

lemma reservation_expires_witness:
  "\<exists>t. (1, t) \<in> set (timers demo_reserved)
    \<and> reserved (expire_reserved_repair 1 t (coord demo_reserved)) = None"
  using reservation_expires [OF demo_reserved_reachable, of demo_reservation]
  by (fastforce simp: demo_reserved_def demo_reservation_def Let_def)

lemma reserved_at_cases: "reserved_at now c = reserved c \<or> (\<exists>r. reserved c = Some r \<and> expires_at r \<le> now)"
  by (auto simp: reserved_at_def split: option.splits)

lemma time_admits:
  assumes "fst (begin_background_poll now c) \<and> \<not> admits_background c
      \<or> fst (begin_analysis_poll now c) \<and> \<not> admits_analysis c"
  shows "\<exists>r. reserved c = Some r \<and> expires_at r \<le> now"
  using assms reserved_at_cases [of now c]
  by (elim disjE conjE) (auto simp: begin_background_poll_eq try_begin_background_eq begin_analysis_poll_eq
      Let_def admits_background_def admits_analysis_def split: if_splits)

text \<open>C35 (no lost wake-up): whatever step makes a background writer, an analysis or a waiting
  repair admissible that was not admissible before, that step notifies the waiters. The passage of time
  changes nothing of the coordinator and notifies nobody: a call that is admitted only because a
  reservation has run out by now finds that reservation with its expiry task still to come, and the task
  clears it and notifies the waiters when it fires.\<close>

theorem no_lost_wakeup:
  "(\<forall>t. sys_step s t
      \<and> (\<not> admits_background (coord s) \<and> admits_background (coord t)
         \<or> \<not> admits_analysis (coord s) \<and> admits_analysis (coord t)
         \<or> \<not> idle (coord s) \<and> idle (coord t))
      \<longrightarrow> notify_calls (coord s) < notify_calls (coord t))
   \<and> (reachable s
      \<and> (fst (begin_background_poll now (coord s)) \<and> \<not> admits_background (coord s)
         \<or> fst (begin_analysis_poll now (coord s)) \<and> \<not> admits_analysis (coord s))
      \<longrightarrow> (\<exists>r t. reserved (coord s) = Some r \<and> expires_at r \<le> now \<and> (rsv_generation r, t) \<in> set (timers s)
            \<and> (\<forall>u \<ge> t. let c = expire_reserved_repair (rsv_generation r) u (coord s)
                  in reserved c = None \<and> notify_calls c = Suc (notify_calls (coord s)))))"
proof (intro conjI allI impI)
  fix t
  assume "sys_step s t \<and> (\<not> admits_background (coord s) \<and> admits_background (coord t)
      \<or> \<not> admits_analysis (coord s) \<and> admits_analysis (coord t) \<or> \<not> idle (coord s) \<and> idle (coord t))"
  then show "notify_calls (coord s) < notify_calls (coord t)"
    using wakes_step [of s t] by (auto simp: wakes_def quiet_def)
next
  assume a: "reachable s \<and> (fst (begin_background_poll now (coord s)) \<and> \<not> admits_background (coord s)
      \<or> fst (begin_analysis_poll now (coord s)) \<and> \<not> admits_analysis (coord s))"
  then obtain r where r: "reserved (coord s) = Some r" "expires_at r \<le> now" using time_admits by blast
  with reservation_expires [of s r] a
  show "\<exists>r t. reserved (coord s) = Some r \<and> expires_at r \<le> now \<and> (rsv_generation r, t) \<in> set (timers s)
      \<and> (\<forall>u \<ge> t. let c = expire_reserved_repair (rsv_generation r) u (coord s)
            in reserved c = None \<and> notify_calls c = Suc (notify_calls (coord s)))"
    unfolding Let_def by blast
qed

lemma no_lost_wakeup_witness:
  "notify_calls (coord init_system) < notify_calls (coord demo_recovered)
   \<and> (\<exists>t. (1, t) \<in> set (timers demo_reserved)
        \<and> notify_calls (expire_reserved_repair 1 t (coord demo_reserved)) = Suc (notify_calls (coord demo_reserved)))"
proof
  show "notify_calls (coord init_system) < notify_calls (coord demo_recovered)"
    using no_lost_wakeup [THEN conjunct1, rule_format, of init_system demo_recovered]
      sys_step.recovered [of init_system]
    by (simp add: demo_recovered_def init_system_def new_coordinator_def admits_background_def
        finish_recovery_def notify_waiters_def)
  let ?c = "coord demo_reserved"
  have "fst (begin_background_poll (expires_at demo_reservation) ?c) \<and> \<not> admits_background ?c"
    by (simp add: begin_background_poll_eq try_begin_background_eq Let_def admits_background_def reserved_at_def
        demo_reserved_def demo_reservation_def new_coordinator_def)
  with no_lost_wakeup [THEN conjunct2, rule_format, of demo_reserved] demo_reserved_reachable
  obtain r t where "reserved ?c = Some r" "(rsv_generation r, t) \<in> set (timers demo_reserved)"
    "notify_calls (expire_reserved_repair (rsv_generation r) t ?c) = Suc (notify_calls ?c)"
    unfolding Let_def by blast
  then show "\<exists>t. (1, t) \<in> set (timers demo_reserved)
      \<and> notify_calls (expire_reserved_repair 1 t ?c) = Suc (notify_calls ?c)"
    by (auto simp: demo_reserved_def demo_reservation_def)
qed

subsection \<open>The approval phrase\<close>

lemma valid_manifest_id_length: "valid_manifest_id m \<Longrightarrow> length m = 43"
  by (auto simp: valid_manifest_id_def strip_prefix_def uuid_shape_def split: option.splits if_splits)

text \<open>A request that was accepted carries the
  phrase spelled from its own manifest and digest, and one phrase is accepted for one manifest
  and one digest only.\<close>

theorem approval_phrase_is_exact:
  assumes "apply_request_try_new m d a = Inr r"
  shows "r = \<lparr>req_manifest_id = m, approved_manifest_digest = d, approval = a\<rparr>
    \<and> a = ''apply repair '' @ m @ '' '' @ d
    \<and> (\<forall>m' d' r'. apply_request_try_new m' d' a = Inr r' \<longrightarrow> m' = m \<and> d' = d \<and> r' = r)"
proof -
  have r: "valid_manifest_id m" "a = ''apply repair '' @ m @ '' '' @ d"
      "r = \<lparr>req_manifest_id = m, approved_manifest_digest = d, approval = a\<rparr>"
    using assms by (auto simp: apply_request_try_new_def Let_def split: if_splits)
  have "m' = m \<and> d' = d \<and> r' = r" if "apply_request_try_new m' d' a = Inr r'" for m' d' r'
  proof -
    have r': "valid_manifest_id m'" "a = ''apply repair '' @ m' @ '' '' @ d'"
        "r' = \<lparr>req_manifest_id = m', approved_manifest_digest = d', approval = a\<rparr>"
      using that by (auto simp: apply_request_try_new_def Let_def split: if_splits)
    have "length m = length m'" using r(1) r'(1) by (simp add: valid_manifest_id_length)
    with r(2) r'(2) have "m' = m \<and> d' = d" by auto
    with r(3) r'(3) show ?thesis by simp
  qed
  with r show ?thesis by blast
qed

lemma approval_phrase_is_exact_witness:
  "approval \<lparr>req_manifest_id = ''repair_01234567-89ab-cdef-0123-456789abcdef'',
     approved_manifest_digest = ''d'',
     approval = ''apply repair repair_01234567-89ab-cdef-0123-456789abcdef d''\<rparr>
   = ''apply repair '' @ ''repair_01234567-89ab-cdef-0123-456789abcdef'' @ '' '' @ ''d''"
proof -
  have "apply_request_try_new ''repair_01234567-89ab-cdef-0123-456789abcdef'' ''d''
      ''apply repair repair_01234567-89ab-cdef-0123-456789abcdef d'' = Inr
    \<lparr>req_manifest_id = ''repair_01234567-89ab-cdef-0123-456789abcdef'',
     approved_manifest_digest = ''d'',
     approval = ''apply repair repair_01234567-89ab-cdef-0123-456789abcdef d''\<rparr>"
    by code_simp
  from approval_phrase_is_exact [OF this] show ?thesis by simp
qed

end
