(* ===== verification/Resource_Policy.thy ===== *)
theory Resource_Policy
  imports Complex_Main Prelude
begin

text \<open>
  Resource admission of the scheduler (\<open>crates/wenlan-server/src/scheduler.rs\<close> and
  \<open>host_activity.rs\<close>): the memory and CPU policy, the count of consecutive idle samples, the
  host veto, the thermal cooldown and the gates built from them. What \<open>sysinfo\<close> measures is an
  argument of \<open>probe_sample\<close>; its minimum refresh interval is the parameter \<open>min_interval\<close>.

  A CPU percentage is an \<open>f32\<close>: a rational number, an infinity or NaN; comparing a finite
  percentage with the policy's finite limit is exact. A \<open>Duration\<close> saturates at
  \<open>duration_max\<close>.
\<close>

subsection \<open>Snapshots and reasons\<close>

datatype f32 = Finite rat | Infinite | NotANumber

record resource_snapshot =
  cpu_usage_percent :: f32
  available_memory_bytes :: u64
  total_memory_bytes :: u64

datatype resource_block_reason = Warming | Unavailable | CpuBusy | MemoryPressure
  | ForegroundActive | HostActivityUnavailable | ThermalPressure

datatype host_activity_snapshot = HostUnsupported | HostUnavailable
  | HostObserved (host_thermal: u8) (host_idle_for: duration)

definition gib :: u64 where
  "gib = 1073741824"

definition on_device_inference_headroom_bytes :: u64 where
  "on_device_inference_headroom_bytes = 2 * gib"

definition foreground_input_idle_threshold :: duration where
  "foreground_input_idle_threshold = secs 60"

subsection \<open>The policy\<close>

definition sat_add_u64 :: "u64 \<Rightarrow> u64 \<Rightarrow> u64" where
  "sat_add_u64 a b = (if unat a + unat b < 2 ^ 64 then a + b else - 1)"

definition sat_mul_u64 :: "u64 \<Rightarrow> u64 \<Rightarrow> u64" where
  "sat_mul_u64 a b = (if unat a * unat b < 2 ^ 64 then a * b else - 1)"

record resource_policy =
  max_cpu_usage_percent :: rat
  min_available_memory_bytes :: u64
  min_available_memory_percent :: u64
  additional_memory_headroom_bytes :: u64
  idle_samples_required :: u8

definition conservative :: resource_policy where
  "conservative = \<lparr>max_cpu_usage_percent = 20, min_available_memory_bytes = 2 * gib,
     min_available_memory_percent = 15, additional_memory_headroom_bytes = 0,
     idle_samples_required = 2\<rparr>"

definition with_additional_memory_headroom :: "resource_policy \<Rightarrow> u64 \<Rightarrow> resource_policy" where
  "with_additional_memory_headroom p bytes = p\<lparr>additional_memory_headroom_bytes := bytes\<rparr>"

definition memory_floor :: "resource_policy \<Rightarrow> u64 \<Rightarrow> u64" where
  "memory_floor p bytes =
     sat_add_u64 (max (min_available_memory_bytes p)
                    (sat_mul_u64 bytes (min_available_memory_percent p) div 100))
       (additional_memory_headroom_bytes p)"

definition policy_block_reason ::
    "resource_policy \<Rightarrow> resource_snapshot \<Rightarrow> resource_block_reason option" where
  "policy_block_reason p s =
     (case cpu_usage_percent s of
        Finite cpu \<Rightarrow>
          if total_memory_bytes s = 0 then Some Unavailable
          else if available_memory_bytes s < memory_floor p (total_memory_bytes s)
          then Some MemoryPressure
          else if cpu > max_cpu_usage_percent p then Some CpuBusy
          else None
      | _ \<Rightarrow> Some Unavailable)"

definition host_activity_block_reason ::
    "host_activity_snapshot \<Rightarrow> resource_block_reason option" where
  "host_activity_block_reason h =
     (case h of
        HostUnsupported \<Rightarrow> None
      | HostUnavailable \<Rightarrow> Some HostActivityUnavailable
      | HostObserved thermal idle \<Rightarrow>
          if thermal \<noteq> 0 then Some ThermalPressure
          else if idle < foreground_input_idle_threshold then Some ForegroundActive
          else None)"

text \<open>Deriving the host snapshot from what the macOS probe returns (\<open>None\<close> for an idle time that
  is no valid duration).\<close>

definition sample_host_activity :: "int \<Rightarrow> duration option \<Rightarrow> host_activity_snapshot" where
  "sample_host_activity thermal idle =
     (if thermal < 0 \<or> thermal > 255 then HostUnavailable
      else if thermal > 3 then HostUnavailable
      else (case idle of None \<Rightarrow> HostUnavailable
            | Some d \<Rightarrow> HostObserved (word_of_int thermal) d))"

subsection \<open>Admission over consecutive samples\<close>

record resource_admission =
  consecutive_idle_samples :: u8

definition new_admission :: resource_admission where
  "new_admission = \<lparr>consecutive_idle_samples = 0\<rparr>"

definition observe ::
    "resource_snapshot \<Rightarrow> resource_policy \<Rightarrow> resource_admission \<Rightarrow> bool \<times> resource_admission" where
  "observe s p a =
     (if policy_block_reason p s \<noteq> None then (False, a\<lparr>consecutive_idle_samples := 0\<rparr>)
      else let n = sat_inc (consecutive_idle_samples a)
           in (n \<ge> idle_samples_required p, a\<lparr>consecutive_idle_samples := n\<rparr>))"

record resource_status =
  st_admitted :: bool
  st_snapshot :: "resource_snapshot option"
  st_block_reason :: "resource_block_reason option"

definition apply_host_activity ::
    "resource_status \<Rightarrow> host_activity_snapshot \<Rightarrow> resource_status" where
  "apply_host_activity st h =
     (case host_activity_block_reason h of
        None \<Rightarrow> st
      | Some r \<Rightarrow> st\<lparr>st_admitted := False, st_block_reason := Some r\<rparr>)"

record resource_probe =
  last_refresh :: instant
  probe_admission :: resource_admission

definition new_probe :: "instant \<Rightarrow> resource_probe" where
  "new_probe now = \<lparr>last_refresh = now, probe_admission = new_admission\<rparr>"

definition probe_sample ::
    "duration \<Rightarrow> resource_snapshot \<Rightarrow> instant \<Rightarrow> resource_policy \<Rightarrow> resource_probe
     \<Rightarrow> resource_status \<times> resource_probe" where
  "probe_sample min_interval measured now p pr =
     (if now - last_refresh pr < min_interval
      then (\<lparr>st_admitted = False, st_snapshot = None, st_block_reason = Some Warming\<rparr>, pr)
      else let policy_block = policy_block_reason p measured;
               (ok, a) = observe measured p (probe_admission pr)
           in (\<lparr>st_admitted = ok, st_snapshot = Some measured,
                st_block_reason = (case policy_block of Some r \<Rightarrow> Some r
                  | None \<Rightarrow> if \<not> ok then Some Warming else None)\<rparr>,
               pr\<lparr>last_refresh := now, probe_admission := a\<rparr>))"

definition observe_deferred_resource_reason ::
    "resource_block_reason option \<Rightarrow> bool \<Rightarrow> resource_block_reason option
     \<Rightarrow> resource_block_reason option \<times> resource_block_reason option" where
  "observe_deferred_resource_reason previous ok reason =
     (let current = (if \<not> ok then reason else None);
          changed = (current \<noteq> None \<and> current \<noteq> previous)
      in (if changed then current else None, current))"

subsection \<open>Thermal cooldown\<close>

definition duration_max :: duration where
  "duration_max = (2 ^ 64 - 1) * 1000000000 + 999999999"

definition ambient_min_recovery :: duration where
  "ambient_min_recovery = secs 120"

record thermal_policy =
  minimum_cooldown :: duration
  recovery_multiplier :: nat

definition thermal_conservative :: thermal_policy where
  "thermal_conservative = \<lparr>minimum_cooldown = ambient_min_recovery, recovery_multiplier = 19\<rparr>"

definition cooldown_after :: "thermal_policy \<Rightarrow> duration \<Rightarrow> duration" where
  "cooldown_after p elapsed =
     max (minimum_cooldown p) (min duration_max (elapsed * recovery_multiplier p))"

subsection \<open>Gates\<close>

definition startup_model_reservation_blocks_route :: "bool \<Rightarrow> bool \<Rightarrow> bool" where
  "startup_model_reservation_blocks_route startup_reserved on_device \<longleftrightarrow> startup_reserved \<and> on_device"

definition background_heavy_resource_admitted :: "resource_status \<Rightarrow> bool \<Rightarrow> bool \<Rightarrow> bool" where
  "background_heavy_resource_admitted st startup_reserved on_device \<longleftrightarrow>
     (let route_memory = (\<not> on_device \<or> is_some_and (\<lambda>s. policy_block_reason
            (with_additional_memory_headroom conservative on_device_inference_headroom_bytes) s = None)
            (st_snapshot st))
      in st_admitted st \<and> route_memory
         \<and> \<not> startup_model_reservation_blocks_route startup_reserved on_device)"

definition periodic_directory_sync_allowed :: "bool \<Rightarrow> bool" where
  "periodic_directory_sync_allowed resource_admitted = resource_admitted"

definition ambient_turn_allowed :: "bool \<Rightarrow> instant \<Rightarrow> instant \<Rightarrow> bool" where
  "ambient_turn_allowed system_idle now next_allowed \<longleftrightarrow> system_idle \<and> now \<ge> next_allowed"

definition automatic_heavy_turn_allowed :: "bool \<Rightarrow> bool \<Rightarrow> instant \<Rightarrow> instant \<Rightarrow> bool" where
  "automatic_heavy_turn_allowed system_idle ambient_owed now next_allowed \<longleftrightarrow>
     \<not> ambient_owed \<and> ambient_turn_allowed system_idle now next_allowed"

definition automatic_work_consumes_thermal_turn :: "bool \<Rightarrow> nat \<Rightarrow> bool \<Rightarrow> bool" where
  "automatic_work_consumes_thermal_turn selected llm_calls panicked \<longleftrightarrow>
     selected \<or> llm_calls > 0 \<or> panicked"

subsection \<open>The import lane's admission (\<open>scheduler/import_priority.rs\<close>)\<close>

definition import_priority_block_reason_with_headroom ::
    "resource_status \<Rightarrow> host_activity_snapshot \<Rightarrow> bool \<Rightarrow> u64 \<Rightarrow> resource_block_reason option" where
  "import_priority_block_reason_with_headroom st h startup_reserved headroom =
     (case st_snapshot st of
        None \<Rightarrow> Some (case st_block_reason st of
                   Some r \<Rightarrow> if r = Warming \<or> r = Unavailable then r else Unavailable
                 | None \<Rightarrow> Unavailable)
      | Some s \<Rightarrow>
          let mem = policy_block_reason (with_additional_memory_headroom conservative headroom) s
          in if is_some_and (\<lambda>r. r \<noteq> CpuBusy) mem then mem
             else if startup_reserved \<and> headroom > 0 then Some Warming
             else (case h of
                     HostUnavailable \<Rightarrow> Some HostActivityUnavailable
                   | HostObserved thermal _ \<Rightarrow> if thermal \<noteq> 0 then Some ThermalPressure else None
                   | HostUnsupported \<Rightarrow> None))"

definition import_priority_block_reason ::
    "resource_status \<Rightarrow> host_activity_snapshot \<Rightarrow> bool \<Rightarrow> bool \<Rightarrow> resource_block_reason option" where
  "import_priority_block_reason st h startup_reserved on_device =
     import_priority_block_reason_with_headroom st h startup_reserved
       (if on_device then on_device_inference_headroom_bytes else 0)"

definition import_document_prep_block_reason ::
    "resource_status \<Rightarrow> host_activity_snapshot \<Rightarrow> bool \<Rightarrow> resource_block_reason option" where
  "import_document_prep_block_reason st h startup_reserved =
     (case import_priority_block_reason_with_headroom st h False 0 of
        Some r \<Rightarrow> Some r
      | None \<Rightarrow> if startup_reserved then Some Warming else None)"

datatype directory_sync_scope = SyncAll | FirstSyncOnly

definition directory_sync_scope ::
    "resource_status \<Rightarrow> host_activity_snapshot \<Rightarrow> bool \<Rightarrow> directory_sync_scope option" where
  "directory_sync_scope st h startup_reserved =
     (if periodic_directory_sync_allowed (st_admitted st) then Some SyncAll
      else if import_document_prep_block_reason st h startup_reserved = None
      then Some FirstSyncOnly else None)"

text \<open>One turn of the loop of \<open>wait_for_startup_model_admission\<close> that did not shut down: the status
  the load is decided on.\<close>

definition startup_admission_status ::
    "bool \<Rightarrow> u64 \<Rightarrow> host_activity_snapshot \<Rightarrow> resource_status \<Rightarrow> resource_status" where
  "startup_admission_status import_active working_set h sampled =
     (if import_active
      then sampled\<lparr>st_admitted :=
             import_priority_block_reason_with_headroom sampled h False working_set = None\<rparr>
      else apply_host_activity sampled h)"

subsection \<open>The idle count\<close>

definition passes :: "resource_policy \<Rightarrow> resource_snapshot \<Rightarrow> bool" where
  "passes p s \<longleftrightarrow> policy_block_reason p s = None"

text \<open>The admission after a sequence of samples, the oldest first.\<close>

fun observe_all ::
    "resource_policy \<Rightarrow> resource_snapshot list \<Rightarrow> resource_admission \<Rightarrow> resource_admission" where
  "observe_all p [] a = a"
| "observe_all p (s # ss) a = observe_all p ss (snd (observe s p a))"

lemma observe_all_append:
  "observe_all p (ss @ ts) a = observe_all p ts (observe_all p ss a)"
  by (induction ss arbitrary: a) auto

lemma observe_all_count:
  "unat (consecutive_idle_samples (observe_all p ss new_admission))
     = min 255 (length (takeWhile (passes p) (rev ss)))"
proof (induction ss rule: rev_induct)
  case Nil
  then show ?case by (simp add: new_admission_def)
next
  case (snoc s ss)
  then show ?case
    using unat_sat_inc [of "consecutive_idle_samples (observe_all p ss new_admission)"]
    by (auto simp: observe_all_append observe_def Let_def passes_def min_def)
qed

lemma length_takeWhile_ge:
  "k \<le> length (takeWhile P xs) \<longleftrightarrow> k \<le> length xs \<and> (\<forall>x \<in> set (take k xs). P x)"
proof (induction xs arbitrary: k)
  case (Cons x xs)
  then show ?case by (cases k) auto
qed auto

text \<open>C39 (idle samples): the admission of a sample after any history says yes exactly when the
  last \<open>idle_samples_required\<close> samples, this one included, all pass the policy; the saturating
  counter loses nothing.\<close>

theorem admission_needs_consecutive_idle_samples:
  assumes "0 < idle_samples_required p"
  shows "fst (observe s p (observe_all p ss new_admission))
    \<longleftrightarrow> unat (idle_samples_required p) \<le> Suc (length ss)
      \<and> (\<forall>x \<in> set (take (unat (idle_samples_required p)) (s # rev ss)). policy_block_reason p x = None)"
proof -
  let ?k = "unat (idle_samples_required p)" and ?a = "observe_all p ss new_admission"
  have "?k < 2 ^ LENGTH(8)" by (rule unsigned_less)
  then have k: "0 < ?k" "?k \<le> 255"
    using assms by (auto simp: word_less_nat_alt)
  have run: "?k \<le> Suc (length (takeWhile (passes p) (rev ss)))
      \<longleftrightarrow> ?k - 1 \<le> length (takeWhile (passes p) (rev ss))" by auto
  show ?thesis
  proof (cases "passes p s")
    case True
    have "fst (observe s p ?a) \<longleftrightarrow> ?k \<le> Suc (length (takeWhile (passes p) (rev ss)))"
      using True k unat_sat_inc [of "consecutive_idle_samples ?a"] observe_all_count [of p ss]
      by (auto simp: observe_def Let_def passes_def word_le_nat_alt)
    also have "\<dots> \<longleftrightarrow> ?k \<le> length (takeWhile (passes p) (s # rev ss))" using True by simp
    finally show ?thesis
      unfolding length_takeWhile_ge by (simp add: passes_def)
  next
    case False
    with k show ?thesis by (cases ?k) (auto simp: observe_def passes_def)
  qed
qed

definition demo_sample :: resource_snapshot where
  "demo_sample = \<lparr>cpu_usage_percent = Finite 5, available_memory_bytes = 8 * gib,
     total_memory_bytes = 16 * gib\<rparr>"

lemma admission_needs_consecutive_idle_samples_witness:
  "fst (observe demo_sample conservative (observe_all conservative [demo_sample] new_admission))"
proof -
  have "policy_block_reason conservative demo_sample = None"
    by (simp add: policy_block_reason_def demo_sample_def conservative_def memory_floor_def
        sat_mul_u64_def sat_add_u64_def gib_def)
  moreover have "0 < idle_samples_required conservative" "unat (idle_samples_required conservative) = 2"
    by (simp_all add: conservative_def)
  ultimately show ?thesis
    using admission_needs_consecutive_idle_samples [of conservative demo_sample "[demo_sample]"]
    by simp
qed

subsection \<open>The memory reserve\<close>

lemma unat_sat_add_u64: "unat (sat_add_u64 a b) = min (2 ^ 64 - 1) (unat a + unat b)"
  by (auto simp: sat_add_u64_def unat_word_ariths unsigned_minus_1_eq_mask mask_eq_exp_minus_1)

lemma unat_sat_mul_u64: "unat (sat_mul_u64 a b) = min (2 ^ 64 - 1) (unat a * unat b)"
  by (auto simp: sat_mul_u64_def unat_word_ariths unsigned_minus_1_eq_mask mask_eq_exp_minus_1)

lemma unat_max: "unat (max a b) = max (unat a) (unat b)" for a b :: u64
  by (simp add: max_def word_le_nat_alt)

lemma unat_memory_floor:
  "unat (memory_floor p t) = min (2 ^ 64 - 1)
     (max (unat (min_available_memory_bytes p))
        (min (2 ^ 64 - 1) (unat t * unat (min_available_memory_percent p)) div 100)
      + unat (additional_memory_headroom_bytes p))"
  by (simp add: memory_floor_def unat_sat_add_u64 unat_sat_mul_u64 unat_max unat_div)

text \<open>Whatever lane lets on-device inference start, the ordinary one or
  the import lane, the last sample left at least 4 GiB available, and 2 GiB more than 15 per cent
  of the memory (the product with 15 saturating), and no startup load holds the reservation.\<close>

theorem on_device_work_keeps_the_reserve:
  assumes "background_heavy_resource_admitted st sr True
      \<or> import_priority_block_reason st h sr True = None"
  shows "\<not> sr \<and> (\<exists>s. st_snapshot st = Some s \<and> 4 * 2 ^ 30 \<le> unat (available_memory_bytes s)
    \<and> min (2 ^ 64 - 1) (unat (total_memory_bytes s) * 15) div 100 + 2 * 2 ^ 30
        \<le> unat (available_memory_bytes s))"
proof -
  let ?p = "with_additional_memory_headroom conservative on_device_inference_headroom_bytes"
  have floor: "4 * 2 ^ 30 \<le> unat a \<and> min (2 ^ 64 - 1) (unat t * 15) div 100 + 2 * 2 ^ 30 \<le> unat a"
    if "memory_floor ?p t \<le> a" for t a :: u64
  proof -
    have "unat (memory_floor ?p t) \<le> unat a" using that by (simp add: word_le_nat_alt)
    then have "min (2 ^ 64 - 1) (max (2 * 2 ^ 30) (min (2 ^ 64 - 1) (unat t * 15) div 100)
        + 2 * 2 ^ 30) \<le> unat a"
      by (simp add: unat_memory_floor with_additional_memory_headroom_def conservative_def gib_def
          on_device_inference_headroom_bytes_def)
    moreover have "min (2 ^ 64 - 1) (unat t * 15) div 100 \<le> (2 ^ 64 - 1) div 100"
      by (intro div_le_mono) simp
    ultimately show ?thesis by (simp add: min_def max_def split: if_splits)
  qed
  have ex: "\<exists>s. st_snapshot st = Some s \<and> policy_block_reason ?p s \<noteq> Some MemoryPressure
      \<and> policy_block_reason ?p s \<noteq> Some Unavailable \<and> \<not> sr"
    using assms
  proof
    assume "background_heavy_resource_admitted st sr True"
    then show ?thesis
      by (auto simp: background_heavy_resource_admitted_def is_some_and_iff
          startup_model_reservation_blocks_route_def)
  next
    assume "import_priority_block_reason st h sr True = None"
    then show ?thesis
      by (auto simp: import_priority_block_reason_def import_priority_block_reason_with_headroom_def
          is_some_and_iff Let_def on_device_inference_headroom_bytes_def gib_def
          split: option.splits if_splits)
  qed
  then obtain s where s: "st_snapshot st = Some s" "\<not> sr"
      "policy_block_reason ?p s \<noteq> Some MemoryPressure" "policy_block_reason ?p s \<noteq> Some Unavailable"
    by blast
  then have "memory_floor ?p (total_memory_bytes s) \<le> available_memory_bytes s"
    by (auto simp: policy_block_reason_def not_less split: f32.splits if_splits)
  with floor s show ?thesis by blast
qed

lemma on_device_work_keeps_the_reserve_witness:
  "let st = \<lparr>st_admitted = True, st_snapshot = Some demo_sample, st_block_reason = None\<rparr>
   in \<exists>s. st_snapshot st = Some s \<and> 4 * 2 ^ 30 \<le> unat (available_memory_bytes s)"
proof -
  have "import_priority_block_reason
      \<lparr>st_admitted = True, st_snapshot = Some demo_sample, st_block_reason = None\<rparr>
      HostUnsupported False True = None"
    by (simp add: import_priority_block_reason_def import_priority_block_reason_with_headroom_def
        policy_block_reason_def demo_sample_def conservative_def memory_floor_def sat_mul_u64_def
        sat_add_u64_def gib_def with_additional_memory_headroom_def
        on_device_inference_headroom_bytes_def)
  then show ?thesis
    using on_device_work_keeps_the_reserve [of
      "\<lparr>st_admitted = True, st_snapshot = Some demo_sample, st_block_reason = None\<rparr>" False HostUnsupported]
    by (simp add: Let_def demo_sample_def gib_def)
qed


subsection \<open>Thermal budget and the import lane\<close>

text \<open>After thermal work of \<open>elapsed\<close> the recovery is at least two minutes, and work
  is at most 5 per cent of work and recovery together (as long as nineteen times the work is a
  representable duration).\<close>

theorem thermal_duty_cycle:
  assumes "19 * elapsed \<le> duration_max"
  shows "secs 120 \<le> cooldown_after thermal_conservative elapsed
    \<and> 100 * elapsed \<le> 5 * (elapsed + cooldown_after thermal_conservative elapsed)"
  using assms
  by (auto simp: cooldown_after_def thermal_conservative_def ambient_min_recovery_def max_def min_def)

lemma thermal_duty_cycle_witness:
  "100 * secs 60 \<le> 5 * (secs 60 + cooldown_after thermal_conservative (secs 60))"
  using thermal_duty_cycle [of "secs 60"] by (simp add: secs_def duration_max_def)

text \<open>Whenever the ordinary lane may start background work on
  a sampled status after the host's veto, the import lane may start the same work.\<close>

theorem import_lane_admits_what_the_ordinary_lane_does:
  assumes "probe_sample iv m now conservative pr = (st, pr')"
    and "background_heavy_resource_admitted (apply_host_activity st h) sr od"
  shows "import_priority_block_reason st h sr od = None"
proof -
  from assms(2) have adm: "st_admitted st" and host: "host_activity_block_reason h = None"
    by (auto simp: background_heavy_resource_admitted_def apply_host_activity_def Let_def
        split: option.splits)
  from assms(1) adm have snap: "st_snapshot st = Some m" and pol: "policy_block_reason conservative m = None"
    by (auto simp: probe_sample_def observe_def Let_def split: if_splits prod.splits)
  have same: "with_additional_memory_headroom conservative 0 = conservative"
    by (simp add: with_additional_memory_headroom_def conservative_def)
  from host have th: "h = HostUnsupported \<or> (\<exists>idle. h = HostObserved 0 idle)"
    by (auto simp: host_activity_block_reason_def split: host_activity_snapshot.splits if_splits)
  show ?thesis
  proof (cases od)
    case True
    with assms(2) host snap show ?thesis using th
      by (auto simp: background_heavy_resource_admitted_def apply_host_activity_def Let_def
          startup_model_reservation_blocks_route_def import_priority_block_reason_def
          import_priority_block_reason_with_headroom_def)
  next
    case False
    with snap pol th same show ?thesis
      by (auto simp: import_priority_block_reason_def import_priority_block_reason_with_headroom_def)
  qed
qed

lemma import_lane_admits_what_the_ordinary_lane_does_witness:
  "let pr = (new_probe 0)\<lparr>probe_admission := \<lparr>consecutive_idle_samples = 1\<rparr>\<rparr>
   in import_priority_block_reason (fst (probe_sample 1 demo_sample 2 conservative pr))
        HostUnsupported False False = None"
proof -
  have pol: "policy_block_reason conservative demo_sample = None"
    by (simp add: policy_block_reason_def demo_sample_def conservative_def memory_floor_def
        sat_mul_u64_def sat_add_u64_def gib_def)
  let ?pr = "(new_probe 0)\<lparr>probe_admission := \<lparr>consecutive_idle_samples = 1\<rparr>\<rparr>"
  have "background_heavy_resource_admitted (apply_host_activity
      (fst (probe_sample 1 demo_sample 2 conservative ?pr)) HostUnsupported) False False"
    using pol by (simp add: probe_sample_def new_probe_def observe_def sat_inc_def conservative_def
        background_heavy_resource_admitted_def apply_host_activity_def
        host_activity_block_reason_def startup_model_reservation_blocks_route_def)
  then show ?thesis
    using import_lane_admits_what_the_ordinary_lane_does [of 1 demo_sample 2 ?pr
        "fst (probe_sample 1 demo_sample 2 conservative ?pr)"
        "snd (probe_sample 1 demo_sample 2 conservative ?pr)" HostUnsupported False False]
    by (simp add: Let_def)
qed

end
