(* ===== verification/Ambient_Schedule.thy ===== *)
theory Ambient_Schedule
  imports Resource_Policy
begin

text \<open>
  The ambient lane of the scheduler (\<open>crates/wenlan-server/src/scheduler/ambient.rs\<close>, and the
  ambient section of the loop in \<open>scheduler.rs\<close>): the ten jobs, which of them a provider makes
  available, the round-robin cursor with its back-off times, one lap over the due jobs and the
  cooldown charged for it. What a job does (database and model) is the report it returns, an
  argument of the lap; the four environment switches of \<open>wenlan_core::db\<close> are arguments of
  \<open>for_provider\<close>.
\<close>

subsection \<open>Jobs and availability\<close>

datatype ambient_job = Document | Classification | StructuredExtract | Entity | Title | PageGrowth
  | Reconcile | Citation | EdgeGroundingPromote | EntityIdleArchive

definition all_jobs :: "ambient_job list" where
  "all_jobs = [Document, Classification, StructuredExtract, Entity, Title, PageGrowth, Reconcile,
     Citation, EdgeGroundingPromote, EntityIdleArchive]"

fun job_key :: "ambient_job \<Rightarrow> string" where
  "job_key Document = ''document''"
| "job_key Classification = ''classification''"
| "job_key StructuredExtract = ''structured_extract''"
| "job_key Entity = ''entity''"
| "job_key Title = ''title''"
| "job_key PageGrowth = ''page_growth''"
| "job_key Reconcile = ''reconcile''"
| "job_key Citation = ''citation''"
| "job_key EdgeGroundingPromote = ''edge_grounding_promote''"
| "job_key EntityIdleArchive = ''entity_idle_archive''"

definition ambient_last_run_key :: "ambient_job \<Rightarrow> string" where
  "ambient_last_run_key j = ''ambient_last_run_v1'' @ ''_'' @ job_key j"

record ambient_availability =
  av_document :: bool
  av_classification :: bool
  av_structured_extract :: bool
  av_entity :: bool
  av_title :: bool
  av_page_growth :: bool
  av_reconcile :: bool
  av_citation :: bool
  av_edge_grounding_promote :: bool
  av_entity_idle_archive :: bool

definition for_provider :: "bool \<Rightarrow> bool \<Rightarrow> bool \<Rightarrow> bool \<Rightarrow> bool \<Rightarrow> ambient_availability" where
  "for_provider entity_sweep doc_reconcile citation_backfill edge_promote provider_available =
     \<lparr>av_document = True, av_classification = provider_available,
      av_structured_extract = provider_available,
      av_entity = (provider_available \<and> entity_sweep), av_title = provider_available,
      av_page_growth = provider_available,
      av_reconcile = (provider_available \<and> doc_reconcile),
      av_citation = (provider_available \<and> citation_backfill),
      av_edge_grounding_promote = (provider_available \<and> edge_promote),
      av_entity_idle_archive = True\<rparr>"

fun supports :: "ambient_availability \<Rightarrow> ambient_job \<Rightarrow> bool" where
  "supports a Document = av_document a"
| "supports a Classification = av_classification a"
| "supports a StructuredExtract = av_structured_extract a"
| "supports a Entity = av_entity a"
| "supports a Title = av_title a"
| "supports a PageGrowth = av_page_growth a"
| "supports a Reconcile = av_reconcile a"
| "supports a Citation = av_citation a"
| "supports a EdgeGroundingPromote = av_edge_grounding_promote a"
| "supports a EntityIdleArchive = av_entity_idle_archive a"

subsection \<open>The schedule\<close>

definition enrichment_sweep_interval :: duration where
  "enrichment_sweep_interval = secs (30 * 60)"

definition reconcile_sweep_interval :: duration where
  "reconcile_sweep_interval = secs (30 * 60)"

definition citation_sweep_interval :: duration where
  "citation_sweep_interval = secs (30 * 60)"

definition edge_grounding_sweep_interval :: duration where
  "edge_grounding_sweep_interval = secs (30 * 60)"

definition entity_idle_archive_sweep_interval :: duration where
  "entity_idle_archive_sweep_interval = secs (24 * 60 * 60)"

record ambient_schedule =
  cursor :: nat
  next_allowed_at :: instant
  last_classification :: "instant option"
  last_structured_extract :: "instant option"
  last_entity :: "instant option"
  last_title :: "instant option"
  last_page_growth :: "instant option"
  last_reconcile :: "instant option"
  last_citation :: "instant option"
  last_edge_grounding_promote :: "instant option"
  last_entity_idle_archive :: "instant option"

definition new_schedule :: "instant \<Rightarrow> ambient_schedule" where
  "new_schedule now = \<lparr>cursor = 0, next_allowed_at = now,
     last_classification = None,
     last_structured_extract = None,
     last_entity = None,
     last_title = None,
     last_page_growth = None,
     last_reconcile = None,
     last_citation = None,
     last_edge_grounding_promote = None,
     last_entity_idle_archive = None\<rparr>"

definition elapsed_since :: "duration \<Rightarrow> instant \<Rightarrow> instant option \<Rightarrow> bool" where
  "elapsed_since interval now stamp = is_none_or (\<lambda>t. now - t \<ge> interval) stamp"

fun job_due :: "ambient_schedule \<Rightarrow> instant \<Rightarrow> ambient_job \<Rightarrow> bool" where
  "job_due sch now Document = True"
| "job_due sch now Classification =
     elapsed_since enrichment_sweep_interval now (last_classification sch)"
| "job_due sch now StructuredExtract =
     elapsed_since enrichment_sweep_interval now (last_structured_extract sch)"
| "job_due sch now Entity =
     elapsed_since enrichment_sweep_interval now (last_entity sch)"
| "job_due sch now Title =
     elapsed_since enrichment_sweep_interval now (last_title sch)"
| "job_due sch now PageGrowth =
     elapsed_since enrichment_sweep_interval now (last_page_growth sch)"
| "job_due sch now Reconcile =
     elapsed_since reconcile_sweep_interval now (last_reconcile sch)"
| "job_due sch now Citation =
     elapsed_since citation_sweep_interval now (last_citation sch)"
| "job_due sch now EdgeGroundingPromote =
     elapsed_since edge_grounding_sweep_interval now (last_edge_grounding_promote sch)"
| "job_due sch now EntityIdleArchive =
     elapsed_since entity_idle_archive_sweep_interval now (last_entity_idle_archive sch)"

text \<open>The loop of \<open>select_due\<close>: at most as many probes as there are jobs.\<close>

fun select_loop ::
    "nat \<Rightarrow> instant \<Rightarrow> ambient_availability \<Rightarrow> ambient_schedule
     \<Rightarrow> ambient_job option \<times> ambient_schedule" where
  "select_loop 0 now av sch = (None, sch)"
| "select_loop (Suc n) now av sch =
     (let job = all_jobs ! cursor sch;
          sch' = sch\<lparr>cursor := (cursor sch + 1) mod length all_jobs\<rparr>
      in if \<not> supports av job then select_loop n now av sch'
         else if \<not> job_due sch' now job then select_loop n now av sch'
         else (Some job, sch'))"

definition select_due ::
    "instant \<Rightarrow> ambient_availability \<Rightarrow> ambient_schedule \<Rightarrow> ambient_job option \<times> ambient_schedule"
  where "select_due now av sch = select_loop (length all_jobs) now av sch"

fun drain_loop ::
    "nat \<Rightarrow> instant \<Rightarrow> ambient_availability \<Rightarrow> ambient_job list \<Rightarrow> ambient_schedule
     \<Rightarrow> ambient_job list \<times> ambient_schedule" where
  "drain_loop 0 now av due sch = (due, sch)"
| "drain_loop (Suc n) now av due sch =
     (case select_due now av sch of
        (Some job, sch') \<Rightarrow>
          if job \<in> set due then (due, sch') else drain_loop n now av (due @ [job]) sch'
      | (None, sch') \<Rightarrow> (due, sch'))"

definition drain_due ::
    "instant \<Rightarrow> ambient_availability \<Rightarrow> ambient_schedule \<Rightarrow> ambient_job list \<times> ambient_schedule"
  where "drain_due now av sch = drain_loop (length all_jobs) now av [] sch"

definition note_job_result ::
    "ambient_job \<Rightarrow> instant \<Rightarrow> bool \<Rightarrow> ambient_schedule \<Rightarrow> ambient_schedule" where
  "note_job_result job now selected sch =
     (if selected then sch
      else (case job of
        Document \<Rightarrow> sch
      | Classification \<Rightarrow> sch\<lparr>last_classification := Some now\<rparr>
      | StructuredExtract \<Rightarrow> sch\<lparr>last_structured_extract := Some now\<rparr>
      | Entity \<Rightarrow> sch\<lparr>last_entity := Some now\<rparr>
      | Title \<Rightarrow> sch\<lparr>last_title := Some now\<rparr>
      | PageGrowth \<Rightarrow> sch\<lparr>last_page_growth := Some now\<rparr>
      | Reconcile \<Rightarrow> sch\<lparr>last_reconcile := Some now\<rparr>
      | Citation \<Rightarrow> sch\<lparr>last_citation := Some now\<rparr>
      | EdgeGroundingPromote \<Rightarrow> sch\<lparr>last_edge_grounding_promote := Some now\<rparr>
      | EntityIdleArchive \<Rightarrow> sch\<lparr>last_entity_idle_archive := Some now\<rparr>))"

definition note_thermal_work_completion ::
    "instant \<Rightarrow> duration \<Rightarrow> thermal_policy \<Rightarrow> ambient_schedule \<Rightarrow> ambient_schedule" where
  "note_thermal_work_completion now elapsed p sch =
     sch\<lparr>next_allowed_at := now + cooldown_after p elapsed\<rparr>"

definition charge_lap_thermal_cooldown ::
    "instant \<Rightarrow> instant \<Rightarrow> bool \<Rightarrow> thermal_policy \<Rightarrow> ambient_schedule \<Rightarrow> ambient_schedule" where
  "charge_lap_thermal_cooldown started completed consumed p sch =
     (if consumed then note_thermal_work_completion completed (completed - started) p sch else sch)"

definition should_backoff_ambient_lane :: "bool \<Rightarrow> nat \<Rightarrow> bool" where
  "should_backoff_ambient_lane selected llm_calls \<longleftrightarrow> \<not> selected \<and> llm_calls = 0"

definition ambient_work_consumes_thermal_turn :: "ambient_job \<Rightarrow> bool \<Rightarrow> nat \<Rightarrow> bool \<Rightarrow> bool" where
  "ambient_work_consumes_thermal_turn job selected llm_calls no_match_committed \<longleftrightarrow>
     llm_calls > 0 \<or> selected \<and> (job = Document \<or> job = Reconcile
       \<or> job = PageGrowth \<and> \<not> no_match_committed)"

subsection \<open>One lap\<close>

record turn_report =
  report_selected :: bool
  report_no_match_committed :: bool
  report_llm_calls :: nat
  report_panicked :: bool

text \<open>What the lap meets at a job: the background switch, the stop signal, and (if the job runs) its
  report and the instant it completed.\<close>

record job_turn =
  background_ai :: bool
  stop_requested :: bool
  turn_result :: turn_report
  turn_completion :: instant

text \<open>The loop over the drained jobs: the jobs that ran, whether one consumed a thermal turn, and the
  schedule.\<close>

fun lap_loop ::
    "(ambient_job \<Rightarrow> job_turn) \<Rightarrow> ambient_job list \<Rightarrow> bool \<Rightarrow> ambient_schedule
     \<Rightarrow> ambient_job list \<times> bool \<times> ambient_schedule" where
  "lap_loop env [] consumed sch = ([], consumed, sch)"
| "lap_loop env (job # jobs) consumed sch =
     (let t = env job; r = turn_result t
      in if \<not> (job = Document \<or> job = EntityIdleArchive) \<and> \<not> background_ai t
         then lap_loop env jobs consumed sch
         else if stop_requested t then ([], consumed, sch)
         else let sch' = note_job_result job (turn_completion t)
                    (\<not> should_backoff_ambient_lane (report_selected r) (report_llm_calls r)) sch;
                  consumed' = (consumed \<or> report_panicked r
                    \<or> ambient_work_consumes_thermal_turn job (report_selected r)
                        (report_llm_calls r) (report_no_match_committed r));
                  (jrun, c, s) = lap_loop env jobs consumed' sch'
              in (job # jrun, c, s))"

definition ambient_lap ::
    "(ambient_job \<Rightarrow> job_turn) \<Rightarrow> instant \<Rightarrow> instant \<Rightarrow> ambient_availability \<Rightarrow> thermal_policy
     \<Rightarrow> ambient_schedule \<Rightarrow> ambient_job list \<times> bool \<times> ambient_schedule" where
  "ambient_lap env started completed av p sch =
     (let (due, sch1) = drain_due started av sch;
          (jrun, consumed, sch2) = lap_loop env due False sch1
      in (jrun, consumed, charge_lap_thermal_cooldown started completed consumed p sch2))"

subsection \<open>The due jobs of a lap\<close>

declare dropWhile_eq_Nil_conv [simp del]

definition eligible :: "instant \<Rightarrow> ambient_availability \<Rightarrow> ambient_schedule \<Rightarrow> ambient_job \<Rightarrow> bool" where
  "eligible now av sch job \<longleftrightarrow> supports av job \<and> job_due sch now job"

text \<open>The jobs in the order the cursor meets them.\<close>

definition from_cursor :: "nat \<Rightarrow> ambient_job list" where
  "from_cursor c = rotate c all_jobs"

lemma length_all_jobs [simp]: "length all_jobs = 10"
  by (simp add: all_jobs_def)

lemma set_all_jobs: "set all_jobs = UNIV"
  using ambient_job.exhaust by (auto simp: all_jobs_def)

lemma distinct_all_jobs: "distinct all_jobs"
  by (simp add: all_jobs_def)

lemma from_cursor_facts [simp]:
  "length (from_cursor c) = 10" "set (from_cursor c) = UNIV" "distinct (from_cursor c)"
  by (simp_all add: from_cursor_def set_all_jobs distinct_all_jobs)

lemma job_due_cursor [simp]: "job_due (sch\<lparr>cursor := c\<rparr>) now job = job_due sch now job"
  by (cases job) simp_all

lemma eligible_cursor [simp]: "eligible now av (sch\<lparr>cursor := c\<rparr>) = eligible now av sch"
  by (simp add: eligible_def fun_eq_iff)

lemma from_cursor_mod [simp]: "from_cursor (c mod 10) = from_cursor c"
  by (metis from_cursor_def rotate_conv_mod length_all_jobs)

lemma from_cursor_Suc:
  "from_cursor c = all_jobs ! (c mod 10) # take 9 (from_cursor (Suc c))"
proof -
  have "from_cursor c \<noteq> []" by (metis from_cursor_facts(1) list.size(3) zero_neq_numeral)
  then obtain x xs where x: "from_cursor c = x # xs" by (cases "from_cursor c") auto
  have "x = all_jobs ! (c mod 10)"
    using x by (metis (no_types) from_cursor_def add.right_neutral length_all_jobs nth_Cons_0 nth_rotate zero_less_numeral)
  moreover have "from_cursor (Suc c) = xs @ [x]"
    using x by (simp add: from_cursor_def)
  moreover have "length xs = 9"
    using x from_cursor_facts(1) [of c] by simp
  ultimately show ?thesis using x by simp
qed

lemma select_loop_eq:
  assumes "n \<le> 10" "cursor sch < 10"
  shows "select_loop n now av sch =
    (let xs = dropWhile (\<lambda>j. \<not> eligible now av sch j) (take n (from_cursor (cursor sch)))
     in (case xs of [] \<Rightarrow> (None, sch\<lparr>cursor := (cursor sch + n) mod 10\<rparr>)
         | j # rest \<Rightarrow> (Some j, sch\<lparr>cursor := (cursor sch + (n - length rest)) mod 10\<rparr>)))"
  using assms
proof (induction n arbitrary: sch)
  case 0
  then show ?case by simp
next
  case (Suc n)
  let ?c = "cursor sch" and ?sch = "sch\<lparr>cursor := (cursor sch + 1) mod 10\<rparr>"
  have tk: "take (Suc n) (from_cursor ?c) = all_jobs ! ?c # take n (from_cursor (Suc ?c))"
    using Suc.prems by (subst from_cursor_Suc) simp
  have rot: "from_cursor (Suc ?c mod 10) = from_cursor (Suc ?c)"
    by (rule from_cursor_mod)
  have len: "length rest \<le> n" if "dropWhile P (take n ys) = j # rest" for P ys and j :: ambient_job and rest
    using that length_dropWhile_le [of P "take n ys"] by simp
  show ?case
  proof (cases "eligible now av sch (all_jobs ! ?c)")
    case True
    with Suc.prems show ?thesis
      by (simp add: tk eligible_def Let_def)
  next
    case False
    then have "select_loop (Suc n) now av sch = select_loop n now av ?sch"
      by (auto simp: eligible_def Let_def)
    also have "\<dots> = (let xs = dropWhile (\<lambda>j. \<not> eligible now av sch j) (take n (from_cursor (Suc ?c)))
     in (case xs of [] \<Rightarrow> (None, sch\<lparr>cursor := (Suc ?c + n) mod 10\<rparr>)
         | j # rest \<Rightarrow> (Some j, sch\<lparr>cursor := (Suc ?c + (n - length rest)) mod 10\<rparr>)))"
      using Suc.IH [of ?sch] Suc.prems
      by (cases "dropWhile (\<lambda>j. \<not> eligible now av sch j) (take n (from_cursor (Suc ?c)))")
         (simp_all add: mod_add_left_eq)
    finally have step: "select_loop (Suc n) now av sch = \<dots>" .
    have xs: "dropWhile (\<lambda>j. \<not> eligible now av sch j) (take (Suc n) (from_cursor ?c))
        = dropWhile (\<lambda>j. \<not> eligible now av sch j) (take n (from_cursor (Suc ?c)))"
      using False by (simp add: tk)
    show ?thesis
    proof (cases "dropWhile (\<lambda>j. \<not> eligible now av sch j) (take n (from_cursor (Suc ?c)))")
      case Nil
      then show ?thesis unfolding step xs by simp
    next
      case (Cons j rest)
      with len have num: "Suc ?c + (n - length rest) = ?c + (Suc n - length rest)"
        by (metis Suc_diff_le add_Suc_shift)
      show ?thesis unfolding step xs Cons Let_def list.case num ..
    qed
  qed
qed


lemma from_cursor_add: "from_cursor (c + m) = rotate m (from_cursor c)"
  by (simp add: from_cursor_def rotate_rotate add.commute)

lemma rotate_split: "m \<le> length xs \<Longrightarrow> rotate m xs = drop m xs @ take m xs"
  by (cases "m = length xs") (simp_all add: rotate_drop_take)

lemma dropWhile_filter: "dropWhile (\<lambda>x. \<not> P x) xs = [] \<longleftrightarrow> filter P xs = []"
  by (induction xs) auto

lemma dropWhile_split:
  assumes "dropWhile (\<lambda>x. \<not> P x) xs = j # rest"
  obtains pre where "xs = pre @ j # rest" "filter P pre = []" "P j"
proof (rule that [of "takeWhile (\<lambda>x. \<not> P x) xs"])
  show "xs = takeWhile (\<lambda>x. \<not> P x) xs @ j # rest"
    by (metis assms takeWhile_dropWhile_id)
  show "filter P (takeWhile (\<lambda>x. \<not> P x) xs) = []"
    by (auto simp: filter_empty_conv dest: set_takeWhileD)
  show "P j" using assms hd_dropWhile [of "\<lambda>x. \<not> P x" xs] by simp
qed

text \<open>The state of the draining loop: the first \<open>m\<close> jobs from the starting cursor are decided.\<close>

lemma drain_loop_eq:
  assumes "cursor sch = (c + m) mod 10" "m \<le> 10"
    and "due = filter (eligible now av sch) (take m (from_cursor c))"
    and "length (filter (eligible now av sch) (drop m (from_cursor c))) \<le> n"
  shows "fst (drain_loop n now av due sch) = filter (eligible now av sch) (from_cursor c)"
  using assms
proof (induction n arbitrary: m due sch)
  case 0
  then have "filter (eligible now av sch) (from_cursor c)
      = filter (eligible now av sch) (take m (from_cursor c))"
    by (metis append_Nil2 append_take_drop_id filter_append le_zero_eq length_0_conv)
  with 0 show ?case by simp
next
  case (Suc n)
  let ?P = "eligible now av sch" and ?xs = "from_cursor c"
  have rot: "from_cursor (cursor sch) = drop m ?xs @ take m ?xs"
    using Suc.prems by (simp add: from_cursor_add rotate_split)
  have lt: "cursor sch < 10" using Suc.prems(1) by simp
  have whole: "filter ?P ?xs = filter ?P (take m ?xs) @ filter ?P (drop m ?xs)"
    by (metis append_take_drop_id filter_append)
  have sel: "select_due now av sch =
    (let ys = dropWhile (\<lambda>j. \<not> ?P j) (drop m ?xs @ take m ?xs)
     in (case ys of [] \<Rightarrow> (None, sch\<lparr>cursor := (cursor sch + 10) mod 10\<rparr>)
         | j # rest \<Rightarrow> (Some j, sch\<lparr>cursor := (cursor sch + (10 - length rest)) mod 10\<rparr>)))"
    using select_loop_eq [of 10 sch now av] lt Suc.prems(2) by (simp add: select_due_def rot)
  show ?case
  proof (cases "filter ?P (drop m ?xs) = []")
    case True
    then have due: "filter ?P ?xs = due" using whole Suc.prems(3) by simp
    show ?thesis
    proof (cases "dropWhile (\<lambda>j. \<not> ?P j) (drop m ?xs @ take m ?xs)")
      case Nil
      with sel due show ?thesis by simp
    next
      case (Cons j rest)
      obtain pre where "?P j" by (rule dropWhile_split [OF Cons])
      then have "j \<in> set (filter ?P ?xs)" by simp
      with sel Cons due show ?thesis by simp
    qed
  next
    case False
    then obtain j rest where ds: "dropWhile (\<lambda>j. \<not> ?P j) (drop m ?xs) = j # rest"
      by (metis dropWhile_filter neq_Nil_conv)
    obtain pre where sp: "drop m ?xs = pre @ j # rest" "filter ?P pre = []" "?P j"
      by (rule dropWhile_split [OF ds])
    let ?m = "m + Suc (length pre)"
    have len: "10 - m = length pre + Suc (length rest)"
      using sp(1) by (metis length_append length_Cons length_drop from_cursor_facts(1))
    have xs: "?xs = (take m ?xs @ pre @ [j]) @ rest"
      using sp(1) by (metis append.assoc append_Cons append_Nil append_take_drop_id)
    have lp: "length (take m ?xs @ pre @ [j]) = ?m" using Suc.prems(2) by simp
    have tk: "take ?m ?xs = take m ?xs @ pre @ [j]" and dr: "drop ?m ?xs = rest"
      using xs lp by (metis append_eq_conv_conj)+
    have dw: "dropWhile (\<lambda>j. \<not> ?P j) (drop m ?xs @ take m ?xs) = j # rest @ take m ?xs"
      using sp by (simp add: dropWhile_append filter_empty_conv)
    have num: "10 - length (rest @ take m ?xs) = Suc (length pre)"
      using len Suc.prems(2) by simp
    have sel': "select_due now av sch
        = (Some j, sch\<lparr>cursor := (cursor sch + Suc (length pre)) mod 10\<rparr>)"
      unfolding sel dw Let_def list.case num ..
    have "distinct (take m ?xs @ drop m ?xs)" by simp
    then have "j \<notin> set due" using sp(1) Suc.prems(3) by auto
    moreover have "fst (drain_loop n now av (due @ [j])
        (sch\<lparr>cursor := (cursor sch + Suc (length pre)) mod 10\<rparr>)) = filter ?P ?xs"
    proof -
      have "fst (drain_loop n now av (due @ [j])
          (sch\<lparr>cursor := (cursor sch + Suc (length pre)) mod 10\<rparr>))
        = filter (eligible now av (sch\<lparr>cursor := (cursor sch + Suc (length pre)) mod 10\<rparr>)) ?xs"
      proof (rule Suc.IH [where m = ?m])
        show "?m \<le> 10" using len Suc.prems(2) by simp
        have "Suc ((c + m) mod 10 + length pre) mod 10 = Suc (c + (m + length pre)) mod 10"
          by (metis mod_Suc_eq mod_add_left_eq add.assoc)
        then show "cursor (sch\<lparr>cursor := (cursor sch + Suc (length pre)) mod 10\<rparr>) = (c + ?m) mod 10"
          using Suc.prems(1) by simp
        show "due @ [j] = filter (eligible now av (sch\<lparr>cursor := (cursor sch + Suc (length pre)) mod 10\<rparr>))
            (take ?m ?xs)"
          unfolding tk using sp(2,3) Suc.prems(3) by simp
        show "length (filter (eligible now av (sch\<lparr>cursor := (cursor sch + Suc (length pre)) mod 10\<rparr>))
            (drop ?m ?xs)) \<le> n"
          unfolding dr using sp Suc.prems(4) by simp
      qed
      then show ?thesis by simp
    qed
    ultimately show ?thesis by (simp add: sel')
  qed
qed


text \<open>C40 (a lap drains every due job once): whatever the cursor, one call of \<open>drain_due\<close> returns
  exactly the jobs that are available and due, each once, in the round-robin order from the
  cursor; repeats and late cursor positions lose none.\<close>

theorem drain_due_complete:
  assumes "cursor sch < length all_jobs"
  shows "fst (drain_due now av sch)
      = filter (\<lambda>job. supports av job \<and> job_due sch now job) (rotate (cursor sch) all_jobs)
    \<and> distinct (fst (drain_due now av sch))
    \<and> set (fst (drain_due now av sch)) = {job. supports av job \<and> job_due sch now job}"
proof -
  have "fst (drain_due now av sch) = filter (eligible now av sch) (from_cursor (cursor sch))"
    unfolding drain_due_def
    using assms length_filter_le [of "eligible now av sch" "from_cursor (cursor sch)"]
    by (intro drain_loop_eq [where m = 0]) simp_all
  moreover have "eligible now av sch = (\<lambda>job. supports av job \<and> job_due sch now job)"
    by (simp add: fun_eq_iff eligible_def)
  ultimately show ?thesis
    by (simp add: from_cursor_def [symmetric])
qed

lemma drain_due_complete_witness:
  "set (fst (drain_due 5 (for_provider True True True True False) (new_schedule 0)))
     = {Document, EntityIdleArchive}"
proof -
  have eq: "{job. supports (for_provider True True True True False) job
      \<and> job_due (new_schedule 0) 5 job} = {Document, EntityIdleArchive}" (is "?A = ?B")
  proof
    show "?A \<subseteq> ?B"
    proof
      fix job assume "job \<in> ?A"
      then show "job \<in> ?B" by (cases job) (simp_all add: for_provider_def)
    qed
    show "?B \<subseteq> ?A"
      by (simp add: for_provider_def new_schedule_def elapsed_since_def)
  qed
  have c: "cursor (new_schedule 0) < length all_jobs" by (simp add: new_schedule_def)
  show ?thesis
    by (rule trans [OF drain_due_complete [OF c, THEN conjunct2, THEN conjunct2] eq])
qed


subsection \<open>The cooldown of a lap\<close>

lemma note_job_result_allowed [simp]: "next_allowed_at (note_job_result job now sel sch) = next_allowed_at sch"
  by (cases job) (simp_all add: note_job_result_def)

lemma lap_loop_allowed: "next_allowed_at (snd (snd (lap_loop env jobs c sch))) = next_allowed_at sch"
  by (induction jobs arbitrary: c sch) (simp_all add: Let_def split_beta)

lemma lap_loop_ran: "lap_loop env jobs c sch = (jrun, c', s') \<Longrightarrow> set jrun \<subseteq> set jobs \<and> length jrun \<le> length jobs
    \<and> (c' \<longleftrightarrow> c \<or> (\<exists>job \<in> set jrun. report_panicked (turn_result (env job))
          \<or> ambient_work_consumes_thermal_turn job (report_selected (turn_result (env job)))
               (report_llm_calls (turn_result (env job))) (report_no_match_committed (turn_result (env job)))))"
proof (induction env jobs c sch arbitrary: jrun c' s' rule: lap_loop.induct)
  case (2 env job jobs consumed sch)
  show ?case
  proof (cases "\<not> (job = Document \<or> job = EntityIdleArchive) \<and> \<not> background_ai (env job)")
    case True
    with 2(1) [OF refl refl True] 2(3) show ?thesis by (auto simp: Let_def)
  next
    case nb: False
    show ?thesis
    proof (cases "stop_requested (env job)")
      case True
      with nb 2(3) show ?thesis by (auto simp: Let_def)
    next
      case False
      with nb 2(2) [OF refl refl nb False refl refl] 2(3) show ?thesis
        by (fastforce simp: Let_def split: prod.splits)
    qed
  qed
qed simp

lemma drain_due_allowed: "next_allowed_at (snd (drain_due now av sch)) = next_allowed_at sch"
proof -
  have sel: "next_allowed_at (snd (select_loop n now av s)) = next_allowed_at s" for n now av s
    by (induction n now av s rule: select_loop.induct) (simp_all add: Let_def)
  have "next_allowed_at (snd (drain_loop n now av due s)) = next_allowed_at s" for n due s
  proof (induction n now av due s rule: drain_loop.induct)
    case (2 n now av due s)
    obtain x s' where so: "select_due now av s = (x, s')" by fastforce
    then have "next_allowed_at s' = next_allowed_at s"
      using sel [of "length all_jobs" now av s] by (simp add: select_due_def)
    with 2 so show ?case by (cases x) auto
  qed simp
  then show ?thesis by (simp add: drain_due_def)
qed

text \<open>If some job of a lap panicked, called a model, or selected the
  heavy work, the next turn is allowed only after the cooldown for the lap's full wall time, so
  that the lap is at most 5 per cent of lap and recovery; otherwise the lap leaves the cooldown
  as it was.\<close>

theorem lap_charges_its_full_time:
  assumes "ambient_lap env started completed av thermal_conservative sch = (jrun, consumed, sch')"
    and "started \<le> completed" "19 * (completed - started) \<le> duration_max"
  shows "(consumed \<longleftrightarrow> (\<exists>job \<in> set jrun. report_panicked (turn_result (env job))
          \<or> ambient_work_consumes_thermal_turn job (report_selected (turn_result (env job)))
               (report_llm_calls (turn_result (env job))) (report_no_match_committed (turn_result (env job)))))
    \<and> (if consumed then completed + secs 120 \<le> next_allowed_at sch'
          \<and> 100 * (completed - started) \<le> 5 * (next_allowed_at sch' - started)
       else next_allowed_at sch' = next_allowed_at sch)"
proof -
  obtain due sch1 where d: "drain_due started av sch = (due, sch1)" by fastforce
  obtain ran0 c0 sch2 where l: "lap_loop env due False sch1 = (ran0, c0, sch2)" by (metis prod_cases3)
  from assms(1) d l have r: "jrun = ran0" "consumed = c0"
    "sch' = charge_lap_thermal_cooldown started completed c0 thermal_conservative sch2"
    by (auto simp: ambient_lap_def)
  have "next_allowed_at sch2 = next_allowed_at sch"
    using lap_loop_allowed [of env due False sch1] l drain_due_allowed [of started av sch] d by simp
  moreover have "secs 120 \<le> cooldown_after thermal_conservative (completed - started)
      \<and> 19 * (completed - started) \<le> cooldown_after thermal_conservative (completed - started)"
    using assms(3) by (auto simp: cooldown_after_def thermal_conservative_def ambient_min_recovery_def)
  ultimately show ?thesis
    using lap_loop_ran [OF l] assms(2)
    by (auto simp: r charge_lap_thermal_cooldown_def note_thermal_work_completion_def)
qed

lemma lap_charges_its_full_time_witness:
  "let env = (\<lambda>job. \<lparr>background_ai = True, stop_requested = False, turn_result =
         \<lparr>report_selected = True, report_no_match_committed = False, report_llm_calls = 0,
          report_panicked = False\<rparr>, turn_completion = 3\<rparr>);
       (jrun, consumed, sch') = ambient_lap env 1 3 (for_provider False False False False False)
          thermal_conservative (new_schedule 0)
   in consumed \<longrightarrow> 3 + secs 120 \<le> next_allowed_at sch'"
  unfolding Let_def
  using lap_charges_its_full_time
  by (auto simp: duration_max_def split: prod.splits)

end
