(* ===== verification/Import_Priority.thy ===== *)
theory Import_Priority
  imports Ambient_Schedule
begin

text \<open>
  The bounded priority lane for fresh imports
  (\<open>crates/wenlan-server/src/scheduler/import_priority.rs\<close>) and the section of the scheduler's
  loop that runs it. Epochs are \<open>i64\<close>, written as integers with the saturation of the code
  (\<open>sat_i64\<close>); the slice and attempt counters are \<open>u8\<close>. The persisted deadline is \<open>metadata\<close>; a
  database write that fails is the flag \<open>db_ok = False\<close> of the operation.
\<close>

subsection \<open>State\<close>

definition sat_i64 :: "int \<Rightarrow> int" where
  "sat_i64 x = max (- (2 ^ 63)) (min (2 ^ 63 - 1) x)"

definition import_window_secs :: nat where
  "import_window_secs = 10 * 60"

definition max_ambient_slices :: u8 where
  "max_ambient_slices = 64"

definition import_priority_jobs :: "ambient_job list" where
  "import_priority_jobs = [Classification, StructuredExtract, Entity, Title, PageGrowth]"

datatype synthesis_phase = Detect | Emergence

datatype prep_outcome = PrepIdle | ClaimFailed | Prepared
  | RetryableFailure "int option" | Exhausted

record import_request =
  rq_deadline_epoch :: int
  rq_generation :: u64

record import_priority =
  ip_deadline :: "instant option"
  ip_deadline_epoch :: int
  ip_generation :: u64
  ip_slices :: u8
  ip_next_job :: nat
  ip_round_attempts :: u8
  ip_round_had_work :: bool
  ip_phase :: "synthesis_phase option"
  ip_started_logged :: bool
  ip_finished :: bool
  ip_prep_drained :: bool
  ip_retries :: "int list"
  ip_prefer_prep :: bool
  ip_round_idle :: bool

definition new_import_priority :: import_priority where
  "new_import_priority = \<lparr>ip_deadline = None, ip_deadline_epoch = 0, ip_generation = 0,
     ip_slices = 0, ip_next_job = 0, ip_round_attempts = 0, ip_round_had_work = False,
     ip_phase = None, ip_started_logged = False, ip_finished = False, ip_prep_drained = False,
     ip_retries = [], ip_prefer_prep = False, ip_round_idle = False\<rparr>"

record import_snapshot =
  sn_deadline :: instant
  sn_deadline_epoch :: int
  sn_generation :: u64
  sn_slices :: u8
  sn_next_job :: ambient_job
  sn_phase :: "synthesis_phase option"
  sn_prep_drained :: bool
  sn_prep_retry_at :: "int option"
  sn_prefer_prep :: bool
  sn_round_idle :: bool

definition prep_open :: "import_snapshot \<Rightarrow> bool" where
  "prep_open sn \<longleftrightarrow> sn_slices sn < max_ambient_slices
     \<and> (\<not> sn_prep_drained sn \<or> sn_prep_retry_at sn \<noteq> None)"

definition prep_due :: "import_snapshot \<Rightarrow> int \<Rightarrow> bool" where
  "prep_due sn now_epoch \<longleftrightarrow> prep_open sn
     \<and> (\<not> sn_prep_drained sn \<or> is_some_and (\<lambda>t. t \<le> now_epoch) (sn_prep_retry_at sn))"

subsection \<open>Operations\<close>

definition deadline_epoch_now :: "int \<Rightarrow> int" where
  "deadline_epoch_now system_secs = sat_i64 (system_secs + int import_window_secs)"

definition activate :: "int \<Rightarrow> instant \<Rightarrow> int \<Rightarrow> import_priority \<Rightarrow> import_priority" where
  "activate deadline_epoch now now_epoch p =
     (let remaining = sat_i64 (deadline_epoch - now_epoch)
      in if remaining \<le> 0 then p\<lparr>ip_deadline := None, ip_deadline_epoch := 0\<rparr>
         else let bounded = min remaining (int import_window_secs)
              in p\<lparr>ip_deadline := Some (now + secs (nat bounded)),
                   ip_deadline_epoch := sat_i64 (now_epoch + bounded),
                   ip_slices := 0, ip_next_job := 0, ip_round_attempts := 0,
                   ip_round_had_work := False, ip_phase := None, ip_started_logged := False,
                   ip_finished := False, ip_prep_drained := False, ip_retries := [],
                   ip_prefer_prep := True, ip_round_idle := False\<rparr>)"

definition prepare_request ::
    "int \<Rightarrow> instant \<Rightarrow> int \<Rightarrow> import_priority \<Rightarrow> import_request \<times> import_priority" where
  "prepare_request system_secs now now_epoch p =
     (let p1 = p\<lparr>ip_generation := ip_generation p + 1\<rparr>;
          d = deadline_epoch_now system_secs;
          p2 = activate d now now_epoch p1
      in (\<lparr>rq_deadline_epoch = d, rq_generation = ip_generation p2\<rparr>, p2))"

definition restore :: "int \<Rightarrow> instant \<Rightarrow> int \<Rightarrow> import_priority \<Rightarrow> bool \<times> import_priority" where
  "restore deadline_epoch now now_epoch p =
     (if ip_deadline p \<noteq> None then (True, p)
      else if deadline_epoch \<le> now_epoch then (False, p)
      else let p1 = activate deadline_epoch now now_epoch
                 (p\<lparr>ip_generation := ip_generation p + 1\<rparr>)
           in (ip_deadline p1 \<noteq> None, p1))"

definition min_retry :: "int list \<Rightarrow> int option" where
  "min_retry rs = (if rs = [] then None else Some (Min (set rs)))"

definition ip_snapshot :: "import_priority \<Rightarrow> import_snapshot option" where
  "ip_snapshot p = map_option (\<lambda>d. \<lparr>sn_deadline = d, sn_deadline_epoch = ip_deadline_epoch p,
     sn_generation = ip_generation p, sn_slices = ip_slices p,
     sn_next_job = import_priority_jobs ! ip_next_job p, sn_phase = ip_phase p,
     sn_prep_drained = ip_prep_drained p, sn_prep_retry_at = min_retry (ip_retries p),
     sn_prefer_prep = ip_prefer_prep p, sn_round_idle = ip_round_idle p\<rparr>) (ip_deadline p)"

definition ip_prep_open :: "import_priority \<Rightarrow> bool" where
  "ip_prep_open p = is_some_and prep_open (ip_snapshot p)"

definition mark_started :: "import_priority \<Rightarrow> bool \<times> import_priority" where
  "mark_started p = (if ip_started_logged p then (False, p) else (True, p\<lparr>ip_started_logged := True\<rparr>))"

text \<open>One more slice, capped; and the end of the budget, which starts synthesis.\<close>

definition spend_slice :: "u8 \<Rightarrow> u8" where
  "spend_slice n = min (sat_inc n) max_ambient_slices"

definition close_budget :: "import_priority \<Rightarrow> import_priority" where
  "close_budget p = (if ip_slices p \<ge> max_ambient_slices then p\<lparr>ip_phase := Some Detect\<rparr> else p)"

definition note_ambient :: "u64 \<Rightarrow> bool \<Rightarrow> import_priority \<Rightarrow> bool \<times> import_priority" where
  "note_ambient gen selected p =
     (if ip_generation p \<noteq> gen then (False, p)
      else let p1 = p\<lparr>ip_slices := spend_slice (ip_slices p),
                      ip_round_attempts := sat_inc (ip_round_attempts p),
                      ip_round_had_work := ip_round_had_work p \<or> selected,
                      ip_next_job := (ip_next_job p + 1) mod length import_priority_jobs\<rparr>;
               p2 = (if ip_round_attempts p1 = 5
                     then (if \<not> ip_round_had_work p1
                           then if ip_prep_open p1 then p1\<lparr>ip_round_idle := True\<rparr>
                                else p1\<lparr>ip_phase := Some Detect\<rparr>
                           else p1)\<lparr>ip_round_attempts := 0, ip_round_had_work := False\<rparr>
                     else p1)
           in (True, (close_budget p2)\<lparr>ip_prefer_prep := True\<rparr>))"

definition note_document_slice ::
    "u64 \<Rightarrow> prep_outcome \<Rightarrow> int \<Rightarrow> import_priority \<Rightarrow> bool \<times> import_priority" where
  "note_document_slice gen outcome now_epoch p =
     (if ip_generation p \<noteq> gen then (False, p)
      else (case outcome of
        ClaimFailed \<Rightarrow> (True, p)
      | _ \<Rightarrow>
        let p1 = (case outcome of
                PrepIdle \<Rightarrow> p\<lparr>ip_prep_drained := True,
                              ip_retries := filter (\<lambda>t. t > now_epoch) (ip_retries p)\<rparr>
              | _ \<Rightarrow>
                let q = p\<lparr>ip_slices := spend_slice (ip_slices p)\<rparr>;
                    q1 = (case outcome of
                            RetryableFailure (Some t) \<Rightarrow>
                              if t < ip_deadline_epoch q
                              then q\<lparr>ip_retries := ip_retries q @ [t]\<rparr> else q
                          | _ \<Rightarrow> q)
                in close_budget q1);
            p2 = p1\<lparr>ip_prefer_prep := False\<rparr>
        in (True, if ip_round_idle p2 \<and> \<not> ip_prep_open p2
                  then p2\<lparr>ip_round_idle := False, ip_round_attempts := 0,
                          ip_round_had_work := False\<rparr>
                  else p2)))"

definition note_synthesis_phase ::
    "u64 \<Rightarrow> synthesis_phase \<Rightarrow> import_priority \<Rightarrow> bool \<times> import_priority" where
  "note_synthesis_phase gen phase p =
     (if ip_generation p \<noteq> gen then (False, p)
      else (True, p\<lparr>ip_phase := (case phase of Detect \<Rightarrow> Some Emergence | Emergence \<Rightarrow> None),
                    ip_finished := (phase = Emergence), ip_prefer_prep := True\<rparr>))"

definition should_finish :: "instant \<Rightarrow> import_priority \<Rightarrow> bool" where
  "should_finish now p \<longleftrightarrow> is_none_or (\<lambda>d. now \<ge> d) (ip_deadline p) \<or> ip_finished p"

definition clear_if_generation :: "u64 \<Rightarrow> import_priority \<Rightarrow> bool \<times> import_priority" where
  "clear_if_generation gen p =
     (if ip_generation p \<noteq> gen then (False, p)
      else (True, p\<lparr>ip_deadline := None, ip_deadline_epoch := 0, ip_phase := None,
                    ip_started_logged := False, ip_finished := False\<rparr>))"

definition ip_active :: "instant \<Rightarrow> import_priority \<Rightarrow> bool" where
  "ip_active now p = is_some_and (\<lambda>d. now < d) (ip_deadline p)"

subsection \<open>The durable deadline\<close>

text \<open>Two kinds of rows of \<open>app_metadata\<close>: the deadline of the lane and the priorities of the import batches,
  by batch id.\<close>

record import_lane =
  lane :: import_priority
  metadata :: int
  batches :: "string \<rightharpoonup> int"

text \<open>\<open>persist_import_batch_priority\<close> (\<open>crates/wenlan-core/src/db.rs\<close>): two statements, each committed on its
  own, that drop the batches older than a day by the clock \<open>bw_epoch\<close> and write the batch; either may fail.\<close>

definition active_import_window_secs :: int where
  "active_import_window_secs = 24 * 60 * 60"

record batch_write =
  bw_id :: string
  bw_epoch :: int
  bw_prune_ok :: bool
  bw_write_ok :: bool

definition persist_import_batch_priority ::
    "batch_write \<Rightarrow> int \<Rightarrow> (string \<rightharpoonup> int) \<Rightarrow> bool \<times> (string \<rightharpoonup> int)" where
  "persist_import_batch_priority w deadline_epoch m =
     (if \<not> bw_prune_ok w then (False, m)
      else let kept = (\<lambda>k. case m k of None \<Rightarrow> None
                 | Some v \<Rightarrow> if v < bw_epoch w - active_import_window_secs then None else Some v)
           in if \<not> bw_write_ok w then (False, kept) else (True, kept(bw_id w \<mapsto> deadline_epoch)))"

text \<open>\<open>persist_and_request_import\<close>, under the persistence lock: the lane is activated, the deadline is written,
  then the batch; \<open>False\<close> is the error of a write, which takes back nothing of what was done before it.\<close>

definition persist_and_request ::
    "int \<Rightarrow> instant \<Rightarrow> int \<Rightarrow> bool \<Rightarrow> batch_write option \<Rightarrow> import_lane \<Rightarrow> bool \<times> import_lane" where
  "persist_and_request system_secs now now_epoch db_ok batch s =
     (let (rq, p) = prepare_request system_secs now now_epoch (lane s);
          s1 = s\<lparr>lane := p\<rparr>
      in if \<not> db_ok then (False, s1)
         else let s2 = s1\<lparr>metadata := rq_deadline_epoch rq\<rparr>
              in (case batch of
                    None \<Rightarrow> (True, s2)
                  | Some w \<Rightarrow>
                      let (ok, m) = persist_import_batch_priority w (rq_deadline_epoch rq) (batches s2)
                      in (ok, s2\<lparr>batches := m\<rparr>)))"

text \<open>\<open>finish_import_priority\<close>, under the same lock; an error of the write counts as not finished.\<close>

definition finish_import :: "u64 \<Rightarrow> bool \<Rightarrow> import_lane \<Rightarrow> bool \<times> import_lane" where
  "finish_import gen db_ok s =
     (if ip_generation (lane s) \<noteq> gen then (False, s)
      else if \<not> db_ok then (False, s)
      else let (b, p) = clear_if_generation gen (lane s)
           in (b, s\<lparr>lane := p, metadata := 0\<rparr>))"

subsection \<open>Planning a turn\<close>

datatype lane_wait = WaitResource resource_block_reason | WaitPrepRetry | WaitPinnedProvider

datatype lane_turn = TurnPrep | TurnInference | TurnWait lane_wait | TurnFinishNoProvider

definition plan_import_lane_turn ::
    "import_snapshot \<Rightarrow> int \<Rightarrow> resource_block_reason option \<Rightarrow> resource_block_reason option
     \<Rightarrow> bool \<Rightarrow> bool \<Rightarrow> lane_turn" where
  "plan_import_lane_turn sn now_epoch inference_block prep_block provider pinned =
     (let po = prep_open sn;
          prep_ready = (prep_due sn now_epoch \<and> prep_block = None);
          inference_ready = (provider \<and> inference_block = None \<and> \<not> (po \<and> sn_round_idle sn))
      in if prep_ready \<and> (sn_prefer_prep sn \<or> \<not> inference_ready) then TurnPrep
         else if inference_ready then TurnInference
         else if po then TurnWait (case prep_block of None \<Rightarrow> WaitPrepRetry
                                   | Some r \<Rightarrow> WaitResource r)
         else (case inference_block of
                 Some r \<Rightarrow> TurnWait (WaitResource r)
               | None \<Rightarrow> if pinned then TurnWait WaitPinnedProvider else TurnFinishNoProvider))"

definition import_lane_open ::
    "import_snapshot option \<Rightarrow> bool \<Rightarrow> instant \<Rightarrow> resource_block_reason option \<Rightarrow> bool" where
  "import_lane_open sn finish now block =
     is_some_and (\<lambda>sn. now < sn_deadline sn \<and> \<not> finish \<and> block = None) sn"

subsection \<open>One tick of the scheduler's import lane\<close>

text \<open>What the tick reads from outside: clocks, gates, providers, the run lock, the outcome of the
  work, and whether the writes of the metadata succeed.\<close>

record lane_env =
  env_now :: instant
  env_epoch :: int
  env_inference_block :: "resource_block_reason option"
  env_prep_block :: "resource_block_reason option"
  env_provider :: bool
  env_pinned :: bool
  env_lock_free :: bool
  env_outcome :: prep_outcome
  env_outcome_epoch :: int
  env_background_ai :: bool
  env_synthesis_available :: bool
  env_synthesis_pinned :: bool
  env_selected :: bool
  env_end :: instant
  env_db_ok :: bool

definition run_turn :: "lane_env \<Rightarrow> lane_turn \<Rightarrow> import_lane \<Rightarrow> bool \<times> import_lane" where
  "run_turn e turn s =
     (let p = lane s; gen = ip_generation p
      in if turn = TurnPrep
         then (env_outcome e \<noteq> PrepIdle \<and> env_outcome e \<noteq> ClaimFailed,
               s\<lparr>lane := snd (note_document_slice gen (env_outcome e) (env_outcome_epoch e) p)\<rparr>)
         else if \<not> env_background_ai e then (False, s)
         else (case ip_phase p of
                 Some phase \<Rightarrow>
                   if \<not> env_synthesis_available e
                   then (False, if \<not> env_synthesis_pinned e
                                then snd (finish_import gen (env_db_ok e) s) else s)
                   else (True, s\<lparr>lane := snd (note_synthesis_phase gen phase p)\<rparr>)
               | None \<Rightarrow>
                   if ip_slices p < max_ambient_slices
                   then (True, s\<lparr>lane := snd (note_ambient gen (env_selected e) p)\<rparr>)
                   else (False, s)))"

text \<open>The lane's section of the loop: \<open>True\<close> is \<open>import_work_ran\<close>.\<close>

definition lane_tick :: "lane_env \<Rightarrow> import_lane \<Rightarrow> bool \<times> import_lane" where
  "lane_tick e s =
     (case ip_snapshot (lane s) of
        None \<Rightarrow> (False, s)
      | Some sn \<Rightarrow>
        let gen = sn_generation sn;
            s1 = s\<lparr>lane := snd (mark_started (lane s))\<rparr>
        in if env_now e \<ge> sn_deadline sn \<or> should_finish (env_now e) (lane s1)
           then (False, snd (finish_import gen (env_db_ok e) s1))
           else (case plan_import_lane_turn sn (env_epoch e) (env_inference_block e)
                        (env_prep_block e) (env_provider e) (env_pinned e) of
                   TurnWait w \<Rightarrow> (False, s1)
                 | TurnFinishNoProvider \<Rightarrow> (False, snd (finish_import gen (env_db_ok e) s1))
                 | turn \<Rightarrow>
                     if \<not> env_lock_free e then (False, s1)
                     else let (ran_work, s2) = run_turn e turn s1
                          in (ran_work,
                              if should_finish (env_end e) (lane s2)
                              then snd (finish_import gen (env_db_ok e) s2) else s2)))"

subsection \<open>Counters\<close>

lemma unat_spend_slice: "unat (spend_slice n) = min (Suc (unat n)) 64"
proof -
  have "unat (min a b) = min (unat a) (unat b)" for a b :: u8
    by (simp add: min_def word_le_nat_alt)
  moreover have "unat n < 2 ^ LENGTH(8)" by (rule unsigned_less)
  ultimately show ?thesis
    using unat_sat_inc [of n] by (simp add: spend_slice_def max_ambient_slices_def)
qed

lemma slices_less: "n < max_ambient_slices \<longleftrightarrow> unat n < 64"
  by (simp add: max_ambient_slices_def word_less_nat_alt)

lemma slices_ge: "max_ambient_slices \<le> n \<longleftrightarrow> 64 \<le> unat n"
  by (simp add: max_ambient_slices_def word_le_nat_alt)

lemma attempts_inc: "unat n < 5 \<Longrightarrow> unat (sat_inc n) = Suc (unat n)" for n :: u8
  using unat_sat_inc [of n] by simp

lemma attempts_five: "n = 5 \<longleftrightarrow> unat n = 5" for n :: u8
  by (simp add: word_unat_eq_iff)

lemma length_import_jobs [simp]: "length import_priority_jobs = 5"
  by (simp add: import_priority_jobs_def)

subsection \<open>The invariant of the lane\<close>

definition ip_inv :: "import_priority \<Rightarrow> bool" where
  "ip_inv p \<longleftrightarrow> unat (ip_slices p) \<le> 64 \<and> ip_next_job p < 5 \<and> unat (ip_round_attempts p) < 5
     \<and> (ip_deadline p \<noteq> None \<longrightarrow>
          length (ip_retries p) \<le> unat (ip_slices p)
        \<and> (\<forall>t \<in> set (ip_retries p). t < ip_deadline_epoch p)
        \<and> (unat (ip_slices p) = 64 \<longrightarrow> ip_phase p \<noteq> None \<or> ip_finished p))"

lemma ip_inv_new: "ip_inv new_import_priority"
  by (simp add: ip_inv_def new_import_priority_def)

lemma ip_inv_activate: "ip_inv p \<Longrightarrow> ip_inv (activate d now e p)"
  by (simp add: activate_def ip_inv_def Let_def)

lemma ip_inv_generation: "ip_inv (p\<lparr>ip_generation := g\<rparr>) = ip_inv p"
  by (simp add: ip_inv_def)

lemma ip_inv_prepare: "ip_inv p \<Longrightarrow> ip_inv (snd (prepare_request ss now e p))"
  by (simp add: prepare_request_def Let_def ip_inv_activate ip_inv_generation)

lemma ip_inv_restore: "ip_inv p \<Longrightarrow> ip_inv (snd (restore d now e p))"
  by (simp add: restore_def Let_def ip_inv_activate ip_inv_generation)

lemma ip_inv_mark: "ip_inv p \<Longrightarrow> ip_inv (snd (mark_started p))"
  by (simp add: mark_started_def ip_inv_def)

lemma ip_inv_clear: "ip_inv p \<Longrightarrow> ip_inv (snd (clear_if_generation g p))"
  by (simp add: clear_if_generation_def ip_inv_def)

lemma ip_inv_synthesis:
  "ip_inv p \<Longrightarrow> ip_inv (snd (note_synthesis_phase g ph p))"
  by (cases ph) (auto simp: note_synthesis_phase_def ip_inv_def)

lemma note_ambient_fields:
  assumes "ip_generation p = g"
  shows "ip_slices (snd (note_ambient g sel p)) = spend_slice (ip_slices p)"
    and "ip_next_job (snd (note_ambient g sel p)) = (ip_next_job p + 1) mod 5"
    and "ip_round_attempts (snd (note_ambient g sel p))
      = (if sat_inc (ip_round_attempts p) = 5 then 0 else sat_inc (ip_round_attempts p))"
    and "ip_retries (snd (note_ambient g sel p)) = ip_retries p"
    and "ip_deadline (snd (note_ambient g sel p)) = ip_deadline p"
    and "ip_deadline_epoch (snd (note_ambient g sel p)) = ip_deadline_epoch p"
    and "ip_finished (snd (note_ambient g sel p)) = ip_finished p"
    and "ip_generation (snd (note_ambient g sel p)) = ip_generation p"
    and "ip_prefer_prep (snd (note_ambient g sel p))"
    and "ip_prep_drained (snd (note_ambient g sel p)) = ip_prep_drained p"
  using assms by (simp_all add: note_ambient_def Let_def close_budget_def)

lemma note_ambient_phase:
  assumes "ip_generation p = g"
  shows "ip_phase (snd (note_ambient g sel p)) =
    (if max_ambient_slices \<le> spend_slice (ip_slices p) then Some Detect
     else if sat_inc (ip_round_attempts p) = 5 \<and> \<not> (ip_round_had_work p \<or> sel)
             \<and> \<not> ip_prep_open (p\<lparr>ip_slices := spend_slice (ip_slices p)\<rparr>)
     then Some Detect else ip_phase p)"
  using assms
  by (simp add: note_ambient_def Let_def close_budget_def ip_prep_open_def ip_snapshot_def
      is_some_and_def prep_open_def split: option.split)

lemma ip_inv_ambient:
  assumes "ip_inv p"
  shows "ip_inv (snd (note_ambient g sel p))"
proof (cases "ip_generation p = g")
  case True
  note f = note_ambient_fields [OF True, of sel]
  have "unat (ip_slices p) \<le> 64" "unat (ip_round_attempts p) < 5"
    using assms by (simp_all add: ip_inv_def)
  then show ?thesis using assms
    by (auto simp: ip_inv_def f note_ambient_phase [OF True] unat_spend_slice slices_ge
        attempts_inc attempts_five)
next
  case False
  with assms show ?thesis by (simp add: note_ambient_def)
qed

lemma ip_inv_document:
  assumes "ip_inv p" "ip_slices p < max_ambient_slices"
  shows "ip_inv (snd (note_document_slice g oc e p))"
proof (cases "ip_generation p = g")
  case True
  have s: "unat (ip_slices p) < 64" using assms(2) by (simp add: slices_less)
  have le: "length (filter P (ip_retries p)) \<le> unat (ip_slices p)" if "ip_deadline p \<noteq> None" for P
    using assms(1) that order.trans [OF length_filter_le [of P "ip_retries p"]]
    by (simp add: ip_inv_def)
  show ?thesis
    using assms(1) True s le
    by (cases oc) (auto simp: note_document_slice_def ip_inv_def Let_def close_budget_def
        unat_spend_slice slices_ge split: option.splits)
next
  case False
  with assms show ?thesis by (simp add: note_document_slice_def)
qed

lemma ip_inv_finish: "ip_inv (lane s) \<Longrightarrow> ip_inv (lane (snd (finish_import g ok s)))"
  by (simp add: finish_import_def ip_inv_clear split_beta)


lemma plan_prep_due: "plan_import_lane_turn sn e ib pb pr pin = TurnPrep \<Longrightarrow> prep_open sn"
  by (auto simp: plan_import_lane_turn_def prep_due_def Let_def split: if_splits option.splits)

lemma ip_inv_run_turn:
  assumes "ip_inv (lane s)" "turn = TurnPrep \<Longrightarrow> ip_slices (lane s) < max_ambient_slices"
  shows "ip_inv (lane (snd (run_turn e turn s)))"
  using assms
  by (auto simp: run_turn_def Let_def ip_inv_document ip_inv_synthesis ip_inv_ambient ip_inv_finish
      split: option.split)

lemma snapshot_prep_open:
  "ip_snapshot p = Some sn \<Longrightarrow> prep_open sn \<Longrightarrow> ip_slices p < max_ambient_slices"
  by (auto simp: ip_snapshot_def prep_open_def)

lemma mark_started_slices [simp]: "ip_slices (snd (mark_started p)) = ip_slices p"
  by (simp add: mark_started_def)

lemma ip_inv_tick: "ip_inv (lane s) \<Longrightarrow> ip_inv (lane (snd (lane_tick e s)))"
  by (auto simp: lane_tick_def Let_def ip_inv_finish ip_inv_mark split_beta
      intro!: ip_inv_finish ip_inv_run_turn ip_inv_mark
      dest: plan_prep_due snapshot_prep_open split: option.split lane_turn.split)

subsection \<open>The work a request can cost\<close>

text \<open>Twice the slices left, and the synthesis phases still to run.\<close>

definition lane_potential :: "import_priority \<Rightarrow> nat" where
  "lane_potential p = (if ip_deadline p = None \<or> ip_finished p then 0
     else 2 * (64 - unat (ip_slices p)) + (if ip_phase p = Some Emergence then 1 else 2))"

lemma potential_bound: "lane_potential p \<le> 130"
proof -
  obtain k where k: "64 - unat (ip_slices p) = k" "k \<le> 64" using diff_le_self by blast
  then show ?thesis by (simp add: lane_potential_def)
qed

lemma potential_mark [simp]: "lane_potential (snd (mark_started p)) = lane_potential p"
  by (simp add: mark_started_def lane_potential_def)

lemma potential_finish: "lane_potential (lane (snd (finish_import g ok s))) \<le> lane_potential (lane s)"
  by (simp add: finish_import_def clear_if_generation_def lane_potential_def split_beta)

lemma potential_ambient:
  assumes "ip_slices p < max_ambient_slices" "ip_phase p = None" "ip_deadline p \<noteq> None" "\<not> ip_finished p"
  shows "lane_potential (snd (note_ambient (ip_generation p) sel p)) < lane_potential p"
  using assms
  by (auto simp: lane_potential_def note_ambient_fields note_ambient_phase unat_spend_slice slices_less)

lemma potential_synthesis:
  assumes "ip_phase p = Some ph" "ip_deadline p \<noteq> None" "\<not> ip_finished p"
  shows "lane_potential (snd (note_synthesis_phase (ip_generation p) ph p)) < lane_potential p"
  using assms by (cases ph) (simp_all add: lane_potential_def note_synthesis_phase_def)

lemma potential_document:
  assumes "ip_slices p < max_ambient_slices" "ip_deadline p \<noteq> None" "\<not> ip_finished p"
  shows "if oc = PrepIdle \<or> oc = ClaimFailed
    then lane_potential (snd (note_document_slice (ip_generation p) oc e p)) \<le> lane_potential p
    else lane_potential (snd (note_document_slice (ip_generation p) oc e p)) < lane_potential p"
  using assms
  by (cases oc) (auto simp: lane_potential_def note_document_slice_def Let_def close_budget_def
      unat_spend_slice slices_less slices_ge split: option.splits)


lemma potential_run_turn:
  assumes "ip_deadline (lane s) \<noteq> None" "\<not> ip_finished (lane s)"
    and "turn = TurnPrep \<Longrightarrow> ip_slices (lane s) < max_ambient_slices"
  shows "lane_potential (lane (snd (run_turn e turn s))) + of_bool (fst (run_turn e turn s))
    \<le> lane_potential (lane s)"
proof (cases "turn = TurnPrep")
  case True
  with assms potential_document [of "lane s" "env_outcome e" "env_outcome_epoch e"]
  show ?thesis by (auto simp: run_turn_def Let_def split: if_splits)
next
  case False
  show ?thesis
  proof (cases "ip_phase (lane s)")
    case None
    with False assms(1,2) potential_ambient [of "lane s" "env_selected e"]
    show ?thesis by (simp add: run_turn_def Let_def Suc_le_eq)
  next
    case (Some ph)
    with False assms(1,2) potential_synthesis [of "lane s" ph]
      potential_finish [of "ip_generation (lane s)" "env_db_ok e" s]
    show ?thesis by (simp add: run_turn_def Let_def Suc_le_eq)
  qed
qed

lemma snapshot_Some: "ip_snapshot p = Some sn \<Longrightarrow> ip_deadline p = Some (sn_deadline sn)
    \<and> ip_generation p = sn_generation sn \<and> sn_slices sn = ip_slices p"
  by (auto simp: ip_snapshot_def)

lemma mark_started_sel [simp]:
  "ip_deadline (snd (mark_started p)) = ip_deadline p"
  "ip_finished (snd (mark_started p)) = ip_finished p"
  "ip_generation (snd (mark_started p)) = ip_generation p"
  by (simp_all add: mark_started_def)

lemma potential_tick:
  "lane_potential (lane (snd (lane_tick e s))) + of_bool (fst (lane_tick e s)) \<le> lane_potential (lane s)"
proof (cases "ip_snapshot (lane s)")
  case None
  then show ?thesis by (simp add: lane_tick_def)
next
  case (Some sn)
  let ?s1 = "s\<lparr>lane := snd (mark_started (lane s))\<rparr>"
  let ?turn = "plan_import_lane_turn sn (env_epoch e) (env_inference_block e)
                        (env_prep_block e) (env_provider e) (env_pinned e)"
  show ?thesis
  proof (cases "env_now e \<ge> sn_deadline sn \<or> should_finish (env_now e) (lane ?s1)")
    case True
    with Some potential_finish [of "sn_generation sn" "env_db_ok e" ?s1]
    show ?thesis by (simp add: lane_tick_def)
  next
    case False
    with Some have d: "ip_deadline (lane ?s1) \<noteq> None" "\<not> ip_finished (lane ?s1)"
      by (auto simp: should_finish_def dest: snapshot_Some)
    have prep: "?turn = TurnPrep \<Longrightarrow> ip_slices (lane ?s1) < max_ambient_slices"
      using plan_prep_due [of sn] snapshot_prep_open [OF Some] by simp
    note pot = potential_run_turn [where turn = ?turn and e = e, OF d prep]
    show ?thesis
      using Some False pot potential_finish [of "sn_generation sn" "env_db_ok e" ?s1]
        potential_finish [of "sn_generation sn" "env_db_ok e" "snd (run_turn e ?turn ?s1)"]
      by (auto simp: lane_tick_def Let_def split_beta split: lane_turn.split)
  qed
qed

text \<open>A run of ticks, oldest first: the ticks that did work, and the lane.\<close>

fun lane_run :: "lane_env list \<Rightarrow> import_lane \<Rightarrow> nat \<times> import_lane" where
  "lane_run [] s = (0, s)"
| "lane_run (e # es) s =
     (let (w, s1) = lane_tick e s; (n, s2) = lane_run es s1 in (of_bool w + n, s2))"

text \<open>C36 (bounded work): between two requests, however many ticks the scheduler runs and whatever
  the gates, the clocks and the outcomes of the work are, at most 130 ticks do work: two per
  slice of the budget and the synthesis phases.\<close>

theorem import_lane_work_is_bounded: "fst (lane_run es s) \<le> 130"
proof -
  have "fst (lane_run es s) + lane_potential (lane (snd (lane_run es s))) \<le> lane_potential (lane s)"
  proof (induction es arbitrary: s)
    case (Cons e es)
    show ?case
      using Cons.IH [of "snd (lane_tick e s)"] potential_tick [of e s]
      by (simp add: Let_def split_beta)
  qed simp
  then show ?thesis using potential_bound [of "lane s"] by linarith
qed

text \<open>A request activates the lane whether or not its writes succeed, and the deadline stays written when
  only the write of the batch fails.\<close>

lemma persist_and_request_lane:
  "lane (snd (persist_and_request ss now ep ok batch s)) = snd (prepare_request ss now ep (lane s))"
  by (simp add: persist_and_request_def Let_def split: option.split prod.split)

lemma persist_and_request_metadata:
  "metadata (snd (persist_and_request ss now ep ok batch s)) = (if ok then deadline_epoch_now ss else metadata s)"
  by (simp add: persist_and_request_def prepare_request_def Let_def split: option.split prod.split)

lemma persist_and_request_batch:
  assumes "fst (persist_and_request ss now ep ok (Some w) s)"
  shows "batches (snd (persist_and_request ss now ep ok (Some w) s)) (bw_id w) = Some (deadline_epoch_now ss)"
  using assms
  by (auto simp: persist_and_request_def persist_import_batch_priority_def prepare_request_def Let_def split: if_splits)

text \<open>A request is accepted with at most ten minutes to run, and
  every operation of the lane keeps the slice budget of 64, the job and round counters in range,
  and one retry per spent slice, each before the deadline; a spent budget has its synthesis
  phase.\<close>

theorem import_lane_stays_in_bounds:
  assumes "ip_inv (lane s)"
  shows "ip_inv (lane (snd (lane_tick e s)))
    \<and> ip_inv (lane (snd (persist_and_request ss now ep ok batch s)))
    \<and> ip_inv (snd (restore d now ep (lane s)))
    \<and> is_none_or (\<lambda>t. t \<le> now + secs 600)
        (ip_deadline (lane (snd (persist_and_request ss now ep ok batch s))))
    \<and> unat (ip_slices (lane s)) \<le> 64 \<and> ip_next_job (lane s) < length import_priority_jobs"
proof -
  have "is_none_or (\<lambda>t. t \<le> now + secs 600) (ip_deadline (activate dd now ep p))" for dd p
    by (simp add: activate_def Let_def import_window_secs_def min_def nat_le_iff)
  then have "is_none_or (\<lambda>t. t \<le> now + secs 600)
      (ip_deadline (lane (snd (persist_and_request ss now ep ok batch s))))"
    unfolding persist_and_request_lane by (simp add: prepare_request_def Let_def)
  moreover have "ip_inv (lane (snd (persist_and_request ss now ep ok batch s)))"
    using assms ip_inv_prepare unfolding persist_and_request_lane by simp
  ultimately show ?thesis
    using assms ip_inv_tick [OF assms] ip_inv_restore [OF assms] by (simp add: ip_inv_def)
qed

lemma import_lane_stays_in_bounds_witness:
  "ip_inv (lane (snd (persist_and_request 5 0 5 True None
     \<lparr>lane = new_import_priority, metadata = 0, batches = Map.empty\<rparr>)))"
  using import_lane_stays_in_bounds [of "\<lparr>lane = new_import_priority, metadata = 0, batches = Map.empty\<rparr>"]
    ip_inv_new by simp

subsection \<open>The plan of a turn\<close>

text \<open>A turn prepares documents only when a document is due and nothing blocks
  preparation, infers only with a provider, no block, and no idle round while preparation is
  open, and the lane gives up only when preparation is closed, nothing blocks inference, there is
  no provider and none is pinned.\<close>

theorem plan_import_lane_turn_spec:
  "(plan_import_lane_turn sn ep ib pb pr pin = TurnPrep \<longrightarrow> prep_due sn ep \<and> pb = None)
   \<and> (plan_import_lane_turn sn ep ib pb pr pin = TurnInference \<longrightarrow> pr \<and> ib = None
        \<and> \<not> (prep_open sn \<and> sn_round_idle sn))
   \<and> (plan_import_lane_turn sn ep ib pb pr pin = TurnFinishNoProvider
        \<longleftrightarrow> \<not> prep_open sn \<and> \<not> pr \<and> ib = None \<and> \<not> pin)
   \<and> (prep_due sn ep \<and> pb = None \<and> pr \<and> ib = None \<and> \<not> sn_round_idle sn
        \<longrightarrow> plan_import_lane_turn sn ep ib pb pr pin
              = (if sn_prefer_prep sn then TurnPrep else TurnInference))"
  by (auto simp: plan_import_lane_turn_def prep_due_def Let_def split: option.split)


lemma plan_import_lane_turn_spec_witness:
  "plan_import_lane_turn \<lparr>sn_deadline = 9, sn_deadline_epoch = 9, sn_generation = 1, sn_slices = 0,
     sn_next_job = Document, sn_phase = None, sn_prep_drained = False, sn_prep_retry_at = None,
     sn_prefer_prep = True, sn_round_idle = False\<rparr> 0 None None True False = TurnPrep"
  (is "plan_import_lane_turn ?sn _ _ _ _ _ = _")
  using plan_import_lane_turn_spec [of ?sn 0 None None True False]
  by (simp add: prep_due_def prep_open_def max_ambient_slices_def)

text \<open>While documents are due and inference is ready, with no
  gate closed, a recorded inference job gives the next turn to preparation, and a recorded
  preparation (any outcome but a failed claim of the queue) gives it to inference.\<close>

theorem import_lane_alternation:
  assumes "ip_generation p = g" and ready: "pr" "ib = None" "pb = None"
  shows "(ip_snapshot (snd (note_ambient g sel p)) = Some sn \<and> prep_due sn ep
        \<longrightarrow> plan_import_lane_turn sn ep ib pb pr pin = TurnPrep)
    \<and> (oc \<noteq> ClaimFailed \<and> ip_snapshot (snd (note_document_slice g oc ep p)) = Some sn
        \<and> \<not> sn_round_idle sn
        \<longrightarrow> plan_import_lane_turn sn ep ib pb pr pin = TurnInference)"
proof -
  have 1: "plan_import_lane_turn sn ep ib pb pr pin = TurnPrep"
    if "ip_snapshot (snd (note_ambient g sel p)) = Some sn" "prep_due sn ep"
  proof -
    have "sn_prefer_prep sn"
      using that(1) note_ambient_fields(9) [OF assms(1), of sel] by (auto simp: ip_snapshot_def)
    with that(2) ready show ?thesis by (simp add: plan_import_lane_turn_def Let_def)
  qed
  have 2: "plan_import_lane_turn sn ep ib pb pr pin = TurnInference"
    if "oc \<noteq> ClaimFailed" "ip_snapshot (snd (note_document_slice g oc ep p)) = Some sn"
      "\<not> sn_round_idle sn"
  proof -
    have "\<not> ip_prefer_prep (snd (note_document_slice g oc ep p))"
      using that(1) assms(1) by (cases oc) (simp_all add: note_document_slice_def Let_def)
    then have "\<not> sn_prefer_prep sn" using that(2) by (auto simp: ip_snapshot_def)
    with that(3) ready show ?thesis by (simp add: plan_import_lane_turn_def Let_def)
  qed
  from 1 2 show ?thesis by blast
qed


definition demo_lane :: import_lane where
  "demo_lane = \<lparr>lane = (snd (prepare_request 0 0 0 new_import_priority))\<lparr>ip_started_logged := True\<rparr>,
     metadata = 600, batches = Map.empty\<rparr>"

lemma import_lane_alternation_witness:
  "plan_import_lane_turn (the (ip_snapshot (snd (note_document_slice 1 Prepared 0 (lane demo_lane)))))
     0 None None True False = TurnInference"
  using import_lane_alternation [where p = "lane demo_lane" and g = 1 and oc = Prepared and ep = 0]
  by (simp add: demo_lane_def prepare_request_def activate_def sat_i64_def deadline_epoch_now_def
      import_window_secs_def new_import_priority_def Let_def ip_snapshot_def note_document_slice_def
      close_budget_def)

text \<open>While the queue claim keeps failing, a lane whose turn is
  preparation stays with preparation: no tick before the deadline does any work or changes the
  lane, whether or not inference is ready.\<close>

theorem claim_failures_hold_the_lane:
  assumes "ip_deadline (lane s) = Some d" "\<not> ip_finished (lane s)" "ip_started_logged (lane s)"
    and "ip_prefer_prep (lane s)" "\<not> ip_prep_drained (lane s)" "ip_slices (lane s) < max_ambient_slices"
    and "\<forall>e \<in> set es. env_prep_block e = None \<and> env_outcome e = ClaimFailed
      \<and> env_now e < d \<and> env_end e < d"
  shows "lane_run es s = (0, s)"
  using assms(7)
proof (induction es)
  case Nil
  then show ?case by simp
next
  case (Cons e es)
  obtain sn where sn: "ip_snapshot (lane s) = Some sn" using assms(1) by (simp add: ip_snapshot_def)
  then have f: "sn_deadline sn = d" "sn_prefer_prep sn" "\<not> sn_prep_drained sn"
      "sn_slices sn < max_ambient_slices" "sn_generation sn = ip_generation (lane s)"
    using assms by (auto simp: ip_snapshot_def)
  have turn: "plan_import_lane_turn sn (env_epoch e) (env_inference_block e) (env_prep_block e)
      (env_provider e) (env_pinned e) = TurnPrep"
    using f Cons.prems by (simp add: plan_import_lane_turn_def prep_due_def prep_open_def Let_def)
  have mark: "s\<lparr>lane := snd (mark_started (lane s))\<rparr> = s"
    using assms(3) by (simp add: mark_started_def)
  have run: "run_turn e TurnPrep s = (False, s)"
    using Cons.prems by (simp add: run_turn_def note_document_slice_def Let_def)
  have "lane_tick e s = (False, s)"
    using sn turn mark run f assms(1,2) Cons.prems
    by (simp add: lane_tick_def Let_def should_finish_def)
  with Cons show ?case by simp
qed

lemma claim_failures_hold_the_lane_witness:
  "let e = \<lparr>env_now = 1, env_epoch = 0, env_inference_block = None, env_prep_block = None,
        env_provider = True, env_pinned = False, env_lock_free = True, env_outcome = ClaimFailed,
        env_outcome_epoch = 0, env_background_ai = True, env_synthesis_available = True,
        env_synthesis_pinned = False, env_selected = True, env_end = 2, env_db_ok = True\<rparr>
   in lane_run [e, e, e] demo_lane = (0, demo_lane)"
  unfolding Let_def
  by (rule claim_failures_hold_the_lane [where d = "secs 600"])
     (simp_all add: demo_lane_def prepare_request_def activate_def sat_i64_def deadline_epoch_now_def
      import_window_secs_def new_import_priority_def Let_def max_ambient_slices_def secs_def)

end
