(* ===== verification/Automatic_Triggers.thy ===== *)
theory Automatic_Triggers
  imports Import_Priority "HOL-Library.List_Lexorder" "HOL-Library.Char_ord"
    "HOL-Library.Multiset"
begin

text \<open>
  The automatic triggers of the scheduler (\<open>crates/wenlan-server/src/scheduler.rs\<close>): the write
  signal and its bursts, the adaptive gap, the choice of one heavy trigger per poll, the finite
  rounds of refinery phases and maintenance stages with their durable cursors, and the
  automatic section of the loop. The phases and the trigger kinds are those of
  \<open>crates/wenlan-core/src/refinery\<close>, the stages those of \<open>maintenance.rs\<close>.

  A \<open>HashMap\<close> is a map; where the code iterates over one, the order of the iteration is an
  argument. An \<open>expect\<close> that fails is the result \<open>None\<close>.
\<close>

subsection \<open>Phases, trigger kinds and stages\<close>

datatype phase = Decay | Promote | Recaps | Reweave | Reembed
   | EntityExtraction | CommunityDetection | DetectPhase | EmergencePhase
  | SummaryRollup | ReDistill | OverviewPhase | RefinementQueue | DecisionLogs
  | PruneRejections | Evict | KgRethink | PageMaps

definition all_phases :: "phase list" where
  "all_phases = [Decay, Promote, Recaps, Reweave, Reembed, EntityExtraction,
     CommunityDetection, DetectPhase, EmergencePhase, SummaryRollup, ReDistill,
     OverviewPhase, RefinementQueue, DecisionLogs, PruneRejections, Evict, KgRethink, PageMaps]"

fun phase_str :: "phase \<Rightarrow> string" where
  "phase_str Decay = ''decay''"
| "phase_str Promote = ''promote''"
| "phase_str Recaps = ''recaps''"
| "phase_str Reweave = ''reweave''"
| "phase_str Reembed = ''reembed''"
| "phase_str EntityExtraction = ''entity_extraction''"
| "phase_str CommunityDetection = ''community_detection''"
| "phase_str DetectPhase = ''detect''"
| "phase_str EmergencePhase = ''emergence''"
| "phase_str SummaryRollup = ''summary_rollup''"
| "phase_str ReDistill = ''re-distill''"
| "phase_str OverviewPhase = ''overview''"
| "phase_str RefinementQueue = ''refinement_queue''"
| "phase_str DecisionLogs = ''decision_logs''"
| "phase_str PruneRejections = ''prune_rejections''"
| "phase_str Evict = ''evict''"
| "phase_str KgRethink = ''kg_rethink''"
| "phase_str PageMaps = ''page_maps''"

datatype trigger_kind = KBackstop | KBurstEnd | KIdle | KDaily

definition runs_phase :: "trigger_kind \<Rightarrow> phase \<Rightarrow> bool" where
  "runs_phase k p = (case k of
     KBackstop \<Rightarrow> True
   | KBurstEnd \<Rightarrow> p \<in> {Recaps, RefinementQueue}
   | KIdle \<Rightarrow> p \<in> {CommunityDetection, DetectPhase, EmergencePhase, SummaryRollup, ReDistill,
       OverviewPhase, DecisionLogs, PageMaps}
   | KDaily \<Rightarrow> p \<in> {Decay, Promote, Reweave, Reembed, EntityExtraction, OverviewPhase,
       PruneRejections, Evict, KgRethink})"

datatype maintenance_stage = RetroReview | NearDuplicate | OrphanInventory | CrossSpaceDiscovery | StalePage | OverviewStage

definition all_stages :: "maintenance_stage list" where
  "all_stages = [RetroReview, NearDuplicate, OrphanInventory, CrossSpaceDiscovery, StalePage, OverviewStage]"

fun stage_str :: "maintenance_stage \<Rightarrow> string" where
  "stage_str RetroReview = ''retro_review''"
| "stage_str NearDuplicate = ''near_duplicate''"
| "stage_str OrphanInventory = ''orphan_inventory''"
| "stage_str CrossSpaceDiscovery = ''cross_space_discovery''"
| "stage_str StalePage = ''stale_page''"
| "stage_str OverviewStage = ''overview''"

subsection \<open>The write signal\<close>

type_synonym write_signal = "string \<rightharpoonup> instant list"

definition record_write :: "string \<Rightarrow> instant \<Rightarrow> write_signal \<Rightarrow> write_signal" where
  "record_write agent now m =
     m(agent \<mapsto> (case m agent of None \<Rightarrow> [] | Some ts \<Rightarrow> ts) @ [now])"

definition drain_up_to :: "string \<Rightarrow> instant \<Rightarrow> write_signal \<Rightarrow> instant list \<times> write_signal" where
  "drain_up_to agent cutoff m =
     (case m agent of
        None \<Rightarrow> ([], m)
      | Some ts \<Rightarrow>
          let drained = filter (\<lambda>t. t \<le> cutoff) ts; remaining = filter (\<lambda>t. \<not> t \<le> cutoff) ts
          in (drained, if remaining = [] then m(agent := None) else m(agent \<mapsto> remaining)))"

definition burst_gap_ceiling :: duration where
  "burst_gap_ceiling = secs 1800"

definition burst_gap_floor :: duration where
  "burst_gap_floor = secs 300"

definition min_burst_writes :: nat where
  "min_burst_writes = 3"

definition intervals_of :: "instant list \<Rightarrow> duration list" where
  "intervals_of ts = map (\<lambda>(a, b). b - a) (zip ts (tl ts))"

definition adaptive_gap :: "instant list \<Rightarrow> duration" where
  "adaptive_gap ts =
     (if length ts < 2 then burst_gap_ceiling
      else let intervals = sort (intervals_of (sort ts));
               n = length intervals;
               median = (if n mod 2 = 0
                  then (intervals ! (n div 2 - 1) + intervals ! (n div 2)) div 2
                  else intervals ! (n div 2))
           in max burst_gap_floor (min burst_gap_ceiling (median * 2)))"

subsection \<open>Triggers\<close>

datatype automatic_trigger = Maintenance
  | BurstEnd (burst_agent: string) (burst_last_write: instant) (burst_writes: nat) (burst_gap: duration)
  | Idle | Daily | Backstop

datatype maintenance_admission = NoMaintenance | Ready | YieldToDueSteep

definition maintenance_admission :: "bool \<Rightarrow> bool \<Rightarrow> maintenance_admission" where
  "maintenance_admission is_pending ran_since_steep =
     (if \<not> is_pending then NoMaintenance else if \<not> ran_since_steep then Ready else YieldToDueSteep)"

fun steep_kind :: "automatic_trigger \<Rightarrow> trigger_kind option" where
  "steep_kind Maintenance = None"
| "steep_kind (BurstEnd a t n g) = Some KBurstEnd"
| "steep_kind Idle = Some KIdle"
| "steep_kind Daily = Some KDaily"
| "steep_kind Backstop = Some KBackstop"

record slice_outcome =
  oc_selected :: bool
  oc_progressed :: bool
  oc_more :: bool
  oc_retryable :: bool
  oc_paused :: bool
  oc_panicked :: bool

datatype batch_disposition = BatchPending | BatchComplete

definition automatic_phase_allowed :: "phase \<Rightarrow> bool" where
  "automatic_phase_allowed p \<longleftrightarrow> p = ReDistill"

definition automatic_kind_has_work :: "trigger_kind \<Rightarrow> bool" where
  "automatic_kind_has_work k = list_ex (\<lambda>p. runs_phase k p \<and> automatic_phase_allowed p) all_phases"

text \<open>\<open>rotate_left\<close> to the cursor, when the queue holds it.\<close>

fun position :: "'a \<Rightarrow> 'a list \<Rightarrow> nat option" where
  "position x [] = None"
| "position x (y # ys) = (if y = x then Some 0 else map_option Suc (position x ys))"

definition rotate_to :: "'a option \<Rightarrow> 'a list \<Rightarrow> 'a list" where
  "rotate_to cur xs = (case cur of None \<Rightarrow> xs
     | Some x \<Rightarrow> (case position x xs of None \<Rightarrow> xs | Some i \<Rightarrow> rotate i xs))"

record steep_batch =
  sb_trigger :: automatic_trigger
  sb_phases :: "phase list"

definition new_steep_batch :: "automatic_trigger \<Rightarrow> phase option \<Rightarrow> steep_batch option" where
  "new_steep_batch t cur = (case steep_kind t of None \<Rightarrow> None
     | Some k \<Rightarrow> Some \<lparr>sb_trigger = t, sb_phases =
         rotate_to cur (filter (\<lambda>p. runs_phase k p \<and> automatic_phase_allowed p) all_phases)\<rparr>)"

definition requeues :: "slice_outcome \<Rightarrow> bool" where
  "requeues oc \<longleftrightarrow> oc_progressed oc \<and> oc_more oc \<and> \<not> oc_retryable oc \<and> \<not> oc_paused oc"

text \<open>Popping the attempted item and moving it to the tail when it has proven more progress.\<close>

definition complete_item :: "'a \<Rightarrow> slice_outcome \<Rightarrow> 'a list \<Rightarrow> (batch_disposition \<times> 'a list) option" where
  "complete_item attempted oc q = (case q of [] \<Rightarrow> None
     | _ # rest \<Rightarrow>
         let q' = (if requeues oc then rest @ [attempted] else rest)
         in Some (if q' = [] then BatchComplete else BatchPending, q'))"

definition complete_phase ::
    "phase \<Rightarrow> slice_outcome \<Rightarrow> steep_batch \<Rightarrow> (batch_disposition \<times> steep_batch) option" where
  "complete_phase p oc b = map_option (\<lambda>(d, q). (d, b\<lparr>sb_phases := q\<rparr>)) (complete_item p oc (sb_phases b))"

definition phase_cursor_after :: "phase \<Rightarrow> steep_batch \<Rightarrow> phase option" where
  "phase_cursor_after attempted b =
     (case sb_phases b of
        p # _ \<Rightarrow> Some p
      | [] \<Rightarrow>
        (case steep_kind (sb_trigger b) of None \<Rightarrow> None
         | Some k \<Rightarrow>
           let i = (case position attempted all_phases of None \<Rightarrow> 0 | Some i \<Rightarrow> i)
           in find (\<lambda>p. runs_phase k p \<and> automatic_phase_allowed p)
                (map (\<lambda>offset. all_phases ! ((i + offset) mod length all_phases))
                   [1..<length all_phases + 1])))"

definition new_maintenance_round :: "maintenance_stage option \<Rightarrow> maintenance_stage list" where
  "new_maintenance_round cur = rotate_to cur all_stages"

definition complete_stage ::
    "maintenance_stage \<Rightarrow> slice_outcome \<Rightarrow> maintenance_stage list
     \<Rightarrow> (batch_disposition \<times> maintenance_stage list) option" where
  "complete_stage = complete_item"

definition stage_cursor_after :: "maintenance_stage \<Rightarrow> maintenance_stage list \<Rightarrow> maintenance_stage" where
  "stage_cursor_after attempted q =
     (case q of s # _ \<Rightarrow> s
      | [] \<Rightarrow> let i = (case position attempted all_stages of None \<Rightarrow> 0 | Some i \<Rightarrow> i)
              in all_stages ! ((i + 1) mod length all_stages))"

subsection \<open>The durable cursors\<close>

definition phase_cursor_key :: "trigger_kind \<Rightarrow> string" where
  "phase_cursor_key k = ''automatic_steep_phase_cursor_v1'' @ ''_'' @ (case k of
     KBurstEnd \<Rightarrow> ''burst_end'' | KIdle \<Rightarrow> ''idle'' | KDaily \<Rightarrow> ''daily'' | KBackstop \<Rightarrow> ''backstop'')"

definition stage_cursor_key :: string where
  "stage_cursor_key = ''automatic_maintenance_stage_cursor_v1''"

definition load_phase_cursor :: "(string \<rightharpoonup> string) \<Rightarrow> trigger_kind \<Rightarrow> phase option" where
  "load_phase_cursor db k = (case db (phase_cursor_key k) of None \<Rightarrow> None
     | Some v \<Rightarrow> find (\<lambda>p. phase_str p = v) all_phases)"

definition persist_phase_cursor ::
    "bool \<Rightarrow> trigger_kind \<Rightarrow> phase \<Rightarrow> (string \<rightharpoonup> string) \<Rightarrow> (string \<rightharpoonup> string)" where
  "persist_phase_cursor ok k p db = (if ok then db(phase_cursor_key k \<mapsto> phase_str p) else db)"

definition load_stage_cursor :: "(string \<rightharpoonup> string) \<Rightarrow> maintenance_stage option" where
  "load_stage_cursor db = (case db stage_cursor_key of None \<Rightarrow> None
     | Some v \<Rightarrow> find (\<lambda>s. stage_str s = v) all_stages)"

definition persist_stage_cursor ::
    "bool \<Rightarrow> maintenance_stage \<Rightarrow> (string \<rightharpoonup> string) \<Rightarrow> (string \<rightharpoonup> string)" where
  "persist_stage_cursor ok s db = (if ok then db(stage_cursor_key \<mapsto> stage_str s) else db)"

subsection \<open>Choosing the trigger\<close>

definition queues_maintenance_followup :: "automatic_trigger \<Rightarrow> bool" where
  "queues_maintenance_followup t \<longleftrightarrow> t = Idle \<or> t = Backstop"

definition automatic_batch_idle_threshold :: duration where
  "automatic_batch_idle_threshold = secs 600"

definition daily_interval :: duration where
  "daily_interval = secs (24 * 60 * 60)"

definition backstop_interval :: duration where
  "backstop_interval = secs (6 * 60 * 60)"

text \<open>\<open>drain_expired_unactionable_bursts\<close> over the agents of the snapshot in the order of the
  iteration; the count it returns and the signal.\<close>

fun drain_expired ::
    "instant \<Rightarrow> (string \<times> instant list) list \<Rightarrow> write_signal \<Rightarrow> nat \<times> write_signal" where
  "drain_expired now [] m = (0, m)"
| "drain_expired now ((agent, ts) # rest) m =
     (if ts = [] then drain_expired now rest m
      else if length ts \<ge> min_burst_writes \<and> automatic_kind_has_work KBurstEnd
      then drain_expired now rest m
      else let last_write = Max (set ts)
           in if now - last_write > adaptive_gap ts
              then let (d, m') = drain_up_to agent last_write m;
                       (n, m'') = drain_expired now rest m'
                   in (length d + n, m'')
              else drain_expired now rest m)"

definition burst_candidate :: "instant \<Rightarrow> string \<times> instant list \<Rightarrow> automatic_trigger option" where
  "burst_candidate now = (\<lambda>(agent, ts).
     if length ts < min_burst_writes then None
     else let last_write = Max (set ts); gap = adaptive_gap ts
          in if now - last_write > gap then Some (BurstEnd agent last_write (length ts) gap) else None)"

definition select_due_automatic_trigger ::
    "instant \<Rightarrow> (string \<times> instant list) list \<Rightarrow> maintenance_admission \<Rightarrow> instant \<Rightarrow> bool
     \<Rightarrow> instant \<Rightarrow> instant \<Rightarrow> automatic_trigger option" where
  "select_due_automatic_trigger now snap maint last_write_activity idle_fired last_daily last_backstop =
     (let bursts = sort_key burst_agent (List.map_filter (burst_candidate now) snap)
      in if maint = Ready then Some Maintenance
         else if automatic_kind_has_work KBurstEnd \<and> bursts \<noteq> [] then Some (hd bursts)
         else if \<not> idle_fired \<and> now - last_write_activity \<ge> automatic_batch_idle_threshold
                 \<and> automatic_kind_has_work KIdle then Some Idle
         else if now - last_daily > daily_interval \<and> automatic_kind_has_work KDaily then Some Daily
         else if now - last_backstop > backstop_interval \<and> automatic_kind_has_work KBackstop
         then Some Backstop
         else if maint \<noteq> NoMaintenance then Some Maintenance else None)"

subsection \<open>The automatic section of the loop\<close>

record auto_state =
  au_signal :: write_signal
  au_steep_batch :: "steep_batch option"
  au_round :: "maintenance_stage list option"
  au_pending :: bool
  au_ran_since_steep :: bool
  au_idle_fired :: bool
  au_last_daily :: instant
  au_last_backstop :: instant
  au_ambient_owed :: bool
  au_db :: "string \<rightharpoonup> string"

text \<open>What the section meets: the switch read before the launch, the outcome of the slice, the
  instant of completion, the daily stamp it would write and whether the writes succeed.\<close>

record auto_env =
  ae_background_ai :: bool
  ae_outcome :: slice_outcome
  ae_completed :: instant
  ae_daily_stamp :: string
  ae_db_ok :: bool

definition selected_automatic ::
    "instant \<Rightarrow> (string \<times> instant list) list \<Rightarrow> instant \<Rightarrow> auto_state \<Rightarrow> automatic_trigger option"
  where
  "selected_automatic now snap last_write_activity st =
     (case au_steep_batch st of
        Some b \<Rightarrow> Some (sb_trigger b)
      | None \<Rightarrow> select_due_automatic_trigger now snap
          (maintenance_admission (au_pending st) (au_ran_since_steep st)) last_write_activity
          (au_idle_fired st) (au_last_daily st) (au_last_backstop st))"

definition maintenance_turn :: "auto_env \<Rightarrow> auto_state \<Rightarrow> (bool \<times> auto_state) option" where
  "maintenance_turn e st =
     (let q = (case au_round st of Some q \<Rightarrow> q
               | None \<Rightarrow> new_maintenance_round (load_stage_cursor (au_db st)));
          st1 = st\<lparr>au_round := Some q\<rparr>
      in (case q of [] \<Rightarrow> None
          | stage # _ \<Rightarrow>
            if \<not> ae_background_ai e then Some (False, st1)
            else (case complete_stage stage (ae_outcome e) q of None \<Rightarrow> None
              | Some (d, q') \<Rightarrow>
                let st2 = st1\<lparr>au_db := persist_stage_cursor (ae_db_ok e) (stage_cursor_after stage q')
                                         (au_db st1), au_ambient_owed := True\<rparr>
                in Some (True, if d = BatchComplete
                     then st2\<lparr>au_round := None, au_pending := False, au_ran_since_steep := False\<rparr>
                     else st2\<lparr>au_round := Some q', au_ran_since_steep := True\<rparr>))))"

definition finish_trigger :: "auto_env \<Rightarrow> automatic_trigger \<Rightarrow> auto_state \<Rightarrow> auto_state option" where
  "finish_trigger e t st =
     (let st1 = (if queues_maintenance_followup t then st\<lparr>au_pending := True\<rparr> else st)
      in (case t of
            BurstEnd agent last_write _ _ \<Rightarrow>
              Some (st1\<lparr>au_signal := snd (drain_up_to agent last_write (au_signal st1))\<rparr>)
          | Idle \<Rightarrow> Some (st1\<lparr>au_idle_fired := True\<rparr>)
          | Daily \<Rightarrow> Some (st1\<lparr>au_last_daily := ae_completed e, au_db :=
              (if ae_db_ok e then (au_db st1)(''last_daily_steep_ts'' \<mapsto> ae_daily_stamp e)
               else au_db st1)\<rparr>)
          | Backstop \<Rightarrow> Some (st1\<lparr>au_last_backstop := ae_completed e\<rparr>)
          | Maintenance \<Rightarrow> None))"

text \<open>The batch of the trigger: the one in progress, or a new one from the durable cursor.\<close>

definition steep_batch_for :: "automatic_trigger \<Rightarrow> auto_state \<Rightarrow> steep_batch option" where
  "steep_batch_for t st = (case au_steep_batch st of Some b \<Rightarrow> Some b
     | None \<Rightarrow> (case steep_kind t of None \<Rightarrow> None
         | Some k \<Rightarrow> new_steep_batch t (load_phase_cursor (au_db st) k)))"

definition steep_attempt :: "auto_env \<Rightarrow> steep_batch \<Rightarrow> auto_state \<Rightarrow> (bool \<times> auto_state) option" where
  "steep_attempt e b st =
     (case (steep_kind (sb_trigger b), sb_phases b) of
        (Some k, phase # _) \<Rightarrow>
          if \<not> ae_background_ai e then Some (False, st)
          else (case complete_phase phase (ae_outcome e) b of None \<Rightarrow> None
            | Some (d, b') \<Rightarrow>
              (case phase_cursor_after phase b' of None \<Rightarrow> None
               | Some cur \<Rightarrow>
                 let st2 = st\<lparr>au_db := persist_phase_cursor (ae_db_ok e) k cur (au_db st),
                               au_ambient_owed := True\<rparr>
                 in if d = BatchComplete
                    then map_option (Pair True)
                           (finish_trigger e (sb_trigger b') (st2\<lparr>au_steep_batch := None\<rparr>))
                    else Some (True, st2\<lparr>au_steep_batch := Some b'\<rparr>)))
      | _ \<Rightarrow> None)"

definition steep_turn :: "auto_env \<Rightarrow> automatic_trigger \<Rightarrow> auto_state \<Rightarrow> (bool \<times> auto_state) option" where
  "steep_turn e t st =
     (let st0 = st\<lparr>au_ran_since_steep := False\<rparr>
      in (case steep_batch_for t st0 of None \<Rightarrow> None
          | Some b \<Rightarrow> steep_attempt e b (st0\<lparr>au_steep_batch := Some b\<rparr>)))"

definition automatic_turn ::
    "auto_env \<Rightarrow> automatic_trigger \<Rightarrow> auto_state \<Rightarrow> (bool \<times> auto_state) option" where
  "automatic_turn e t st = (if t = Maintenance then maintenance_turn e st else steep_turn e t st)"

subsection \<open>The gap\<close>

text \<open>The adaptive gap of a burst lies between five and thirty minutes, and depends
  on the set of write times with their multiplicity only, not on their order.\<close>

theorem adaptive_gap_bounds:
  "secs 300 \<le> adaptive_gap ts \<and> adaptive_gap ts \<le> secs 1800
    \<and> (\<forall>us. mset us = mset ts \<longrightarrow> adaptive_gap us = adaptive_gap ts)"
proof -
  have "adaptive_gap us = adaptive_gap ts" if "mset us = mset ts" for us
  proof -
    have "sort us = sort ts" using that by (metis sorted_list_of_multiset_mset)
    moreover have "length us = length ts" using that by (rule mset_eq_length)
    ultimately show ?thesis by (simp add: adaptive_gap_def)
  qed
  moreover have "secs 300 \<le> adaptive_gap ts \<and> adaptive_gap ts \<le> secs 1800"
    by (simp add: adaptive_gap_def burst_gap_floor_def burst_gap_ceiling_def Let_def)
  ultimately show ?thesis by blast
qed

lemma adaptive_gap_bounds_witness: "adaptive_gap [7, 1, 4] = adaptive_gap [1, 4, 7]"
proof -
  have "mset [7, 1, 4 :: instant] = mset [1, 4, 7]" by simp
  with adaptive_gap_bounds [of "[1, 4, 7]"] show ?thesis by blast
qed

subsection \<open>Draining\<close>

text \<open>\<open>drain_up_to\<close> splits the agent's writes at the cutoff,
  leaves every later write and every other agent, and leaves no empty entry.\<close>

theorem drain_up_to_splits:
  "mset (fst (drain_up_to a cutoff m)) + mset (case snd (drain_up_to a cutoff m) a of None \<Rightarrow> [] | Some ts \<Rightarrow> ts)
      = mset (case m a of None \<Rightarrow> [] | Some ts \<Rightarrow> ts)
    \<and> (\<forall>t \<in> set (fst (drain_up_to a cutoff m)). t \<le> cutoff)
    \<and> is_none_or (\<lambda>ts. \<forall>t \<in> set ts. cutoff < t) (snd (drain_up_to a cutoff m) a)
    \<and> (m a \<noteq> None \<longrightarrow> snd (drain_up_to a cutoff m) a \<noteq> Some [])
    \<and> (\<forall>b. b \<noteq> a \<longrightarrow> snd (drain_up_to a cutoff m) b = m b)"
proof (cases "m a")
  case None
  then show ?thesis by (simp add: drain_up_to_def)
next
  case (Some ts)
  have split: "mset (filter (\<lambda>t. t \<le> cutoff) ts) + mset (filter (\<lambda>t. \<not> t \<le> cutoff) ts) = mset ts"
    by (metis mset_filter multiset_partition)
  show ?thesis
  proof (cases "filter (\<lambda>t. \<not> t \<le> cutoff) ts = []")
    case True
    with Some split show ?thesis by (simp add: drain_up_to_def)
  next
    case False
    with Some split show ?thesis by (auto simp: drain_up_to_def)
  qed
qed

lemma drain_up_to_splits_witness:
  "9 \<notin> set (fst (drain_up_to ''a'' 5 [''a'' \<mapsto> [1, 9, 5]]))"
proof
  assume "9 \<in> set (fst (drain_up_to ''a'' 5 [''a'' \<mapsto> [1, 9, 5]]))"
  with drain_up_to_splits [of "''a''" 5 "[''a'' \<mapsto> [1, 9, 5]]"] have "(9 :: instant) \<le> 5" by blast
  then show False by simp
qed

subsection \<open>Rotation and rounds\<close>

lemma rotate_to_set [simp]: "set (rotate_to cur xs) = set xs" "length (rotate_to cur xs) = length xs"
  by (auto simp: rotate_to_def split: option.split)

lemma rotate_to_empty [simp]: "rotate_to cur xs = [] \<longleftrightarrow> xs = []"
  by (metis length_0_conv rotate_to_set(2))

lemma position_Some: "x \<in> set xs \<Longrightarrow> \<exists>i. position x xs = Some i \<and> i < length xs \<and> xs ! i = x"
  by (induction xs) force+

text \<open>A whole round: the items attempted with the given outcomes, and the queue left.\<close>

fun round_run :: "slice_outcome list \<Rightarrow> 'a list \<Rightarrow> 'a list \<times> 'a list" where
  "round_run [] q = ([], q)"
| "round_run (oc # ocs) [] = ([], [])"
| "round_run (oc # ocs) (x # q) =
     (case complete_item x oc (x # q) of
        None \<Rightarrow> ([], x # q)
      | Some (d, q') \<Rightarrow> let (att, r) = round_run ocs q' in (x # att, r))"

lemma complete_item_Cons:
  "complete_item x oc (x # q) = Some (if requeues oc \<or> q \<noteq> [] then BatchPending else BatchComplete,
     if requeues oc then q @ [x] else q)"
  by (auto simp: complete_item_def Let_def)

lemma round_run_facts:
  "set (fst (round_run ocs q)) \<union> set (snd (round_run ocs q)) = set q
    \<and> length (fst (round_run ocs q)) + length (snd (round_run ocs q))
      = length q + length (filter requeues (take (length (fst (round_run ocs q))) ocs))
    \<and> length (fst (round_run ocs q)) \<le> length ocs
    \<and> (snd (round_run ocs q) \<noteq> [] \<longrightarrow> length (fst (round_run ocs q)) = length ocs)"
proof (induction ocs q rule: round_run.induct)
  case (3 oc ocs x q)
  let ?q = "if requeues oc then q @ [x] else q"
  have IH: "set (fst (round_run ocs ?q)) \<union> set (snd (round_run ocs ?q)) = set ?q
    \<and> length (fst (round_run ocs ?q)) + length (snd (round_run ocs ?q))
      = length ?q + length (filter requeues (take (length (fst (round_run ocs ?q))) ocs))
    \<and> length (fst (round_run ocs ?q)) \<le> length ocs
    \<and> (snd (round_run ocs ?q) \<noteq> [] \<longrightarrow> length (fst (round_run ocs ?q)) = length ocs)"
    using 3 [OF complete_item_Cons refl] by simp
  have step: "round_run (oc # ocs) (x # q) = (x # fst (round_run ocs ?q), snd (round_run ocs ?q))"
    by (simp add: complete_item_Cons split_beta)
  show ?case unfolding step using IH by (cases "requeues oc") auto
qed simp_all

text \<open>The round of a fresh batch or of the maintenance stages
  visits, from the durable cursor, every item; if \<open>k\<close> of the outcomes prove more progress, the
  round is over after exactly the number of items plus \<open>k\<close> attempts, so a round whose backlog is
  finite ends.\<close>

theorem rounds_terminate:
  assumes "length q + length (filter requeues ocs) \<le> length ocs"
  shows "snd (round_run ocs q) = [] \<and> set (fst (round_run ocs q)) = set q
    \<and> length (fst (round_run ocs q))
        = length q + length (filter requeues (take (length (fst (round_run ocs q))) ocs))
    \<and> set (new_maintenance_round cur) = UNIV"
proof -
  let ?n = "length (fst (round_run ocs q))"
  note f = round_run_facts [of ocs q]
  have "snd (round_run ocs q) = []"
  proof (rule ccontr)
    assume left: "snd (round_run ocs q) \<noteq> []"
    with f have n: "?n = length ocs" by blast
    with f have "length ocs + length (snd (round_run ocs q)) = length q + length (filter requeues ocs)"
      by simp
    with assms have "length (snd (round_run ocs q)) = 0" by linarith
    with left show False by simp
  qed
  moreover have "s \<in> set all_stages" for s by (cases s) (simp_all add: all_stages_def)
  ultimately show ?thesis using f by (auto simp: new_maintenance_round_def)
qed

definition demo_outcome :: slice_outcome where
  "demo_outcome = \<lparr>oc_selected = True, oc_progressed = False, oc_more = False, oc_retryable = False,
     oc_paused = False, oc_panicked = False\<rparr>"

lemma rounds_terminate_witness:
  "set (fst (round_run (replicate 6 demo_outcome) (new_maintenance_round (Some StalePage)))) = UNIV"
proof -
  have nr: "\<not> requeues demo_outcome" by (simp add: requeues_def demo_outcome_def)
  have "length (new_maintenance_round (Some StalePage))
      + length (filter requeues (replicate 6 demo_outcome)) \<le> length (replicate 6 demo_outcome)"
    using nr by (simp add: new_maintenance_round_def all_stages_def filter_replicate)
  from rounds_terminate [OF this, of "Some StalePage"] show ?thesis by simp
qed

subsection \<open>No expectation fails\<close>

definition au_inv :: "auto_state \<Rightarrow> bool" where
  "au_inv st \<longleftrightarrow> is_none_or (\<lambda>b. sb_phases b \<noteq> [] \<and> is_some_and
       (\<lambda>k. \<forall>p \<in> set (sb_phases b). runs_phase k p \<and> automatic_phase_allowed p)
       (steep_kind (sb_trigger b))) (au_steep_batch st)
     \<and> is_none_or (\<lambda>q. q \<noteq> []) (au_round st)"

lemma has_work_iff: "automatic_kind_has_work k \<longleftrightarrow> runs_phase k ReDistill"
  by (auto simp: automatic_kind_has_work_def automatic_phase_allowed_def list_ex_iff all_phases_def)

lemma all_phases_UNIV: "p \<in> set all_phases"
  by (cases p) (simp_all add: all_phases_def)

lemma cycle_covers:
  assumes "x \<in> set xs" "i < length xs"
  shows "x \<in> set (map (\<lambda>offset. xs ! ((i + offset) mod length xs)) [1..<length xs + 1])"
proof -
  from assms(1) obtain j where j: "j < length xs" "xs ! j = x" by (metis in_set_conv_nth)
  let ?n = "length xs"
  let ?o = "if i < j then j - i else ?n - i + j"
  have "(i + ?o) mod ?n = j" using j(1) assms(2) by (auto simp: mod_if)
  moreover have "?o \<in> set [1..<?n + 1]" using j(1) assms(2) by auto
  ultimately show ?thesis using j(2) by (auto intro!: image_eqI [of _ _ ?o])
qed


lemma phase_cursor_after_Some:
  assumes "steep_kind (sb_trigger b) = Some k" "runs_phase k p" "automatic_phase_allowed p"
  shows "phase_cursor_after q b \<noteq> None"
proof (cases "sb_phases b")
  case Nil
  obtain i where i: "position q all_phases = Some i" "i < length all_phases"
    using position_Some [OF all_phases_UNIV [of q]] by blast
  have "p \<in> set (map (\<lambda>offset. all_phases ! ((i + offset) mod length all_phases))
      [1..<length all_phases + 1])"
    by (rule cycle_covers [OF all_phases_UNIV i(2)])
  with assms Nil i(1) show ?thesis
    by (auto simp: phase_cursor_after_def Let_def find_None_iff)
qed (simp add: phase_cursor_after_def)

lemma burst_candidate_kind: "burst_candidate now x = Some t \<Longrightarrow> steep_kind t = Some KBurstEnd"
  by (cases x) (auto simp: burst_candidate_def Let_def split: if_splits)

lemma bursts_kind:
  "t \<in> set (sort_key burst_agent (List.map_filter (burst_candidate now) snap))
    \<Longrightarrow> steep_kind t = Some KBurstEnd"
  by (auto simp: List.map_filter_def dest: burst_candidate_kind)

lemma select_due_has_work:
  assumes "select_due_automatic_trigger now snap maint lw fired ld lb = Some t" "t \<noteq> Maintenance"
  shows "\<exists>k. steep_kind t = Some k \<and> automatic_kind_has_work k"
  using assms
  by (auto simp: select_due_automatic_trigger_def Let_def split: if_splits
      dest: bursts_kind [OF hd_in_set])

lemma maintenance_turn_ok:
  assumes "au_inv st"
  shows "\<exists>w st'. maintenance_turn e st = Some (w, st') \<and> au_inv st'"
proof -
  let ?q = "case au_round st of Some q \<Rightarrow> q
               | None \<Rightarrow> new_maintenance_round (load_stage_cursor (au_db st))"
  have "?q \<noteq> []"
    using assms by (auto simp: au_inv_def new_maintenance_round_def all_stages_def split: option.split)
  then obtain stage rest where q: "?q = stage # rest" by (cases ?q) auto
  show ?thesis
    using assms unfolding maintenance_turn_def Let_def q
    by (auto simp: complete_stage_def complete_item_Cons au_inv_def)
qed

lemma new_steep_batch_ok:
  assumes "steep_kind t = Some k" "automatic_kind_has_work k"
  shows "\<exists>b. new_steep_batch t cur = Some b \<and> sb_trigger b = t \<and> sb_phases b \<noteq> []
    \<and> (\<forall>p \<in> set (sb_phases b). runs_phase k p \<and> automatic_phase_allowed p)"
  using assms
  by (auto simp: new_steep_batch_def automatic_kind_has_work_def list_ex_iff filter_empty_conv)

definition batch_ok :: "steep_batch \<Rightarrow> bool" where
  "batch_ok b \<longleftrightarrow> sb_phases b \<noteq> [] \<and> is_some_and
     (\<lambda>k. \<forall>p \<in> set (sb_phases b). runs_phase k p \<and> automatic_phase_allowed p)
     (steep_kind (sb_trigger b))"

lemma au_inv_alt: "au_inv st \<longleftrightarrow> is_none_or batch_ok (au_steep_batch st)
    \<and> is_none_or (\<lambda>q. q \<noteq> []) (au_round st)"
  by (simp add: au_inv_def batch_ok_def [abs_def])

lemma steep_batch_for_ok:
  assumes "au_inv st"
    and "case au_steep_batch st of Some b \<Rightarrow> True
      | None \<Rightarrow> \<exists>k. steep_kind t = Some k \<and> automatic_kind_has_work k"
  shows "\<exists>b. steep_batch_for t st = Some b \<and> batch_ok b"
  using assms new_steep_batch_ok
  by (fastforce simp: steep_batch_for_def au_inv_alt batch_ok_def split: option.splits)

lemma finish_trigger_ok:
  assumes "t \<noteq> Maintenance"
  shows "\<exists>st'. finish_trigger e t s = Some st' \<and> au_steep_batch st' = au_steep_batch s
      \<and> au_round st' = au_round s"
  using assms by (cases t) (auto simp: finish_trigger_def Let_def)

lemma steep_attempt_ok:
  assumes inv: "au_inv st" and ok: "batch_ok b" and cur: "au_steep_batch st = Some b"
  shows "\<exists>w st'. steep_attempt e b st = Some (w, st') \<and> au_inv st'"
proof -
  obtain k ph rest where b: "steep_kind (sb_trigger b) = Some k" "sb_phases b = ph # rest"
      "\<forall>p \<in> set (ph # rest). runs_phase k p \<and> automatic_phase_allowed p"
    using ok by (cases "sb_phases b") (auto simp: batch_ok_def is_some_and_iff)
  let ?b = "b\<lparr>sb_phases := if requeues (ae_outcome e) then rest @ [ph] else rest\<rparr>"
  have comp: "complete_phase ph (ae_outcome e) b = Some
      (if requeues (ae_outcome e) \<or> rest \<noteq> [] then BatchPending else BatchComplete, ?b)"
    by (simp add: complete_phase_def b complete_item_Cons)
  obtain c where c: "phase_cursor_after ph ?b = Some c"
    using phase_cursor_after_Some [of ?b k ph ph] b by auto
  have left: "batch_ok ?b" if "requeues (ae_outcome e) \<or> rest \<noteq> []"
    using that b by (auto simp: batch_ok_def)
  have notm: "sb_trigger b \<noteq> Maintenance" using b(1) by auto
  let ?s = "st\<lparr>au_db := persist_phase_cursor (ae_db_ok e) k c (au_db st), au_ambient_owed := True,
      au_steep_batch := None\<rparr>"
  obtain st' where st': "finish_trigger e (sb_trigger b) ?s = Some st'" "au_steep_batch st' = None"
      "au_round st' = au_round st"
    using finish_trigger_ok [OF notm, of e ?s] by auto
  have attempt: "steep_attempt e b st = (if \<not> ae_background_ai e then Some (False, st)
      else if requeues (ae_outcome e) \<or> rest \<noteq> []
      then Some (True, st\<lparr>au_db := persist_phase_cursor (ae_db_ok e) k c (au_db st),
             au_ambient_owed := True, au_steep_batch := Some ?b\<rparr>)
      else Some (True, st'))"
    using st'(1) by (simp add: steep_attempt_def b comp c Let_def)
  show ?thesis
    unfolding attempt using inv left st'(2,3) by (auto simp: au_inv_alt)
qed

lemma steep_turn_ok:
  assumes inv: "au_inv st"
    and batch: "case au_steep_batch st of Some b \<Rightarrow> True
      | None \<Rightarrow> \<exists>k. steep_kind t = Some k \<and> automatic_kind_has_work k"
  shows "\<exists>w st'. steep_turn e t st = Some (w, st') \<and> au_inv st'"
proof -
  let ?st = "st\<lparr>au_ran_since_steep := False\<rparr>"
  have inv0: "au_inv ?st" using inv by (simp add: au_inv_def)
  obtain b where b: "steep_batch_for t ?st = Some b" "batch_ok b"
    using steep_batch_for_ok [of ?st t] inv0 batch by auto
  have "au_inv (?st\<lparr>au_steep_batch := Some b\<rparr>)" using inv0 b(2) by (simp add: au_inv_alt)
  from steep_attempt_ok [OF this b(2)] b(1) show ?thesis by (simp add: steep_turn_def Let_def)
qed

text \<open>C37 (no expectation fails): from a scheduler state in which a batch, if there is one, has a steep trigger
  and a non-empty list of phases, each run by the trigger's kind and allowed to run automatically, and a
  maintenance round, if there is one, is not empty (at the start there is neither), the
  trigger the loop selects always runs a turn (no \<open>expect\<close> of the section can panic), and the
  state stays so, whatever the outcome of the slice, the switches and the database do.\<close>

theorem automatic_turn_never_panics:
  assumes "au_inv st" "selected_automatic now snap lw st = Some t"
  shows "\<exists>w st'. automatic_turn e t st = Some (w, st') \<and> au_inv st'"
proof (cases "t = Maintenance")
  case True
  with maintenance_turn_ok [OF assms(1)] show ?thesis by (simp add: automatic_turn_def)
next
  case False
  have "case au_steep_batch st of Some b \<Rightarrow> True
      | None \<Rightarrow> \<exists>k. steep_kind t = Some k \<and> automatic_kind_has_work k"
    using assms(2) select_due_has_work [OF _ False]
    by (auto simp: selected_automatic_def split: option.splits)
  with steep_turn_ok [OF assms(1)] False show ?thesis by (simp add: automatic_turn_def)
qed

definition demo_auto :: auto_state where
  "demo_auto = \<lparr>au_signal = Map.empty, au_steep_batch = None, au_round = None, au_pending = False,
     au_ran_since_steep = False, au_idle_fired = True, au_last_daily = 0, au_last_backstop = 0,
     au_ambient_owed = False, au_db = Map.empty\<rparr>"

lemma automatic_turn_never_panics_witness:
  "\<exists>w st'. automatic_turn \<lparr>ae_background_ai = True, ae_outcome = demo_outcome, ae_completed = 1,
      ae_daily_stamp = ''0'', ae_db_ok = True\<rparr> Backstop demo_auto = Some (w, st') \<and> au_inv st'"
proof (rule automatic_turn_never_panics)
  show "au_inv demo_auto" by (simp add: au_inv_def demo_auto_def)
  show "selected_automatic (secs 30000) [] 0 demo_auto = Some Backstop"
    by (simp add: selected_automatic_def demo_auto_def select_due_automatic_trigger_def
        maintenance_admission_def has_work_iff runs_phase_def backstop_interval_def)
qed

subsection \<open>Durable cursors\<close>

text \<open>What a trigger's cursor persists is what it loads, no trigger's cursor
  disturbs another's or the maintenance cursor, and the same for the stages.\<close>

theorem cursors_round_trip:
  "load_phase_cursor (persist_phase_cursor True k p db) k = Some p
    \<and> load_stage_cursor (persist_stage_cursor True s db) = Some s
    \<and> (\<forall>k'. k' \<noteq> k \<longrightarrow> load_phase_cursor (persist_phase_cursor ok k p db) k' = load_phase_cursor db k')
    \<and> load_stage_cursor (persist_phase_cursor ok k p db) = load_stage_cursor db
    \<and> load_phase_cursor (persist_stage_cursor ok s db) k = load_phase_cursor db k"
proof -
  have p: "find (\<lambda>q. phase_str q = phase_str p) all_phases = Some p"
    by (cases p) (simp_all add: all_phases_def)
  have s: "find (\<lambda>q. stage_str q = stage_str s) all_stages = Some s"
    by (cases s) (simp_all add: all_stages_def)
  have keys: "phase_cursor_key k' = phase_cursor_key k \<longleftrightarrow> k' = k" for k'
    by (cases k; cases k') (simp_all add: phase_cursor_key_def)
  have other: "phase_cursor_key k' \<noteq> stage_cursor_key" for k'
    by (cases k') (simp_all add: phase_cursor_key_def stage_cursor_key_def)
  show ?thesis
    using p s other [of k] by (auto simp: load_phase_cursor_def persist_phase_cursor_def
        load_stage_cursor_def persist_stage_cursor_def keys other other [symmetric])
qed

lemma cursors_round_trip_witness:
  "load_phase_cursor (persist_phase_cursor True KIdle Evict
     (persist_phase_cursor True KDaily Decay Map.empty)) KDaily = Some Decay"
proof -
  have "KDaily \<noteq> KIdle" by simp
  then have "load_phase_cursor (persist_phase_cursor True KIdle Evict
      (persist_phase_cursor True KDaily Decay Map.empty)) KDaily
    = load_phase_cursor (persist_phase_cursor True KDaily Decay Map.empty) KDaily"
    using cursors_round_trip [of KIdle Evict _ _ True] by blast
  also have "\<dots> = Some Decay" using cursors_round_trip [of KDaily Decay] by blast
  finally show ?thesis .
qed

end
