(* ===== verification/Reverse_Protocol.thy ===== *)
theory Reverse_Protocol
  imports Complex_Main Prelude
begin

text \<open>
  The v1 reverse wire protocol of the desktop relay
  (\<open>app/src/remote_relay/reverse_protocol.rs\<close>): frames, the numeric fields of the wire, the
  validation every frame passes when it is encoded and when it is decoded, and the canonical
  base64 bodies.

  A Rust \<open>str\<close> is the list of its UTF-8 bytes. The base64 engine and \<open>serde_json\<close> are not code of
  the repository: \<open>std_encode\<close>, \<open>std_decode\<close>, \<open>to_json\<close> and \<open>of_json\<close> are arguments, and the
  laws of a padded base64 engine are the locale \<open>base64_engine\<close>, with an instance that spells out
  the standard alphabet.
\<close>

subsection \<open>Limits and frames\<close>

type_synonym byte = "8 word"

definition max_wire_bytes :: nat where
  "max_wire_bytes = 96 * 1024"

definition max_request_body_bytes :: nat where
  "max_request_body_bytes = 64 * 1024"

definition max_chunk_body_bytes :: nat where
  "max_chunk_body_bytes = 16 * 1024"

definition max_id_bytes :: nat where
  "max_id_bytes = 64"

definition max_header_value_bytes :: nat where
  "max_header_value_bytes = 2048"

definition max_safe_sequence :: nat where
  "max_safe_sequence = 9007199254740991"

definition div_ceil :: "nat \<Rightarrow> nat \<Rightarrow> nat" where
  "div_ceil a b = (a + b - 1) div b"

definition max_request_body_base64_bytes :: nat where
  "max_request_body_base64_bytes = div_ceil max_request_body_bytes 3 * 4"

definition max_chunk_body_base64_bytes :: nat where
  "max_chunk_body_base64_bytes = div_ceil max_chunk_body_bytes 3 * 4"

text \<open>A \<open>BTreeMap\<close> is the list of its entries in the order of the keys.\<close>

type_synonym header_map = "(string \<times> string) list"

datatype protocol_error = ReverseProtocolError

datatype frame =
    Request (frame_id: string) (rq_path: string) (rq_method: string) (rq_headers: header_map)
      (rq_body: string)
  | Response (frame_id: string) (rs_status: u16) (rs_headers: header_map)
  | Chunk (frame_id: string) (ck_seq: u64) (ck_body: string)
  | End (frame_id: string)
  | Cancel (frame_id: string)
  | Credit (frame_id: string) (cr_seq: u64)

subsection \<open>Numbers on the wire\<close>

text \<open>What a JSON parser hands to the visitor: an integer of some width, or a double (a rational
  number, or no finite number).\<close>

datatype wire_number = VisitU64 nat | VisitI64 int | VisitU128 nat | VisitI128 int
  | VisitF64 "rat option"

text \<open>\<open>value as u64\<close> of a double saturates; below \<open>2^53\<close> the double of an integer is the integer.\<close>

definition f64_to_u64 :: "rat \<Rightarrow> nat" where
  "f64_to_u64 q = (if q < 0 then 0 else min (2 ^ 64 - 1) (nat \<lfloor>q\<rfloor>))"

fun wire_integer :: "nat \<Rightarrow> wire_number \<Rightarrow> protocol_error + nat" where
  "wire_integer mx (VisitU64 n) = (if n \<le> mx then Inr n else Inl ReverseProtocolError)"
| "wire_integer mx (VisitI64 i) =
     (if i \<ge> 0 then (if nat i \<le> mx then Inr (nat i) else Inl ReverseProtocolError)
      else Inl ReverseProtocolError)"
| "wire_integer mx (VisitU128 n) = (if n \<le> mx then Inr n else Inl ReverseProtocolError)"
| "wire_integer mx (VisitI128 i) =
     (if i \<ge> 0 then (if nat i \<le> mx then Inr (nat i) else Inl ReverseProtocolError)
      else Inl ReverseProtocolError)"
| "wire_integer mx (VisitF64 v) =
     (case v of None \<Rightarrow> Inl ReverseProtocolError
      | Some q \<Rightarrow>
          if q \<ge> 0 \<and> frac q = 0
          then let n = f64_to_u64 q
               in if n \<le> mx \<and> of_nat n = q then Inr n else Inl ReverseProtocolError
          else Inl ReverseProtocolError)"

text \<open>A JSON object as the parser hands it over, in the order of its members; and
  \<open>IncomingFrame\<close>, the numbers read within their bounds: a version of at most 1, a status of at
  most 599, a safe sequence.\<close>

datatype wire_value = WNum wire_number | WStr string | WMap header_map

type_synonym wire_object = "(string \<times> wire_value) list"

datatype incoming_frame =
    InRequest nat string string string header_map string
  | InResponse nat string nat header_map
  | InChunk nat string nat string
  | InEnd nat string
  | InCancel nat string
  | InCredit nat string nat

definition wire_version :: "wire_number \<Rightarrow> protocol_error + nat" where
  "wire_version = wire_integer 1"

definition wire_sequence :: "wire_number \<Rightarrow> protocol_error + nat" where
  "wire_sequence = wire_integer max_safe_sequence"

definition wire_status :: "wire_number \<Rightarrow> protocol_error + nat" where
  "wire_status = wire_integer 599"

text \<open>The derived reader of the internally tagged enumeration: every field of the tagged variant
  once, with its type, and no unknown field.\<close>

definition get_str :: "wire_object \<Rightarrow> string \<Rightarrow> protocol_error + string" where
  "get_str ob k = (case map_of ob k of Some (WStr s) \<Rightarrow> Inr s | _ \<Rightarrow> Inl ReverseProtocolError)"

definition get_map :: "wire_object \<Rightarrow> string \<Rightarrow> protocol_error + header_map" where
  "get_map ob k = (case map_of ob k of Some (WMap m) \<Rightarrow> Inr m | _ \<Rightarrow> Inl ReverseProtocolError)"

definition get_num ::
    "(wire_number \<Rightarrow> protocol_error + nat) \<Rightarrow> wire_object \<Rightarrow> string \<Rightarrow> protocol_error + nat" where
  "get_num rd ob k = (case map_of ob k of Some (WNum w) \<Rightarrow> rd w | _ \<Rightarrow> Inl ReverseProtocolError)"

definition bind_ok :: "protocol_error + 'a \<Rightarrow> ('a \<Rightarrow> protocol_error + 'b) \<Rightarrow> protocol_error + 'b" where
  "bind_ok x f = (case x of Inl e \<Rightarrow> Inl e | Inr a \<Rightarrow> f a)"

definition only_fields :: "wire_object \<Rightarrow> string list \<Rightarrow> bool" where
  "only_fields ob ks \<longleftrightarrow> distinct (map fst ob) \<and> list_all (\<lambda>k. k \<in> set (''type'' # ks)) (map fst ob)"

definition deserialize_incoming :: "wire_object \<Rightarrow> protocol_error + incoming_frame" where
  "deserialize_incoming ob =
     bind_ok (get_str ob ''type'') (\<lambda>ty.
     bind_ok (get_num wire_version ob ''v'') (\<lambda>v.
     bind_ok (get_str ob ''id'') (\<lambda>i.
       if ty = ''request'' \<and> only_fields ob [''v'', ''id'', ''path'', ''method'', ''headers'', ''body'']
       then bind_ok (get_str ob ''path'') (\<lambda>path. bind_ok (get_str ob ''method'') (\<lambda>method.
            bind_ok (get_map ob ''headers'') (\<lambda>headers. bind_ok (get_str ob ''body'') (\<lambda>body.
              Inr (InRequest v i path method headers body)))))
       else if ty = ''response'' \<and> only_fields ob [''v'', ''id'', ''status'', ''headers'']
       then bind_ok (get_num wire_status ob ''status'') (\<lambda>st. bind_ok (get_map ob ''headers'') (\<lambda>headers.
              Inr (InResponse v i st headers)))
       else if ty = ''chunk'' \<and> only_fields ob [''v'', ''id'', ''seq'', ''body'']
       then bind_ok (get_num wire_sequence ob ''seq'') (\<lambda>n. bind_ok (get_str ob ''body'') (\<lambda>body.
              Inr (InChunk v i n body)))
       else if ty = ''end'' \<and> only_fields ob [''v'', ''id''] then Inr (InEnd v i)
       else if ty = ''cancel'' \<and> only_fields ob [''v'', ''id''] then Inr (InCancel v i)
       else if ty = ''credit'' \<and> only_fields ob [''v'', ''id'', ''seq'']
       then bind_ok (get_num wire_sequence ob ''seq'') (\<lambda>n. Inr (InCredit v i n))
       else Inl ReverseProtocolError)))"

text \<open>The derived reader takes an array too: the tag, then the fields of its variant in their order.\<close>

datatype wire_document = WireObject wire_object | WireArray "wire_value list"

definition frame_fields :: "string \<Rightarrow> string list" where
  "frame_fields ty =
     (if ty = ''request'' then [''v'', ''id'', ''path'', ''method'', ''headers'', ''body'']
      else if ty = ''response'' then [''v'', ''id'', ''status'', ''headers'']
      else if ty = ''chunk'' then [''v'', ''id'', ''seq'', ''body'']
      else if ty = ''end'' \<or> ty = ''cancel'' then [''v'', ''id'']
      else if ty = ''credit'' then [''v'', ''id'', ''seq''] else [])"

fun deserialize_document :: "wire_document \<Rightarrow> protocol_error + incoming_frame" where
  "deserialize_document (WireObject ob) = deserialize_incoming ob"
| "deserialize_document (WireArray (WStr ty # vs)) =
     (if length vs = length (frame_fields ty)
      then deserialize_incoming (zip (''type'' # frame_fields ty) (WStr ty # vs))
      else Inl ReverseProtocolError)"
| "deserialize_document (WireArray _) = Inl ReverseProtocolError"

subsection \<open>Bodies\<close>

definition is_alphanumeric :: "char \<Rightarrow> bool" where
  "is_alphanumeric ch \<longleftrightarrow> (let n = of_char ch :: nat
     in 48 \<le> n \<and> n \<le> 57 \<or> 65 \<le> n \<and> n \<le> 90 \<or> 97 \<le> n \<and> n \<le> 122)"

definition is_base64_alphabet :: "char \<Rightarrow> bool" where
  "is_base64_alphabet ch \<longleftrightarrow> is_alphanumeric ch \<or> ch = CHR ''+'' \<or> ch = CHR ''/''"

definition valid_base64_shape :: "string \<Rightarrow> bool" where
  "valid_base64_shape v \<longleftrightarrow>
     (if length v mod 4 \<noteq> 0 then False
      else let padding = length (takeWhile (\<lambda>ch. ch = CHR ''='') (rev v))
           in if padding > 2 then False
              else let content_len = length v - padding;
                       expected = (if padding = 0 then 0 else if padding = 1 then 3 else 2)
                   in content_len mod 4 = expected
                      \<and> list_all is_base64_alphabet (take content_len v))"

definition encode_body :: "(byte list \<Rightarrow> string) \<Rightarrow> byte list \<Rightarrow> protocol_error + string" where
  "encode_body std_encode bs =
     (if length bs > max_request_body_bytes then Inl ReverseProtocolError else Inr (std_encode bs))"

definition decode_body ::
    "(byte list \<Rightarrow> string) \<Rightarrow> (string \<Rightarrow> byte list option) \<Rightarrow> string \<Rightarrow> protocol_error + byte list" where
  "decode_body std_encode std_decode v =
     (if length v > max_request_body_base64_bytes \<or> \<not> valid_base64_shape v
      then Inl ReverseProtocolError
      else (case std_decode v of
              None \<Rightarrow> Inl ReverseProtocolError
            | Some bs \<Rightarrow>
                (case encode_body std_encode bs of
                   Inl e \<Rightarrow> Inl e
                 | Inr w \<Rightarrow> if w \<noteq> v then Inl ReverseProtocolError else Inr bs)))"

subsection \<open>Validation\<close>

definition is_token_byte :: "char \<Rightarrow> bool" where
  "is_token_byte ch \<longleftrightarrow> is_alphanumeric ch \<or> ch = CHR ''_'' \<or> ch = CHR ''-''"

definition validate_sequence :: "u64 \<Rightarrow> bool" where
  "validate_sequence n \<longleftrightarrow> unat n \<le> max_safe_sequence"

definition validate_id :: "string \<Rightarrow> bool" where
  "validate_id v \<longleftrightarrow> \<not> (v = [] \<or> length v > max_id_bytes \<or> \<not> list_all is_token_byte v)"

definition is_header_byte :: "char \<Rightarrow> bool" where
  "is_header_byte ch \<longleftrightarrow> (let n = of_char ch :: nat in n = 9 \<or> 32 \<le> n \<and> n \<le> 126)"

definition bearer_prefix :: string where
  "bearer_prefix = ''Bearer ''"

definition valid_authorization :: "string \<Rightarrow> bool" where
  "valid_authorization v \<longleftrightarrow>
     (if take (length bearer_prefix) v \<noteq> bearer_prefix then False
      else let token = drop (length bearer_prefix) v
           in 32 \<le> length token \<and> length token \<le> 128 \<and> list_all is_token_byte token)"

definition request_header_names :: "string list" where
  "request_header_names = [''accept'', ''content-type'', ''mcp-session-id'',
     ''mcp-protocol-version'', ''last-event-id'', ''authorization'']"

definition response_header_names :: "string list" where
  "response_header_names = [''content-type'', ''mcp-session-id'', ''mcp-protocol-version'']"

definition validate_headers :: "header_map \<Rightarrow> bool \<Rightarrow> bool" where
  "validate_headers hs request \<longleftrightarrow> list_all (\<lambda>(name, v).
     name \<in> set (if request then request_header_names else response_header_names)
     \<and> length v \<le> max_header_value_bytes \<and> list_all is_header_byte v
     \<and> \<not> (request \<and> name = ''authorization'' \<and> \<not> valid_authorization v)) hs"

definition validate_frame ::
    "(byte list \<Rightarrow> string) \<Rightarrow> (string \<Rightarrow> byte list option) \<Rightarrow> frame \<Rightarrow> protocol_error + unit" where
  "validate_frame std_encode std_decode f =
     (let check = (\<lambda>b. if b then Inr () else Inl ReverseProtocolError)
      in (case f of
            Request i path method headers body \<Rightarrow>
              if \<not> validate_id i then Inl ReverseProtocolError
              else if path \<noteq> ''/mcp'' \<and> path \<noteq> ''/connector-info'' then Inl ReverseProtocolError
              else if method \<noteq> ''GET'' \<and> method \<noteq> ''POST'' \<and> method \<noteq> ''DELETE''
              then Inl ReverseProtocolError
              else if path = ''/connector-info'' \<and> method \<noteq> ''GET'' then Inl ReverseProtocolError
              else if \<not> validate_headers headers True then Inl ReverseProtocolError
              else if (method = ''GET'' \<or> method = ''DELETE'') \<and> body \<noteq> []
              then Inl ReverseProtocolError
              else (case decode_body std_encode std_decode body of Inl e \<Rightarrow> Inl e | Inr _ \<Rightarrow> Inr ())
          | Response i status headers \<Rightarrow>
              if \<not> validate_id i then Inl ReverseProtocolError
              else if \<not> (status \<ge> 200 \<and> status \<le> 599) then Inl ReverseProtocolError
              else check (validate_headers headers False)
          | Chunk i seq body \<Rightarrow>
              if \<not> validate_id i then Inl ReverseProtocolError
              else if \<not> validate_sequence seq then Inl ReverseProtocolError
              else if length body > max_chunk_body_base64_bytes then Inl ReverseProtocolError
              else (case decode_body std_encode std_decode body of
                      Inl e \<Rightarrow> Inl e
                    | Inr bs \<Rightarrow> if bs = [] \<or> length bs > max_chunk_body_bytes
                                then Inl ReverseProtocolError else Inr ())
          | End i \<Rightarrow> check (validate_id i)
          | Cancel i \<Rightarrow> check (validate_id i)
          | Credit i seq \<Rightarrow>
              if \<not> validate_id i then Inl ReverseProtocolError else check (validate_sequence seq)))"

subsection \<open>Encoding and decoding a frame\<close>

definition from_wire ::
    "(byte list \<Rightarrow> string) \<Rightarrow> (string \<Rightarrow> byte list option) \<Rightarrow> incoming_frame
     \<Rightarrow> protocol_error + frame" where
  "from_wire std_encode std_decode w =
     (let build = (\<lambda>v f. if v \<noteq> 1 then Inl ReverseProtocolError
                      else (case validate_frame std_encode std_decode f of
                              Inl e \<Rightarrow> Inl e | Inr _ \<Rightarrow> Inr f))
      in (case w of
            InRequest v i path method headers body \<Rightarrow> build v (Request i path method headers body)
          | InResponse v i status headers \<Rightarrow> build v (Response i (of_nat status) headers)
          | InChunk v i seq body \<Rightarrow> build v (Chunk i (of_nat seq) body)
          | InEnd v i \<Rightarrow> build v (End i)
          | InCancel v i \<Rightarrow> build v (Cancel i)
          | InCredit v i seq \<Rightarrow> build v (Credit i (of_nat seq))))"

text \<open>The entries the serializer writes, in its order.\<close>

fun wire_entries :: "frame \<Rightarrow> wire_object" where
  "wire_entries (Request i path method headers body) =
     [(''v'', WNum (VisitU64 1)), (''type'', WStr ''request''), (''id'', WStr i), (''path'', WStr path),
      (''method'', WStr method), (''headers'', WMap headers), (''body'', WStr body)]"
| "wire_entries (Response i status headers) =
     [(''v'', WNum (VisitU64 1)), (''type'', WStr ''response''), (''id'', WStr i),
      (''status'', WNum (VisitU64 (unat status))), (''headers'', WMap headers)]"
| "wire_entries (Chunk i seq body) =
     [(''v'', WNum (VisitU64 1)), (''type'', WStr ''chunk''), (''id'', WStr i), (''seq'', WNum (VisitU64 (unat seq))),
      (''body'', WStr body)]"
| "wire_entries (End i) = [(''v'', WNum (VisitU64 1)), (''type'', WStr ''end''), (''id'', WStr i)]"
| "wire_entries (Cancel i) = [(''v'', WNum (VisitU64 1)), (''type'', WStr ''cancel''), (''id'', WStr i)]"
| "wire_entries (Credit i seq) =
     [(''v'', WNum (VisitU64 1)), (''type'', WStr ''credit''), (''id'', WStr i), (''seq'', WNum (VisitU64 (unat seq)))]"

definition encode_frame ::
    "(wire_object \<Rightarrow> string) \<Rightarrow> (byte list \<Rightarrow> string) \<Rightarrow> (string \<Rightarrow> byte list option)
     \<Rightarrow> frame \<Rightarrow> protocol_error + string" where
  "encode_frame to_json std_encode std_decode f =
     (case validate_frame std_encode std_decode f of
        Inl e \<Rightarrow> Inl e
      | Inr _ \<Rightarrow> let text = to_json (wire_entries f)
                 in if length text > max_wire_bytes then Inl ReverseProtocolError else Inr text)"

definition decode_frame ::
    "(string \<Rightarrow> wire_document option) \<Rightarrow> (byte list \<Rightarrow> string) \<Rightarrow> (string \<Rightarrow> byte list option)
     \<Rightarrow> string \<Rightarrow> protocol_error + frame" where
  "decode_frame of_json std_encode std_decode text =
     (if length text > max_wire_bytes then Inl ReverseProtocolError
      else (case of_json text of
              None \<Rightarrow> Inl ReverseProtocolError
            | Some doc \<Rightarrow> (case deserialize_document doc of
                               Inl e \<Rightarrow> Inl e
                             | Inr w \<Rightarrow> from_wire std_encode std_decode w)))"

subsection \<open>Accepted frames\<close>

lemma validate_request_iff:
  "validate_frame enc dec (Request i path method headers body) = Inr () \<longleftrightarrow>
     validate_id i \<and> (path = ''/mcp'' \<or> path = ''/connector-info'')
     \<and> (method = ''GET'' \<or> method = ''POST'' \<or> method = ''DELETE'')
     \<and> (path = ''/connector-info'' \<longrightarrow> method = ''GET'') \<and> validate_headers headers True
     \<and> (method = ''GET'' \<or> method = ''DELETE'' \<longrightarrow> body = [])
     \<and> (\<exists>bs. decode_body enc dec body = Inr bs)"
  unfolding validate_frame_def Let_def frame.case by (simp split: sum.split)

lemma validate_response_iff:
  "validate_frame enc dec (Response i status headers) = Inr () \<longleftrightarrow>
     validate_id i \<and> 200 \<le> status \<and> status \<le> 599 \<and> validate_headers headers False"
  unfolding validate_frame_def Let_def frame.case by auto

lemma validate_chunk_iff:
  "validate_frame enc dec (Chunk i seq body) = Inr () \<longleftrightarrow>
     validate_id i \<and> validate_sequence seq \<and> length body \<le> max_chunk_body_base64_bytes
     \<and> (\<exists>bs. decode_body enc dec body = Inr bs \<and> bs \<noteq> [] \<and> length bs \<le> max_chunk_body_bytes)"
  unfolding validate_frame_def Let_def frame.case by (simp split: sum.split)

lemma validate_marker_iff:
  "validate_frame enc dec (End i) = Inr () \<longleftrightarrow> validate_id i"
  "validate_frame enc dec (Cancel i) = Inr () \<longleftrightarrow> validate_id i"
  "validate_frame enc dec (Credit i seq) = Inr () \<longleftrightarrow> validate_id i \<and> validate_sequence seq"
  unfolding validate_frame_def Let_def frame.case by simp_all

lemmas validate_frame_iff = validate_request_iff validate_response_iff validate_chunk_iff
  validate_marker_iff

subsection \<open>The base64 engine\<close>

locale base64_engine =
  fixes enc :: "byte list \<Rightarrow> string" and dec :: "string \<Rightarrow> byte list option"
  assumes dec_enc: "dec (enc bs) = Some bs"
    and enc_shape: "valid_base64_shape (enc bs)"
    and enc_length: "length (enc bs) = div_ceil (length bs) 3 * 4"
begin

lemma div_ceil_mono: "a \<le> b \<Longrightarrow> div_ceil a 3 * 4 \<le> div_ceil b 3 * 4"
  by (simp add: div_ceil_def div_le_mono)

lemma decode_body_iff: "decode_body enc dec v = Inr bs \<longleftrightarrow> encode_body enc bs = Inr v"
proof
  assume "decode_body enc dec v = Inr bs"
  then show "encode_body enc bs = Inr v"
    by (auto simp: decode_body_def split: if_splits option.splits sum.splits)
next
  assume e: "encode_body enc bs = Inr v"
  then have v: "v = enc bs" and l: "length bs \<le> max_request_body_bytes"
    by (auto simp: encode_body_def split: if_splits)
  have "length v \<le> max_request_body_base64_bytes"
    unfolding v enc_length max_request_body_base64_bytes_def by (rule div_ceil_mono [OF l])
  with e show "decode_body enc dec v = Inr bs"
    by (simp add: decode_body_def v dec_enc enc_shape)
qed

lemma decode_body_inj: "decode_body enc dec v = Inr bs \<Longrightarrow> decode_body enc dec w = Inr bs \<Longrightarrow> v = w"
  by (simp add: decode_body_iff)

lemma chunk_body_valid:
  assumes "bs \<noteq> []" "length bs \<le> max_chunk_body_bytes" "validate_id i" "validate_sequence n"
  shows "encode_body enc bs = Inr (enc bs)
    \<and> validate_frame enc dec (Chunk i n (enc bs)) = Inr ()"
proof -
  have e: "encode_body enc bs = Inr (enc bs)"
    using assms(2) by (simp add: encode_body_def max_request_body_bytes_def max_chunk_body_bytes_def)
  moreover have "decode_body enc dec (enc bs) = Inr bs" using e by (simp add: decode_body_iff)
  moreover have "length (enc bs) \<le> max_chunk_body_base64_bytes"
    unfolding enc_length max_chunk_body_base64_bytes_def by (rule div_ceil_mono [OF assms(2)])
  ultimately show ?thesis using assms by (simp add: validate_frame_def)
qed

end

text \<open>The standard alphabet with padding.\<close>

definition b64_alphabet :: string where
  "b64_alphabet = ''ABCDEFGHIJKLMNOPQRSTUVWXYZabcdefghijklmnopqrstuvwxyz0123456789+/''"

definition b64_char :: "nat \<Rightarrow> char" where
  "b64_char i = b64_alphabet ! i"

definition b64_val :: "char \<Rightarrow> nat option" where
  "b64_val ch = (let i = length (takeWhile (\<lambda>c. c \<noteq> ch) b64_alphabet)
     in if i < 64 then Some i else None)"

definition group24 :: "byte \<Rightarrow> byte \<Rightarrow> byte \<Rightarrow> nat" where
  "group24 a b c = unat a * 65536 + unat b * 256 + unat c"

fun rfc_encode :: "byte list \<Rightarrow> string" where
  "rfc_encode [] = []"
| "rfc_encode [a] = (let n = group24 a 0 0
     in [b64_char (n div 262144), b64_char (n div 4096 mod 64), CHR ''='', CHR ''=''])"
| "rfc_encode [a, b] = (let n = group24 a b 0
     in [b64_char (n div 262144), b64_char (n div 4096 mod 64), b64_char (n div 64 mod 64), CHR ''=''])"
| "rfc_encode (a # b # c # bs) = (let n = group24 a b c
     in [b64_char (n div 262144), b64_char (n div 4096 mod 64), b64_char (n div 64 mod 64),
         b64_char (n mod 64)] @ rfc_encode bs)"

definition b64_group :: "char \<Rightarrow> char \<Rightarrow> char \<Rightarrow> char \<Rightarrow> byte list option" where
  "b64_group w x y z =
     (case (b64_val w, b64_val x) of
        (Some i, Some j) \<Rightarrow>
          if y = CHR ''='' \<and> z = CHR ''='' then Some [of_nat ((i * 64 + j) div 16)]
          else (case b64_val y of None \<Rightarrow> None
            | Some k \<Rightarrow>
              if z = CHR ''=''
              then let n = (i * 64 + j) * 64 + k in Some [of_nat (n div 1024), of_nat (n div 4 mod 256)]
              else (case b64_val z of None \<Rightarrow> None
                | Some l \<Rightarrow> let n = ((i * 64 + j) * 64 + k) * 64 + l
                    in Some [of_nat (n div 65536), of_nat (n div 256 mod 256), of_nat (n mod 256)]))
      | _ \<Rightarrow> None)"

fun rfc_decode :: "string \<Rightarrow> byte list option" where
  "rfc_decode [] = Some []"
| "rfc_decode (w # x # y # z # rest) =
     (case (b64_group w x y z, rfc_decode rest) of (Some g, Some bs) \<Rightarrow> Some (g @ bs) | _ \<Rightarrow> None)"
| "rfc_decode _ = None"

lemma b64_table: "list_all (\<lambda>i. b64_val (b64_char i) = Some i \<and> b64_char i \<noteq> CHR ''=''
    \<and> is_base64_alphabet (b64_char i)) [0..<64]"
  by code_simp

lemma b64_char_facts:
  assumes "i < 64"
  shows "b64_val (b64_char i) = Some i" "b64_char i \<noteq> CHR ''=''" "is_base64_alphabet (b64_char i)"
  using b64_table assms by (auto simp: list_all_iff)

lemma byte_less: "unat (a :: byte) < 256"
  using unsigned_less [of a] by simp

lemma group24_less: "group24 a b c < 16777216"
  using byte_less [of a] byte_less [of b] byte_less [of c] by (simp add: group24_def)

lemma split_digit:
  assumes "c < (k::nat)"
  shows "(x * k + c) div k = x" "(x * k + c) mod k = c"
  using assms by simp_all

lemma group24_horner: "group24 a b c = (unat a * 256 + unat b) * 256 + unat c"
  by (simp add: group24_def)

lemma group24_bytes:
  "group24 a b c div 65536 = unat a" "group24 a b c div 256 mod 256 = unat b"
  "group24 a b c mod 256 = unat c"
proof -
  note d = split_digit [OF byte_less [of c], of "unat a * 256 + unat b"]
    split_digit [OF byte_less [of b], of "unat a"]
  show "group24 a b c mod 256 = unat c" unfolding group24_horner d ..
  show "group24 a b c div 256 mod 256 = unat b" unfolding group24_horner d ..
  have "group24 a b c div 65536 = group24 a b c div 256 div 256" by (simp add: div_mult2_eq [symmetric])
  then show "group24 a b c div 65536 = unat a" unfolding group24_horner d .
qed

lemma sextets:
  "n div 262144 * 64 + n div 4096 mod 64 = n div (4096::nat)"
  "n div 4096 * 64 + n div 64 mod 64 = n div (64::nat)"
  "n div 64 * 64 + n mod 64 = (n::nat)"
proof -
  have "n div 262144 = n div 4096 div 64" "n div 4096 = n div 64 div 64"
    by (simp_all add: div_mult2_eq [symmetric])
  then show "n div 262144 * 64 + n div 4096 mod 64 = n div 4096"
    "n div 4096 * 64 + n div 64 mod 64 = n div 64" "n div 64 * 64 + n mod 64 = n"
    by (metis div_mult_mod_eq)+
qed

lemma group_full:
  assumes "n = group24 a b c"
  shows "b64_group (b64_char (n div 262144)) (b64_char (n div 4096 mod 64))
     (b64_char (n div 64 mod 64)) (b64_char (n mod 64)) = Some [a, b, c]"
proof -
  have l: "n div 262144 < 64" using group24_less [of a b c] assms by simp
  have m: "x mod 64 < 64" for x :: nat by simp
  show ?thesis
    unfolding b64_group_def b64_char_facts(1) [OF l] b64_char_facts(1) [OF m] option.case prod.case
      Let_def sextets group24_bytes [folded assms]
    using b64_char_facts(2) [OF m] assms by (simp add: group24_bytes)
qed

lemma group_two:
  assumes "n = group24 a b 0"
  shows "b64_group (b64_char (n div 262144)) (b64_char (n div 4096 mod 64))
     (b64_char (n div 64 mod 64)) CHR ''='' = Some [a, b]"
proof -
  have l: "n div 262144 < 64" using group24_less [of a b 0] assms by simp
  have m: "x mod 64 < 64" for x :: nat by simp
  have "n div 64 div 1024 = n div 65536" "n div 64 div 4 = n div 256"
    by (simp_all add: div_mult2_eq [symmetric])
  then show ?thesis
    unfolding b64_group_def b64_char_facts(1) [OF l] b64_char_facts(1) [OF m] option.case prod.case
      Let_def sextets
    using b64_char_facts(2) [OF m] assms by (simp add: group24_bytes)
qed

lemma group_one:
  assumes "n = group24 a 0 0"
  shows "b64_group (b64_char (n div 262144)) (b64_char (n div 4096 mod 64)) CHR ''='' CHR ''='' = Some [a]"
proof -
  have l: "n div 262144 < 64" using group24_less [of a 0 0] assms by simp
  have m: "x mod 64 < 64" for x :: nat by simp
  have "n div 4096 div 16 = n div 65536" by (simp add: div_mult2_eq [symmetric])
  then show ?thesis
    unfolding b64_group_def b64_char_facts(1) [OF l] b64_char_facts(1) [OF m] option.case prod.case
      Let_def sextets
    using assms by (simp add: group24_bytes)
qed

lemma rfc_decode_encode: "rfc_decode (rfc_encode bs) = Some bs"
  by (induction bs rule: rfc_encode.induct)
     (simp_all add: Let_def group_one [OF refl] group_two [OF refl] group_full [OF refl])

lemma rfc_encode_length: "length (rfc_encode bs) = div_ceil (length bs) 3 * 4"
proof (induction bs rule: rfc_encode.induct)
  case (4 a b c bs)
  have "(3 + Suc (Suc (length bs))) div 3 = Suc (Suc (Suc (length bs)) div 3)" by simp
  then have "(5 + length bs) div 3 = Suc (Suc (Suc (length bs)) div 3)"
    by (simp del: div_add_self1)
  with 4 show ?case by (simp add: Let_def div_ceil_def)
qed (simp_all add: Let_def div_ceil_def)

lemma not_alphabet_pad [simp]: "\<not> is_base64_alphabet CHR ''=''"
  by code_simp

lemma shape_intro:
  assumes "v = cs @ replicate p CHR ''=''" "list_all is_base64_alphabet cs" "p \<le> 2"
    "length v mod 4 = 0"
  shows "valid_base64_shape v"
proof -
  have "takeWhile (\<lambda>ch. ch = CHR ''='') (rev cs) = []"
    using assms(2) by (cases "rev cs") (auto simp: list_all_iff rev_eq_Cons_iff)
  then have "length (takeWhile (\<lambda>ch. ch = CHR ''='') (rev v)) = p"
    by (simp add: assms(1) takeWhile_append)
  moreover have "(length cs + p) mod 4 = 0" using assms(1,4) by simp
  moreover have "length cs mod 4 = (if p = 0 then 0 else if p = 1 then 3 else 2)"
    if "(length cs + p) mod 4 = 0" using that assms(3) by (auto simp: le_Suc_eq numeral_2_eq_2) presburger+
  ultimately show ?thesis
    using assms by (simp add: valid_base64_shape_def Let_def)
qed

lemma rfc_encode_split:
  "\<exists>cs p. rfc_encode bs = cs @ replicate p CHR ''='' \<and> list_all is_base64_alphabet cs \<and> p \<le> 2"
proof (induction bs rule: rfc_encode.induct)
  case 1
  show ?case by (intro exI [of _ "[]"] exI [of _ 0]) simp
next
  case (2 a)
  have "group24 a 0 0 div 262144 < 64" using group24_less [of a 0 0] by simp
  then show ?case
    by (intro exI [of _ "take 2 (rfc_encode [a])"] exI [of _ 2])
       (simp add: Let_def b64_char_facts numeral_2_eq_2)
next
  case (3 a b)
  have "group24 a b 0 div 262144 < 64" using group24_less [of a b 0] by simp
  then show ?case
    by (intro exI [of _ "take 3 (rfc_encode [a, b])"] exI [of _ 1])
       (simp add: Let_def b64_char_facts)
next
  case (4 a b c bs)
  then obtain cs p where "rfc_encode bs = cs @ replicate p CHR ''=''"
      "list_all is_base64_alphabet cs" "p \<le> 2" by blast
  moreover have "group24 a b c div 262144 < 64" using group24_less [of a b c] by simp
  ultimately show ?case
    by (intro exI [of _ "take 4 (rfc_encode [a, b, c]) @ cs"] exI [of _ p])
       (simp add: Let_def b64_char_facts)
qed

lemma rfc_encode_shape: "valid_base64_shape (rfc_encode bs)"
proof -
  obtain cs p where "rfc_encode bs = cs @ replicate p CHR ''=''"
      "list_all is_base64_alphabet cs" "p \<le> 2"
    using rfc_encode_split by blast
  then show ?thesis by (rule shape_intro) (simp add: rfc_encode_length)
qed

interpretation rfc: base64_engine rfc_encode rfc_decode
  by unfold_locales (rule rfc_decode_encode rfc_encode_shape rfc_encode_length)+


subsection \<open>What the protocol promises\<close>

text \<open>With a base64 engine that is one, a body text is accepted exactly when
  it is the encoding of the bytes it is read as: decoding and encoding are inverse, no two texts
  are read as the same bytes, and no accepted text exceeds the request bound.\<close>

theorem body_codec_is_canonical:
  assumes "base64_engine enc dec"
  shows "(decode_body enc dec v = Inr bs \<longleftrightarrow> encode_body enc bs = Inr v)
    \<and> (decode_body enc dec v = Inr bs \<and> decode_body enc dec w = Inr bs \<longrightarrow> v = w)
    \<and> (decode_body enc dec v = Inr bs \<longrightarrow> length bs \<le> max_request_body_bytes)"
proof -
  have "decode_body enc dec v = Inr bs \<Longrightarrow> length bs \<le> max_request_body_bytes"
    using base64_engine.decode_body_iff [OF assms]
    by (auto simp: encode_body_def split: if_splits)
  then show ?thesis
    using base64_engine.decode_body_iff [OF assms] base64_engine.decode_body_inj [OF assms] by blast
qed

lemma body_codec_is_canonical_witness:
  "decode_body rfc_encode rfc_decode ''aGk='' = Inr [104, 105]"
proof -
  have "encode_body rfc_encode [104, 105] = Inr ''aGk=''"
    by (simp add: encode_body_def max_request_body_bytes_def group24_def Let_def b64_char_def
        b64_alphabet_def)
  with body_codec_is_canonical [OF rfc.base64_engine_axioms, of "''aGk=''" "[104, 105]"]
  show ?thesis by blast
qed

text \<open>The number a visitor is given, and reading it.\<close>

fun number_value :: "wire_number \<Rightarrow> rat option" where
  "number_value (VisitU64 n) = Some (of_nat n)"
| "number_value (VisitI64 i) = Some (of_int i)"
| "number_value (VisitU128 n) = Some (of_nat n)"
| "number_value (VisitI128 i) = Some (of_int i)"
| "number_value (VisitF64 v) = v"

lemma frac_zero_nat: "q \<ge> 0 \<Longrightarrow> frac (q :: rat) = 0 \<longleftrightarrow> q = of_nat (nat \<lfloor>q\<rfloor>)"
  by (simp add: frac_def)

text \<open>Whatever the spelling the parser chose (\<open>1\<close>, \<open>1.0\<close>, \<open>1e0\<close>), a field is read as
  \<open>n\<close> exactly when its value is the integer \<open>n\<close> and \<open>n\<close> is within the bound.\<close>

theorem wire_integer_is_exact:
  assumes "mx \<le> max_safe_sequence"
  shows "wire_integer mx w = Inr n \<longleftrightarrow> number_value w = Some (of_nat n) \<and> n \<le> mx"
proof (cases w)
  case (VisitF64 v)
  show ?thesis
  proof (cases v)
    case (Some q)
    show ?thesis
    proof
      assume "wire_integer mx w = Inr n"
      with VisitF64 Some show "number_value w = Some (of_nat n) \<and> n \<le> mx"
        by (auto simp: Let_def split: if_splits)
    next
      assume a: "number_value w = Some (of_nat n) \<and> n \<le> mx"
      then have "q = of_nat n" "n < 2 ^ 64 - 1"
        using VisitF64 Some assms by (auto simp: max_safe_sequence_def)
      then have "f64_to_u64 q = n" "q \<ge> 0" "frac q = 0"
        by (auto simp: f64_to_u64_def frac_def)
      with VisitF64 Some a \<open>q = of_nat n\<close> show "wire_integer mx w = Inr n" by simp
    qed
  qed (use VisitF64 in simp)
qed (auto simp: of_nat_nat)

lemma wire_integer_is_exact_witness:
  "wire_status (VisitF64 (Some 200)) = Inr 200"
  unfolding wire_status_def
  using wire_integer_is_exact [of 599 "VisitF64 (Some 200)" 200] by (simp add: max_safe_sequence_def)


lemma num_read:
  "unat (seq :: u64) \<le> max_safe_sequence \<Longrightarrow> wire_sequence (VisitU64 (unat seq)) = Inr (unat seq)"
  "status \<le> (599 :: u16) \<Longrightarrow> wire_status (VisitU64 (unat status)) = Inr (unat status)"
  "wire_version (VisitU64 (Suc 0)) = Inr (Suc 0)"
  by (simp_all add: wire_sequence_def wire_status_def wire_version_def word_le_nat_alt)

lemmas object_reads = bind_ok_def get_str_def get_map_def get_num_def only_fields_def

lemma deserialize_wire_entries:
  assumes "validate_frame enc dec f = Inr ()"
  shows "\<exists>w. deserialize_incoming (wire_entries f) = Inr w \<and> from_wire enc dec w = Inr f"
proof (cases f)
  case (Response i status hs)
  with assms have "status \<le> 599" by (simp add: validate_response_iff)
  with assms Response show ?thesis
    by (simp add: deserialize_incoming_def object_reads num_read from_wire_def)
next
  case (Chunk i seq body)
  with assms have "unat seq \<le> max_safe_sequence"
    by (simp add: validate_chunk_iff validate_sequence_def)
  with assms Chunk show ?thesis
    by (simp add: deserialize_incoming_def object_reads num_read from_wire_def)
next
  case (Credit i seq)
  with assms have "unat seq \<le> max_safe_sequence"
    by (simp add: validate_marker_iff validate_sequence_def)
  with assms Credit show ?thesis
    by (simp add: deserialize_incoming_def object_reads num_read from_wire_def)
qed (use assms in \<open>simp_all add: deserialize_incoming_def object_reads num_read from_wire_def\<close>)

lemma from_wire_validates:
  assumes "from_wire enc dec w = Inr f"
  shows "validate_frame enc dec f = Inr ()"
  using assms by (cases w) (simp_all add: from_wire_def split: if_splits sum.splits)

text \<open>C38 (frames round trip): a frame that was encoded is decoded to itself, provided the JSON parser
  reads back the object that was written; and whatever is decoded, from an object or from an array, is a
  valid frame.\<close>

theorem frame_round_trip:
  assumes "encode_frame to_json enc dec f = Inr t" and "of_json t = Some (WireObject (wire_entries f))"
  shows "decode_frame of_json enc dec t = Inr f
    \<and> (\<forall>t' f'. decode_frame of_json enc dec t' = Inr f' \<longrightarrow> validate_frame enc dec f' = Inr ())"
proof -
  have v: "validate_frame enc dec f = Inr ()" and l: "length t \<le> max_wire_bytes"
    using assms(1) by (auto simp: encode_frame_def Let_def split: sum.splits if_splits)
  obtain w where "deserialize_incoming (wire_entries f) = Inr w" "from_wire enc dec w = Inr f"
    using deserialize_wire_entries [OF v] by blast
  with l assms(2) have "decode_frame of_json enc dec t = Inr f"
    by (simp add: decode_frame_def)
  moreover have "validate_frame enc dec f' = Inr ()" if "decode_frame of_json enc dec t' = Inr f'" for t' f'
  proof -
    from that obtain w where "from_wire enc dec w = Inr f'"
      by (auto simp: decode_frame_def split: if_splits option.splits sum.splits)
    then show ?thesis by (rule from_wire_validates)
  qed
  ultimately show ?thesis by blast
qed

lemma frame_round_trip_witness:
  "decode_frame (\<lambda>_. Some (WireObject (wire_entries (End ''a'')))) rfc_encode rfc_decode ''{}'' = Inr (End ''a'')"
proof -
  have "encode_frame (\<lambda>_. ''{}'') rfc_encode rfc_decode (End ''a'') = Inr ''{}''"
    by (simp add: encode_frame_def validate_frame_def validate_id_def max_id_bytes_def
        is_token_byte_def is_alphanumeric_def max_wire_bytes_def)
  from frame_round_trip [where of_json = "\<lambda>_. Some (WireObject (wire_entries (End ''a'')))", OF this refl]
  show ?thesis by (rule conjunct1)
qed

text \<open>An accepted request frame has one of the two paths and three methods, an empty
  body unless it posts, at most 64 KiB of body and, if it carries an authorization, a bearer
  token of 32 to 128 token bytes; an accepted chunk carries 1 to 16 KiB and a safe sequence; an
  accepted response has a status from 200 to 599; and ids have 1 to 64 bytes.\<close>

theorem accepted_frames_are_within_limits:
  assumes "base64_engine enc dec" "validate_frame enc dec f = Inr ()"
  shows "0 < length (frame_id f) \<and> length (frame_id f) \<le> 64 \<and> (case f of
      Request i path method headers body \<Rightarrow> path \<in> {''/mcp'', ''/connector-info''}
        \<and> method \<in> {''GET'', ''POST'', ''DELETE''} \<and> (method \<noteq> ''POST'' \<longrightarrow> body = [])
        \<and> (\<exists>bs. encode_body enc bs = Inr body \<and> length bs \<le> 65536)
        \<and> (\<forall>v. (''authorization'', v) \<in> set headers \<longrightarrow>
             (\<exists>token. v = ''Bearer '' @ token \<and> 32 \<le> length token \<and> length token \<le> 128
                \<and> list_all is_token_byte token))
    | Response i status headers \<Rightarrow> 200 \<le> status \<and> status \<le> 599
        \<and> (\<forall>(k, v) \<in> set headers. k \<noteq> ''authorization'' \<and> length v \<le> 2048)
    | Chunk i seq body \<Rightarrow> unat seq < 2 ^ 53
        \<and> (\<exists>bs. encode_body enc bs = Inr body \<and> 1 \<le> length bs \<and> length bs \<le> 16384)
    | Credit i seq \<Rightarrow> unat seq < 2 ^ 53
    | _ \<Rightarrow> True)"
proof -
  note iff = base64_engine.decode_body_iff [OF assms(1)]
  have ident: "validate_id (frame_id f)"
    using assms(2) by (cases f) (simp_all add: validate_frame_iff)
  have auth: "\<exists>token. v = ''Bearer '' @ token \<and> 32 \<le> length token \<and> length token \<le> 128
      \<and> list_all is_token_byte token" if "valid_authorization v" for v
  proof (intro exI conjI)
    have t: "take (length bearer_prefix) v = bearer_prefix"
      using that by (simp add: valid_authorization_def split: if_splits)
    show "v = ''Bearer '' @ drop (length bearer_prefix) v"
      by (metis t append_take_drop_id bearer_prefix_def)
  qed (use that in \<open>simp_all add: valid_authorization_def Let_def split: if_splits\<close>)
  have hdr: "k \<noteq> ''authorization'' \<and> length v \<le> 2048"
    if "validate_headers hs False" "(k, v) \<in> set hs" for hs k v
    using that by (auto simp: validate_headers_def list_all_iff response_header_names_def
        max_header_value_bytes_def)
  have rhdr: "valid_authorization v"
    if "validate_headers hs True" "(''authorization'', v) \<in> set hs" for hs v
    using that by (auto simp: validate_headers_def list_all_iff)
  have dec: "encode_body enc bs = Inr b \<and> length bs \<le> 65536"
    if "decode_body enc dec b = Inr bs" for b bs
    using that by (auto simp: iff encode_body_def max_request_body_bytes_def split: if_splits)
  have seq: "unat n < 2 ^ 53" if "validate_sequence n" for n
    using that by (simp add: validate_sequence_def max_safe_sequence_def)
  show ?thesis
  proof (cases f)
    case (Request i path verb hs body)
    with assms(2) have v: "path = ''/mcp'' \<or> path = ''/connector-info''"
      "verb = ''GET'' \<or> verb = ''POST'' \<or> verb = ''DELETE''"
      "verb = ''GET'' \<or> verb = ''DELETE'' \<longrightarrow> body = []"
      "validate_headers hs True" "\<exists>bs. decode_body enc dec body = Inr bs"
      unfolding Request validate_request_iff by blast+
    have "path \<in> {''/mcp'', ''/connector-info''}" "verb \<in> {''GET'', ''POST'', ''DELETE''}"
      "verb \<noteq> ''POST'' \<longrightarrow> body = []"
      using v(1-3) by blast+
    moreover have "\<exists>bs. encode_body enc bs = Inr body \<and> length bs \<le> 65536"
      using v(5) dec by blast
    moreover have "\<forall>v. (''authorization'', v) \<in> set hs \<longrightarrow>
        (\<exists>token. v = ''Bearer '' @ token \<and> 32 \<le> length token \<and> length token \<le> 128
          \<and> list_all is_token_byte token)"
      using auth rhdr [OF v(4)] by blast
    moreover have "0 < length (frame_id f)" "length (frame_id f) \<le> 64"
      using ident by (simp_all add: validate_id_def max_id_bytes_def)
    ultimately show ?thesis unfolding Request frame.case by (intro conjI) assumption+
  next
    case (Response i status hs)
    with assms(2) have "200 \<le> status" "status \<le> 599" "validate_headers hs False"
      unfolding Response validate_response_iff by blast+
    then show ?thesis unfolding Response frame.case
      using ident hdr Response by (auto simp: validate_id_def max_id_bytes_def)
  next
    case (Chunk i n body)
    with assms(2) obtain bs where c: "validate_sequence n" "decode_body enc dec body = Inr bs"
      "bs \<noteq> []" "length bs \<le> 16384"
      unfolding Chunk validate_chunk_iff max_chunk_body_bytes_def by auto
    have "1 \<le> length bs" using c(3) by (cases bs) simp_all
    then show ?thesis unfolding Chunk frame.case
      using ident seq [OF c(1)] dec [OF c(2)] c(4) Chunk
      by (auto simp: validate_id_def max_id_bytes_def)
  next
    case (Credit i n)
    with assms(2) have "validate_sequence n" unfolding Credit validate_marker_iff by blast
    then show ?thesis unfolding Credit frame.case
      using ident seq Credit by (simp add: validate_id_def max_id_bytes_def)
  qed (use ident in \<open>simp_all add: validate_id_def max_id_bytes_def\<close>)
qed

lemma accepted_frames_are_within_limits_witness:
  "\<exists>bs. encode_body rfc_encode bs = Inr ''aGk='' \<and> 1 \<le> length bs \<and> length bs \<le> 16384"
proof -
  have "decode_body rfc_encode rfc_decode ''aGk='' = Inr [104, 105]"
    by (simp add: rfc.decode_body_iff encode_body_def max_request_body_bytes_def group24_def Let_def
        b64_char_def b64_alphabet_def)
  then have "validate_frame rfc_encode rfc_decode (Chunk ''a'' 7 ''aGk='') = Inr ()"
    by (simp add: validate_frame_def validate_id_def validate_sequence_def max_id_bytes_def
        is_token_byte_def is_alphanumeric_def max_chunk_body_bytes_def max_safe_sequence_def
        max_chunk_body_base64_bytes_def div_ceil_def)
  from accepted_frames_are_within_limits [OF rfc.base64_engine_axioms this] show ?thesis by simp
qed

end
