(* ===== verification/Reverse_Peer.thy ===== *)
theory Reverse_Peer
  imports Reverse_Protocol "HOL-Library.AList"
begin

text \<open>
  The loopback half of the reverse relay (\<open>app/src/remote_relay/reverse_peer.rs\<close>): the driver that
  answers decoded frames, one request task per admitted request, the bounded channels between
  them, and the tombstones of retired ids.

  The record \<open>driver\<close> is \<open>struct Driver\<close>. Its \<open>JoinSet\<close> is the list of all tasks ever spawned; a
  pending request keeps the position of its task, which stands for the command sender and the
  abort handle of the code. The queues of tokio are lists with their capacity. What the outside
  decides is an argument: whether the n-th outgoing send succeeds and how a frame is written as
  JSON (\<open>env\<close>), which frames arrive, what the local HTTP server answers, when a timeout fires.
\<close>

subsection \<open>State\<close>

datatype relay_error = InvalidInput | Unauthorized | Unavailable | RateLimited "u64 option"
  | Rejected u16 | InvalidResponse

type_synonym relay_result = "relay_error + unit"

definition max_pending :: nat where
  "max_pending = 8"

definition max_response_bytes :: nat where
  "max_response_bytes = 2 * 1024 * 1024"

definition max_response_chunks :: nat where
  "max_response_chunks = 4096"

definition tombstone_limit :: nat where
  "tombstone_limit = 32"

definition event_capacity :: nat where
  "event_capacity = max_pending * 4"

datatype stream_phase = AwaitingHeaders | WaitingCredit | CreditInFlight | NoBody

record pending =
  p_tag :: u64
  p_task :: nat
  p_phase :: stream_phase
  p_next_sequence :: u64
  p_bytes :: nat
  p_chunks :: nat

datatype task_event =
    EvHeaders (ev_tag: u64) (ev_id: string) u16 header_map bool
  | EvChunk (ev_tag: u64) (ev_id: string) u64 "byte list"
  | EvEnd (ev_tag: u64) (ev_id: string)
  | EvFailure (ev_tag: u64) (ev_id: string)

record tombstones =
  tb_order :: "string list"
  tb_ids :: "string set"

definition new_tombstones :: tombstones where
  "new_tombstones = \<lparr>tb_order = [], tb_ids = {}\<rparr>"

definition tb_contains :: "tombstones \<Rightarrow> string \<Rightarrow> bool" where
  "tb_contains t i \<longleftrightarrow> i \<in> tb_ids t"

definition tb_insert :: "string \<Rightarrow> tombstones \<Rightarrow> tombstones" where
  "tb_insert i t =
     (if i \<in> tb_ids t then t
      else let order = tb_order t @ [i]; ids = insert i (tb_ids t)
           in if length order > tombstone_limit
              then (case order of
                      [] \<Rightarrow> \<lparr>tb_order = [], tb_ids = ids\<rparr>
                    | old # rest \<Rightarrow> \<lparr>tb_order = rest, tb_ids = ids - {old}\<rparr>)
              else \<lparr>tb_order = order, tb_ids = ids\<rparr>)"

record local_request =
  lr_method :: string
  lr_url :: string
  lr_headers :: header_map
  lr_body :: "byte list"

text \<open>The answer of the local server: the status, a header's value when it is there and is text,
  the pieces \<open>response.chunk()\<close> returns, and whether reading fails after them.\<close>

record local_response =
  lp_status :: u16
  lp_header :: "string \<Rightarrow> string option"
  lp_pieces :: "byte list list"
  lp_broken :: bool

text \<open>The variables of the streaming loop of \<open>execute_request\<close>, with what is left to read.\<close>

record stream_loop =
  l_buffered :: "byte list"
  l_offset :: nat
  l_sequence :: u64
  l_bytes_total :: nat
  l_chunks_total :: nat
  l_rest :: "byte list list"
  l_broken :: bool

text \<open>Where \<open>run_request_task\<close> stands: the await it is suspended at.\<close>

datatype task_state =
    Requesting
  | Announcing u16 header_map bool stream_loop
  | ClosingEmpty
  | AwaitCredit stream_loop
  | SendingChunk u64 "byte list" stream_loop
  | SendingEnd
  | Failing
  | Finished

record task =
  t_tag :: u64
  t_id :: string
  t_request :: local_request
  t_state :: task_state
  t_commands :: "u64 list"
  t_response :: "local_response option"
  t_aborted :: bool

record driver =
  d_port :: u16
  d_authorization :: string
  d_pending :: "(string \<times> pending) list"
  d_tombstones :: tombstones
  d_next_tag :: u64
  d_tasks :: "task list"
  d_events :: "task_event list"
  d_out :: "frame list"
  d_result :: "relay_result option"

record env =
  e_json :: "wire_object \<Rightarrow> string"
  e_enc :: "byte list \<Rightarrow> string"
  e_dec :: "string \<Rightarrow> byte list option"
  e_sends :: "nat \<Rightarrow> bool"

subsection \<open>Starting\<close>

definition valid_id :: "string \<Rightarrow> nat \<Rightarrow> bool" where
  "valid_id v minimum \<longleftrightarrow> minimum \<le> length v \<and> length v \<le> 128 \<and> list_all is_token_byte v"

definition run_peer :: "u16 \<Rightarrow> string \<Rightarrow> bool \<Rightarrow> relay_error + driver" where
  "run_peer port backend_token client_built =
     (if port = 0 \<or> \<not> valid_id backend_token 32 then Inl InvalidInput
      else if \<not> client_built then Inl Unavailable
      else Inr \<lparr>d_port = port, d_authorization = bearer_prefix @ backend_token, d_pending = [],
             d_tombstones = new_tombstones, d_next_tag = 1, d_tasks = [], d_events = [],
             d_out = [], d_result = None\<rparr>)"

subsection \<open>The driver\<close>

type_synonym 'a step_result = "driver \<times> (relay_error + 'a)"

definition and_then :: "unit step_result \<Rightarrow> (driver \<Rightarrow> unit step_result) \<Rightarrow> unit step_result" where
  "and_then x k = (case x of (d, Inl e) \<Rightarrow> (d, Inl e) | (d, Inr _) \<Rightarrow> k d)"

definition send_frame :: "env \<Rightarrow> frame \<Rightarrow> driver \<Rightarrow> unit step_result" where
  "send_frame E f d =
     (case encode_frame (e_json E) (e_enc E) (e_dec E) f of
        Inl _ \<Rightarrow> (d, Inl InvalidInput)
      | Inr _ \<Rightarrow> if e_sends E (length (d_out d))
                 then (d\<lparr>d_out := d_out d @ [f]\<rparr>, Inr ())
                 else (d, Inl Unavailable))"

definition get_pending :: "driver \<Rightarrow> string \<Rightarrow> pending option" where
  "get_pending d i = map_of (d_pending d) i"

definition set_pending :: "string \<Rightarrow> pending \<Rightarrow> driver \<Rightarrow> driver" where
  "set_pending i p d = d\<lparr>d_pending := AList.update i p (d_pending d)\<rparr>"

definition update_task :: "nat \<Rightarrow> (task \<Rightarrow> task) \<Rightarrow> driver \<Rightarrow> driver" where
  "update_task k f d = d\<lparr>d_tasks := (d_tasks d)[k := f (d_tasks d ! k)]\<rparr>"

definition abort_task :: "task \<Rightarrow> task" where
  "abort_task t = t\<lparr>t_aborted := True\<rparr>"

definition retire :: "string \<Rightarrow> u64 option \<Rightarrow> driver \<Rightarrow> driver" where
  "retire i expected d =
     (case get_pending d i of
        None \<Rightarrow> d
      | Some p \<Rightarrow>
          if is_none_or (\<lambda>tag. p_tag p = tag) expected
          then (update_task (p_task p) abort_task d)
                 \<lparr>d_pending := AList.delete i (d_pending d),
                  d_tombstones := tb_insert i (d_tombstones d)\<rparr>
          else d)"

definition fail_request :: "env \<Rightarrow> string \<Rightarrow> u64 \<Rightarrow> driver \<Rightarrow> unit step_result" where
  "fail_request E i tag d = send_frame E (Cancel i) (retire i (Some tag) d)"

definition local_url :: "u16 \<Rightarrow> string \<Rightarrow> string" where
  "local_url port path = ''http://127.0.0.1:'' @ decimal (unat port) @ path"

definition spawn_request ::
    "string \<Rightarrow> string \<Rightarrow> string \<Rightarrow> header_map \<Rightarrow> byte list \<Rightarrow> driver \<Rightarrow> driver" where
  "spawn_request i path method headers body d =
     (let tag = d_next_tag d; k = length (d_tasks d);
          rq = \<lparr>lr_method = method, lr_url = local_url (d_port d) path, lr_headers = headers,
                lr_body = body\<rparr>;
          t = \<lparr>t_tag = tag, t_id = i, t_request = rq, t_state = Requesting, t_commands = [],
               t_response = None, t_aborted = False\<rparr>;
          p = \<lparr>p_tag = tag, p_task = k, p_phase = AwaitingHeaders, p_next_sequence = 0,
               p_bytes = 0, p_chunks = 0\<rparr>
      in d\<lparr>d_next_tag := next_token tag, d_tasks := d_tasks d @ [t],
           d_pending := AList.update i p (d_pending d)\<rparr>)"

definition handle_request ::
    "env \<Rightarrow> string \<Rightarrow> string \<Rightarrow> string \<Rightarrow> header_map \<Rightarrow> string \<Rightarrow> driver \<Rightarrow> unit step_result" where
  "handle_request E i path method headers body d =
     (let auth = map_of headers ''authorization'';
          anonymous_probe = (path = ''/connector-info'' \<and> method = ''GET'' \<and> auth = None)
      in if (\<not> anonymous_probe \<and> auth \<noteq> Some (d_authorization d)) \<or> (anonymous_probe \<and> auth \<noteq> None)
         then (d, Inl Unauthorized)
         else if get_pending d i \<noteq> None \<or> tb_contains (d_tombstones d) i then (d, Inl InvalidInput)
         else if length (d_pending d) \<ge> max_pending
         then send_frame E (Cancel i) (d\<lparr>d_tombstones := tb_insert i (d_tombstones d)\<rparr>)
         else (case decode_body (e_enc E) (e_dec E) body of
                 Inl _ \<Rightarrow> (d, Inl InvalidInput)
               | Inr bs \<Rightarrow>
                   if method \<in> {''GET'', ''POST'', ''DELETE''}
                   then (spawn_request i path method headers bs d, Inr ())
                   else (d, Inl InvalidInput)))"

definition handle_credit :: "string \<Rightarrow> u64 \<Rightarrow> driver \<Rightarrow> unit step_result" where
  "handle_credit i n d =
     (case get_pending d i of
        None \<Rightarrow> if tb_contains (d_tombstones d) i then (d, Inr ()) else (d, Inl InvalidInput)
      | Some p \<Rightarrow>
          if p_phase p \<noteq> WaitingCredit \<or> p_next_sequence p \<noteq> n then (d, Inl InvalidInput)
          else let t = d_tasks d ! p_task p
               in if t_state t = Finished \<or> length (t_commands t) \<ge> 1 then (d, Inl Unavailable)
                  else (set_pending i (p\<lparr>p_phase := CreditInFlight\<rparr>)
                          (update_task (p_task p) (\<lambda>t. t\<lparr>t_commands := t_commands t @ [n]\<rparr>) d), Inr ()))"

definition handle_cancel :: "string \<Rightarrow> driver \<Rightarrow> unit step_result" where
  "handle_cancel i d =
     (if get_pending d i \<noteq> None then (retire i None d, Inr ())
      else if tb_contains (d_tombstones d) i then (d, Inr ())
      else (d, Inl InvalidInput))"

definition validate_frame_shape :: "env \<Rightarrow> frame \<Rightarrow> relay_result" where
  "validate_frame_shape E f =
     (case encode_frame (e_json E) (e_enc E) (e_dec E) f of Inl _ \<Rightarrow> Inl InvalidInput | Inr _ \<Rightarrow> Inr ())"

definition handle_input :: "env \<Rightarrow> frame \<Rightarrow> driver \<Rightarrow> unit step_result" where
  "handle_input E f d =
     (case validate_frame_shape E f of
        Inl e \<Rightarrow> (d, Inl e)
      | Inr _ \<Rightarrow>
          (case f of
             Request i path method headers body \<Rightarrow> handle_request E i path method headers body d
           | Credit i n \<Rightarrow> handle_credit i n d
           | Cancel i \<Rightarrow> handle_cancel i d
           | _ \<Rightarrow> (d, Inl InvalidInput)))"

definition set_phase :: "string \<Rightarrow> u64 \<Rightarrow> stream_phase \<Rightarrow> driver \<Rightarrow> driver" where
  "set_phase i tag ph d =
     (case get_pending d i of
        None \<Rightarrow> d
      | Some p \<Rightarrow> if p_tag p = tag then set_pending i (p\<lparr>p_phase := ph\<rparr>) d else d)"

definition handle_headers ::
    "env \<Rightarrow> u64 \<Rightarrow> string \<Rightarrow> u16 \<Rightarrow> header_map \<Rightarrow> bool \<Rightarrow> driver \<Rightarrow> unit step_result" where
  "handle_headers E tag i status headers body_allowed d =
     (case get_pending d i of
        None \<Rightarrow> (d, Inr ())
      | Some p \<Rightarrow>
          if p_tag p \<noteq> tag then (d, Inr ())
          else if p_phase p \<noteq> AwaitingHeaders then (d, Inl InvalidInput)
          else and_then (send_frame E (Response i status headers) d) (\<lambda>d.
                 if body_allowed then (set_phase i tag WaitingCredit d, Inr ())
                 else and_then (send_frame E (End i) (set_phase i tag NoBody d)) (\<lambda>d.
                        (retire i (Some tag) d, Inr ()))))"

definition handle_chunk :: "env \<Rightarrow> u64 \<Rightarrow> string \<Rightarrow> u64 \<Rightarrow> byte list \<Rightarrow> driver \<Rightarrow> unit step_result" where
  "handle_chunk E tag i n bs d =
     (case get_pending d i of
        None \<Rightarrow> (d, Inr ())
      | Some p \<Rightarrow>
          if p_tag p \<noteq> tag then (d, Inr ())
          else if p_phase p \<noteq> CreditInFlight \<or> p_next_sequence p \<noteq> n then fail_request E i tag d
          else if bs = [] \<or> length bs > max_chunk_body_bytes
             \<or> min (2 ^ 64 - 1) (p_bytes p + length bs) > max_response_bytes
             \<or> p_chunks p \<ge> max_response_chunks
          then fail_request E i tag d
          else (case encode_body (e_enc E) bs of
                  Inl _ \<Rightarrow> (d, Inl InvalidResponse)
                | Inr body \<Rightarrow>
                    and_then (send_frame E (Chunk i n body) d) (\<lambda>d.
                      (case get_pending d i of
                         None \<Rightarrow> (d, Inr ())
                       | Some p \<Rightarrow>
                           if p_tag p = tag
                           then (set_pending i (p\<lparr>p_bytes := p_bytes p + length bs,
                                   p_chunks := p_chunks p + 1,
                                   p_next_sequence := p_next_sequence p + 1,
                                   p_phase := WaitingCredit\<rparr>) d, Inr ())
                           else (d, Inr ())))))"

definition handle_end :: "env \<Rightarrow> u64 \<Rightarrow> string \<Rightarrow> driver \<Rightarrow> unit step_result" where
  "handle_end E tag i d =
     (case get_pending d i of
        None \<Rightarrow> (d, Inr ())
      | Some p \<Rightarrow>
          if p_tag p \<noteq> tag then (d, Inr ())
          else if p_phase p \<noteq> CreditInFlight then fail_request E i tag d
          else and_then (send_frame E (End i) d) (\<lambda>d. (retire i (Some tag) d, Inr ())))"

definition handle_failure :: "env \<Rightarrow> u64 \<Rightarrow> string \<Rightarrow> driver \<Rightarrow> unit step_result" where
  "handle_failure E tag i d =
     (if is_some_and (\<lambda>p. p_tag p = tag) (get_pending d i) then fail_request E i tag d
      else (d, Inr ()))"

fun handle_event :: "env \<Rightarrow> task_event \<Rightarrow> driver \<Rightarrow> unit step_result" where
  "handle_event E (EvHeaders tag i status headers allowed) d =
     handle_headers E tag i status headers allowed d"
| "handle_event E (EvChunk tag i n bs) d = handle_chunk E tag i n bs d"
| "handle_event E (EvEnd tag i) d = handle_end E tag i d"
| "handle_event E (EvFailure tag i) d = handle_failure E tag i d"

subsection \<open>The request task\<close>

definition filtered_response_headers :: "(string \<Rightarrow> string option) \<Rightarrow> header_map" where
  "filtered_response_headers get =
     concat (map (\<lambda>name. (case get name of
         None \<Rightarrow> []
       | Some v \<Rightarrow> if length v > max_header_value_bytes \<or> \<not> list_all is_header_byte v then []
                   else [(name, v)]))
       [''content-type'', ''mcp-session-id'', ''mcp-protocol-version''])"

datatype filled = FillError | FillEnd | Filled "byte list" nat "byte list list"

text \<open>The inner loop \<open>while offset == buffered.len()\<close>.\<close>

fun fill :: "nat \<Rightarrow> bool \<Rightarrow> byte list \<Rightarrow> nat \<Rightarrow> byte list list \<Rightarrow> filled" where
  "fill bytes_total broken buffered off pieces =
     (if off \<noteq> length buffered then Filled buffered off pieces
      else (case pieces of
              [] \<Rightarrow> if broken then FillError else FillEnd
            | piece # rest \<Rightarrow>
                if piece = [] then fill bytes_total broken buffered off rest
                else if length piece > max_response_bytes - bytes_total then FillError
                else Filled piece 0 rest))"

declare fill.simps [simp del]

datatype turn = TurnError | TurnEnd | TurnChunk u64 "byte list" stream_loop

text \<open>One pass of the loop after its credit has come. (\<open>checked_add\<close> on \<open>usize\<close> fails at
  \<open>2 ^ 64\<close>.)\<close>

definition stream_turn :: "stream_loop \<Rightarrow> turn" where
  "stream_turn l =
     (case fill (l_bytes_total l) (l_broken l) (l_buffered l) (l_offset l) (l_rest l) of
        FillError \<Rightarrow> TurnError
      | FillEnd \<Rightarrow> TurnEnd
      | Filled buffered off rest \<Rightarrow>
          let tk = min (length buffered - off) max_chunk_body_bytes;
              next_total = l_bytes_total l + tk;
              chunks_total = l_chunks_total l + 1
          in if next_total \<ge> 2 ^ 64 \<or> chunks_total \<ge> 2 ^ 64 then TurnError
             else if next_total > max_response_bytes \<or> chunks_total > max_response_chunks
             then TurnError
             else TurnChunk (l_sequence l) (take tk (drop off buffered))
                    (l\<lparr>l_buffered := buffered, l_offset := off + tk, l_rest := rest,
                       l_bytes_total := next_total, l_chunks_total := chunks_total\<rparr>))"

definition initial_loop :: "local_response \<Rightarrow> stream_loop" where
  "initial_loop r = \<lparr>l_buffered = [], l_offset = 0, l_sequence = 0, l_bytes_total = 0,
     l_chunks_total = 0, l_rest = lp_pieces r, l_broken = lp_broken r\<rparr>"

definition body_allowed :: "u16 \<Rightarrow> bool" where
  "body_allowed status \<longleftrightarrow> status \<notin> {204, 205, 304}"

text \<open>The answer of \<open>send().await\<close>.\<close>

definition task_respond :: "local_response option \<Rightarrow> task \<Rightarrow> task" where
  "task_respond answer t =
     (case answer of
        None \<Rightarrow> t\<lparr>t_state := Failing\<rparr>
      | Some r \<Rightarrow>
          if \<not> (200 \<le> lp_status r \<and> lp_status r \<le> 599) then t\<lparr>t_state := Failing\<rparr>
          else t\<lparr>t_response := Some r,
                 t_state := Announcing (lp_status r) (filtered_response_headers (lp_header r))
                              (body_allowed (lp_status r)) (initial_loop r)\<rparr>)"

text \<open>\<open>events.send(..).await\<close> of the state the task is in, and what it does next.\<close>

fun task_emits :: "u64 \<Rightarrow> string \<Rightarrow> task_state \<Rightarrow> (task_event \<times> task_state) option" where
  "task_emits tag i (Announcing status headers allowed l) =
     Some (EvHeaders tag i status headers allowed, if allowed then AwaitCredit l else ClosingEmpty)"
| "task_emits tag i ClosingEmpty = Some (EvEnd tag i, Finished)"
| "task_emits tag i (SendingChunk n bs l) =
     Some (EvChunk tag i n bs,
       if l_sequence l = - 1 then Failing else AwaitCredit (l\<lparr>l_sequence := l_sequence l + 1\<rparr>))"
| "task_emits tag i SendingEnd = Some (EvEnd tag i, Finished)"
| "task_emits tag i Failing = Some (EvFailure tag i, Finished)"
| "task_emits tag i _ = None"

definition after_credit :: "stream_loop \<Rightarrow> u64 \<Rightarrow> task_state" where
  "after_credit l n =
     (if n \<noteq> l_sequence l then Failing
      else (case stream_turn l of
              TurnError \<Rightarrow> Failing
            | TurnEnd \<Rightarrow> SendingEnd
            | TurnChunk n bs l' \<Rightarrow> SendingChunk n bs l'))"

text \<open>A timeout drops \<open>execute_request\<close> at any await and reports a failure; the failure's own
  timeout ends the task.\<close>

fun timed_out :: "task_state \<Rightarrow> task_state" where
  "timed_out Failing = Finished"
| "timed_out Finished = Finished"
| "timed_out _ = Failing"

subsection \<open>Steps\<close>

text \<open>The end of an iteration of \<open>drive\<close>: an error ends the session.\<close>

fun settle_result :: "unit step_result \<Rightarrow> driver" where
  "settle_result (d, Inl e) = d\<lparr>d_result := Some (Inl e)\<rparr>"
| "settle_result (d, Inr _) = d"

text \<open>The receiver of a task's commands is closed when no pending request keeps its sender.\<close>

definition commands_closed :: "driver \<Rightarrow> nat \<Rightarrow> bool" where
  "commands_closed d k \<longleftrightarrow> list_all (\<lambda>(i, p). p_task p \<noteq> k) (d_pending d)"

text \<open>One step of a session: an arm of the \<open>select!\<close> of \<open>drive\<close> or a turn of a task. A task that panics ends
  the session when it is joined; it answers nothing in between, and a credit sent to it meets a closed
  channel and ends the session with the same error.\<close>

inductive peer_step :: "env \<Rightarrow> driver \<Rightarrow> driver \<Rightarrow> bool" for E where
  frame_in: "d_result d = None \<Longrightarrow> peer_step E d (settle_result (handle_input E f d))"
| input_closed: "d_result d = None \<Longrightarrow> peer_step E d (d\<lparr>d_result := Some (Inr ())\<rparr>)"
| event_in: "d_result d = None \<Longrightarrow> d_events d = ev # evs \<Longrightarrow>
    peer_step E d (settle_result (handle_event E ev (d\<lparr>d_events := evs\<rparr>)))"
| respond: "d_result d = None \<Longrightarrow> k < length (d_tasks d) \<Longrightarrow> t_state (d_tasks d ! k) = Requesting \<Longrightarrow>
    peer_step E d (update_task k (task_respond answer) d)"
| emit: "d_result d = None \<Longrightarrow> k < length (d_tasks d) \<Longrightarrow> length (d_events d) < event_capacity \<Longrightarrow>
    task_emits (t_tag (d_tasks d ! k)) (t_id (d_tasks d ! k)) (t_state (d_tasks d ! k)) = Some (ev, st) \<Longrightarrow>
    peer_step E d ((update_task k (\<lambda>t. t\<lparr>t_state := st\<rparr>) d)\<lparr>d_events := d_events d @ [ev]\<rparr>)"
| credit: "d_result d = None \<Longrightarrow> k < length (d_tasks d) \<Longrightarrow>
    t_state (d_tasks d ! k) = AwaitCredit l \<Longrightarrow> t_commands (d_tasks d ! k) = n # ns \<Longrightarrow>
    peer_step E d (update_task k (\<lambda>t. t\<lparr>t_commands := ns, t_state := after_credit l n\<rparr>) d)"
| credit_closed: "d_result d = None \<Longrightarrow> k < length (d_tasks d) \<Longrightarrow>
    t_state (d_tasks d ! k) = AwaitCredit l \<Longrightarrow> t_commands (d_tasks d ! k) = [] \<Longrightarrow>
    commands_closed d k \<Longrightarrow>
    peer_step E d (update_task k (\<lambda>t. t\<lparr>t_state := Failing\<rparr>) d)"
| task_timeout: "d_result d = None \<Longrightarrow> k < length (d_tasks d) \<Longrightarrow>
    peer_step E d (update_task k (\<lambda>t. t\<lparr>t_state := timed_out (t_state t)\<rparr>) d)"
| task_aborted: "d_result d = None \<Longrightarrow> k < length (d_tasks d) \<Longrightarrow> t_aborted (d_tasks d ! k) \<Longrightarrow>
    peer_step E d (update_task k (\<lambda>t. t\<lparr>t_state := Finished\<rparr>) d)"
| task_panicked: "d_result d = None \<Longrightarrow> k < length (d_tasks d) \<Longrightarrow> t_state (d_tasks d ! k) \<noteq> Finished \<Longrightarrow>
    peer_step E d (d\<lparr>d_result := Some (Inl Unavailable)\<rparr>)"

end
