(* ===== verification/Reverse_Json.thy ===== *)
theory Reverse_Json
  imports Reverse_Protocol
begin

text \<open>
  The size of a frame on the wire. \<open>serde_json\<close> is not code of the repository: what the relay relies on
  is that it writes compact JSON, that is no longer than the objects of \<open>reverse_protocol.rs\<close> need with the
  escapes JSON demands. \<open>compact_json\<close> spells that text out, \<open>compact_printer\<close> is the law, and the frames a
  driver sends of its own are shown to stay within the 96 KiB of \<open>MAX_WIRE_BYTES\<close>. (A request of a peer need
  not: a full body beside full headers is longer.)
\<close>

subsection \<open>Compact JSON\<close>

definition hex_digit :: "nat \<Rightarrow> char" where
  "hex_digit n = char_of (if n < 10 then 48 + n else 87 + n)"

definition json_char :: "char \<Rightarrow> string" where
  "json_char c = (let n = of_char c :: nat in
     if n = 34 \<or> n = 92 then [char_of (92 :: nat), c]
     else if n = 8 then [char_of (92 :: nat), CHR ''b'']
     else if n = 9 then [char_of (92 :: nat), CHR ''t'']
     else if n = 10 then [char_of (92 :: nat), CHR ''n'']
     else if n = 12 then [char_of (92 :: nat), CHR ''f'']
     else if n = 13 then [char_of (92 :: nat), CHR ''r'']
     else if n < 32 then char_of (92 :: nat) # ''u00'' @ [hex_digit (n div 16), hex_digit (n mod 16)]
     else [c])"

definition json_string :: "string \<Rightarrow> string" where
  "json_string s = CHR 0x22 # concat (map json_char s) @ [CHR 0x22]"

definition json_member :: "string \<Rightarrow> string \<Rightarrow> string" where
  "json_member k v = json_string k @ '':'' @ v"

fun json_members :: "(string \<times> string) list \<Rightarrow> string" where
  "json_members [] = []"
| "json_members [(k, v)] = json_member k v"
| "json_members ((k, v) # m # ms) = json_member k v @ '','' @ json_members (m # ms)"

definition json_object :: "(string \<times> string) list \<Rightarrow> string" where
  "json_object ms = ''{'' @ json_members ms @ ''}''"

text \<open>The serializer of the frames writes no number but a \<open>u64\<close>.\<close>

fun json_value :: "wire_value \<Rightarrow> string" where
  "json_value (WStr s) = json_string s"
| "json_value (WMap m) = json_object (map (map_prod id json_string) m)"
| "json_value (WNum (VisitU64 n)) = decimal n"
| "json_value (WNum _) = []"

definition compact_json :: "wire_object \<Rightarrow> string" where
  "compact_json ob = json_object (map (map_prod id json_value) ob)"

definition compact_printer :: "(wire_object \<Rightarrow> string) \<Rightarrow> bool" where
  "compact_printer to_json \<longleftrightarrow>
     (\<forall>f. length (to_json (wire_entries f)) \<le> length (compact_json (wire_entries f)))"

lemma compact_printer_compact_json: "compact_printer compact_json"
  by (simp add: compact_printer_def)

subsection \<open>Lengths\<close>

text \<open>The bytes that JSON writes in at most two.\<close>

definition short_byte :: "char \<Rightarrow> bool" where
  "short_byte c \<longleftrightarrow> (let n = of_char c :: nat in n = 9 \<or> 32 \<le> n)"

lemma short_json_char: "short_byte c \<Longrightarrow> length (json_char c) \<le> 2"
  by (auto simp: short_byte_def json_char_def Let_def)

lemma short_json_chars: "list_all short_byte s \<Longrightarrow> length (concat (map json_char s)) \<le> 2 * length s"
  by (induction s) (auto dest!: short_json_char)

lemma short_json_string: "list_all short_byte s \<Longrightarrow> length s \<le> n \<Longrightarrow> length (json_string s) \<le> 2 * n + 2"
  using short_json_chars [of s] by (simp add: json_string_def)

lemma json_members_length:
  "length (json_members ms) \<le> sum_list (map (\<lambda>(k, v). length (json_string k) + length v + 2) ms)"
  by (induction ms rule: json_members.induct) (auto simp: json_member_def)

lemma json_object_length:
  "length (json_object ms) \<le> sum_list (map (\<lambda>(k, v). length (json_string k) + length v + 2) ms) + 2"
  using json_members_length [of ms] by (simp add: json_object_def)

lemma compact_json_length:
  "length (compact_json ob)
   \<le> sum_list (map (\<lambda>(k, v). length (json_string k) + length (json_value v) + 2) ob) + 2"
  using json_object_length [of "map (map_prod id json_value) ob"]
  by (simp add: compact_json_def comp_def case_prod_unfold)

lemma short_token: "is_token_byte c \<Longrightarrow> short_byte c"
  by (auto simp: is_token_byte_def is_alphanumeric_def short_byte_def Let_def)

lemma short_header: "is_header_byte c \<Longrightarrow> short_byte c"
  by (auto simp: is_header_byte_def short_byte_def Let_def)

lemma short_base64:
  assumes "valid_base64_shape v"
  shows "list_all short_byte v"
proof -
  define p where "p = length (takeWhile (\<lambda>ch. ch = CHR ''='') (rev v))"
  have "list_all is_base64_alphabet (take (length v - p) v)"
    using assms by (simp add: valid_base64_shape_def Let_def p_def split: if_splits)
  then have head: "list_all short_byte (take (length v - p) v)"
    by (rule list.pred_mono_strong) (auto simp: is_base64_alphabet_def is_alphanumeric_def short_byte_def Let_def)
  have "drop (length v - p) v = rev (takeWhile (\<lambda>ch. ch = CHR ''='') (rev v))"
    unfolding p_def by (metis length_rev rev_rev_ident rev_take takeWhile_eq_take)
  then have "list_all short_byte (drop (length v - p) v)"
    by (auto simp: list_all_iff short_byte_def dest: set_takeWhileD)
  with head show ?thesis
    by (metis append_take_drop_id list_all_append)
qed

lemma short_id: "validate_id i \<Longrightarrow> length (json_string i) \<le> 130"
  using short_json_string [of i 64]
  by (auto simp: validate_id_def max_id_bytes_def list_all_iff short_token)

lemma short_u64: "length (decimal (unat (n :: u64))) \<le> 20"
  by (rule decimal_length) (rule less_trans [OF unsigned_less], simp_all)

lemma short_headers:
  assumes "validate_headers hs False" "length hs \<le> 3"
  shows "length (json_value (WMap hs)) \<le> 12500"
proof -
  have e: "length (json_string k) + length (json_string v) + 2 \<le> 4150" if "(k, v) \<in> set hs" for k v
  proof -
    from assms(1) that have k: "k \<in> set response_header_names"
      and v: "list_all is_header_byte v" "length v \<le> 2048"
      by (auto simp: validate_headers_def list_all_iff max_header_value_bytes_def)
    from k have "list_all short_byte k \<and> length k \<le> 20"
      by (auto simp: response_header_names_def short_byte_def)
    moreover have "list_all short_byte v" using v(1) by (auto simp: list_all_iff short_header)
    ultimately show ?thesis using short_json_string [of k 20] short_json_string [of v 2048] v(2) by simp
  qed
  have "length (json_value (WMap hs))
      \<le> sum_list (map (\<lambda>(k, v). length (json_string k) + length (json_string v) + 2) hs) + 2"
    using json_object_length [of "map (map_prod id json_string) hs"] by (simp add: comp_def case_prod_unfold)
  also have "sum_list (map (\<lambda>(k, v). length (json_string k) + length (json_string v) + 2) hs)
      \<le> length hs * 4150"
    using sum_list_mono [of hs "\<lambda>(k, v). length (json_string k) + length (json_string v) + 2" "\<lambda>_. 4150"] e
    by (auto simp: sum_list_triv)
  finally show ?thesis using assms(2) by simp
qed

subsection \<open>The frames of a driver\<close>

text \<open>What a driver sends: no request, and a response with the three headers it lets through.\<close>

fun driver_frame :: "frame \<Rightarrow> bool" where
  "driver_frame (Request i path verb hs body) = False"
| "driver_frame (Response i status hs) = (length hs \<le> 3)"
| "driver_frame _ = True"

lemma decimal_one: "length (decimal (Suc 0)) = 1"
  by (simp add: decimal.simps)

lemmas json_key_length = json_string_def json_char_def decimal_one

lemma driver_frame_fits:
  assumes "driver_frame f" "validate_frame enc dec f = Inr ()"
  shows "length (compact_json (wire_entries f)) \<le> max_wire_bytes"
proof (cases f)
  case (Response i status hs)
  have "length (json_string i) \<le> 130" "length (json_value (WMap hs)) \<le> 12500"
    using assms short_id short_headers by (simp_all add: Response validate_response_iff)
  moreover have "length (decimal (unat status)) \<le> 20"
    by (rule decimal_length) (rule less_trans [OF unsigned_less], simp_all)
  ultimately show ?thesis
    using compact_json_length [of "wire_entries f"]
    by (simp add: Response json_key_length max_wire_bytes_def)
next
  case (Chunk i n body)
  have "list_all short_byte body" "length body \<le> 21848"
    using assms short_base64
    by (auto simp: Chunk validate_chunk_iff decode_body_def max_chunk_body_base64_bytes_def
        max_chunk_body_bytes_def div_ceil_def split: if_splits)
  then have "length (json_string body) \<le> 43698" using short_json_string [of body 21848] by simp
  moreover have "length (json_string i) \<le> 130" using assms short_id by (simp add: Chunk validate_chunk_iff)
  ultimately show ?thesis
    using compact_json_length [of "wire_entries f"] short_u64 [of n]
    by (simp add: Chunk json_key_length max_wire_bytes_def)
next
  case (End i)
  then show ?thesis
    using assms short_id [of i] compact_json_length [of "wire_entries f"]
    by (simp add: validate_marker_iff json_key_length max_wire_bytes_def)
next
  case (Cancel i)
  then show ?thesis
    using assms short_id [of i] compact_json_length [of "wire_entries f"]
    by (simp add: validate_marker_iff json_key_length max_wire_bytes_def)
next
  case (Credit i n)
  then show ?thesis
    using assms short_id [of i] short_u64 [of n] compact_json_length [of "wire_entries f"]
    by (simp add: validate_marker_iff json_key_length max_wire_bytes_def)
qed (use assms in simp)

lemma driver_frame_printed:
  assumes "compact_printer to_json" "driver_frame f" "validate_frame enc dec f = Inr ()"
  shows "encode_frame to_json enc dec f = Inr (to_json (wire_entries f))"
proof -
  have "length (to_json (wire_entries f)) \<le> max_wire_bytes"
    using assms(1) driver_frame_fits [OF assms(2,3)] unfolding compact_printer_def by (meson le_trans)
  with assms(3) show ?thesis by (simp add: encode_frame_def Let_def not_less)
qed

end
