(* ===== verification/Reverse_Peer_Bounds.thy ===== *)
theory Reverse_Peer_Bounds
  imports Reverse_Peer Reverse_Json
begin

text \<open>
  The bounds of a session of the reverse peer: every handler and every step keeps them, whatever the
  tasks report.
\<close>

section \<open>What every handler keeps\<close>

subsection \<open>Helper facts on the record\<close>

lemma get_pending_simps [simp]:
  "get_pending (d\<lparr>d_out := x1\<rparr>) i = get_pending d i"
  "get_pending (d\<lparr>d_tombstones := x2\<rparr>) i = get_pending d i"
  "get_pending (d\<lparr>d_events := x3\<rparr>) i = get_pending d i"
  "get_pending (d\<lparr>d_tasks := x4\<rparr>) i = get_pending d i"
  "get_pending (d\<lparr>d_result := x5\<rparr>) i = get_pending d i"
  "get_pending (d\<lparr>d_next_tag := x6\<rparr>) i = get_pending d i"
  "get_pending (update_task k f d) i = get_pending d i"
  "get_pending (set_pending j p d) i = (if i = j then Some p else get_pending d i)"
  by (simp_all add: get_pending_def update_task_def set_pending_def update_conv')

lemma get_pending_delete [simp]:
  "get_pending (d\<lparr>d_pending := AList.delete j (d_pending d)\<rparr>) i = (if i = j then None else get_pending d i)"
  by (simp add: get_pending_def delete_conv')

lemma update_task_simps [simp]:
  "d_pending (update_task k f d) = d_pending d" "d_tombstones (update_task k f d) = d_tombstones d"
  "d_next_tag (update_task k f d) = d_next_tag d" "d_events (update_task k f d) = d_events d"
  "d_out (update_task k f d) = d_out d" "d_result (update_task k f d) = d_result d"
  "d_authorization (update_task k f d) = d_authorization d" "d_port (update_task k f d) = d_port d"
  "d_tasks (update_task k f d) = (d_tasks d)[k := f (d_tasks d ! k)]"
  by (simp_all add: update_task_def)

lemma set_pending_simps [simp]:
  "d_pending (set_pending i p d) = AList.update i p (d_pending d)"
  "d_tombstones (set_pending i p d) = d_tombstones d"
  "d_next_tag (set_pending i p d) = d_next_tag d" "d_events (set_pending i p d) = d_events d"
  "d_out (set_pending i p d) = d_out d" "d_result (set_pending i p d) = d_result d"
  "d_authorization (set_pending i p d) = d_authorization d" "d_port (set_pending i p d) = d_port d"
  "d_tasks (set_pending i p d) = d_tasks d"
  by (simp_all add: set_pending_def)

lemma and_then_simps [simp]:
  "and_then (d, Inl e) k = (d, Inl e)" "and_then (d, Inr u) k = k d"
  by (simp_all add: and_then_def)

subsection \<open>Effects of the operations\<close>

text \<open>Each operation in the form the proofs use: what it is when it changes the driver.\<close>

lemma send_frame_cases [consumes 1, case_names rejected blocked sent]:
  assumes "send_frame E f d = (d', r)"
  obtains "d' = d" "r = Inl InvalidInput" "\<exists>e. encode_frame (e_json E) (e_enc E) (e_dec E) f = Inl e"
    | "d' = d" "r = Inl Unavailable"
    | t where "encode_frame (e_json E) (e_enc E) (e_dec E) f = Inr t" "d' = d\<lparr>d_out := d_out d @ [f]\<rparr>"
      "r = Inr ()"
  using assms by (auto simp: send_frame_def split: sum.splits if_splits)

lemma length_update_le: "length (AList.update i p al) = (if i \<in> fst ` set al then length al else Suc (length al))"
  by (induction al) auto

lemma length_delete_le: "length (AList.delete i al) \<le> length al"
  by (simp add: AList.delete_eq)

lemma tb_insert_ids: "tb_ids (tb_insert i t) \<subseteq> insert i (tb_ids t)"
  by (auto simp: tb_insert_def Let_def split: list.splits)

definition tombstones_ok :: "tombstones \<Rightarrow> bool" where
  "tombstones_ok t \<longleftrightarrow> distinct (tb_order t) \<and> set (tb_order t) = tb_ids t
     \<and> length (tb_order t) \<le> tombstone_limit"

lemma tombstones_ok_insert: "tombstones_ok t \<Longrightarrow> tombstones_ok (tb_insert i t)"
  by (cases "tb_order t") (auto simp: tombstones_ok_def tb_insert_def Let_def)

text \<open>The id just retired is remembered.\<close>

lemma tb_insert_contains: "tombstones_ok t \<Longrightarrow> i \<in> tb_ids (tb_insert i t)"
  by (cases "tb_order t") (auto simp: tombstones_ok_def tb_insert_def Let_def tombstone_limit_def)

definition pending_ok :: "pending \<Rightarrow> bool" where
  "pending_ok p \<longleftrightarrow> p_bytes p \<le> max_response_bytes \<and> p_chunks p \<le> max_response_chunks
     \<and> unat (p_next_sequence p) = p_chunks p
     \<and> (p_phase p = AwaitingHeaders \<longrightarrow> p_chunks p = 0 \<and> p_bytes p = 0)"

definition driver_ok :: "env \<Rightarrow> driver \<Rightarrow> bool" where
  "driver_ok E d \<longleftrightarrow> distinct (map fst (d_pending d)) \<and> length (d_pending d) \<le> max_pending
     \<and> tombstones_ok (d_tombstones d)
     \<and> (\<forall>i p. get_pending d i = Some p \<longrightarrow> i \<notin> tb_ids (d_tombstones d) \<and> pending_ok p)
     \<and> (\<forall>f \<in> set (d_out d). validate_frame (e_enc E) (e_dec E) f = Inr ())
     \<and> length (d_events d) \<le> event_capacity"

lemma in_keys_iff: "i \<in> fst ` set (d_pending d) \<longleftrightarrow> get_pending d i \<noteq> None"
  by (metis get_pending_def map_of_eq_None_iff)

lemma driver_ok_send:
  assumes "driver_ok E d" and "send_frame E f d = (d', r)"
  shows "driver_ok E d'"
  using assms(2)
proof (cases rule: send_frame_cases)
  case (sent t)
  then have "validate_frame (e_enc E) (e_dec E) f = Inr ()"
    by (auto simp: encode_frame_def split: sum.splits)
  with assms(1) sent show ?thesis by (auto simp: driver_ok_def)
qed (use assms(1) in simp_all)

lemma driver_ok_update_task: "driver_ok E (update_task k f d) = driver_ok E d"
  by (simp add: driver_ok_def)

lemma driver_ok_set_pending:
  assumes "driver_ok E d" "get_pending d i \<noteq> None" "pending_ok p"
  shows "driver_ok E (set_pending i p d)"
  using assms by (auto simp: driver_ok_def length_update_le in_keys_iff distinct_update)

definition retires :: "string \<Rightarrow> u64 option \<Rightarrow> driver \<Rightarrow> bool" where
  "retires i e d \<longleftrightarrow> is_some_and (\<lambda>p. is_none_or (\<lambda>tag. p_tag p = tag) e) (get_pending d i)"

lemma get_pending_retire:
  "get_pending (retire i e d) j = (if j = i \<and> retires i e d then None else get_pending d j)"
  by (auto simp: retire_def retires_def get_pending_def delete_conv' split: option.splits)

lemma retire_simps [simp]:
  "d_out (retire i e d) = d_out d" "d_events (retire i e d) = d_events d"
  "d_next_tag (retire i e d) = d_next_tag d" "d_result (retire i e d) = d_result d"
  "d_authorization (retire i e d) = d_authorization d" "d_port (retire i e d) = d_port d"
  "d_tombstones (retire i e d)
     = (if retires i e d then tb_insert i (d_tombstones d) else d_tombstones d)"
  "d_pending (retire i e d)
     = (if retires i e d then AList.delete i (d_pending d) else d_pending d)"
  by (auto simp: retire_def retires_def split: option.splits)

lemma driver_ok_retire:
  assumes "driver_ok E d"
  shows "driver_ok E (retire i e d)"
  using assms tb_insert_ids [of i "d_tombstones d"] length_delete_le [of i "d_pending d"]
  by (auto simp: driver_ok_def get_pending_retire tombstones_ok_insert distinct_delete)

lemma driver_ok_fail_request:
  "driver_ok E d \<Longrightarrow> fail_request E i tag d = (d', r) \<Longrightarrow> driver_ok E d'"
  unfolding fail_request_def by (rule driver_ok_send [OF driver_ok_retire])

lemma driver_ok_set_phase: "driver_ok E d \<Longrightarrow> ph \<noteq> AwaitingHeaders \<Longrightarrow> driver_ok E (set_phase i tag ph d)"
  by (auto simp: set_phase_def split: option.splits intro!: driver_ok_set_pending)
    (auto simp: driver_ok_def pending_ok_def)

lemma driver_ok_and_then:
  assumes "and_then x k = (d', r)" "\<And>d r. x = (d, r) \<Longrightarrow> driver_ok E d"
    "\<And>d d' r. driver_ok E d \<Longrightarrow> k d = (d', r) \<Longrightarrow> driver_ok E d'"
  shows "driver_ok E d'"
  using assms by (auto simp: and_then_def split: prod.splits sum.splits)

lemma driver_ok_spawn:
  assumes "driver_ok E d" "get_pending d i = None" "i \<notin> tb_ids (d_tombstones d)"
    "length (d_pending d) < max_pending"
  shows "driver_ok E (spawn_request i path method headers bs d)"
  using assms
  by (auto simp: driver_ok_def spawn_request_def Let_def length_update_le distinct_update
      get_pending_def update_conv' pending_ok_def)

lemma driver_ok_handle_request:
  assumes "driver_ok E d" "handle_request E i path method headers body d = (d', r)"
  shows "driver_ok E d'"
proof -
  have t: "driver_ok E (d\<lparr>d_tombstones := tb_insert i (d_tombstones d)\<rparr>)" if "get_pending d i = None"
    using assms(1) that tb_insert_ids [of i "d_tombstones d"]
    by (auto simp: driver_ok_def tombstones_ok_insert)
  show ?thesis
    using assms driver_ok_send [OF t] driver_ok_spawn [OF assms(1)]
    by (auto simp: handle_request_def Let_def tb_contains_def not_le split: if_splits sum.splits)
qed

lemma driver_ok_handle_credit:
  assumes "driver_ok E d" "handle_credit i n d = (d', r)"
  shows "driver_ok E d'"
proof -
  have "pending_ok (p\<lparr>p_phase := CreditInFlight\<rparr>)" if "get_pending d i = Some p" for p
    using assms(1) that by (auto simp: driver_ok_def pending_ok_def)
  then have "driver_ok E (set_pending i (p\<lparr>p_phase := CreditInFlight\<rparr>) (update_task k f d))"
    if "get_pending d i = Some p" for p k f
    using assms(1) that by (intro driver_ok_set_pending) (simp_all add: driver_ok_update_task)
  with assms show ?thesis
    by (auto simp: handle_credit_def Let_def split: if_splits option.splits)
qed

lemma driver_ok_handle_cancel:
  "driver_ok E d \<Longrightarrow> handle_cancel i d = (d', r) \<Longrightarrow> driver_ok E d'"
  by (auto simp: handle_cancel_def driver_ok_retire split: if_splits)

lemma driver_ok_handle_input:
  "driver_ok E d \<Longrightarrow> handle_input E f d = (d', r) \<Longrightarrow> driver_ok E d'"
  by (auto simp: handle_input_def split: sum.splits frame.splits
      dest: driver_ok_handle_request driver_ok_handle_credit driver_ok_handle_cancel)

lemma driver_ok_handle_headers:
  assumes "driver_ok E d" "handle_headers E tag i status headers allowed d = (d', r)"
  shows "driver_ok E d'"
proof -
  have k: "driver_ok E d'" if "driver_ok E d"
    "(if allowed then (set_phase i tag WaitingCredit d, Inr ())
      else and_then (send_frame E (End i) (set_phase i tag NoBody d)) (\<lambda>d.
             (retire i (Some tag) d, Inr ()))) = (d', r)" for d d' r
  proof (cases allowed)
    case True
    with that show ?thesis by (auto simp: driver_ok_set_phase)
  next
    case False
    with that(2) have "and_then (send_frame E (End i) (set_phase i tag NoBody d)) (\<lambda>d.
             (retire i (Some tag) d, Inr ())) = (d', r)" by simp
    then show ?thesis
      by (rule driver_ok_and_then)
        (use driver_ok_send [OF driver_ok_set_phase [OF that(1), of NoBody]] driver_ok_retire in auto)
  qed
  show ?thesis
  proof (cases "\<exists>p. get_pending d i = Some p \<and> p_tag p = tag \<and> p_phase p = AwaitingHeaders")
    case True
    then have "and_then (send_frame E (Response i status headers) d) (\<lambda>d.
        if allowed then (set_phase i tag WaitingCredit d, Inr ())
        else and_then (send_frame E (End i) (set_phase i tag NoBody d)) (\<lambda>d.
             (retire i (Some tag) d, Inr ()))) = (d', r)"
      using assms(2) by (auto simp: handle_headers_def)
    then show ?thesis
      by (rule driver_ok_and_then) (use driver_ok_send [OF assms(1)] k in auto)
  qed (use assms in \<open>auto simp: handle_headers_def split: option.splits if_splits\<close>)
qed

text \<open>What a chunk does: it is dropped, fails its request, cannot be sent, or is counted.\<close>

definition chunk_fits :: "pending \<Rightarrow> u64 \<Rightarrow> byte list \<Rightarrow> bool" where
  "chunk_fits p n bs \<longleftrightarrow> p_phase p = CreditInFlight \<and> p_next_sequence p = n \<and> bs \<noteq> []
     \<and> length bs \<le> max_chunk_body_bytes \<and> p_bytes p + length bs \<le> max_response_bytes
     \<and> p_chunks p < max_response_chunks"

definition count_chunk :: "byte list \<Rightarrow> pending \<Rightarrow> pending" where
  "count_chunk bs p = p\<lparr>p_bytes := p_bytes p + length bs, p_chunks := p_chunks p + 1,
     p_next_sequence := p_next_sequence p + 1, p_phase := WaitingCredit\<rparr>"

lemma handle_chunk_cases:
  assumes "handle_chunk E tag i n bs d = (d', r)"
  shows "d' = d \<and> r = Inr () \<and> \<not> is_some_and (\<lambda>p. p_tag p = tag) (get_pending d i)
    \<or> (\<exists>p. get_pending d i = Some p \<and> p_tag p = tag \<and>
        (\<not> chunk_fits p n bs \<and> fail_request E i tag d = (d', r)
         \<or> chunk_fits p n bs \<and> d' = d \<and> (\<exists>e. r = Inl e)
         \<or> chunk_fits p n bs \<and> r = Inr ()
            \<and> send_frame E (Chunk i n (e_enc E bs)) d
                = (d\<lparr>d_out := d_out d @ [Chunk i n (e_enc E bs)]\<rparr>, Inr ())
            \<and> d' = set_pending i (count_chunk bs p) (d\<lparr>d_out := d_out d @ [Chunk i n (e_enc E bs)]\<rparr>)))"
proof (cases "get_pending d i")
  case (Some p)
  show ?thesis
  proof (cases "p_tag p = tag")
    case tag: True
    show ?thesis
    proof (cases "chunk_fits p n bs")
      case True
      then have c: "p_phase p = CreditInFlight" "p_next_sequence p = n" "bs \<noteq> []"
        "length bs \<le> max_chunk_body_bytes" "p_bytes p + length bs \<le> max_response_bytes"
        "\<not> p_chunks p \<ge> max_response_chunks"
        by (auto simp: chunk_fits_def)
      then have "encode_body (e_enc E) bs = Inr (e_enc E bs)"
        by (simp add: encode_body_def max_chunk_body_bytes_def max_request_body_bytes_def)
      moreover have "min (2 ^ 64 - 1) (p_bytes p + length bs) \<le> max_response_bytes"
        using c(5) by simp
      ultimately have h: "handle_chunk E tag i n bs d
          = and_then (send_frame E (Chunk i n (e_enc E bs)) d) (\<lambda>d.
              (case get_pending d i of
                 None \<Rightarrow> (d, Inr ())
               | Some p \<Rightarrow> if p_tag p = tag then (set_pending i (count_chunk bs p) d, Inr ()) else (d, Inr ())))"
        using Some tag c unfolding count_chunk_def by (simp add: handle_chunk_def)
      obtain d1 r1 where s: "send_frame E (Chunk i n (e_enc E bs)) d = (d1, r1)" by fastforce
      then show ?thesis
        by (cases rule: send_frame_cases) (use assms h s Some tag True in auto)
    next
      case False
      then have "p_phase p \<noteq> CreditInFlight \<or> p_next_sequence p \<noteq> n \<or> (bs = []
          \<or> length bs > max_chunk_body_bytes
          \<or> min (2 ^ 64 - 1) (p_bytes p + length bs) > max_response_bytes
          \<or> p_chunks p \<ge> max_response_chunks)"
        by (auto simp: chunk_fits_def not_le not_less max_response_bytes_def)
      then have "handle_chunk E tag i n bs d = fail_request E i tag d"
        using Some tag by (auto simp: handle_chunk_def)
      with assms Some tag False show ?thesis by simp
    qed
  qed (use assms Some in \<open>auto simp: handle_chunk_def\<close>)
qed (use assms in \<open>auto simp: handle_chunk_def\<close>)

lemma pending_ok_count_chunk: "pending_ok p \<Longrightarrow> chunk_fits p n bs \<Longrightarrow> pending_ok (count_chunk bs p)"
  by (auto simp: pending_ok_def chunk_fits_def count_chunk_def max_response_chunks_def
      unat_word_ariths)

lemma driver_ok_handle_chunk:
  assumes ok: "driver_ok E d" and "handle_chunk E tag i n bs d = (d', r)"
  shows "driver_ok E d'"
  using handle_chunk_cases [OF assms(2)]
proof (elim disjE exE conjE)
  fix p
  assume p: "get_pending d i = Some p" and f: "chunk_fits p n bs"
    and s: "send_frame E (Chunk i n (e_enc E bs)) d
                = (d\<lparr>d_out := d_out d @ [Chunk i n (e_enc E bs)]\<rparr>, Inr ())"
    and d': "d' = set_pending i (count_chunk bs p) (d\<lparr>d_out := d_out d @ [Chunk i n (e_enc E bs)]\<rparr>)"
  have "pending_ok p" using ok p by (simp add: driver_ok_def)
  then show ?thesis
    unfolding d' using driver_ok_send [OF ok s] p
    by (intro driver_ok_set_pending) (simp_all add: pending_ok_count_chunk [OF _ f])
qed (use ok driver_ok_fail_request in auto)

lemma driver_ok_handle_end:
  assumes "driver_ok E d" "handle_end E tag i d = (d', r)"
  shows "driver_ok E d'"
proof -
  have "driver_ok E d'" if "and_then (send_frame E (End i) d) (\<lambda>d. (retire i (Some tag) d, Inr ())) = (d', r)"
    using that by (rule driver_ok_and_then) (use driver_ok_send [OF assms(1)] driver_ok_retire in auto)
  with assms show ?thesis
    by (auto simp: handle_end_def split: option.splits if_splits dest: driver_ok_fail_request)
qed

lemma driver_ok_handle_event:
  assumes "driver_ok E d" "handle_event E ev d = (d', r)"
  shows "driver_ok E d'"
  using assms
  by (cases ev) (auto simp: handle_failure_def split: if_splits
      intro: driver_ok_handle_headers [OF assms(1)] driver_ok_handle_chunk [OF assms(1)]
        driver_ok_handle_end [OF assms(1)] driver_ok_fail_request [OF assms(1)])

subsection \<open>Every step\<close>

lemma driver_ok_events: "driver_ok E d \<Longrightarrow> d_events d = ev # evs \<Longrightarrow> driver_ok E (d\<lparr>d_events := evs\<rparr>)"
  by (auto simp: driver_ok_def)

lemma driver_ok_result: "driver_ok E (d\<lparr>d_result := x\<rparr>) = driver_ok E d"
  by (simp add: driver_ok_def)

lemma settle_result_eq: "settle_result (d, r) = (case r of Inl e \<Rightarrow> d\<lparr>d_result := Some (Inl e)\<rparr> | Inr _ \<Rightarrow> d)"
  by (cases r) simp_all

lemma driver_ok_settle: "driver_ok E (settle_result x) = driver_ok E (fst x)"
  by (cases x) (auto simp: settle_result_eq driver_ok_result split: sum.split)

lemma driver_ok_step: "peer_step E d d' \<Longrightarrow> driver_ok E d \<Longrightarrow> driver_ok E d'"
proof (induction rule: peer_step.induct)
  case (frame_in d f)
  then show ?case
    using driver_ok_handle_input [of E d f "fst (handle_input E f d)" "snd (handle_input E f d)"]
    by (simp add: driver_ok_settle)
next
  case (event_in d ev evs)
  then show ?case
    using driver_ok_handle_event [OF driver_ok_events, of E d ev evs ev
        "fst (handle_event E ev (d\<lparr>d_events := evs\<rparr>))" "snd (handle_event E ev (d\<lparr>d_events := evs\<rparr>))"]
    by (simp add: driver_ok_settle)
qed (simp_all add: driver_ok_update_task driver_ok_result, simp add: driver_ok_def)

interpretation peer_bounds: invariant_machine "peer_step E" "driver_ok E" for E
  by unfold_locales (rule driver_ok_step)

lemma run_peer_start:
  assumes "run_peer port token built = Inr d"
  shows "d = \<lparr>d_port = port, d_authorization = bearer_prefix @ token, d_pending = [],
             d_tombstones = new_tombstones, d_next_tag = 1, d_tasks = [], d_events = [],
             d_out = [], d_result = None\<rparr>"
    and "port \<noteq> 0" "valid_id token 32"
  using assms by (auto simp: run_peer_def split: if_splits)

lemma driver_ok_start: "run_peer port token built = Inr d \<Longrightarrow> driver_ok E d"
  by (auto dest!: run_peer_start(1)
      simp: driver_ok_def get_pending_def tombstones_ok_def new_tombstones_def)

lemma driver_ok_reachable:
  "run_peer port token built = Inr d0 \<Longrightarrow> (peer_step E)\<^sup>*\<^sup>* d0 d \<Longrightarrow> driver_ok E d"
  using peer_bounds.inv_reach driver_ok_start by blast

text \<open>C28 (bounds): whatever frames arrive, whatever the local server answers and whenever timeouts
  fire, a session keeps at most 8 requests in flight, remembers at most 32 retired ids, none of
  them in flight, queues at most 32 events, has streamed at most 2 MiB in at most 4096 chunks for
  each request, and every frame it sent passes the validation of the protocol.\<close>

theorem peer_stays_in_bounds:
  assumes "run_peer port token built = Inr d0" and "(peer_step E)\<^sup>*\<^sup>* d0 d"
  shows "length (d_pending d) \<le> 8 \<and> length (tb_order (d_tombstones d)) \<le> 32
    \<and> distinct (tb_order (d_tombstones d)) \<and> set (tb_order (d_tombstones d)) = tb_ids (d_tombstones d)
    \<and> length (d_events d) \<le> 32
    \<and> (\<forall>i p. get_pending d i = Some p \<longrightarrow> \<not> tb_contains (d_tombstones d) i
         \<and> p_bytes p \<le> 2097152 \<and> p_chunks p \<le> 4096 \<and> unat (p_next_sequence p) = p_chunks p)
    \<and> (\<forall>f \<in> set (d_out d). validate_frame (e_enc E) (e_dec E) f = Inr ())"
  using driver_ok_reachable [OF assms]
  by (simp add: driver_ok_def pending_ok_def tombstones_ok_def tb_contains_def max_pending_def
      max_response_bytes_def max_response_chunks_def tombstone_limit_def event_capacity_def)

definition demo_token :: string where
  "demo_token = ''bbbbbbbbbbbbbbbbbbbbbbbbbbbbbbbb''"

definition demo_env :: env where
  "demo_env = \<lparr>e_json = compact_json, e_enc = rfc_encode, e_dec = rfc_decode, e_sends = (\<lambda>_. True)\<rparr>"

text \<open>A request without headers and body is short.\<close>

lemma demo_request_short:
  "length (compact_json (wire_entries (Request ''a'' ''/connector-info'' ''GET'' [] []))) \<le> max_wire_bytes"
  by (simp add: compact_json_def json_object_def json_member_def json_key_length max_wire_bytes_def
      decimal.simps)

definition demo_start :: driver where
  "demo_start = \<lparr>d_port = 8080, d_authorization = bearer_prefix @ demo_token, d_pending = [],
     d_tombstones = new_tombstones, d_next_tag = 1, d_tasks = [], d_events = [], d_out = [],
     d_result = None\<rparr>"

lemma is_token_b: "is_token_byte (CHR ''b'')"
  by (simp add: is_token_byte_def is_alphanumeric_def)

lemma demo_starts: "run_peer 8080 demo_token True = Inr demo_start"
  by (simp add: run_peer_def valid_id_def demo_token_def demo_start_def is_token_b)

lemma peer_stays_in_bounds_witness: "length (d_pending demo_start) \<le> 8"
  using peer_stays_in_bounds [OF demo_starts rtranclp.rtrancl_refl] by (rule conjunct1)

end
