(* ===== verification/Reverse_Peer_Tasks.thy ===== *)
theory Reverse_Peer_Tasks
  imports Reverse_Peer_Bounds
begin

text \<open>
  The tasks a session spawns: their tags, their ids, and the authorization of the requests they put
  to the local server.
\<close>

section \<open>The tasks of a session\<close>

subsection \<open>What stays fixed\<close>

text \<open>What no operation but the spawn of a request changes: who the tasks are, the port and the
  authorization.\<close>

definition fixed_part :: "driver \<Rightarrow> (u64 \<times> string \<times> local_request) list \<times> u16 \<times> string \<times> u64" where
  "fixed_part d = (map (\<lambda>t. (t_tag t, t_id t, t_request t)) (d_tasks d), d_port d, d_authorization d,
     d_next_tag d)"

lemma fixed_send: "send_frame E f d = (d', r) \<Longrightarrow> fixed_part d' = fixed_part d"
  by (erule send_frame_cases) (simp_all add: fixed_part_def)

lemma fixed_update_task:
  "(\<And>t. t_tag (f t) = t_tag t \<and> t_id (f t) = t_id t \<and> t_request (f t) = t_request t)
   \<Longrightarrow> fixed_part (update_task k f d) = fixed_part d"
  by (cases "k < length (d_tasks d)")
    (simp_all add: fixed_part_def map_update list_update_same_conv list_update_beyond)

lemma fixed_simps [simp]:
  "fixed_part (set_pending i p d) = fixed_part d"
  "fixed_part (d\<lparr>d_tombstones := x\<rparr>) = fixed_part d" "fixed_part (d\<lparr>d_result := y\<rparr>) = fixed_part d"
  "fixed_part (d\<lparr>d_events := z\<rparr>) = fixed_part d" "fixed_part (d\<lparr>d_pending := w\<rparr>) = fixed_part d"
  "fixed_part (update_task k abort_task d) = fixed_part d"
  by (simp_all add: fixed_part_def set_pending_def update_task_def map_update list_update_same_conv)
    (metis (no_types, lifting) abort_task_def list_update_beyond list_update_id map_update not_less
      nth_map task.select_convs task.surjective task.update_convs)

lemma fixed_retire [simp]: "fixed_part (retire i e d) = fixed_part d"
proof -
  have "fixed_part ((update_task k abort_task d)\<lparr>d_pending := x, d_tombstones := y\<rparr>) = fixed_part d" for k x y
    by (metis fixed_simps(2,5,6))
  then show ?thesis by (simp add: retire_def split: option.split)
qed

lemma fixed_set_phase [simp]: "fixed_part (set_phase i tag ph d) = fixed_part d"
  by (simp add: set_phase_def split: option.split)

lemma fixed_fail: "fail_request E i tag d = (d', r) \<Longrightarrow> fixed_part d' = fixed_part d"
  unfolding fail_request_def by (drule fixed_send) simp

lemma fixed_and_then:
  assumes "and_then x k = (d', r)" "\<And>d1 r. x = (d1, r) \<Longrightarrow> fixed_part d1 = fixed_part d"
    "\<And>d1 d' r. k d1 = (d', r) \<Longrightarrow> fixed_part d' = fixed_part d1"
  shows "fixed_part d' = fixed_part d"
  using assms by (cases x; cases "snd x") auto

lemma fixed_handle_event:
  assumes "handle_event E ev d = (d', r)"
  shows "fixed_part d' = fixed_part d"
proof (cases ev)
  case (EvHeaders tag i status hs allowed)
  have k: "fixed_part d' = fixed_part d1" if
    "(if allowed then (set_phase i tag WaitingCredit d1, Inr ())
      else and_then (send_frame E (End i) (set_phase i tag NoBody d1)) (\<lambda>d.
             (retire i (Some tag) d, Inr ()))) = (d', r)" for d1 d' and r :: relay_result
  proof (cases allowed)
    case False
    with that have "and_then (send_frame E (End i) (set_phase i tag NoBody d1)) (\<lambda>d.
             (retire i (Some tag) d, Inr ())) = (d', r)" by simp
    then show ?thesis by (rule fixed_and_then) (auto dest: fixed_send)
  qed (use that in auto)
  show ?thesis
  proof (cases "fst (handle_event E ev d) = d")
    case False
    then have "and_then (send_frame E (Response i status hs) d) (\<lambda>d.
        if allowed then (set_phase i tag WaitingCredit d, Inr ())
        else and_then (send_frame E (End i) (set_phase i tag NoBody d)) (\<lambda>d.
             (retire i (Some tag) d, Inr ()))) = (d', r)"
      using assms EvHeaders by (auto simp: handle_headers_def split: option.splits if_splits)
    then show ?thesis by (rule fixed_and_then) (erule fixed_send, erule k)
  qed (use assms in auto)
next
  case (EvChunk tag i n bs)
  with assms have "handle_chunk E tag i n bs d = (d', r)" by simp
  from handle_chunk_cases [OF this] show ?thesis
    by (elim disjE exE conjE) (auto dest: fixed_fail fixed_send)
next
  case (EvEnd tag i)
  have "fixed_part d' = fixed_part d" if "and_then (send_frame E (End i) d) (\<lambda>d. (retire i (Some tag) d, Inr ())) = (d', r)"
    using that by (rule fixed_and_then) (auto dest: fixed_send)
  with assms EvEnd show ?thesis
    by (auto simp: handle_end_def split: option.splits if_splits dest: fixed_fail)
next
  case (EvFailure tag i)
  with assms show ?thesis by (auto simp: handle_failure_def split: if_splits dest: fixed_fail)
qed

text \<open>The frames that pass the check at the head of \<open>handle_request\<close>.\<close>

definition authorizes :: "string \<Rightarrow> string \<Rightarrow> string \<Rightarrow> header_map \<Rightarrow> bool" where
  "authorizes auth path method headers \<longleftrightarrow> map_of headers ''authorization'' = Some auth
     \<or> path = ''/connector-info'' \<and> method = ''GET'' \<and> map_of headers ''authorization'' = None"

lemma fixed_handle_input:
  assumes "handle_input E f d = (d', r)"
  shows "fixed_part d' = fixed_part d
    \<or> (\<exists>i path verb hs body bs. f = Request i path verb hs body
        \<and> validate_frame (e_enc E) (e_dec E) f = Inr ()
        \<and> authorizes (d_authorization d) path verb hs
        \<and> get_pending d i = None \<and> \<not> tb_contains (d_tombstones d) i
        \<and> decode_body (e_enc E) (e_dec E) body = Inr bs
        \<and> d' = spawn_request i path verb hs bs d \<and> r = Inr ())"
proof (cases "validate_frame_shape E f")
  case (Inr u)
  then have v: "validate_frame (e_enc E) (e_dec E) f = Inr ()"
    by (auto simp: validate_frame_shape_def encode_frame_def split: sum.splits)
  show ?thesis
  proof (cases f)
    case (Request i path verb hs body)
    with assms Inr have h: "handle_request E i path verb hs body d = (d', r)"
      by (simp add: handle_input_def)
    show ?thesis
    proof (cases "\<exists>bs. d' = spawn_request i path verb hs bs d
        \<and> decode_body (e_enc E) (e_dec E) body = Inr bs \<and> r = Inr ()
        \<and> get_pending d i = None \<and> \<not> tb_contains (d_tombstones d) i
        \<and> authorizes (d_authorization d) path verb hs")
      case True
      with v Request show ?thesis by blast
    next
      case False
      with h have "fixed_part d' = fixed_part d"
        by (auto simp: handle_request_def authorizes_def Let_def split: if_splits sum.splits dest: fixed_send)
      then show ?thesis ..
    qed
  next
    case (Credit i n)
    with assms Inr have "handle_credit i n d = (d', r)" by (simp add: handle_input_def)
    then have "fixed_part d' = fixed_part d"
      by (auto simp: handle_credit_def Let_def fixed_update_task split: if_splits option.splits)
    then show ?thesis ..
  qed (use assms Inr in \<open>auto simp: handle_input_def handle_cancel_def split: if_splits\<close>)
qed (use assms in \<open>auto simp: handle_input_def\<close>)

subsection \<open>Tags and authorization\<close>

definition authorized :: "u16 \<Rightarrow> string \<Rightarrow> local_request \<Rightarrow> bool" where
  "authorized port auth rq \<longleftrightarrow> map_of (lr_headers rq) ''authorization'' = Some auth
     \<or> lr_url rq = local_url port ''/connector-info'' \<and> lr_method rq = ''GET''
        \<and> map_of (lr_headers rq) ''authorization'' = None"

text \<open>The n-th task has tag n, as long as the tags have not wrapped around.\<close>

definition tasks_ok :: "u16 \<Rightarrow> string \<Rightarrow> driver \<Rightarrow> bool" where
  "tasks_ok port auth d \<longleftrightarrow> d_port d = port \<and> d_authorization d = auth
     \<and> (Suc (length (d_tasks d)) < 2 ^ 64 \<longrightarrow> d_next_tag d = of_nat (Suc (length (d_tasks d))))
     \<and> (\<forall>k < length (d_tasks d). let t = d_tasks d ! k in
           (Suc k < 2 ^ 64 \<longrightarrow> t_tag t = of_nat (Suc k)) \<and> validate_id (t_id t)
           \<and> authorized port auth (t_request t)
           \<and> lr_method (t_request t) \<in> {''GET'', ''POST'', ''DELETE''}
           \<and> (lr_url (t_request t) = local_url port ''/mcp''
               \<or> lr_url (t_request t) = local_url port ''/connector-info'' \<and> lr_method (t_request t) = ''GET''))"

lemma tasks_ok_cong:
  assumes "fixed_part d' = fixed_part d"
  shows "tasks_ok port auth d' = tasks_ok port auth d"
proof -
  have l: "length (d_tasks d') = length (d_tasks d)"
    using assms by (auto simp: fixed_part_def dest: map_eq_imp_length_eq)
  have "t_tag (d_tasks d' ! k) = t_tag (d_tasks d ! k) \<and> t_id (d_tasks d' ! k) = t_id (d_tasks d ! k)
      \<and> t_request (d_tasks d' ! k) = t_request (d_tasks d ! k)" if "k < length (d_tasks d)" for k
  proof -
    have "map (\<lambda>t. (t_tag t, t_id t, t_request t)) (d_tasks d') ! k
        = map (\<lambda>t. (t_tag t, t_id t, t_request t)) (d_tasks d) ! k"
      using assms by (simp add: fixed_part_def)
    with that l show ?thesis by simp
  qed
  with assms l show ?thesis by (auto simp: tasks_ok_def fixed_part_def Let_def)
qed

lemma tasks_ok_simps [simp]:
  "tasks_ok port auth (d\<lparr>d_result := x\<rparr>) = tasks_ok port auth d"
  "tasks_ok port auth (d\<lparr>d_events := y\<rparr>) = tasks_ok port auth d"
  by (rule tasks_ok_cong, simp)+

lemma next_token_of_nat:
  assumes "Suc (Suc n) < 2 ^ 64"
  shows "next_token (of_nat (Suc n)) = of_nat (Suc (Suc n))"
proof -
  have "unat (of_nat (Suc (Suc n)) :: u64) = Suc (Suc n)"
    using assms by (simp add: unat_of_nat take_bit_nat_eq_self del: of_nat_Suc)
  then have "(of_nat (Suc (Suc n)) :: u64) \<noteq> 0" by (metis nat.distinct(1) unat_0)
  then show ?thesis by (simp add: next_token_def Let_def add.commute)
qed

lemma tasks_ok_spawn:
  assumes ok: "tasks_ok port auth d"
    and v: "validate_frame enc dec (Request i path method headers body) = Inr ()"
    and a: "authorizes (d_authorization d) path method headers"
  shows "tasks_ok port auth (spawn_request i path method headers bs d)"
proof -
  have "validate_id i" "path = ''/mcp'' \<or> path = ''/connector-info''"
    "method \<in> {''GET'', ''POST'', ''DELETE''}" "path = ''/connector-info'' \<longrightarrow> method = ''GET''"
    using v unfolding validate_request_iff by blast+
  moreover have "Suc (Suc (length (d_tasks d))) < 2 ^ 64 \<Longrightarrow>
      next_token (d_next_tag d) = of_nat (Suc (Suc (length (d_tasks d))))"
    using ok next_token_of_nat [of "length (d_tasks d)"] by (simp add: tasks_ok_def)
  ultimately show ?thesis
    using ok a by (auto simp: tasks_ok_def spawn_request_def Let_def nth_append less_Suc_eq authorized_def
        authorizes_def)
qed

lemma task_respond_fixed [simp]:
  "t_tag (task_respond a t) = t_tag t" "t_id (task_respond a t) = t_id t"
  "t_request (task_respond a t) = t_request t" "t_commands (task_respond a t) = t_commands t"
  "t_aborted (task_respond a t) = t_aborted t"
  by (simp_all add: task_respond_def split: option.split)

lemma tasks_ok_step: "peer_step E d d' \<Longrightarrow> tasks_ok port auth d \<Longrightarrow> tasks_ok port auth d'"
proof (induction rule: peer_step.induct)
  case (frame_in d f)
  obtain d1 r where h: "handle_input E f d = (d1, r)" by fastforce
  have "tasks_ok port auth d1"
    using fixed_handle_input [OF h]
  proof (elim disjE exE conjE)
    assume same: "fixed_part d1 = fixed_part d"
    from frame_in.prems show ?thesis unfolding tasks_ok_cong [OF same] .
  next
    fix i path verb hs body bs
    assume "f = Request i path verb hs body" "validate_frame (e_enc E) (e_dec E) f = Inr ()"
      and a: "authorizes (d_authorization d) path verb hs"
      and d1: "d1 = spawn_request i path verb hs bs d"
    then have "validate_frame (e_enc E) (e_dec E) (Request i path verb hs body) = Inr ()"
      by (simp only:)
    from tasks_ok_spawn [OF frame_in.prems this a] show ?thesis unfolding d1 .
  qed
  with h show ?case by (simp add: settle_result_eq split: sum.split)
next
  case (event_in d ev evs)
  obtain d1 r where h: "handle_event E ev (d\<lparr>d_events := evs\<rparr>) = (d1, r)" by fastforce
  have "tasks_ok port auth d1"
    using event_in.prems unfolding tasks_ok_cong [OF fixed_handle_event [OF h]] by simp
  with h show ?case by (simp add: settle_result_eq split: sum.split)
next
  case (emit d k ev st)
  then show ?case
    using tasks_ok_cong [OF fixed_update_task, of "\<lambda>t. t\<lparr>t_state := st\<rparr>" port auth k d] by simp
qed (simp_all add: tasks_ok_cong [OF fixed_update_task])

interpretation peer_tasks: invariant_machine "peer_step E" "tasks_ok port auth" for E port auth
  by unfold_locales (rule tasks_ok_step)

lemma tasks_ok_start:
  "run_peer port token built = Inr d \<Longrightarrow> tasks_ok port (bearer_prefix @ token) d"
  by (auto dest!: run_peer_start(1) simp: tasks_ok_def)

lemma tasks_ok_reachable:
  "run_peer port token built = Inr d0 \<Longrightarrow> (peer_step E)\<^sup>*\<^sup>* d0 d \<Longrightarrow> tasks_ok port (bearer_prefix @ token) d"
  using peer_tasks.inv_reach tasks_ok_start by blast

text \<open>C31 (safety): every request a session ever puts to the local server carries exactly the
  authorization the session was started with, or is the anonymous probe
  \<open>GET /connector-info\<close>; it goes to one of the two fixed paths on the loopback port. A
  request frame that is neither changes nothing and is answered by \<open>Unauthorized\<close>, or by \<open>InvalidInput\<close>
  when the protocol refuses the frame.\<close>

theorem only_authorized_requests_run:
  assumes "run_peer port token built = Inr d0" and "(peer_step E)\<^sup>*\<^sup>* d0 d"
  shows "(\<forall>t \<in> set (d_tasks d).
      (map_of (lr_headers (t_request t)) ''authorization'' = Some (''Bearer '' @ token)
        \<or> lr_url (t_request t) = local_url port ''/connector-info'' \<and> lr_method (t_request t) = ''GET''
          \<and> map_of (lr_headers (t_request t)) ''authorization'' = None)
      \<and> (lr_url (t_request t) = local_url port ''/mcp'' \<or> lr_url (t_request t) = local_url port ''/connector-info''))
    \<and> (\<forall>i path method headers body.
        map_of headers ''authorization'' \<noteq> Some (''Bearer '' @ token)
        \<and> \<not> (path = ''/connector-info'' \<and> method = ''GET'' \<and> map_of headers ''authorization'' = None)
        \<longrightarrow> handle_request E i path method headers body d = (d, Inl Unauthorized)
          \<and> handle_input E (Request i path method headers body) d
            = (d, Inl (if validate_frame_shape E (Request i path method headers body) = Inr ()
                       then Unauthorized else InvalidInput)))"
proof
  have ok: "tasks_ok port (bearer_prefix @ token) d" using assms by (rule tasks_ok_reachable)
  then show "\<forall>t \<in> set (d_tasks d).
      (map_of (lr_headers (t_request t)) ''authorization'' = Some (''Bearer '' @ token)
        \<or> lr_url (t_request t) = local_url port ''/connector-info'' \<and> lr_method (t_request t) = ''GET''
          \<and> map_of (lr_headers (t_request t)) ''authorization'' = None)
      \<and> (lr_url (t_request t) = local_url port ''/mcp'' \<or> lr_url (t_request t) = local_url port ''/connector-info'')"
    by (fastforce simp: tasks_ok_def Let_def authorized_def bearer_prefix_def in_set_conv_nth)
  from ok have "d_authorization d = ''Bearer '' @ token" by (simp add: tasks_ok_def bearer_prefix_def)
  then show "\<forall>i path method headers body.
        map_of headers ''authorization'' \<noteq> Some (''Bearer '' @ token)
        \<and> \<not> (path = ''/connector-info'' \<and> method = ''GET'' \<and> map_of headers ''authorization'' = None)
        \<longrightarrow> handle_request E i path method headers body d = (d, Inl Unauthorized)
          \<and> handle_input E (Request i path method headers body) d
            = (d, Inl (if validate_frame_shape E (Request i path method headers body) = Inr ()
                       then Unauthorized else InvalidInput))"
    by (simp add: handle_request_def handle_input_def validate_frame_shape_def Let_def split: sum.split)
qed

lemma only_authorized_requests_run_witness:
  "handle_request demo_env ''a'' ''/mcp'' ''GET'' [] [] demo_start = (demo_start, Inl Unauthorized)"
  using only_authorized_requests_run [OF demo_starts rtranclp.rtrancl_refl, of demo_env] by simp

end
