(* ===== verification/Reverse_Peer_Streams.thy ===== *)
theory Reverse_Peer_Streams
  imports Reverse_Peer_Tasks
begin

text \<open>
  The abstract protocol of a stream, as the relay sees one id, and the proof that the driver refines
  it for every id at once.
\<close>

section \<open>The protocol of a stream\<close>

subsection \<open>The abstract stream of an id\<close>

text \<open>What the relay sees of one id: no request, a request without its response, a response without
  a body about to end, or a body that waits for its n-th credit or answers it.\<close>

datatype stream = Idle | Opened | Closing | Await u64 | Flowing u64

datatype label = Received frame | Sent frame

inductive stream_step :: "stream \<Rightarrow> label \<Rightarrow> stream \<Rightarrow> bool" where
  request: "stream_step Idle (Received (Request i path verb hs body)) Opened"
| late: "f = Credit i n \<or> f = Cancel i \<Longrightarrow> stream_step Idle (Received f) Idle"
| response: "stream_step Opened (Sent (Response i status hs)) (Await 0)"
| response_only: "stream_step Opened (Sent (Response i status hs)) Closing"
| closed: "stream_step Closing (Sent (End i)) Idle"
| credit: "stream_step (Await n) (Received (Credit i n)) (Flowing n)"
| chunk: "stream_step (Flowing n) (Sent (Chunk i n body)) (Await (n + 1))"
| finished: "stream_step (Flowing n) (Sent (End i)) Idle"
| cancelled: "s \<noteq> Idle \<Longrightarrow> stream_step s (Received (Cancel i)) Idle"
| aborted: "s \<noteq> Idle \<Longrightarrow> stream_step s (Sent (Cancel i)) Idle"

inductive stream_run :: "stream \<Rightarrow> label list \<Rightarrow> stream \<Rightarrow> bool" where
  stop: "stream_run s [] s"
| go: "stream_step s l t \<Longrightarrow> stream_run t ls u \<Longrightarrow> stream_run s (l # ls) u"

inductive_simps stream_run_Nil [simp]: "stream_run s [] t"

fun label_id :: "label \<Rightarrow> string" where
  "label_id (Received f) = frame_id f"
| "label_id (Sent f) = frame_id f"

definition stream_of :: "pending option \<Rightarrow> stream" where
  "stream_of x = (case x of
      None \<Rightarrow> Idle
    | Some p \<Rightarrow> (case p_phase p of
         AwaitingHeaders \<Rightarrow> Opened
       | WaitingCredit \<Rightarrow> Await (p_next_sequence p)
       | CreditInFlight \<Rightarrow> Flowing (p_next_sequence p)
       | NoBody \<Rightarrow> Closing))"

definition stream_at :: "driver \<Rightarrow> string \<Rightarrow> stream" where
  "stream_at d i = stream_of (get_pending d i)"

text \<open>A successful call that received \<open>ls\<close> and sent the frames it appended moves the stream of
  every id by the labels that bear the id.\<close>

definition simulates :: "label list \<Rightarrow> driver \<Rightarrow> driver \<Rightarrow> bool" where
  "simulates ls d d' \<longleftrightarrow> (\<exists>fs. d_out d' = d_out d @ fs
     \<and> (\<forall>i. stream_run (stream_at d i) (filter (\<lambda>l. label_id l = i) (ls @ map Sent fs)) (stream_at d' i)))"

lemma simulatesI:
  assumes "d_out d' = d_out d @ fs"
    and "\<And>i. i \<noteq> j \<Longrightarrow> get_pending d' i = get_pending d i"
    and "\<And>l. l \<in> set (ls @ map Sent fs) \<Longrightarrow> label_id l = j"
    and "stream_run (stream_at d j) (ls @ map Sent fs) (stream_at d' j)"
  shows "simulates ls d d'"
proof -
  have all: "filter (\<lambda>l. label_id l = j) (ls @ map Sent fs) = ls @ map Sent fs"
    using assms(3) by (simp only: filter_id_conv) blast
  have none: "filter (\<lambda>l. label_id l = i) (ls @ map Sent fs) = []" if "i \<noteq> j" for i
    using assms(3) that by (simp only: filter_empty_conv) blast
  have "stream_run (stream_at d i) (filter (\<lambda>l. label_id l = i) (ls @ map Sent fs)) (stream_at d' i)" for i
  proof (cases "i = j")
    case True
    then show ?thesis using assms(4) all by (simp only:)
  next
    case False
    then show ?thesis using assms(2) none [OF False] by (simp add: stream_at_def)
  qed
  with assms(1) show ?thesis unfolding simulates_def by blast
qed

lemma simulates_refl: "simulates [] d d"
  by (auto simp: simulates_def)

lemma run_one: "stream_step s l t \<Longrightarrow> stream_run s [l] t"
  by (rule stream_run.go [OF _ stream_run.stop])

lemma run_two: "stream_step s l t \<Longrightarrow> stream_step t l' u \<Longrightarrow> stream_run s [l, l'] u"
  by (rule stream_run.go [OF _ run_one])

lemma send_frame_ok: "send_frame E f d = (d', Inr u) \<longleftrightarrow>
    (\<exists>t. encode_frame (e_json E) (e_enc E) (e_dec E) f = Inr t) \<and> e_sends E (length (d_out d))
    \<and> d' = d\<lparr>d_out := d_out d @ [f]\<rparr>"
  by (auto simp: send_frame_def split: sum.split)

subsection \<open>Frames that arrive\<close>

lemma handle_request_simulates:
  assumes "handle_request E i path verb hs body d = (d', Inr ())"
  shows "simulates [Received (Request i path verb hs body)] d d'"
proof -
  let ?req = "Received (Request i path verb hs body)"
  have p: "get_pending d i = None"
    using assms by (auto simp: handle_request_def Let_def split: if_splits)
  then have s: "stream_step (stream_at d i) ?req Opened"
    by (simp add: stream_at_def stream_of_def stream_step.request)
  show ?thesis
  proof (cases "d_out d' = d_out d")
    case True
    then obtain bs where d': "d' = spawn_request i path verb hs bs d"
      using assms by (auto simp: handle_request_def Let_def send_frame_ok split: if_splits sum.splits)
    show ?thesis
    proof (rule simulatesI [of _ _ "[]" i])
      show "stream_run (stream_at d i) ([?req] @ map Sent []) (stream_at d' i)"
        using run_one [OF s]
        by (simp add: d' spawn_request_def Let_def stream_at_def get_pending_def update_conv' stream_of_def)
    qed (auto simp: d' spawn_request_def Let_def get_pending_def update_conv')
  next
    case False
    then have d': "d' = d\<lparr>d_tombstones := tb_insert i (d_tombstones d), d_out := d_out d @ [Cancel i]\<rparr>"
      using assms by (auto simp: handle_request_def Let_def send_frame_ok spawn_request_def
          split: if_splits sum.splits)
    show ?thesis
    proof (rule simulatesI [of _ _ "[Cancel i]" i])
      have "stream_at d' i = Idle" using p by (simp add: d' stream_at_def stream_of_def)
      then show "stream_run (stream_at d i) ([?req] @ map Sent [Cancel i]) (stream_at d' i)"
        using run_two [OF s stream_step.aborted [of Opened i]] by simp
    qed (auto simp: d')
  qed
qed

lemma handle_credit_simulates:
  assumes "handle_credit i n d = (d', Inr ())"
  shows "simulates [Received (Credit i n)] d d'"
proof (cases "get_pending d i")
  case None
  with assms have "d' = d" by (auto simp: handle_credit_def split: if_splits)
  moreover have "stream_step (stream_at d i) (Received (Credit i n)) (stream_at d i)"
    using None by (auto simp: stream_at_def stream_of_def intro: stream_step.late)
  ultimately show ?thesis
    by (intro simulatesI [of _ _ "[]" i]) (auto intro: run_one)
next
  case (Some p)
  with assms have d': "d' = set_pending i (p\<lparr>p_phase := CreditInFlight\<rparr>)
        (update_task (p_task p) (\<lambda>t. t\<lparr>t_commands := t_commands t @ [n]\<rparr>) d)"
    and p: "p_phase p = WaitingCredit" "p_next_sequence p = n"
    by (auto simp: handle_credit_def Let_def split: if_splits)
  show ?thesis
  proof (rule simulatesI [of _ _ "[]" i])
    show "stream_run (stream_at d i) ([Received (Credit i n)] @ map Sent []) (stream_at d' i)"
      using Some p run_one [OF stream_step.credit [of n i]]
      by (simp add: d' stream_at_def stream_of_def)
  qed (auto simp: d')
qed

lemma retire_stream: "retires i e d \<Longrightarrow> stream_at (retire i e d) i = Idle"
  by (simp add: stream_at_def stream_of_def get_pending_retire)

lemma pending_not_idle: "get_pending d i = Some p \<Longrightarrow> stream_at d i \<noteq> Idle"
  by (simp add: stream_at_def stream_of_def split: stream_phase.split)

lemma handle_cancel_simulates:
  assumes "handle_cancel i d = (d', Inr ())"
  shows "simulates [Received (Cancel i)] d d'"
proof (cases "get_pending d i")
  case None
  with assms have "d' = d" by (auto simp: handle_cancel_def split: if_splits)
  moreover have "stream_step (stream_at d i) (Received (Cancel i)) (stream_at d i)"
    using None by (auto simp: stream_at_def stream_of_def intro: stream_step.late)
  ultimately show ?thesis
    by (intro simulatesI [of _ _ "[]" i]) (auto intro: run_one)
next
  case (Some p)
  then have r: "retires i None d" by (simp add: retires_def)
  have d': "d' = retire i None d" using assms Some by (simp add: handle_cancel_def)
  show ?thesis
  proof (rule simulatesI [of _ _ "[]" i])
    show "stream_run (stream_at d i) ([Received (Cancel i)] @ map Sent []) (stream_at d' i)"
      using run_one [OF stream_step.cancelled [OF pending_not_idle [OF Some], of i]]
      by (simp add: d' retire_stream [OF r])
  qed (auto simp: d' get_pending_retire)
qed

lemma handle_input_simulates:
  assumes "handle_input E f d = (d', Inr ())"
  shows "simulates [Received f] d d'"
  using assms
  by (cases f) (auto simp: handle_input_def split: sum.splits
      intro: handle_request_simulates handle_credit_simulates handle_cancel_simulates)

subsection \<open>Events of the tasks\<close>

lemma fail_request_simulates:
  assumes "fail_request E i tag d = (d', Inr ())" "get_pending d i = Some p" "p_tag p = tag"
  shows "simulates [] d d'"
proof -
  have r: "retires i (Some tag) d" using assms(2,3) by (simp add: retires_def)
  have d': "d' = (retire i (Some tag) d)\<lparr>d_out := d_out d @ [Cancel i]\<rparr>"
    using assms(1) by (simp add: fail_request_def send_frame_ok)
  show ?thesis
  proof (rule simulatesI [of _ _ "[Cancel i]" i])
    show "stream_run (stream_at d i) ([] @ map Sent [Cancel i]) (stream_at d' i)"
      using run_one [OF stream_step.aborted [OF pending_not_idle [OF assms(2)], of i]] retire_stream [OF r]
      by (simp add: d' stream_at_def)
  qed (auto simp: d' get_pending_retire)
qed

text \<open>What a successful call left, when its tag is that of the pending request.\<close>

lemma handle_headers_shape:
  assumes "handle_headers E tag i status hs allowed d = (d', Inr ())"
    and p: "get_pending d i = Some p" "p_tag p = tag"
  shows "p_phase p = AwaitingHeaders \<and> d' =
    (if allowed
     then set_pending i (p\<lparr>p_phase := WaitingCredit\<rparr>) (d\<lparr>d_out := d_out d @ [Response i status hs]\<rparr>)
     else retire i (Some tag) ((set_pending i (p\<lparr>p_phase := NoBody\<rparr>) d)
            \<lparr>d_out := d_out d @ [Response i status hs] @ [End i]\<rparr>))"
proof -
  let ?d1 = "d\<lparr>d_out := d_out d @ [Response i status hs]\<rparr>"
  have ph: "p_phase p = AwaitingHeaders" using assms by (auto simp: handle_headers_def split: if_splits)
  obtain d1 r where s: "send_frame E (Response i status hs) d = (d1, r)" by fastforce
  then have r: "r = Inr ()" using assms ph by (cases r) (auto simp: handle_headers_def)
  with s have d1: "d1 = ?d1" by (simp add: send_frame_ok)
  show ?thesis
  proof (cases allowed)
    case True
    with assms ph s r d1 show ?thesis by (simp add: handle_headers_def set_phase_def)
  next
    case False
    let ?d2 = "set_pending i (p\<lparr>p_phase := NoBody\<rparr>) ?d1"
    have "and_then (send_frame E (End i) ?d2) (\<lambda>d. (retire i (Some tag) d, Inr ())) = (d', Inr ())"
      using assms ph s r d1 False by (simp add: handle_headers_def set_phase_def)
    then have "d' = retire i (Some tag) (?d2\<lparr>d_out := d_out d @ [Response i status hs] @ [End i]\<rparr>)"
      by (cases "send_frame E (End i) ?d2"; cases "snd (send_frame E (End i) ?d2)")
        (auto simp: send_frame_ok)
    with ph False show ?thesis by (simp add: set_pending_def)
  qed
qed

lemma handle_end_shape:
  assumes "handle_end E tag i d = (d', Inr ())"
    and p: "get_pending d i = Some p" "p_tag p = tag" "p_phase p = CreditInFlight"
  shows "d' = retire i (Some tag) (d\<lparr>d_out := d_out d @ [End i]\<rparr>)"
proof -
  have "and_then (send_frame E (End i) d) (\<lambda>d. (retire i (Some tag) d, Inr ())) = (d', Inr ())"
    using assms by (simp add: handle_end_def)
  then show ?thesis
    by (cases "send_frame E (End i) d"; cases "snd (send_frame E (End i) d)") (auto simp: send_frame_ok)
qed

lemma fail_request_shape:
  assumes "fail_request E i tag d = (d', Inr ())"
  shows "d' = (retire i (Some tag) d)\<lparr>d_out := d_out d @ [Cancel i]\<rparr>"
  using assms by (simp add: fail_request_def send_frame_ok)

lemma handle_headers_simulates:
  assumes ok: "driver_ok E0 d" and h: "handle_headers E tag i status hs allowed d = (d', Inr ())"
  shows "simulates [] d d'"
proof (cases "is_some_and (\<lambda>p. p_tag p = tag) (get_pending d i)")
  case True
  then obtain p where p: "get_pending d i = Some p" "p_tag p = tag" by (auto simp: is_some_and_iff)
  note shape = handle_headers_shape [OF h p]
  have n: "p_next_sequence p = 0"
    using ok p shape by (simp add: driver_ok_def pending_ok_def) (metis unat_eq_zero)
  have o: "stream_at d i = Opened" using p shape by (simp add: stream_at_def stream_of_def)
  show ?thesis
  proof (cases allowed)
    case True
    with shape have d': "d' = set_pending i (p\<lparr>p_phase := WaitingCredit\<rparr>)
        (d\<lparr>d_out := d_out d @ [Response i status hs]\<rparr>)" by simp
    show ?thesis
    proof (rule simulatesI [of _ _ "[Response i status hs]" i])
      show "stream_run (stream_at d i) ([] @ map Sent [Response i status hs]) (stream_at d' i)"
        using run_one [OF stream_step.response]
        by (simp add: o) (simp add: d' stream_at_def stream_of_def n)
    qed (auto simp: d')
  next
    case False
    let ?d2 = "(set_pending i (p\<lparr>p_phase := NoBody\<rparr>) d)\<lparr>d_out := d_out d @ [Response i status hs, End i]\<rparr>"
    have d': "d' = retire i (Some tag) ?d2" using False shape by simp
    have r2: "retires i (Some tag) ?d2" using p by (simp add: retires_def)
    show ?thesis
    proof (rule simulatesI [of _ _ "[Response i status hs, End i]" i])
      show "stream_run (stream_at d i) ([] @ map Sent [Response i status hs, End i]) (stream_at d' i)"
        using run_two [OF stream_step.response_only stream_step.closed] retire_stream [OF r2]
        by (simp add: o d')
    qed (auto simp: d' get_pending_retire)
  qed
next
  case False
  with h have "d' = d" by (auto simp: handle_headers_def split: option.splits if_splits)
  then show ?thesis by (simp add: simulates_refl)
qed

lemma handle_chunk_simulates:
  assumes "handle_chunk E tag i n bs d = (d', Inr ())"
  shows "simulates [] d d'"
  using handle_chunk_cases [OF assms]
proof (elim disjE exE conjE)
  fix p
  assume p: "get_pending d i = Some p" and f: "chunk_fits p n bs"
    and d': "d' = set_pending i (count_chunk bs p) (d\<lparr>d_out := d_out d @ [Chunk i n (e_enc E bs)]\<rparr>)"
  show ?thesis
  proof (rule simulatesI [of _ _ "[Chunk i n (e_enc E bs)]" i])
    show "stream_run (stream_at d i) ([] @ map Sent [Chunk i n (e_enc E bs)]) (stream_at d' i)"
      using run_one [OF stream_step.chunk [of n i "e_enc E bs"]] p f
      by (simp add: d' stream_at_def stream_of_def chunk_fits_def count_chunk_def)
  qed (auto simp: d')
qed (use fail_request_simulates simulates_refl in auto)

lemma handle_end_simulates:
  assumes "handle_end E tag i d = (d', Inr ())"
  shows "simulates [] d d'"
proof (cases "is_some_and (\<lambda>p. p_tag p = tag \<and> p_phase p = CreditInFlight) (get_pending d i)")
  case True
  then obtain p where p: "get_pending d i = Some p" "p_tag p = tag" "p_phase p = CreditInFlight"
    by (auto simp: is_some_and_iff)
  let ?d1 = "d\<lparr>d_out := d_out d @ [End i]\<rparr>"
  have d': "d' = retire i (Some tag) ?d1" by (rule handle_end_shape [OF assms p])
  have r: "retires i (Some tag) ?d1" using p by (simp add: retires_def)
  show ?thesis
  proof (rule simulatesI [of _ _ "[End i]" i])
    show "stream_run (stream_at d i) ([] @ map Sent [End i]) (stream_at d' i)"
      using run_one [OF stream_step.finished] retire_stream [OF r] p
      by (simp add: d') (simp add: stream_at_def stream_of_def)
  qed (auto simp: d' get_pending_retire)
next
  case False
  with assms consider "d' = d" | p where "get_pending d i = Some p" "p_tag p = tag"
      "fail_request E i tag d = (d', Inr ())"
    by (auto simp: handle_end_def split: option.splits if_splits)
  then show ?thesis by cases (auto simp: simulates_refl intro: fail_request_simulates)
qed

lemma handle_event_simulates:
  assumes "driver_ok E0 d" "handle_event E ev d = (d', Inr ())"
  shows "simulates [] d d'"
proof (cases ev)
  case (EvFailure tag i)
  with assms show ?thesis
    by (auto simp: handle_failure_def is_some_and_iff simulates_refl split: if_splits
        intro: fail_request_simulates)
qed (use assms in \<open>auto intro: handle_headers_simulates [OF assms(1)] handle_chunk_simulates handle_end_simulates\<close>)

text \<open>C16 (refinement): in every reachable session, every frame and every event handled without an
  error moves the stream of each id by the protocol of a stream, with the labels that bear the id: a
  request is answered by one response, each credit by one chunk of its sequence number, counted from
  zero, or by the end, and nothing is sent for an id that has no request.\<close>

theorem driver_refines_stream_protocol:
  assumes "run_peer port token built = Inr d0" and "(peer_step E)\<^sup>*\<^sup>* d0 d"
  shows "(handle_input E f d = (d', Inr ()) \<longrightarrow> simulates [Received f] d d')
   \<and> (handle_event E ev d = (d', Inr ()) \<longrightarrow> simulates [] d d')"
  using handle_input_simulates handle_event_simulates [OF driver_ok_reachable [OF assms]] by blast

lemma driver_refines_stream_protocol_witness:
  "simulates [Received (Request ''a'' ''/connector-info'' ''GET'' [] [])] demo_start
     (spawn_request ''a'' ''/connector-info'' ''GET'' [] [] demo_start)"
proof -
  have "handle_input demo_env (Request ''a'' ''/connector-info'' ''GET'' [] []) demo_start
      = (spawn_request ''a'' ''/connector-info'' ''GET'' [] [] demo_start, Inr ())"
  proof -
    have d: "decode_body rfc_encode rfc_decode [] = Inr []"
      by (simp add: rfc.decode_body_iff encode_body_def)
    have "validate_frame rfc_encode rfc_decode (Request ''a'' ''/connector-info'' ''GET'' [] []) = Inr ()"
      unfolding validate_request_iff using d
      by (simp add: validate_id_def max_id_bytes_def is_token_byte_def is_alphanumeric_def validate_headers_def)
    then have "validate_frame_shape demo_env (Request ''a'' ''/connector-info'' ''GET'' [] []) = Inr ()"
      using demo_request_short
      by (simp add: validate_frame_shape_def encode_frame_def demo_env_def Let_def not_less del: wire_entries.simps)
    with d show ?thesis
      by (simp add: handle_input_def handle_request_def demo_start_def demo_env_def get_pending_def
          tb_contains_def new_tombstones_def max_pending_def Let_def)
  qed
  with driver_refines_stream_protocol [OF demo_starts rtranclp.rtrancl_refl] show ?thesis by blast
qed

end
