(* ===== verification/Reverse_Peer_Agreement.thy ===== *)
theory Reverse_Peer_Agreement
  imports Reverse_Peer_Streams
begin

text \<open>
  What a request task has read of its response and sent to the driver, and the relation that holds
  between a pending request, its task and the events between them.
\<close>

section \<open>What a task has read and sent\<close>

subsection \<open>The streaming loop\<close>

definition body_of :: "local_response \<Rightarrow> byte list" where
  "body_of r = concat (lp_pieces r)"

text \<open>The chunks \<open>dl\<close> are a beginning of the body, within the limits.\<close>

definition content :: "local_response \<Rightarrow> byte list list \<Rightarrow> bool" where
  "content r dl \<longleftrightarrow> (\<exists>x. concat dl @ x = body_of r) \<and> length (concat dl) \<le> max_response_bytes
     \<and> length dl \<le> max_response_chunks \<and> (\<forall>b \<in> set dl. b \<noteq> [] \<and> length b \<le> max_chunk_body_bytes)"

definition loop_ok :: "local_response \<Rightarrow> byte list list \<Rightarrow> stream_loop \<Rightarrow> bool" where
  "loop_ok r dl l \<longleftrightarrow> content r dl
     \<and> concat dl @ drop (l_offset l) (l_buffered l) @ concat (l_rest l) = body_of r
     \<and> l_offset l \<le> length (l_buffered l) \<and> l_bytes_total l = length (concat dl)
     \<and> l_chunks_total l = length dl \<and> l_broken l = lp_broken r"

lemma loop_ok_initial: "loop_ok r [] (initial_loop r)"
  by (simp add: loop_ok_def content_def initial_loop_def body_of_def)

lemma fill_eqs:
  "off \<noteq> length buf \<Longrightarrow> fill bt br buf off pieces = Filled buf off pieces"
  "fill bt br buf (length buf) [] = (if br then FillError else FillEnd)"
  "fill bt br buf (length buf) (piece # rest) =
     (if piece = [] then fill bt br buf (length buf) rest
      else if length piece > max_response_bytes - bt then FillError else Filled piece 0 rest)"
  by (subst fill.simps, simp)+

lemma fill_Filled:
  assumes "fill bt br buf off pieces = Filled buf' off' rest" "off \<le> length buf"
  shows "off' < length buf' \<and> drop off buf @ concat pieces = drop off' buf' @ concat rest"
proof (cases "off = length buf")
  case True
  show ?thesis
    using assms unfolding True by (induction pieces) (auto simp: fill_eqs split: if_splits)
qed (use assms in \<open>auto simp: fill_eqs\<close>)

lemma fill_End:
  assumes "fill bt br buf off pieces = FillEnd"
  shows "off = length buf \<and> concat pieces = [] \<and> \<not> br"
proof (cases "off = length buf")
  case True
  show ?thesis
    using assms unfolding True by (induction pieces) (auto simp: fill_eqs split: if_splits)
qed (use assms in \<open>auto simp: fill_eqs\<close>)

lemma stream_turn_chunk:
  assumes ok: "loop_ok r dl l" and turn: "stream_turn l = TurnChunk n bs l'"
  shows "n = l_sequence l \<and> l_sequence l' = l_sequence l \<and> loop_ok r (dl @ [bs]) l'"
proof -
  obtain buf off rest where f: "fill (l_bytes_total l) (l_broken l) (l_buffered l) (l_offset l) (l_rest l)
      = Filled buf off rest"
    using turn by (cases "fill (l_bytes_total l) (l_broken l) (l_buffered l) (l_offset l) (l_rest l)")
      (auto simp: stream_turn_def)
  have off: "l_offset l \<le> length (l_buffered l)" using ok by (simp add: loop_ok_def)
  note ff = fill_Filled [OF f off]
  let ?tk = "min (length buf - off) max_chunk_body_bytes"
  have bounds: "l_bytes_total l + ?tk \<le> max_response_bytes" "Suc (l_chunks_total l) \<le> max_response_chunks"
    and bs: "bs = take ?tk (drop off buf)" and n: "n = l_sequence l"
    and l': "l' = l\<lparr>l_buffered := buf, l_offset := off + ?tk, l_rest := rest,
        l_bytes_total := l_bytes_total l + ?tk, l_chunks_total := Suc (l_chunks_total l)\<rparr>"
    using turn f by (auto simp: stream_turn_def Let_def split: if_splits)
  have len: "length bs = ?tk" by (simp add: bs)
  have ne: "bs \<noteq> []" using ff len by (auto simp: max_chunk_body_bytes_def)
  have split: "bs @ drop (off + ?tk) buf = drop off buf"
    unfolding bs by (metis append_take_drop_id drop_drop add.commute)
  have body: "concat dl @ bs @ drop (off + ?tk) buf @ concat rest = body_of r"
    using ok ff split by (metis append.assoc loop_ok_def)
  have "off + ?tk \<le> length buf" using ff by (auto simp: min_def)
  then show ?thesis
    using ok body ne len bounds n
    by (auto simp: loop_ok_def content_def l')
qed

lemma stream_turn_end:
  assumes "loop_ok r dl l" "stream_turn l = TurnEnd"
  shows "concat dl = body_of r \<and> \<not> lp_broken r"
proof -
  have f: "fill (l_bytes_total l) (l_broken l) (l_buffered l) (l_offset l) (l_rest l) = FillEnd"
    using assms(2) by (cases "fill (l_bytes_total l) (l_broken l) (l_buffered l) (l_offset l) (l_rest l)")
      (auto simp: stream_turn_def Let_def split: if_splits)
  have "l_offset l = length (l_buffered l)" "concat (l_rest l) = []" "\<not> l_broken l"
    using fill_End [OF f] by blast+
  moreover have "concat dl @ drop (l_offset l) (l_buffered l) @ concat (l_rest l) = body_of r"
    "l_broken l = lp_broken r"
    using assms(1) by (simp_all add: loop_ok_def)
  ultimately show ?thesis by (simp del: concat_eq_Nil_conv)
qed

lemma content_take: "content r (dl @ [b]) \<Longrightarrow> content r dl"
  by (auto simp: content_def)

subsection \<open>The chunks the relay was sent\<close>

definition chunk_step :: "string \<Rightarrow> (u64 \<times> string) list \<Rightarrow> frame \<Rightarrow> (u64 \<times> string) list" where
  "chunk_step i acc f = (case f of
      Response j status hs \<Rightarrow> if j = i then [] else acc
    | Chunk j n body \<Rightarrow> if j = i then acc @ [(n, body)] else acc
    | _ \<Rightarrow> acc)"

text \<open>The chunks of the latest response of an id.\<close>

definition chunks_of :: "string \<Rightarrow> frame list \<Rightarrow> (u64 \<times> string) list" where
  "chunks_of i fs = foldl (chunk_step i) [] fs"

lemma chunks_of_append [simp]: "chunks_of i (fs @ [f]) = chunk_step i (chunks_of i fs) f"
  by (simp add: chunks_of_def)

lemma chunk_step_other: "frame_id f \<noteq> i \<Longrightarrow> chunk_step i acc f = acc"
  by (auto simp: chunk_step_def split: frame.split)

lemma chunk_step_simps [simp]:
  "chunk_step i acc (Response i status hs) = []" "chunk_step i acc (Chunk i n b) = acc @ [(n, b)]"
  "chunk_step i acc (End j) = acc" "chunk_step i acc (Cancel j) = acc"
  by (simp_all add: chunk_step_def)

definition numbered :: "(byte list \<Rightarrow> string) \<Rightarrow> byte list list \<Rightarrow> (u64 \<times> string) list" where
  "numbered enc dl = map (\<lambda>k. (of_nat k, enc (dl ! k))) [0..<length dl]"

lemma numbered_Nil [simp]: "numbered enc [] = []"
  by (simp add: numbered_def)

lemma numbered_snoc: "numbered enc (dl @ [b]) = numbered enc dl @ [(of_nat (length dl), enc b)]"
  by (simp add: numbered_def nth_append)

section \<open>The agreement of the driver with its tasks\<close>

definition gave_up :: "u64 \<Rightarrow> string \<Rightarrow> task_state \<Rightarrow> task_event list \<Rightarrow> bool" where
  "gave_up tag i st evs \<longleftrightarrow> st = Failing \<and> evs = []
     \<or> st = Finished \<and> (evs = [] \<or> evs = [EvFailure tag i])"

definition answered :: "task \<Rightarrow> local_response \<Rightarrow> bool" where
  "answered t r \<longleftrightarrow> t_response t = Some r \<and> 200 \<le> lp_status r \<and> lp_status r \<le> 599"

definition waiting :: "local_response \<Rightarrow> byte list list \<Rightarrow> task \<Rightarrow> bool" where
  "waiting r dl t \<longleftrightarrow> (\<exists>l. t_state t = AwaitCredit l \<and> loop_ok r dl l \<and> l_sequence l = of_nat (length dl))"

definition agree_headers :: "string \<Rightarrow> pending \<Rightarrow> task \<Rightarrow> task_event list \<Rightarrow> bool" where
  "agree_headers i p t evs \<longleftrightarrow> t_commands t = [] \<and>
     (t_state t = Requesting \<and> evs = []
      \<or> (\<exists>r. answered t r \<and> evs = [] \<and> t_state t = Announcing (lp_status r)
            (filtered_response_headers (lp_header r)) (body_allowed (lp_status r)) (initial_loop r))
      \<or> (\<exists>r rest. answered t r \<and> evs = EvHeaders (p_tag p) i (lp_status r)
            (filtered_response_headers (lp_header r)) (body_allowed (lp_status r)) # rest
          \<and> (body_allowed (lp_status r) \<and> rest = [] \<and> t_state t = AwaitCredit (initial_loop r)
             \<or> \<not> body_allowed (lp_status r) \<and> rest = [] \<and> t_state t = ClosingEmpty
             \<or> \<not> body_allowed (lp_status r) \<and> rest = [EvEnd (p_tag p) i] \<and> t_state t = Finished
             \<or> gave_up (p_tag p) i (t_state t) rest))
      \<or> gave_up (p_tag p) i (t_state t) evs)"

definition agree_waiting ::
    "string \<Rightarrow> pending \<Rightarrow> task \<Rightarrow> task_event list \<Rightarrow> byte list list \<Rightarrow> bool" where
  "agree_waiting i p t evs dl \<longleftrightarrow> t_commands t = [] \<and>
     (\<exists>r. answered t r \<and> content r dl
        \<and> (evs = [] \<and> waiting r dl t \<or> gave_up (p_tag p) i (t_state t) evs))"

definition agree_credited ::
    "string \<Rightarrow> pending \<Rightarrow> task \<Rightarrow> task_event list \<Rightarrow> byte list list \<Rightarrow> bool" where
  "agree_credited i p t evs dl \<longleftrightarrow> (\<exists>r. answered t r \<and> content r dl \<and>
     (evs = [] \<and> waiting r dl t \<and> t_commands t = [of_nat (length dl)]
      \<or> t_commands t = [] \<and> evs = [] \<and> (\<exists>bs l. t_state t = SendingChunk (of_nat (length dl)) bs l
           \<and> loop_ok r (dl @ [bs]) l \<and> l_sequence l = of_nat (length dl))
      \<or> t_commands t = [] \<and> (\<exists>bs rest. evs = EvChunk (p_tag p) i (of_nat (length dl)) bs # rest
           \<and> content r (dl @ [bs])
           \<and> (rest = [] \<and> waiting r (dl @ [bs]) t \<or> gave_up (p_tag p) i (t_state t) rest))
      \<or> concat dl = body_of r \<and> \<not> lp_broken r
         \<and> (evs = [] \<and> t_state t = SendingEnd \<or> evs = [EvEnd (p_tag p) i] \<and> t_state t = Finished)
      \<or> gave_up (p_tag p) i (t_state t) evs))"

definition agree ::
    "string \<Rightarrow> pending \<Rightarrow> task \<Rightarrow> task_event list \<Rightarrow> byte list list \<Rightarrow> bool" where
  "agree i p t evs dl \<longleftrightarrow> p_next_sequence p = of_nat (length dl) \<and> p_chunks p = length dl
     \<and> p_bytes p = length (concat dl) \<and> (case p_phase p of
        AwaitingHeaders \<Rightarrow> dl = [] \<and> agree_headers i p t evs
      | WaitingCredit \<Rightarrow> agree_waiting i p t evs dl
      | CreditInFlight \<Rightarrow> agree_credited i p t evs dl
      | NoBody \<Rightarrow> False)"

text \<open>The steps of a task keep the agreement with its pending request.\<close>

lemma agree_timed_out:
  assumes "agree i p t evs dl"
  shows "agree i p (t\<lparr>t_state := timed_out (t_state t)\<rparr>) evs dl"
proof -
  have g: "gave_up (p_tag p) i (timed_out (t_state t)) rest"
    if "gave_up (p_tag p) i (t_state t) rest" for rest
    using that by (auto simp: gave_up_def)
  have n: "gave_up (p_tag p) i (timed_out (t_state t)) []"
    by (cases "t_state t") (simp_all add: gave_up_def)
  show ?thesis
  proof (cases "p_phase p")
    case AwaitingHeaders
    with assms have a: "agree_headers i p t evs" by (simp add: agree_def)
    then have "agree_headers i p (t\<lparr>t_state := timed_out (t_state t)\<rparr>) evs"
      using g n unfolding agree_headers_def answered_def by (elim conjE disjE exE) auto
    with assms AwaitingHeaders show ?thesis by (simp add: agree_def)
  next
    case WaitingCredit
    with assms have a: "agree_waiting i p t evs dl" by (simp add: agree_def)
    then have "agree_waiting i p (t\<lparr>t_state := timed_out (t_state t)\<rparr>) evs dl"
      using g n unfolding agree_waiting_def answered_def by (elim conjE disjE exE) auto
    with assms WaitingCredit show ?thesis by (simp add: agree_def)
  next
    case CreditInFlight
    with assms have a: "agree_credited i p t evs dl" by (simp add: agree_def)
    then have "agree_credited i p (t\<lparr>t_state := timed_out (t_state t)\<rparr>) evs dl"
      using g n unfolding agree_credited_def answered_def by (elim conjE disjE exE) auto
    with assms CreditInFlight show ?thesis by (simp add: agree_def)
  qed (use assms in \<open>simp add: agree_def\<close>)
qed

end
