(* ===== verification/Reverse_Peer_Session.thy ===== *)
theory Reverse_Peer_Session
  imports Reverse_Peer_Agreement
begin

text \<open>
  The agreement of the driver with the tasks it spawned, along a whole session. Every step of
  \<open>peer_step\<close> (a frame from the agent, an event of a task taken from the channel, a turn of a task)
  keeps \<open>session_inv\<close>: every pending request is linked to a live task of its own, the events of that
  task still queued are the ones its driver phase expects, and the chunks the driver has sent are
  the numbered chunks the task has produced. The invariant is an instance of the prelude's
  \<open>invariant_machine\<close>, so it holds in every reachable session.
\<close>


lemma gave_up_states: "gave_up tag i st evs \<Longrightarrow> st = Failing \<or> st = Finished"
  by (auto simp: gave_up_def)

lemma waiting_state: "waiting r dl t \<Longrightarrow> \<exists>l. t_state t = AwaitCredit l"
  by (auto simp: waiting_def)

lemma agree_respond:
  assumes "agree i p t evs dl" "t_state t = Requesting"
  shows "agree i p (task_respond answer t) evs dl"
proof (cases "p_phase p")
  case AwaitingHeaders
  with assms have a: "agree_headers i p t evs" by (simp add: agree_def)
  then have e: "evs = []" "t_commands t = []"
    using assms(2) by (auto simp: agree_headers_def gave_up_def)
  have "agree_headers i p (task_respond answer t) evs"
  proof (cases answer)
    case None
    with e show ?thesis by (simp add: agree_headers_def task_respond_def gave_up_def)
  next
    case (Some r)
    with e show ?thesis
      by (cases "200 \<le> lp_status r \<and> lp_status r \<le> 599")
        (auto simp: agree_headers_def task_respond_def gave_up_def answered_def)
  qed
  with assms AwaitingHeaders show ?thesis by (simp add: agree_def)
next
  case WaitingCredit
  with assms have "agree_waiting i p t evs dl" by (simp add: agree_def)
  with assms(2) have False unfolding agree_waiting_def using gave_up_states waiting_state by fastforce
  then show ?thesis ..
next
  case CreditInFlight
  with assms have "agree_credited i p t evs dl" by (simp add: agree_def)
  with assms(2) have False unfolding agree_credited_def using gave_up_states waiting_state by fastforce
  then show ?thesis ..
qed (use assms in \<open>simp add: agree_def\<close>)

lemma small_sequence:
  assumes "length dl \<le> max_response_chunks"
  shows "(of_nat (length dl) :: u64) \<noteq> - 1"
proof -
  have "unat (of_nat (length dl) :: u64) = length dl"
    using assms by (simp add: max_response_chunks_def unat_of_nat take_bit_nat_eq_self)
  moreover have "unat (- 1 :: u64) = 2 ^ 64 - 1" by (simp add: unsigned_minus_1_eq_mask mask_eq_exp_minus_1)
  ultimately show ?thesis using assms by (auto simp: max_response_chunks_def)
qed

lemma agree_emit:
  assumes a: "agree i p t evs dl"
    and e: "task_emits (p_tag p) i (t_state t) = Some (ev, st)"
  shows "agree i p (t\<lparr>t_state := st\<rparr>) (evs @ [ev]) dl"
proof (cases "p_phase p")
  case AwaitingHeaders
  with a have h: "agree_headers i p t evs" by (simp add: agree_def)
  have "agree_headers i p (t\<lparr>t_state := st\<rparr>) (evs @ [ev])"
    using h unfolding agree_headers_def
  proof (elim conjE disjE exE, goal_cases)
    case (2 r)
    with e show ?case by (cases "body_allowed (lp_status r)") (auto simp: answered_def)
  qed (use e in \<open>auto simp: gave_up_def answered_def\<close>)
  with a AwaitingHeaders show ?thesis by (simp add: agree_def)
next
  case WaitingCredit
  with a have h: "agree_waiting i p t evs dl" by (simp add: agree_def)
  have "agree_waiting i p (t\<lparr>t_state := st\<rparr>) (evs @ [ev]) dl"
    using h unfolding agree_waiting_def
    by (elim conjE disjE exE) (use e in \<open>auto simp: gave_up_def answered_def waiting_def\<close>)
  with a WaitingCredit show ?thesis by (simp add: agree_def)
next
  case CreditInFlight
  with a have h: "agree_credited i p t evs dl" by (simp add: agree_def)
  have "agree_credited i p (t\<lparr>t_state := st\<rparr>) (evs @ [ev]) dl"
    using h unfolding agree_credited_def
  proof (elim conjE disjE exE, goal_cases)
    case (2 r bs l)
    have c: "content r (dl @ [bs])" using 2 by (simp add: loop_ok_def)
    have n: "(of_nat (length dl) :: u64) \<noteq> - 1"
      using 2(2) by (intro small_sequence) (simp add: content_def)
    have st: "st = AwaitCredit (l\<lparr>l_sequence := of_nat (length dl) + 1\<rparr>)"
      and ev: "ev = EvChunk (p_tag p) i (of_nat (length dl)) bs"
      using e 2 n by auto
    have "waiting r (dl @ [bs]) (t\<lparr>t_state := st\<rparr>)"
      using 2 unfolding st by (simp add: waiting_def loop_ok_def add.commute)
    with 2 c ev show ?case by (simp add: answered_def)
  qed (use e in \<open>auto simp: gave_up_def answered_def waiting_def\<close>)
  with a CreditInFlight show ?thesis by (simp add: agree_def)
qed (use a in \<open>simp add: agree_def\<close>)

lemma agree_credit:
  assumes a: "agree i p t evs dl"
    and s: "t_state t = AwaitCredit l" and c: "t_commands t = n # ns"
  shows "agree i p (t\<lparr>t_commands := ns, t_state := after_credit l n\<rparr>) evs dl"
proof (cases "p_phase p")
  case CreditInFlight
  with a have h: "agree_credited i p t evs dl" by (simp add: agree_def)
  let ?t = "t\<lparr>t_commands := ns, t_state := after_credit l n\<rparr>"
  have "agree_credited i p ?t evs dl"
    using h unfolding agree_credited_def
  proof (elim conjE disjE exE, goal_cases)
    case (1 r)
    then have l: "loop_ok r dl l" "l_sequence l = of_nat (length dl)" and n: "n = of_nat (length dl)" "ns = []"
      using s c by (auto simp: waiting_def)
    show ?case
    proof (cases "stream_turn l")
      case TurnError
      with 1 l n show ?thesis by (auto simp: after_credit_def gave_up_def answered_def)
    next
      case TurnEnd
      with 1 l n stream_turn_end [OF l(1) TurnEnd] show ?thesis by (auto simp: after_credit_def answered_def)
    next
      case (TurnChunk n' bs l')
      from stream_turn_chunk [OF l(1) TurnChunk] l n
      have "n' = of_nat (length dl)" "l_sequence l' = of_nat (length dl)" "loop_ok r (dl @ [bs]) l'"
        by simp_all
      with 1 l n TurnChunk show ?thesis by (auto simp: after_credit_def answered_def)
    qed
  qed (use s c in \<open>auto simp: gave_up_def waiting_def\<close>)
  with a CreditInFlight show ?thesis by (simp add: agree_def)
next
  case AwaitingHeaders
  with a c show ?thesis by (simp add: agree_def agree_headers_def)
next
  case WaitingCredit
  with a c show ?thesis by (simp add: agree_def agree_waiting_def)
qed (use a in \<open>simp add: agree_def\<close>)

subsection \<open>What the next event of a pending request is\<close>

lemma agree_event_cases [consumes 1, case_names headers chunk finish failure]:
  assumes "agree i p t (ev # evs) dl"
  obtains r where "p_phase p = AwaitingHeaders" "dl = []" "answered t r"
      "ev = EvHeaders (p_tag p) i (lp_status r) (filtered_response_headers (lp_header r)) (body_allowed (lp_status r))"
      "t_commands t = []"
      "body_allowed (lp_status r) \<Longrightarrow> evs = [] \<and> t_state t = AwaitCredit (initial_loop r)
         \<or> gave_up (p_tag p) i (t_state t) evs"
    | r bs where "p_phase p = CreditInFlight" "answered t r" "ev = EvChunk (p_tag p) i (of_nat (length dl)) bs"
      "t_commands t = []" "content r (dl @ [bs])"
      "evs = [] \<and> waiting r (dl @ [bs]) t \<or> gave_up (p_tag p) i (t_state t) evs"
    | r where "p_phase p = CreditInFlight" "answered t r" "content r dl" "ev = EvEnd (p_tag p) i"
      "concat dl = body_of r" "\<not> lp_broken r"
    | "ev = EvFailure (p_tag p) i"
proof (cases "p_phase p")
  case AwaitingHeaders
  with assms have "agree_headers i p t (ev # evs)" and dl: "dl = []" by (simp_all add: agree_def)
  then have "ev = EvFailure (p_tag p) i \<or> (\<exists>r. answered t r
      \<and> ev = EvHeaders (p_tag p) i (lp_status r) (filtered_response_headers (lp_header r)) (body_allowed (lp_status r))
      \<and> t_commands t = []
      \<and> (body_allowed (lp_status r) \<longrightarrow> evs = [] \<and> t_state t = AwaitCredit (initial_loop r)
         \<or> gave_up (p_tag p) i (t_state t) evs))"
    unfolding agree_headers_def gave_up_def by (elim conjE disjE exE) auto
  with AwaitingHeaders dl that(1,4) show ?thesis by blast
next
  case WaitingCredit
  with assms have "agree_waiting i p t (ev # evs) dl" by (simp add: agree_def)
  then have "ev = EvFailure (p_tag p) i" by (auto simp: agree_waiting_def gave_up_def)
  then show ?thesis by (rule that(4))
next
  case CreditInFlight
  with assms have "agree_credited i p t (ev # evs) dl" by (simp add: agree_def)
  then show ?thesis unfolding agree_credited_def
  proof (elim conjE disjE exE, goal_cases)
    case (3 r bs rest)
    then show ?case using that(2) [OF CreditInFlight, of r bs] by simp
  next
    case (4 r bs rest)
    then show ?case using that(2) [OF CreditInFlight, of r bs] by simp
  next
    case (6 r)
    then show ?case using that(3) [OF CreditInFlight, of r] by simp
  next
    case (7 r)
    then have "ev = EvFailure (p_tag p) i" by (auto simp: gave_up_def)
    then show ?case by (rule that(4))
  qed simp_all
qed (use assms in \<open>simp add: agree_def\<close>)

section \<open>The agreement in every session\<close>

definition events_for :: "u64 \<Rightarrow> task_event list \<Rightarrow> task_event list" where
  "events_for tag evs = filter (\<lambda>e. ev_tag e = tag) evs"

definition linked :: "env \<Rightarrow> driver \<Rightarrow> string \<Rightarrow> pending \<Rightarrow> bool" where
  "linked E d i p \<longleftrightarrow> p_task p < length (d_tasks d) \<and> t_id (d_tasks d ! p_task p) = i
     \<and> t_tag (d_tasks d ! p_task p) = p_tag p \<and> \<not> t_aborted (d_tasks d ! p_task p)
     \<and> (\<exists>dl. agree i p (d_tasks d ! p_task p) (events_for (p_tag p) (d_events d)) dl
          \<and> (p_phase p \<noteq> AwaitingHeaders \<longrightarrow> chunks_of i (d_out d) = numbered (e_enc E) dl))"

definition own_events :: "driver \<Rightarrow> bool" where
  "own_events d \<longleftrightarrow> (\<forall>e \<in> set (d_events d).
     (ev_tag e, ev_id e) \<in> set (map (\<lambda>t. (t_tag t, t_id t)) (d_tasks d)))"

lemma map_same_update:
  assumes "\<And>t. g (f t) = g t"
  shows "map g (xs[k := f (xs ! k)]) = map g xs"
proof (cases "k < length xs")
  case True
  then show ?thesis using assms by (metis list_update_id map_update nth_map)
qed (simp add: list_update_beyond)

definition distinct_tags :: "driver \<Rightarrow> bool" where
  "distinct_tags d \<longleftrightarrow> distinct (map t_tag (d_tasks d))"

definition inv_except :: "env \<Rightarrow> string \<Rightarrow> driver \<Rightarrow> bool" where
  "inv_except E j d \<longleftrightarrow> own_events d \<and> distinct_tags d
     \<and> (\<forall>i q. i \<noteq> j \<longrightarrow> get_pending d i = Some q \<longrightarrow> linked E d i q)"

definition peer_inv :: "env \<Rightarrow> driver \<Rightarrow> bool" where
  "peer_inv E d \<longleftrightarrow> own_events d \<and> distinct_tags d
     \<and> (\<forall>i q. get_pending d i = Some q \<longrightarrow> linked E d i q)"

lemma peer_inv_except: "peer_inv E d \<Longrightarrow> inv_except E j d"
  by (simp add: peer_inv_def inv_except_def)

lemma except_full:
  assumes "inv_except E j d" "\<And>p. get_pending d j = Some p \<Longrightarrow> linked E d j p"
  shows "peer_inv E d"
proof -
  have "linked E d i q" if "get_pending d i = Some q" for i q
    using assms that by (cases "i = j") (simp_all add: inv_except_def)
  with assms(1) show ?thesis by (simp add: peer_inv_def inv_except_def)
qed

lemma tag_unique:
  "distinct_tags d \<Longrightarrow> k < length (d_tasks d) \<Longrightarrow> k' < length (d_tasks d)
   \<Longrightarrow> t_tag (d_tasks d ! k) = t_tag (d_tasks d ! k') \<Longrightarrow> k = k'"
  by (simp add: distinct_tags_def distinct_conv_nth) blast

lemma linked_cong:
  assumes "linked E d i p" "d_tasks d' ! p_task p = d_tasks d ! p_task p"
    "length (d_tasks d) \<le> length (d_tasks d')"
    "events_for (p_tag p) (d_events d') = events_for (p_tag p) (d_events d)"
    "chunks_of i (d_out d') = chunks_of i (d_out d)"
  shows "linked E d' i p"
  using assms by (auto simp: linked_def)

lemma except_out:
  assumes "inv_except E j d" "frame_id f = j"
  shows "inv_except E j (d\<lparr>d_out := d_out d @ [f]\<rparr>)"
proof -
  have "linked E (d\<lparr>d_out := d_out d @ [f]\<rparr>) i q" if "linked E d i q" "i \<noteq> j" for i q
    using that assms(2) by (intro linked_cong [OF that(1)]) (simp_all add: chunk_step_other)
  with assms(1) show ?thesis by (simp add: inv_except_def own_events_def distinct_tags_def)
qed

lemma except_set:
  assumes "inv_except E j d"
  shows "inv_except E j (set_pending j p d)"
proof -
  have "linked E (set_pending j p d) i q" if "linked E d i q" for i q
    by (rule linked_cong [OF that]) simp_all
  with assms show ?thesis by (simp add: inv_except_def own_events_def distinct_tags_def)
qed

lemma except_task:
  assumes "inv_except E j d" "k < length (d_tasks d)" "t_id (d_tasks d ! k) = j"
    "\<And>t. t_id (f t) = t_id t" "\<And>t. t_tag (f t) = t_tag t"
  shows "inv_except E j (update_task k f d)"
proof -
  have "linked E (update_task k f d) i q" if l: "linked E d i q" "i \<noteq> j" for i q
  proof -
    have "p_task q \<noteq> k" using l assms(3) by (auto simp: linked_def)
    then show ?thesis by (intro linked_cong [OF l(1)]) simp_all
  qed
  moreover have "own_events (update_task k f d)"
    using assms(1,4,5) by (simp add: inv_except_def own_events_def map_same_update del: set_map)
  moreover have "distinct_tags (update_task k f d)"
    using assms(1,5) by (simp add: inv_except_def distinct_tags_def map_same_update)
  ultimately show ?thesis using assms(1) by (simp add: inv_except_def)
qed

lemma except_retire:
  assumes x: "inv_except E j d" and p: "get_pending d j = Some p"
    and t: "p_task p < length (d_tasks d)" "t_id (d_tasks d ! p_task p) = j" and r: "retires j e d"
  shows "peer_inv E (retire j e d)"
proof -
  let ?d = "update_task (p_task p) abort_task d"
  have x1: "inv_except E j ?d"
    by (rule except_task [OF x t]) (simp_all add: abort_task_def)
  have d': "retire j e d = ?d\<lparr>d_pending := AList.delete j (d_pending d),
      d_tombstones := tb_insert j (d_tombstones d)\<rparr>"
    using p r by (simp add: retire_def retires_def)
  have "linked E (retire j e d) i q" if "linked E ?d i q" for i q
    by (rule linked_cong [OF that]) (simp_all add: d')
  moreover have "own_events (retire j e d)" "distinct_tags (retire j e d)"
    using x1 by (simp_all add: inv_except_def own_events_def distinct_tags_def d')
  ultimately show ?thesis
    using x1 r by (auto simp: peer_inv_def inv_except_def get_pending_retire)
qed

lemma except_event:
  assumes inv: "peer_inv E d" and e: "d_events d = ev # evs"
  shows "inv_except E (ev_id ev) (d\<lparr>d_events := evs\<rparr>)"
    and "get_pending d i = Some q \<Longrightarrow> p_tag q = ev_tag ev \<Longrightarrow> i = ev_id ev"
    and "get_pending d i = Some q \<Longrightarrow> p_tag q \<noteq> ev_tag ev \<Longrightarrow> linked E (d\<lparr>d_events := evs\<rparr>) i q"
proof -
  have id: "i = ev_id ev" if "get_pending d i = Some q" "p_tag q = ev_tag ev" for i q
  proof -
    have "(ev_tag ev, ev_id ev) \<in> set (map (\<lambda>t. (t_tag t, t_id t)) (d_tasks d))"
      using inv e by (simp add: peer_inv_def own_events_def del: set_map)
    then obtain k where k: "k < length (d_tasks d)" "ev_tag ev = t_tag (d_tasks d ! k)"
        "ev_id ev = t_id (d_tasks d ! k)"
      by (auto simp: in_set_conv_nth)
    have l: "p_task q < length (d_tasks d)" "t_id (d_tasks d ! p_task q) = i" "t_tag (d_tasks d ! p_task q) = p_tag q"
      using inv that(1) by (simp_all add: peer_inv_def linked_def)
    have "p_task q = k"
      by (rule tag_unique [of d]) (use inv k l that(2) in \<open>simp_all add: peer_inv_def\<close>)
    with k l show ?thesis by simp
  qed
  have other: "linked E (d\<lparr>d_events := evs\<rparr>) i q" if "get_pending d i = Some q" "p_tag q \<noteq> ev_tag ev" for i q
  proof -
    have "linked E d i q" using inv that(1) by (simp add: peer_inv_def)
    then show ?thesis by (rule linked_cong) (use that(2) e in \<open>simp_all add: events_for_def\<close>)
  qed
  show "inv_except E (ev_id ev) (d\<lparr>d_events := evs\<rparr>)"
    using inv e id other by (fastforce simp: inv_except_def peer_inv_def own_events_def distinct_tags_def)
  show "get_pending d i = Some q \<Longrightarrow> p_tag q = ev_tag ev \<Longrightarrow> i = ev_id ev" by (rule id)
  show "get_pending d i = Some q \<Longrightarrow> p_tag q \<noteq> ev_tag ev \<Longrightarrow> linked E (d\<lparr>d_events := evs\<rparr>) i q" by (rule other)
qed

subsection \<open>Steps of the tasks\<close>

lemma task_step:
  assumes inv: "peer_inv E d" and k: "k < length (d_tasks d)"
    and ids: "\<And>t. t_id (f t) = t_id t" "\<And>t. t_tag (f t) = t_tag t"
    and new: "\<And>e. e \<in> set evs' \<Longrightarrow> ev_tag e = t_tag (d_tasks d ! k) \<and> ev_id e = t_id (d_tasks d ! k)"
    and own: "\<And>i p evs dl. get_pending d i = Some p \<Longrightarrow> p_task p = k \<Longrightarrow> t_id (d_tasks d ! k) = i
      \<Longrightarrow> t_tag (d_tasks d ! k) = p_tag p \<Longrightarrow> \<not> t_aborted (d_tasks d ! k)
      \<Longrightarrow> agree i p (d_tasks d ! k) evs dl
      \<Longrightarrow> agree i p (f (d_tasks d ! k)) (evs @ evs') dl \<and> \<not> t_aborted (f (d_tasks d ! k))"
  shows "peer_inv E ((update_task k f d)\<lparr>d_events := d_events d @ evs'\<rparr>)" (is "peer_inv E ?d")
proof -
  let ?t = "d_tasks d ! k"
  have filt: "events_for tag (d_events d @ evs') = events_for tag (d_events d) @ (if tag = t_tag ?t then evs' else [])"
    for tag
    using new by (auto simp: events_for_def filter_empty_conv filter_id_conv)
  have "linked E ?d i p" if g: "get_pending d i = Some p" for i p
  proof -
    have l: "linked E d i p" using inv g by (simp add: peer_inv_def)
    show ?thesis
    proof (cases "p_task p = k")
      case True
      with l own [OF g True] ids k filt [of "p_tag p"] show ?thesis by (auto simp: linked_def)
    next
      case False
      have "p_tag p \<noteq> t_tag ?t"
      proof
        assume "p_tag p = t_tag ?t"
        with l have "t_tag (d_tasks d ! p_task p) = t_tag ?t" "p_task p < length (d_tasks d)"
          by (simp_all add: linked_def)
        with False k inv tag_unique show False by (auto simp: peer_inv_def)
      qed
      with False filt [of "p_tag p"] show ?thesis by (intro linked_cong [OF l]) simp_all
    qed
  qed
  moreover have "(t_tag ?t, t_id ?t) \<in> set (map (\<lambda>t. (t_tag t, t_id t)) (d_tasks d))"
    using k by (auto simp del: set_map simp: in_set_conv_nth)
  then have "own_events ?d"
    using inv ids new by (auto simp: peer_inv_def own_events_def map_same_update simp del: set_map)
  moreover have "distinct_tags ?d"
    using inv ids by (simp add: peer_inv_def distinct_tags_def map_same_update)
  ultimately show ?thesis by (simp add: peer_inv_def)
qed

lemma task_step_silent:
  assumes inv: "peer_inv E d" and k: "k < length (d_tasks d)"
    and ids: "\<And>t. t_id (f t) = t_id t" "\<And>t. t_tag (f t) = t_tag t"
    and own: "\<And>i p evs dl. get_pending d i = Some p \<Longrightarrow> p_task p = k \<Longrightarrow> t_id (d_tasks d ! k) = i
      \<Longrightarrow> t_tag (d_tasks d ! k) = p_tag p \<Longrightarrow> \<not> t_aborted (d_tasks d ! k)
      \<Longrightarrow> agree i p (d_tasks d ! k) evs dl
      \<Longrightarrow> agree i p (f (d_tasks d ! k)) evs dl \<and> \<not> t_aborted (f (d_tasks d ! k))"
  shows "peer_inv E (update_task k f d)"
proof -
  have "peer_inv E ((update_task k f d)\<lparr>d_events := d_events d @ []\<rparr>)"
    by (rule task_step [OF inv k ids]) (use own in auto)
  moreover have "(update_task k f d)\<lparr>d_events := d_events d @ []\<rparr> = update_task k f d"
    by (simp add: update_task_def)
  ultimately show ?thesis by (simp only:)
qed

subsection \<open>Events\<close>

lemma event_none:
  assumes "\<not> is_some_and (\<lambda>p. p_tag p = ev_tag ev) (get_pending d (ev_id ev))"
  shows "handle_event E ev d = (d, Inr ())"
  using assms
  by (cases ev) (auto simp: handle_headers_def handle_chunk_def handle_end_def handle_failure_def
      split: option.split)

text \<open>The next event of a pending request, as the handlers meet it.\<close>

lemma pending_event:
  assumes inv: "peer_inv E d" and e: "d_events d = ev # evs"
    and p: "get_pending d (ev_id ev) = Some p" "p_tag p = ev_tag ev"
  obtains dl where "agree (ev_id ev) p (d_tasks d ! p_task p) (ev # events_for (p_tag p) evs) dl"
    "p_phase p \<noteq> AwaitingHeaders \<Longrightarrow> chunks_of (ev_id ev) (d_out d) = numbered (e_enc E) dl"
    "p_task p < length (d_tasks d)" "t_id (d_tasks d ! p_task p) = ev_id ev"
    "t_tag (d_tasks d ! p_task p) = p_tag p" "\<not> t_aborted (d_tasks d ! p_task p)"
proof -
  have "linked E d (ev_id ev) p" using inv p by (simp add: peer_inv_def)
  moreover have "events_for (p_tag p) (d_events d) = ev # events_for (p_tag p) evs"
    using e p by (simp add: events_for_def)
  ultimately show ?thesis using that by (auto simp: linked_def)
qed

lemma event_step:
  assumes inv: "peer_inv E d" and ok: "driver_ok E d" and e: "d_events d = ev # evs"
    and h: "handle_event E ev (d\<lparr>d_events := evs\<rparr>) = (d', Inr ())"
  shows "peer_inv E d'"
proof -
  let ?d = "d\<lparr>d_events := evs\<rparr>"
  define j where "j = ev_id ev"
  note x = except_event(1) [OF inv e, folded j_def]
  show ?thesis
  proof (cases "is_some_and (\<lambda>p. p_tag p = ev_tag ev) (get_pending d j)")
    case False
    then have "d' = ?d" using h event_none [of ev ?d E] by (simp add: j_def)
    moreover have "linked E ?d j p" if "get_pending d j = Some p" for p
      using except_event(3) [OF inv e that] False that by simp
    ultimately show ?thesis using except_full [OF x] by simp
  next
    case True
    then obtain p where p: "get_pending d j = Some p" "p_tag p = ev_tag ev" by (auto simp: is_some_and_iff)
    let ?t = "d_tasks d ! p_task p"
    obtain dl where a: "agree j p ?t (ev # events_for (p_tag p) evs) dl"
      and out: "p_phase p \<noteq> AwaitingHeaders \<Longrightarrow> chunks_of j (d_out d) = numbered (e_enc E) dl"
      and t: "p_task p < length (d_tasks d)" "t_id ?t = j" "t_tag ?t = p_tag p" "\<not> t_aborted ?t"
      using pending_event [OF inv e p [unfolded j_def]] unfolding j_def by blast
    have nums: "p_next_sequence p = of_nat (length dl)" "p_chunks p = length dl" "p_bytes p = length (concat dl)"
      using a by (simp_all add: agree_def)
    have gone: "peer_inv E (retire j (Some (p_tag p)) d2)"
      if "inv_except E j d2" "get_pending d2 j = Some q" "p_tag q = p_tag p" "p_task q = p_task p"
        "d_tasks d2 = d_tasks d" for d2 q
      by (rule except_retire [OF that(1,2)]) (use that t in \<open>simp_all add: retires_def\<close>)
    have failed: "peer_inv E d'" if "fail_request E j (p_tag p) ?d = (d', Inr ())"
    proof -
      have "peer_inv E (retire j (Some (p_tag p)) ?d)" by (rule gone [OF x]) (use p in simp_all)
      from except_out [OF peer_inv_except [OF this], of "Cancel j"]
      have "inv_except E j d'" by (simp add: fail_request_shape [OF that])
      moreover have "get_pending d' j = None"
        using p by (simp add: fail_request_shape [OF that] get_pending_retire retires_def)
      ultimately show ?thesis by (intro except_full [of _ j]) simp_all
    qed
    from a show ?thesis
    proof (cases rule: agree_event_cases)
      case (headers r)
      let ?f = "Response j (lp_status r) (filtered_response_headers (lp_header r))"
      have "handle_headers E (p_tag p) j (lp_status r) (filtered_response_headers (lp_header r))
          (body_allowed (lp_status r)) ?d = (d', Inr ())"
        using h unfolding headers(4) by simp
      from handle_headers_shape [OF this, of p] p(1)
      have shape: "d' = (if body_allowed (lp_status r)
          then set_pending j (p\<lparr>p_phase := WaitingCredit\<rparr>) (?d\<lparr>d_out := d_out d @ [?f]\<rparr>)
          else retire j (Some (p_tag p)) ((set_pending j (p\<lparr>p_phase := NoBody\<rparr>) ?d)
            \<lparr>d_out := d_out d @ [?f] @ [End j]\<rparr>))" by simp
      have x1: "inv_except E j (?d\<lparr>d_out := d_out d @ [?f]\<rparr>)"
        using except_out [OF x, of ?f] by simp
      show ?thesis
      proof (cases "body_allowed (lp_status r)")
        case True
        let ?p = "p\<lparr>p_phase := WaitingCredit\<rparr>"
        have d': "d' = set_pending j ?p (?d\<lparr>d_out := d_out d @ [?f]\<rparr>)" using shape True by simp
        have "waiting r [] ?t \<and> events_for (p_tag p) evs = []
            \<or> gave_up (p_tag p) j (t_state ?t) (events_for (p_tag p) evs)"
          using headers(6) [OF True] loop_ok_initial [of r] by (auto simp: waiting_def initial_loop_def)
        moreover have "content r []" using loop_ok_initial by (simp add: loop_ok_def)
        ultimately have "agree j ?p ?t (events_for (p_tag p) evs) []"
          using headers nums by (auto simp: agree_def agree_waiting_def)
        then have "linked E d' j ?p" using t by (auto simp: d' linked_def)
        with except_set [OF x1, of ?p] show ?thesis by (intro except_full [of _ j]) (simp_all add: d')
      next
        case False
        let ?p = "p\<lparr>p_phase := NoBody\<rparr>"
        let ?d2 = "(set_pending j ?p ?d)\<lparr>d_out := d_out d @ [?f] @ [End j]\<rparr>"
        have d': "d' = retire j (Some (p_tag p)) ?d2" using shape False by simp
        have "inv_except E j ?d2"
          using except_out [OF except_out [OF except_set [OF x, of ?p], of ?f], of "End j"] by simp
        then show ?thesis unfolding d' by (rule gone [of _ ?p]) simp_all
      qed
    next
      case (chunk r bs)
      have "handle_chunk E (p_tag p) j (of_nat (length dl)) bs ?d = (d', Inr ())"
        using h unfolding chunk(3) by simp
      from handle_chunk_cases [OF this] show ?thesis
      proof (elim disjE exE conjE)
        fix q
        assume q: "get_pending ?d j = Some q"
          and d': "d' = set_pending j (count_chunk bs q)
              (?d\<lparr>d_out := d_out ?d @ [Chunk j (of_nat (length dl)) (e_enc E bs)]\<rparr>)"
        have qp: "q = p" using q p by simp
        let ?p = "count_chunk bs p"
        have "agree j ?p ?t (events_for (p_tag p) evs) (dl @ [bs])"
          using chunk nums by (auto simp: agree_def agree_waiting_def count_chunk_def add.commute)
        moreover have "chunks_of j (d_out d') = numbered (e_enc E) (dl @ [bs])"
          using out chunk(1) by (simp add: d' numbered_snoc)
        ultimately have "linked E d' j ?p"
          using t by (auto simp: d' linked_def qp count_chunk_def)
        with except_set [OF except_out [OF x], of "Chunk j (of_nat (length dl)) (e_enc E bs)" ?p]
        show ?thesis by (intro except_full [of _ j]) (simp_all add: d' qp)
      next
        fix q assume "fail_request E j (p_tag p) ?d = (d', Inr ())"
        then show ?thesis by (rule failed)
      qed (use p in \<open>simp_all add: is_some_and_def\<close>)
    next
      case (finish r)
      have "handle_end E (p_tag p) j ?d = (d', Inr ())" using h unfolding finish(4) by simp
      then have d': "d' = retire j (Some (p_tag p)) (?d\<lparr>d_out := d_out d @ [End j]\<rparr>)"
        using handle_end_shape [of E "p_tag p" j ?d d' p] p finish(1) by simp
      have "inv_except E j (?d\<lparr>d_out := d_out d @ [End j]\<rparr>)" using except_out [OF x, of "End j"] by simp
      then show ?thesis unfolding d' by (rule gone [of _ p]) (use p in simp_all)
    next
      case failure
      then have "fail_request E j (p_tag p) ?d = (d', Inr ())"
        using h p unfolding failure by (simp add: handle_failure_def)
      then show ?thesis by (rule failed)
    qed
  qed
qed

subsection \<open>Frames\<close>

lemma peer_inv_frame:
  assumes "peer_inv E d" "\<And>i. get_pending d' i = get_pending d i" "d_tasks d' = d_tasks d"
    "d_events d' = d_events d" "\<And>i. chunks_of i (d_out d') = chunks_of i (d_out d)"
  shows "peer_inv E d'"
proof -
  have "linked E d' i q" if "linked E d i q" for i q
    by (rule linked_cong [OF that]) (simp_all add: assms)
  with assms show ?thesis by (simp add: peer_inv_def own_events_def distinct_tags_def)
qed

lemma spawn_step:
  assumes inv: "peer_inv E d" and i: "get_pending d i = None"
    and tags: "distinct_tags (spawn_request i path verb hs bs d)"
  shows "peer_inv E (spawn_request i path verb hs bs d)" (is "peer_inv E ?d")
proof -
  let ?k = "length (d_tasks d)"
  have ts: "d_tasks ?d ! k = d_tasks d ! k" if "k < ?k" for k
    using that by (simp add: spawn_request_def Let_def nth_append)
  have len: "length (d_tasks ?d) = Suc ?k" by (simp add: spawn_request_def Let_def)
  have ev: "d_events ?d = d_events d" "d_out ?d = d_out d" by (simp_all add: spawn_request_def Let_def)
  have own: "own_events ?d"
    using inv by (auto simp: peer_inv_def own_events_def spawn_request_def Let_def simp del: set_map)
  have new: "events_for (d_next_tag d) (d_events d) = []"
  proof (rule ccontr)
    assume "events_for (d_next_tag d) (d_events d) \<noteq> []"
    then obtain e where "e \<in> set (d_events d)" "ev_tag e = d_next_tag d"
      by (auto simp: events_for_def filter_empty_conv)
    then have "(d_next_tag d, ev_id e) \<in> set (map (\<lambda>t. (t_tag t, t_id t)) (d_tasks d))"
      using inv by (auto simp: peer_inv_def own_events_def simp del: set_map)
    then have "d_next_tag d \<in> set (map t_tag (d_tasks d))" by auto
    with tags show False by (simp add: distinct_tags_def spawn_request_def Let_def)
  qed
  have "linked E ?d j q" if "get_pending ?d j = Some q" for j q
  proof (cases "j = i")
    case True
    then have "q = \<lparr>p_tag = d_next_tag d, p_task = ?k, p_phase = AwaitingHeaders, p_next_sequence = 0,
        p_bytes = 0, p_chunks = 0\<rparr>"
      using that by (simp add: spawn_request_def Let_def get_pending_def update_conv')
    with new True show ?thesis
      by (simp add: linked_def spawn_request_def Let_def agree_def agree_headers_def)
  next
    case False
    then have "get_pending d j = Some q"
      using that by (simp add: spawn_request_def Let_def get_pending_def update_conv')
    then have l: "linked E d j q" using inv by (simp add: peer_inv_def)
    then have "p_task q < ?k" by (simp add: linked_def)
    then show ?thesis by (intro linked_cong [OF l]) (simp_all add: ts len ev)
  qed
  with own tags show ?thesis by (simp add: peer_inv_def)
qed

lemma agree_new_credit:
  assumes a: "agree i p t evs dl" and p: "p_phase p = WaitingCredit" "t_state t \<noteq> Finished"
  shows "agree i (p\<lparr>p_phase := CreditInFlight\<rparr>)
    (t\<lparr>t_commands := t_commands t @ [p_next_sequence p]\<rparr>) evs dl"
proof -
  have "agree_waiting i p t evs dl" and n: "p_next_sequence p = of_nat (length dl)"
    using a p by (simp_all add: agree_def)
  then have "agree_credited i (p\<lparr>p_phase := CreditInFlight\<rparr>)
      (t\<lparr>t_commands := t_commands t @ [p_next_sequence p]\<rparr>) evs dl"
    unfolding agree_waiting_def agree_credited_def
    by (elim conjE disjE exE) (auto simp: answered_def waiting_def gave_up_def)
  with a show ?thesis by (simp add: agree_def)
qed

lemma credit_step:
  assumes inv: "peer_inv E d" and h: "handle_credit i n d = (d', Inr ())"
  shows "peer_inv E d'"
proof (cases "get_pending d i")
  case None
  with h have "d' = d" by (auto simp: handle_credit_def split: if_splits)
  with inv show ?thesis by simp
next
  case (Some p)
  let ?p = "p\<lparr>p_phase := CreditInFlight\<rparr>" and ?f = "\<lambda>t. t\<lparr>t_commands := t_commands t @ [n]\<rparr>"
  have d': "d' = set_pending i ?p (update_task (p_task p) ?f d)"
    and c: "p_phase p = WaitingCredit" "p_next_sequence p = n" "t_state (d_tasks d ! p_task p) \<noteq> Finished"
    using h Some by (auto simp: handle_credit_def Let_def split: if_splits)
  have l: "linked E d i p" using inv Some by (simp add: peer_inv_def)
  then have t: "p_task p < length (d_tasks d)" "t_id (d_tasks d ! p_task p) = i" by (simp_all add: linked_def)
  have "inv_except E i d'"
    unfolding d' by (rule except_set [OF except_task [OF peer_inv_except [OF inv] t]]) simp_all
  moreover have "linked E d' i ?p"
    using l c agree_new_credit by (fastforce simp: linked_def d')
  ultimately show ?thesis by (intro except_full [of _ i]) (simp_all add: d')
qed

lemma cancel_step:
  assumes inv: "peer_inv E d" and h: "handle_cancel i d = (d', Inr ())"
  shows "peer_inv E d'"
proof (cases "get_pending d i")
  case None
  with h have "d' = d" by (auto simp: handle_cancel_def split: if_splits)
  with inv show ?thesis by simp
next
  case (Some p)
  then have l: "linked E d i p" using inv by (simp add: peer_inv_def)
  have "d' = retire i None d" using h Some by (simp add: handle_cancel_def)
  moreover have "p_task p < length (d_tasks d)" "t_id (d_tasks d ! p_task p) = i" "retires i None d"
    using l Some by (simp_all add: linked_def retires_def)
  ultimately show ?thesis using except_retire [OF peer_inv_except [OF inv] Some] by simp
qed

lemma input_step:
  assumes inv: "peer_inv E d" and h: "handle_input E f d = (d', Inr ())" and tags: "distinct_tags d'"
  shows "peer_inv E d'"
proof (cases f)
  case (Request i path verb hs body)
  then have h: "handle_request E i path verb hs body d = (d', Inr ())"
    using h by (auto simp: handle_input_def split: sum.splits)
  then have i: "get_pending d i = None" by (auto simp: handle_request_def Let_def split: if_splits)
  show ?thesis
  proof (cases "d_out d' = d_out d")
    case True
    then obtain bs where "d' = spawn_request i path verb hs bs d"
      using h by (auto simp: handle_request_def Let_def send_frame_ok split: if_splits sum.splits)
    with spawn_step [OF inv i] tags show ?thesis by simp
  next
    case False
    then have "d' = d\<lparr>d_tombstones := tb_insert i (d_tombstones d), d_out := d_out d @ [Cancel i]\<rparr>"
      using h by (auto simp: handle_request_def Let_def send_frame_ok spawn_request_def
          split: if_splits sum.splits)
    then show ?thesis by (intro peer_inv_frame [OF inv]) simp_all
  qed
next
  case (Credit i n)
  with h have "handle_credit i n d = (d', Inr ())" by (auto simp: handle_input_def split: sum.splits)
  then show ?thesis by (rule credit_step [OF inv])
next
  case (Cancel i)
  with h have "handle_cancel i d = (d', Inr ())" by (auto simp: handle_input_def split: sum.splits)
  then show ?thesis by (rule cancel_step [OF inv])
qed (use h in \<open>auto simp: handle_input_def split: sum.splits\<close>)

subsection \<open>Sessions\<close>

lemma tasks_ok_distinct:
  assumes "tasks_ok port auth d" "Suc (length (d_tasks d)) < 2 ^ 64"
  shows "distinct_tags d"
proof -
  have "t_tag (d_tasks d ! k) \<noteq> t_tag (d_tasks d ! k')"
    if "k < length (d_tasks d)" "k' < length (d_tasks d)" "k \<noteq> k'" for k k'
  proof -
    have "t_tag (d_tasks d ! k) = of_nat (Suc k)" "t_tag (d_tasks d ! k') = of_nat (Suc k')"
      using assms that by (simp_all add: tasks_ok_def Let_def del: of_nat_Suc)
    moreover have "unat (of_nat (Suc j) :: u64) = Suc j" if "j < length (d_tasks d)" for j
      using that assms(2) by (simp add: unat_of_nat take_bit_nat_eq_self del: of_nat_Suc)
    ultimately show ?thesis using that by (metis Suc_inject)
  qed
  then show ?thesis by (simp add: distinct_tags_def distinct_conv_nth)
qed

definition session_inv :: "env \<Rightarrow> u16 \<Rightarrow> string \<Rightarrow> driver \<Rightarrow> bool" where
  "session_inv E port auth d \<longleftrightarrow> driver_ok E d \<and> tasks_ok port auth d
     \<and> (d_result d = None \<and> Suc (length (d_tasks d)) < 2 ^ 64 \<longrightarrow> peer_inv E d)"

lemma length_fixed: "fixed_part d' = fixed_part d \<Longrightarrow> length (d_tasks d') = length (d_tasks d)"
  by (auto simp: fixed_part_def dest: map_eq_imp_length_eq)

lemma settle_ok: "d_result (settle_result (d, r)) = None \<Longrightarrow> r = Inr () \<and> settle_result (d, r) = d"
  by (cases r) simp_all

lemma peer_inv_step:
  assumes "peer_step E d d'" "peer_inv E d" "driver_ok E d" "d_result d' = None" "distinct_tags d'"
  shows "peer_inv E d'"
  using assms
proof (induction rule: peer_step.induct)
  case (frame_in d f)
  obtain d1 r where h: "handle_input E f d = (d1, r)" by fastforce
  with frame_in settle_ok [of d1 r] input_step show ?case by metis
next
  case (event_in d ev evs)
  obtain d1 r where h: "handle_event E ev (d\<lparr>d_events := evs\<rparr>) = (d1, r)" by fastforce
  with event_in settle_ok [of d1 r] event_step show ?case by metis
next
  case (input_closed d)
  then show ?case by simp
next
  case (respond d k answer)
  then show ?case by (intro task_step_silent) (auto intro: agree_respond)
next
  case (emit d k ev st)
  have "ev_tag ev = t_tag (d_tasks d ! k) \<and> ev_id ev = t_id (d_tasks d ! k)"
    using emit(4) by (cases "t_state (d_tasks d ! k)") auto
  then show ?case using emit by (intro task_step) (auto intro: agree_emit)
next
  case (credit d k l n ns)
  then show ?case by (intro task_step_silent) (auto intro: agree_credit)
next
  case (credit_closed d k l)
  have "p_task p \<noteq> k" if "get_pending d i = Some p" for i p
    using credit_closed(5) that map_of_SomeD
    by (fastforce simp: commands_closed_def get_pending_def list_all_iff)
  then show ?case using credit_closed by (intro task_step_silent) auto
next
  case (task_timeout d k)
  then show ?case by (intro task_step_silent) (auto intro: agree_timed_out)
next
  case (task_aborted d k)
  then show ?case by (intro task_step_silent) auto
next
  case (task_panicked d k)
  then show ?case by simp
qed

lemma step_alive: "peer_step E d d' \<Longrightarrow> d_result d = None"
  by (induction rule: peer_step.induct) simp_all

lemma step_tasks: "peer_step E d d' \<Longrightarrow> length (d_tasks d) \<le> length (d_tasks d')"
proof (induction rule: peer_step.induct)
  case (frame_in d f)
  obtain d1 r where h: "handle_input E f d = (d1, r)" by fastforce
  have "length (d_tasks d) \<le> length (d_tasks d1)"
    using fixed_handle_input [OF h]
  proof (elim disjE exE conjE)
    assume "fixed_part d1 = fixed_part d"
    from length_fixed [OF this] show ?thesis by simp
  qed (simp add: spawn_request_def Let_def)
  with h show ?case by (simp add: settle_result_eq split: sum.split)
next
  case (event_in d ev evs)
  obtain d1 r where h: "handle_event E ev (d\<lparr>d_events := evs\<rparr>) = (d1, r)" by fastforce
  with length_fixed [OF fixed_handle_event [OF h]] show ?case by (simp add: settle_result_eq split: sum.split)
qed simp_all

lemma session_inv_step:
  assumes inv: "session_inv E port auth d" and s: "peer_step E d d'"
  shows "session_inv E port auth d'"
proof -
  have ok: "driver_ok E d'" "tasks_ok port auth d'"
    using inv driver_ok_step [OF s] tasks_ok_step [OF s] by (simp_all add: session_inv_def)
  have "peer_inv E d'" if "d_result d' = None" "Suc (length (d_tasks d')) < 2 ^ 64"
  proof -
    have "peer_inv E d" "driver_ok E d"
      using inv step_alive [OF s] step_tasks [OF s] that(2) by (simp_all add: session_inv_def)
    from peer_inv_step [OF s this that(1) tasks_ok_distinct [OF ok(2) that(2)]] show ?thesis .
  qed
  with ok show ?thesis by (simp add: session_inv_def)
qed

interpretation peer_session: invariant_machine "peer_step E" "session_inv E port auth" for E port auth
  by unfold_locales (rule session_inv_step)

lemma session_inv_reachable:
  assumes "run_peer port token built = Inr d0" "(peer_step E)\<^sup>*\<^sup>* d0 d"
  shows "session_inv E port (bearer_prefix @ token) d"
proof -
  have "peer_inv E d0"
    using run_peer_start(1) [OF assms(1)]
    by (simp add: peer_inv_def own_events_def distinct_tags_def get_pending_def)
  then have "session_inv E port (bearer_prefix @ token) d0"
    using driver_ok_start [OF assms(1)] tasks_ok_start [OF assms(1)] by (simp add: session_inv_def)
  with assms(2) show ?thesis using peer_session.inv_reach by blast
qed

end
