(* ===== verification/Reverse_Peer_Delivery.thy ===== *)
theory Reverse_Peer_Delivery
  imports Reverse_Peer_Session
begin

text \<open>
  What the relay can rely on, from the invariant of \<open>Reverse_Peer_Session\<close>: a stream closed by a lone
  \<open>End\<close> carried the whole body of the local answer, the driver never fails a request for an event
  its own tasks send in order, and a credit in turn reaches its task unless the task has ended
  already. A concrete session (\<open>demo_\<close>...) in which a body of one byte is delivered shows that the
  hypotheses can hold.
\<close>


section \<open>What the relay can rely on\<close>

subsection \<open>Sending\<close>

lemma send_valid:
  assumes "compact_printer (e_json E)" "driver_frame f" "validate_frame (e_enc E) (e_dec E) f = Inr ()"
  shows "send_frame E f d = (if e_sends E (length (d_out d)) then (d\<lparr>d_out := d_out d @ [f]\<rparr>, Inr ())
    else (d, Inl Unavailable))"
  by (simp add: send_frame_def driver_frame_printed [OF assms])

lemma filtered_headers_few: "length (filtered_response_headers get) \<le> 3"
  by (simp add: filtered_response_headers_def response_header_names_def split: option.split)

lemma filtered_headers_valid: "validate_headers (filtered_response_headers get) False"
  by (auto simp: validate_headers_def filtered_response_headers_def list_all_iff
      response_header_names_def max_header_value_bytes_def split: option.splits if_splits)

lemma send_out:
  "send_frame E f d = (d', r) \<Longrightarrow> d_out d' = d_out d \<or> d_out d' = d_out d @ [f]"
  by (erule send_frame_cases) simp_all

lemma handle_event_out:
  assumes h: "handle_event E ev d = (d', r)" and o: "d_out d' = d_out d @ [End i]"
  shows "\<exists>tag p. ev = EvEnd tag i \<and> get_pending d i = Some p \<and> p_tag p = tag \<and> p_phase p = CreditInFlight"
proof (cases ev)
  case (EvHeaders tag j status hs allowed)
  have "d_out d' = d_out d \<or> d_out d' = d_out d @ [Response j status hs]
      \<or> d_out d' = d_out d @ [Response j status hs] @ [End j]"
  proof (cases "is_some_and (\<lambda>p. p_tag p = tag \<and> p_phase p = AwaitingHeaders) (get_pending d j)")
    case True
    obtain d1 r1 where s: "send_frame E (Response j status hs) d = (d1, r1)" by fastforce
    from s show ?thesis
    proof (cases rule: send_frame_cases)
      case (sent t)
      show ?thesis
      proof (cases allowed)
        case False
        obtain d2 r2 where s2: "send_frame E (End j) (set_phase j tag NoBody d1) = (d2, r2)" by fastforce
        have "d_out (set_phase j tag NoBody d1) = d_out d1" by (simp add: set_phase_def split: option.split)
        with send_out [OF s2] have "d_out d2 = d_out d1 \<or> d_out d2 = d_out d1 @ [End j]" by simp
        moreover have "d_out d' = d_out d2"
          using h EvHeaders True s s2 sent False by (cases r2) (auto simp: handle_headers_def is_some_and_iff)
        ultimately show ?thesis using sent by auto
      qed (use h EvHeaders True s sent in \<open>auto simp: handle_headers_def is_some_and_iff set_phase_def
          split: option.splits if_splits\<close>)
    qed (use h EvHeaders True s in \<open>auto simp: handle_headers_def is_some_and_iff\<close>)
  qed (use h EvHeaders in \<open>auto simp: handle_headers_def split: option.splits if_splits\<close>)
  with o show ?thesis by auto
next
  case (EvChunk tag j n bs)
  with h have "handle_chunk E tag j n bs d = (d', r)" by simp
  from handle_chunk_cases [OF this] o have False
    by (elim disjE exE conjE) (auto simp: fail_request_def dest: send_out)
  then show ?thesis ..
next
  case (EvFailure tag j)
  with h o have False by (auto simp: handle_failure_def fail_request_def split: if_splits dest: send_out)
  then show ?thesis ..
next
  case (EvEnd tag j)
  with h o have p: "is_some_and (\<lambda>p. p_tag p = tag \<and> p_phase p = CreditInFlight) (get_pending d j)"
    by (auto simp: handle_end_def fail_request_def is_some_and_def split: option.splits if_splits dest: send_out)
  then have e: "handle_end E tag j d = and_then (send_frame E (End j) d) (\<lambda>d. (retire j (Some tag) d, Inr ()))"
    by (auto simp: handle_end_def is_some_and_iff)
  obtain d1 r1 where s: "send_frame E (End j) d = (d1, r1)" by fastforce
  with h EvEnd e have "d_out d' = d_out d1" by (cases r1) auto
  with send_out [OF s] o have "j = i" by auto
  with p EvEnd show ?thesis by (auto simp: is_some_and_iff)
qed

lemma handle_input_out:
  assumes "handle_input E f d = (d', r)"
  shows "d_out d' \<noteq> d_out d @ [End i]"
proof
  assume o: "d_out d' = d_out d @ [End i]"
  show False
  proof (cases f)
    case (Request j path verb hs body)
    with assms o show False
      by (auto simp: handle_input_def handle_request_def spawn_request_def Let_def
          split: sum.splits if_splits dest: send_out)
  qed (use assms o in \<open>auto simp: handle_input_def handle_credit_def handle_cancel_def Let_def
      split: sum.splits if_splits option.splits\<close>)
qed

subsection \<open>Delivery\<close>

text \<open>C19 (delivery): when the driver closes a stream by a lone \<open>End\<close>, the chunks it sent for the id
  since the response, numbered from zero without a gap, are the encodings of pieces of at most
  16 KiB that make up the whole body the local server answered, read to its end without an error.
  (A session of fewer than \<open>2 ^ 64\<close> requests.)\<close>

theorem ended_stream_is_the_whole_body:
  assumes "run_peer port token built = Inr d0" "(peer_step E)\<^sup>*\<^sup>* d0 d"
    and "Suc (length (d_tasks d)) < 2 ^ 64"
    and "peer_step E d d'" "d_out d' = d_out d @ [End i]"
  shows "\<exists>t \<in> set (d_tasks d). \<exists>r dl. t_id t = i \<and> t_response t = Some r \<and> \<not> lp_broken r
    \<and> concat dl = concat (lp_pieces r)
    \<and> chunks_of i (d_out d) = map (\<lambda>k. (of_nat k, e_enc E (dl ! k))) [0..<length dl]
    \<and> (\<forall>b \<in> set dl. 1 \<le> length b \<and> length b \<le> 16384)"
proof -
  have inv: "peer_inv E d"
    using session_inv_reachable [OF assms(1,2)] step_alive [OF assms(4)] assms(3)
    by (simp add: session_inv_def)
  have out: "d_out (settle_result x) = d_out (fst x)" for x
    by (cases x) (simp add: settle_result_eq split: sum.split)
  from assms(4,5) obtain ev evs where e: "d_events d = ev # evs"
    "d_out (fst (handle_event E ev (d\<lparr>d_events := evs\<rparr>))) = d_out (d\<lparr>d_events := evs\<rparr>) @ [End i]"
  proof (cases rule: peer_step.cases)
    case (frame_in f)
    with assms(5) handle_input_out [of E f d "fst (handle_input E f d)" "snd (handle_input E f d)" i]
    show ?thesis by (simp add: out)
  next
    case (event_in ev evs)
    with assms(5) that [of ev evs] show ?thesis by (simp add: out)
  qed simp_all
  obtain d1 r1 where "handle_event E ev (d\<lparr>d_events := evs\<rparr>) = (d1, r1)" by fastforce
  with e(2) handle_event_out [of E ev "d\<lparr>d_events := evs\<rparr>" d1 r1 i]
  obtain tag p where ev: "ev = EvEnd tag i" and p: "get_pending d i = Some p" "p_tag p = tag"
    "p_phase p = CreditInFlight"
    by auto
  from pending_event [OF inv e(1), of p] p ev obtain dl
    where a: "agree i p (d_tasks d ! p_task p) (ev # events_for (p_tag p) evs) dl"
      "chunks_of i (d_out d) = numbered (e_enc E) dl"
      "p_task p < length (d_tasks d)" "t_id (d_tasks d ! p_task p) = i"
    by auto
  from a(1) show ?thesis
  proof (cases rule: agree_event_cases)
    case (finish r)
    have "\<forall>b \<in> set dl. 1 \<le> length b \<and> length b \<le> 16384"
      using finish(3) by (auto simp: content_def max_chunk_body_bytes_def Suc_le_eq)
    with finish a show ?thesis
      by (intro bexI [of _ "d_tasks d ! p_task p"] exI [of _ r] exI [of _ dl])
        (simp_all add: answered_def body_of_def numbered_def)
  qed (use ev p in simp_all)
qed

subsection \<open>No request is failed for an agreeing task\<close>

text \<open>C26 (agreement): in every reachable session the driver and its tasks never disagree: with a JSON printer
  that writes no more than compact JSON, so that what the driver sends fits the wire, an event of a task never
  ends the session for any reason but a failed send, and the driver cancels a request only when its task
  itself reported a failure. (A session of fewer than \<open>2 ^ 64\<close> requests.)\<close>

theorem driver_agrees_with_its_tasks:
  assumes "run_peer port token built = Inr d0" "(peer_step E)\<^sup>*\<^sup>* d0 d"
    and "Suc (length (d_tasks d)) < 2 ^ 64" "d_result d = None" "d_events d = ev # evs"
    and "base64_engine (e_enc E) (e_dec E)" "compact_printer (e_json E)"
    and "handle_event E ev (d\<lparr>d_events := evs\<rparr>) = (d', r)"
  shows "(r = Inr () \<or> r = Inl Unavailable)
    \<and> (\<exists>fs. d_out d' = d_out d @ fs \<and> (\<forall>i. Cancel i \<in> set fs \<longrightarrow> ev = EvFailure (ev_tag ev) i))"
proof -
  let ?d = "d\<lparr>d_events := evs\<rparr>"
  define j where "j = ev_id ev"
  have s: "session_inv E port (bearer_prefix @ token) d"
    using assms(1,2) by (rule session_inv_reachable)
  then have inv: "peer_inv E d" and tasks: "tasks_ok port (bearer_prefix @ token) d"
    using assms(3,4) by (simp_all add: session_inv_def)
  show ?thesis
  proof (cases "is_some_and (\<lambda>p. p_tag p = ev_tag ev) (get_pending d j)")
    case False
    then have "d' = ?d \<and> r = Inr ()"
      using assms(8) event_none [of ev ?d E] by (simp add: j_def)
    then show ?thesis by simp
  next
    case True
    then obtain p where p: "get_pending d j = Some p" "p_tag p = ev_tag ev" by (auto simp: is_some_and_iff)
    obtain dl where a: "agree j p (d_tasks d ! p_task p) (ev # events_for (p_tag p) evs) dl"
      and t: "p_task p < length (d_tasks d)" "t_id (d_tasks d ! p_task p) = j"
      using pending_event [OF inv assms(5) p [unfolded j_def]] unfolding j_def by blast
    have id: "validate_id j" using tasks t by (auto simp: tasks_ok_def Let_def)
    note send = send_valid [OF assms(7)]
    have marker: "send_frame E (f j) x = (if e_sends E (length (d_out x)) then (x\<lparr>d_out := d_out x @ [f j]\<rparr>, Inr ())
        else (x, Inl Unavailable))" if "f = End \<or> f = Cancel" for f x
      using that id by (intro send) (auto simp: validate_marker_iff)
    from a show ?thesis
    proof (cases rule: agree_event_cases)
      case (headers q)
      have v: "validate_frame (e_enc E) (e_dec E)
          (Response j (lp_status q) (filtered_response_headers (lp_header q))) = Inr ()"
        using headers(3) id filtered_headers_valid unfolding validate_response_iff by (simp add: answered_def)
      have h: "handle_headers E (p_tag p) j (lp_status q) (filtered_response_headers (lp_header q))
          (body_allowed (lp_status q)) ?d = (d', r)"
        using assms(8) unfolding headers(4) by simp
      have "(r = Inr () \<or> r = Inl Unavailable) \<and> (\<exists>fs. d_out d' = d_out d @ fs \<and> (\<forall>i. Cancel i \<notin> set fs))"
        using h p headers(1) marker [of End]
        by (auto simp: handle_headers_def send [OF _ v] filtered_headers_few set_phase_def split: if_splits)
      then show ?thesis by blast
    next
      case (chunk q bs)
      have b: "bs \<noteq> []" "length bs \<le> max_chunk_body_bytes" "length (concat (dl @ [bs])) \<le> max_response_bytes"
          "length (dl @ [bs]) \<le> max_response_chunks"
        using chunk(5) by (simp_all add: content_def)
      have n: "p_next_sequence p = of_nat (length dl)" "p_chunks p = length dl" "p_bytes p = length (concat dl)"
        using a by (simp_all add: agree_def)
      have fits: "chunk_fits p (of_nat (length dl)) bs"
        using chunk(1) b n by (simp add: chunk_fits_def)
      have seq: "validate_sequence (of_nat (length dl))"
        using b(4) by (simp add: validate_sequence_def max_safe_sequence_def max_response_chunks_def
            unat_of_nat take_bit_nat_eq_self)
      have v: "validate_frame (e_enc E) (e_dec E) (Chunk j (of_nat (length dl)) (e_enc E bs)) = Inr ()"
        using base64_engine.chunk_body_valid [OF assms(6) b(1,2) id seq] by simp
      have h: "handle_chunk E (p_tag p) j (of_nat (length dl)) bs ?d = (d', r)"
        using assms(8) unfolding chunk(3) by simp
      have enc: "encode_body (e_enc E) bs = Inr (e_enc E bs)"
        using base64_engine.chunk_body_valid [OF assms(6) b(1,2) id seq] by simp
      have "(r = Inr () \<or> r = Inl Unavailable) \<and> (\<exists>fs. d_out d' = d_out d @ fs \<and> (\<forall>i. Cancel i \<notin> set fs))"
        using h p fits enc
        by (auto simp: handle_chunk_def send [OF _ v] chunk_fits_def min_def split: if_splits)
      then show ?thesis by blast
    next
      case (finish q)
      have h: "handle_end E (p_tag p) j ?d = (d', r)" using assms(8) unfolding finish(4) by simp
      have "(r = Inr () \<or> r = Inl Unavailable) \<and> (\<exists>fs. d_out d' = d_out d @ fs \<and> (\<forall>i. Cancel i \<notin> set fs))"
        using h p finish(1) marker [of End] by (auto simp: handle_end_def split: if_splits)
      then show ?thesis by blast
    next
      case failure
      have h: "handle_failure E (p_tag p) j ?d = (d', r)" using assms(8) unfolding failure by simp
      have "(r = Inr () \<or> r = Inl Unavailable) \<and> (\<exists>fs. d_out d' = d_out d @ fs \<and> (\<forall>i. Cancel i \<in> set fs \<longrightarrow> i = j))"
        using h p marker [of Cancel] by (auto simp: handle_failure_def fail_request_def split: if_splits)
      moreover have "EvFailure (ev_tag ev) j = ev" using failure p(2) by simp
      ultimately show ?thesis by metis
    qed
  qed
qed

subsection \<open>A session in which a body is delivered\<close>

definition demo_body :: local_response where
  "demo_body = \<lparr>lp_status = 200, lp_header = (\<lambda>_. None), lp_pieces = [[7]], lp_broken = False\<rparr>"

definition demo_driver :: "stream_phase \<Rightarrow> nat \<Rightarrow> task_state \<Rightarrow> u64 list \<Rightarrow> local_response option
    \<Rightarrow> task_event list \<Rightarrow> frame list \<Rightarrow> driver" where
  "demo_driver ph n st cs answer evs out = demo_start\<lparr>
     d_pending := [(''a'', \<lparr>p_tag = 1, p_task = 0, p_phase = ph, p_next_sequence = of_nat n,
       p_bytes = n, p_chunks = n\<rparr>)],
     d_next_tag := 2, d_events := evs, d_out := out,
     d_tasks := [\<lparr>t_tag = 1, t_id = ''a'', t_request = \<lparr>lr_method = ''GET'',
       lr_url = local_url 8080 ''/connector-info'', lr_headers = [], lr_body = []\<rparr>,
       t_state = st, t_commands = cs, t_response = answer, t_aborted = False\<rparr>]\<rparr>"

definition demo_loop :: "nat \<Rightarrow> stream_loop" where
  "demo_loop n = \<lparr>l_buffered = replicate n 7, l_offset = n, l_sequence = of_nat n, l_bytes_total = n,
     l_chunks_total = n, l_rest = (if n = 0 then [[7]] else []), l_broken = False\<rparr>"

definition demo_out :: "frame list" where
  "demo_out = [Response ''a'' 200 [], Chunk ''a'' 0 (rfc_encode [7])]"

definition demo_ending :: driver where
  "demo_ending = demo_driver CreditInFlight 1 Finished [] (Some demo_body) [EvEnd 1 ''a''] demo_out"

lemma demo_fits: "compact_printer (e_json demo_env)"
  by (simp add: demo_env_def compact_printer_compact_json)

lemma demo_engine: "base64_engine (e_enc demo_env) (e_dec demo_env)"
  by (simp add: demo_env_def rfc.base64_engine_axioms)

lemma demo_sends: "driver_frame f \<Longrightarrow> validate_frame rfc_encode rfc_decode f = Inr () \<Longrightarrow>
    send_frame demo_env f d = (d\<lparr>d_out := d_out d @ [f]\<rparr>, Inr ())"
  using send_valid [OF demo_fits, of f d] by (simp add: demo_env_def)

lemma demo_shape:
  assumes "validate_frame rfc_encode rfc_decode f = Inr ()"
    and "driver_frame f \<or> f = Request ''a'' ''/connector-info'' ''GET'' [] []"
  shows "validate_frame_shape demo_env f = Inr ()"
proof -
  have "length (compact_json (wire_entries f)) \<le> max_wire_bytes"
    using assms driver_frame_fits demo_request_short by blast
  with assms(1) show ?thesis by (simp add: validate_frame_shape_def encode_frame_def demo_env_def Let_def not_less)
qed

lemma demo_id: "validate_id ''a''"
  by (simp add: validate_id_def max_id_bytes_def is_token_byte_def is_alphanumeric_def)

lemma demo_requested:
  "peer_step demo_env demo_start (demo_driver AwaitingHeaders 0 Requesting [] None [] [])"
proof -
  let ?f = "Request ''a'' ''/connector-info'' ''GET'' [] []"
  have d: "decode_body rfc_encode rfc_decode [] = Inr []"
    by (simp add: rfc.decode_body_iff encode_body_def)
  have "validate_frame rfc_encode rfc_decode ?f = Inr ()"
    unfolding validate_request_iff using d demo_id
    by (simp add: validate_headers_def)
  from demo_shape [OF this] d
  have "handle_input demo_env ?f demo_start = (demo_driver AwaitingHeaders 0 Requesting [] None [] [], Inr ())"
    by (simp add: handle_input_def handle_request_def demo_start_def demo_env_def get_pending_def
        tb_contains_def new_tombstones_def max_pending_def Let_def spawn_request_def demo_driver_def
        next_token_def)
  with peer_step.frame_in [of demo_start demo_env ?f] show ?thesis by (simp add: demo_start_def)
qed

lemma demo_credit:
  assumes "n \<le> 1"
  shows "peer_step demo_env (demo_driver WaitingCredit n (AwaitCredit l) [] r [] out)
    (demo_driver CreditInFlight n (AwaitCredit l) [of_nat n] r [] out)"
proof -
  have "validate_frame rfc_encode rfc_decode (Credit ''a'' (of_nat n)) = Inr ()"
    using demo_id assms by (simp add: validate_marker_iff validate_sequence_def max_safe_sequence_def
        unat_of_nat take_bit_nat_eq_self)
  then have "handle_input demo_env (Credit ''a'' (of_nat n)) (demo_driver WaitingCredit n (AwaitCredit l) [] r [] out)
      = (demo_driver CreditInFlight n (AwaitCredit l) [of_nat n] r [] out, Inr ())"
    by (simp add: handle_input_def demo_shape handle_credit_def demo_driver_def get_pending_def
        demo_start_def set_pending_def update_task_def)
  with peer_step.frame_in [of "demo_driver WaitingCredit n (AwaitCredit l) [] r [] out" demo_env "Credit ''a'' (of_nat n)"]
  show ?thesis by (simp add: demo_driver_def demo_start_def)
qed

lemma demo_emit:
  assumes "task_emits 1 ''a'' st = Some (ev, st')"
  shows "peer_step demo_env (demo_driver ph n st cs r [] out) (demo_driver ph n st' cs r [ev] out)"
  using peer_step.emit [of "demo_driver ph n st cs r [] out" 0 ev st' demo_env] assms
  by (simp add: demo_driver_def demo_start_def update_task_def event_capacity_def max_pending_def)

lemma demo_credit_turn:
  "peer_step demo_env (demo_driver ph n (AwaitCredit l) [c] r [] out)
     (demo_driver ph n (after_credit l c) [] r [] out)"
  using peer_step.credit [of "demo_driver ph n (AwaitCredit l) [c] r [] out" 0 l c "[]" demo_env]
  by (simp add: demo_driver_def demo_start_def update_task_def)

lemma demo_event:
  assumes "handle_event demo_env ev (demo_driver ph n st cs r [] out) = (d, Inr ())"
  shows "peer_step demo_env (demo_driver ph n st cs r [ev] out) d"
  using peer_step.event_in [of "demo_driver ph n st cs r [ev] out" ev "[]" demo_env] assms
  by (simp add: demo_driver_def demo_start_def)

lemma demo_announced:
  "peer_step demo_env (demo_driver AwaitingHeaders 0 Requesting [] None [] [])
    (demo_driver AwaitingHeaders 0 (Announcing 200 [] True (demo_loop 0)) [] (Some demo_body) [] [])"
  using peer_step.respond [of "demo_driver AwaitingHeaders 0 Requesting [] None [] []" 0 demo_env "Some demo_body"]
  by (simp add: demo_driver_def demo_start_def update_task_def task_respond_def demo_body_def
      demo_loop_def filtered_response_headers_def body_allowed_def initial_loop_def)

lemma demo_headers:
  "peer_step demo_env (demo_driver AwaitingHeaders 0 st [] r [EvHeaders 1 ''a'' 200 [] True] [])
    (demo_driver WaitingCredit 0 st [] r [] [Response ''a'' 200 []])"
proof (rule demo_event)
  have "validate_frame rfc_encode rfc_decode (Response ''a'' 200 []) = Inr ()"
    using demo_id by (simp add: validate_response_iff validate_headers_def)
  from demo_sends [OF _ this]
  show "handle_event demo_env (EvHeaders 1 ''a'' 200 [] True) (demo_driver AwaitingHeaders 0 st [] r [] [])
    = (demo_driver WaitingCredit 0 st [] r [] [Response ''a'' 200 []], Inr ())"
    by (simp add: handle_headers_def demo_driver_def demo_start_def get_pending_def set_phase_def
        set_pending_def and_then_def)
qed

lemma demo_chunk:
  "peer_step demo_env (demo_driver CreditInFlight 0 st [] r [EvChunk 1 ''a'' 0 [7]] [Response ''a'' 200 []])
    (demo_driver WaitingCredit 1 st [] r [] demo_out)"
proof (rule demo_event)
  have v: "validate_frame rfc_encode rfc_decode (Chunk ''a'' 0 (rfc_encode [7])) = Inr ()"
    using rfc.chunk_body_valid [of "[7]" "''a''" 0] demo_id
    by (simp add: max_chunk_body_bytes_def validate_sequence_def)
  have "encode_body (e_enc demo_env) [7] = Inr (rfc_encode [7])"
    by (simp add: encode_body_def demo_env_def max_request_body_bytes_def)
  with demo_sends [OF _ v]
  show "handle_event demo_env (EvChunk 1 ''a'' 0 [7])
      (demo_driver CreditInFlight 0 st [] r [] [Response ''a'' 200 []])
    = (demo_driver WaitingCredit 1 st [] r [] demo_out, Inr ())"
    by (simp add: handle_chunk_def demo_driver_def demo_start_def get_pending_def
        set_pending_def and_then_def max_chunk_body_bytes_def max_response_bytes_def
        max_response_chunks_def demo_out_def)
qed

lemma demo_turns:
  "after_credit (demo_loop 0) 0 = SendingChunk 0 [7] (demo_loop 1\<lparr>l_sequence := 0\<rparr>)"
  "after_credit (demo_loop 1) 1 = SendingEnd"
  by (simp_all add: after_credit_def stream_turn_def demo_loop_def fill.simps max_response_bytes_def
      max_chunk_body_bytes_def max_response_chunks_def)

definition demo_waiting :: driver where
  "demo_waiting = demo_driver WaitingCredit 0 (AwaitCredit (demo_loop 0)) [] (Some demo_body) []
     [Response ''a'' 200 []]"

lemma demo_waits: "(peer_step demo_env)\<^sup>*\<^sup>* demo_start demo_waiting"
proof -
  have e: "task_emits 1 ''a'' (Announcing 200 [] True (demo_loop 0))
      = Some (EvHeaders 1 ''a'' 200 [] True, AwaitCredit (demo_loop 0))" by simp
  note step = converse_rtranclp_into_rtranclp
  show ?thesis unfolding demo_waiting_def
    by (rule step demo_requested demo_announced demo_emit [OF e] demo_headers rtranclp.rtrancl_refl)+
qed

lemma demo_reaches: "(peer_step demo_env)\<^sup>*\<^sup>* demo_start demo_ending"
proof -
  let ?r = "Some demo_body"
  have e: "task_emits 1 ''a'' (SendingChunk 0 [7] (demo_loop 1\<lparr>l_sequence := 0\<rparr>))
      = Some (EvChunk 1 ''a'' 0 [7], AwaitCredit (demo_loop 1))"
    "task_emits 1 ''a'' SendingEnd = Some (EvEnd 1 ''a'', Finished)"
    by (simp_all add: demo_loop_def)
  have c: "peer_step demo_env (demo_driver WaitingCredit 0 st [] ?r [] out) (demo_driver CreditInFlight 0 st [0] ?r [] out)"
    "peer_step demo_env (demo_driver WaitingCredit 1 st [] ?r [] out) (demo_driver CreditInFlight 1 st [1] ?r [] out)"
    if "\<exists>l. st = AwaitCredit l" for st out
    using that demo_credit [of 0] demo_credit [of 1] by auto
  note step = converse_rtranclp_into_rtranclp
  have "(peer_step demo_env)\<^sup>*\<^sup>* demo_waiting demo_ending" unfolding demo_ending_def demo_waiting_def
    by (rule step demo_chunk
        c demo_credit_turn [of _ _ "demo_loop 0" 0, unfolded demo_turns] rtranclp.rtrancl_refl exI refl
        demo_credit_turn [of _ _ "demo_loop 1" 1, unfolded demo_turns] demo_emit [OF e(1)] demo_emit [OF e(2)])+
  with demo_waits show ?thesis by (rule rtranclp_trans)
qed


lemma ended_stream_is_the_whole_body_witness:
  "\<exists>t \<in> set (d_tasks demo_ending). \<exists>r dl. t_id t = ''a'' \<and> t_response t = Some r \<and> \<not> lp_broken r
    \<and> concat dl = concat (lp_pieces r)
    \<and> chunks_of ''a'' (d_out demo_ending) = map (\<lambda>k. (of_nat k, e_enc demo_env (dl ! k))) [0..<length dl]
    \<and> (\<forall>b \<in> set dl. 1 \<le> length b \<and> length b \<le> 16384)"
proof (rule ended_stream_is_the_whole_body [OF demo_starts demo_reaches])
  show "peer_step demo_env demo_ending
    (settle_result (handle_event demo_env (EvEnd 1 ''a'') (demo_ending\<lparr>d_events := []\<rparr>)))"
    by (rule peer_step.event_in) (simp_all add: demo_ending_def demo_driver_def demo_start_def)
  have "validate_frame rfc_encode rfc_decode (End ''a'') = Inr ()"
    using demo_id by (simp add: validate_marker_iff)
  from demo_sends [OF _ this]
  show "d_out (settle_result (handle_event demo_env (EvEnd 1 ''a'') (demo_ending\<lparr>d_events := []\<rparr>)))
      = d_out demo_ending @ [End ''a'']"
    by (simp add: handle_end_def and_then_def retire_def get_pending_def update_task_def
        demo_ending_def demo_driver_def demo_start_def)
qed (simp add: demo_ending_def demo_driver_def)

lemma driver_agrees_with_its_tasks_witness:
  "snd (handle_event demo_env (EvEnd 1 ''a'') (demo_ending\<lparr>d_events := []\<rparr>)) = Inr ()
   \<or> snd (handle_event demo_env (EvEnd 1 ''a'') (demo_ending\<lparr>d_events := []\<rparr>)) = Inl Unavailable"
  using driver_agrees_with_its_tasks [OF demo_starts demo_reaches, of "EvEnd 1 ''a''" "[]"
      "fst (handle_event demo_env (EvEnd 1 ''a'') (demo_ending\<lparr>d_events := []\<rparr>))"
      "snd (handle_event demo_env (EvEnd 1 ''a'') (demo_ending\<lparr>d_events := []\<rparr>))",
      OF _ _ _ demo_engine demo_fits prod.collapse [symmetric]]
  by (simp add: demo_ending_def demo_driver_def demo_start_def)

text \<open>C27 (error): in every reachable session the credit a waiting stream expects is queued for the
  task of the stream, unless that task has already ended after a failure that the driver has not
  handled yet: then the credit ends the whole session. A credit of any other sequence number is
  refused as invalid input. (A session of fewer than \<open>2 ^ 64\<close> requests.)\<close>

theorem credit_reaches_its_task:
  assumes "run_peer port token built = Inr d0" "(peer_step E)\<^sup>*\<^sup>* d0 d"
    and "Suc (length (d_tasks d)) < 2 ^ 64" "d_result d = None"
    and p: "get_pending d i = Some p" "p_phase p = WaitingCredit"
  shows "handle_credit i n d =
      (if n \<noteq> p_next_sequence p then (d, Inl InvalidInput)
       else if t_state (d_tasks d ! p_task p) = Finished then (d, Inl Unavailable)
       else (set_pending i (p\<lparr>p_phase := CreditInFlight\<rparr>)
               (update_task (p_task p) (\<lambda>t. t\<lparr>t_commands := [n]\<rparr>) d), Inr ()))
    \<and> (t_state (d_tasks d ! p_task p) = Finished \<longrightarrow>
        filter (\<lambda>e. ev_tag e = p_tag p) (d_events d) \<in> {[], [EvFailure (p_tag p) i]})"
proof -
  have "linked E d i p"
    using session_inv_reachable [OF assms(1,2)] assms(3,4) p by (simp add: session_inv_def peer_inv_def)
  then obtain dl where "agree_waiting i p (d_tasks d ! p_task p) (events_for (p_tag p) (d_events d)) dl"
    using p by (auto simp: linked_def agree_def)
  then have "t_commands (d_tasks d ! p_task p) = []"
    and "t_state (d_tasks d ! p_task p) = Finished \<Longrightarrow>
      events_for (p_tag p) (d_events d) \<in> {[], [EvFailure (p_tag p) i]}"
    by (auto simp: agree_waiting_def gave_up_def waiting_def)
  with p show ?thesis by (simp add: handle_credit_def Let_def update_task_def events_for_def)
qed

text \<open>The local server's time runs out while the stream waits for its credit, and the credit comes
  before the driver takes the failure from its queue.\<close>

definition demo_late :: driver where
  "demo_late = demo_driver WaitingCredit 0 Finished [] (Some demo_body) [EvFailure 1 ''a'']
     [Response ''a'' 200 []]"

lemma demo_late_reached: "(peer_step demo_env)\<^sup>*\<^sup>* demo_start demo_late"
proof -
  let ?d = "demo_driver WaitingCredit 0 (AwaitCredit (demo_loop 0)) [] (Some demo_body) [] [Response ''a'' 200 []]"
  have "peer_step demo_env ?d
      (demo_driver WaitingCredit 0 Failing [] (Some demo_body) [] [Response ''a'' 200 []])"
    using peer_step.task_timeout [of ?d 0 demo_env]
    by (simp add: demo_driver_def demo_start_def update_task_def)
  moreover have "peer_step demo_env
      (demo_driver WaitingCredit 0 Failing [] (Some demo_body) [] [Response ''a'' 200 []]) demo_late"
    unfolding demo_late_def by (rule demo_emit) simp
  ultimately show ?thesis using demo_waits unfolding demo_waiting_def by (meson rtranclp.rtrancl_into_rtrancl)
qed

lemma credit_reaches_its_task_witness:
  "handle_credit ''a'' 0 demo_late = (demo_late, Inl Unavailable)"
  using credit_reaches_its_task [OF demo_starts demo_late_reached, of "''a''" _ 0]
  by (simp add: demo_late_def demo_driver_def demo_start_def get_pending_def)

end
