(* ===== verification/Genesis_Store.thy ===== *)
theory Genesis_Store
  imports Prelude "HOL-Library.Char_ord" "HOL-Library.List_Lexorder" "HOL-Library.Product_Lexorder"
begin

text \<open>
  The tables the genesis subsystem (\<open>crates/wenlan-core/src/m6\<close>) keeps in the database, and the
  transactions it runs over them.

  A table is the list of its rows, a row a record with the columns the code names. Columns that a
  \<open>CHECK\<close> confines to the texts of an enum hold the enum itself. The unique keys and \<open>CHECK\<close>s of
  \<open>db/genesis_schema.rs\<close> and \<open>frontier_policy.rs\<close> are written out in the statements that insert or
  update: a violated one makes the statement fail and leaves the tables as they were.

  \<open>unixepoch()\<close> is evaluated by each statement that names it: \<open>s_clock\<close> gives the second it reads, for
  the \<open>s_tick\<close>-th such statement, and may be any function (the wall clock may step back). A
  transaction is a function of the store; the store of an error is dropped, as the transaction is
  rolled back, and with it nothing of its writes is kept.
\<close>

section \<open>Rows\<close>

datatype signal_kind = EvidenceCluster | OrphanWikilink | CommunityOverview | SpaceOverview

datatype candidate_state =
  Observed | Prepared | Inferencing | Validating | Published | RetryWait | Stale
  | ReviewRequired | Suppressed | Superseded

datatype claim_role = Concept | Witness

datatype epoch_state = Active | Migrating

record lease =
  le_phase :: string
  le_space :: string
  le_generation :: int
  le_token :: string
  le_expires :: int
  le_attempt :: int

record frontier_row =
  fr_space :: string
  fr_group :: string
  fr_epoch :: int
  fr_first_seen :: int
  fr_next_scan :: int

record suppression =
  su_space :: string
  su_group :: string
  su_epoch :: int
  su_page :: string
  su_reason :: string
  su_first_seen :: int
  su_at :: int
  su_expires :: int
  su_lapsed :: "int option"

record card_binding =
  cb_space :: string
  cb_group :: string
  cb_epoch :: int
  cb_card :: string
  cb_page :: string
  cb_first_seen :: int
  cb_created :: int
  cb_closed :: "int option"

record quarantine =
  qu_space :: string
  qu_group :: string
  qu_epoch :: int
  qu_reason :: string
  qu_first_seen :: int
  qu_at :: int
  qu_lifted :: "int option"

text \<open>\<open>genesis_candidates\<close>. The payload is the stored envelope of \<open>finalize.rs\<close>; its type is left open
  here.\<close>

record 'p candidate =
  ca_id :: string
  ca_slot :: string
  ca_page :: string
  ca_space :: string
  ca_signal :: signal_kind
  ca_epoch :: int
  ca_generation :: int
  ca_digest :: string
  ca_state :: candidate_state
  ca_reason :: "string option"
  ca_attempt :: int
  ca_next_attempt :: "int option"
  ca_token :: "string option"
  ca_receipt :: "string option"
  ca_payload :: "'p option"
  ca_compacted :: "int option"
  ca_created :: int
  ca_updated :: int

record claim =
  cl_candidate :: string
  cl_root :: string
  cl_group :: string
  cl_epoch :: int
  cl_role :: claim_role
  cl_released :: "int option"
  cl_reason :: "string option"
  cl_created :: int

record coverage_state =
  cs_space :: string
  cs_space_id :: string
  cs_epoch :: int
  cs_state :: epoch_state
  cs_opened :: int
  cs_cursor :: "string option"
  cs_enabled :: bool

record group_coverage =
  gc_space :: string
  gc_group :: string
  gc_epoch :: int

text \<open>What the genesis code reads of the evidence and of the pages: \<open>provenance_roots\<close>, \<open>edges\<close>,
  \<open>space_graph_state\<close>, \<open>page_version_claims\<close>, \<open>pages\<close>, \<open>page_truth_state\<close>, \<open>page_links\<close>, \<open>claim_anchors\<close>,
  \<open>communities\<close>, \<open>community_members\<close>, \<open>m6_overview_subscriptions\<close>, and the states of the rows of
  \<open>page_projection_outbox\<close>.\<close>

record root =
  ro_id :: string
  ro_group :: string
  ro_status :: string
  ro_kind :: string

record edge =
  ed_type :: string
  ed_src_kind :: string
  ed_src :: string
  ed_dst_kind :: string
  ed_dst :: string
  ed_space :: string
  ed_root :: "string option"
  ed_grounded :: bool
  ed_valid_until :: "int option"

record graph_state =
  gs_space :: string
  gs_grouping :: int
  gs_published :: "int option"
  gs_dirty :: bool

record page_claim =
  pc_page :: string
  pc_version :: int
  pc_revision :: string

record page =
  pg_id :: string
  pg_status :: string
  pg_version :: int
  pg_space :: string
  pg_title :: string
  pg_content :: string

record page_truth =
  pt_page :: string
  pt_version :: int
  pt_status :: string

record page_link =
  pl_source :: string
  pl_label :: string
  pl_target :: "string option"

record claim_anchor =
  an_revision :: string
  an_doc :: string
  an_version :: int
  an_start :: int
  an_end :: int
  an_digest :: string

record community =
  cm_id :: string
  cm_space :: string
  cm_retired :: "int option"

record community_member =
  mb_space :: string
  mb_community :: string
  mb_node :: string
  mb_attachment :: string

record subscription =
  sb_kind :: string
  sb_scope :: string
  sb_state :: string

record 'p store =
  s_clock :: "nat \<Rightarrow> int"
  s_tick :: nat
  s_leases :: "lease list"
  s_frontier :: "frontier_row list"
  s_suppressions :: "suppression list"
  s_cards :: "card_binding list"
  s_quarantines :: "quarantine list"
  s_candidates :: "'p candidate list"
  s_claims :: "claim list"
  s_epochs :: "coverage_state list"
  s_coverage :: "group_coverage list"
  s_metadata :: "string \<rightharpoonup> string"
  s_counters :: "string \<times> string \<rightharpoonup> int"
  s_roots :: "root list"
  s_edges :: "edge list"
  s_graph :: "graph_state list"
  s_page_claims :: "page_claim list"
  s_pages :: "page list"
  s_page_truth :: "page_truth list"
  s_links :: "page_link list"
  s_anchors :: "claim_anchor list"
  s_communities :: "community list"
  s_members :: "community_member list"
  s_subscriptions :: "subscription list"
  s_spaces :: "(string \<times> string) list"
  s_outbox :: "string list"

section \<open>Transactions\<close>

datatype m6_error = Constraint | Invariant | VectorDb | Conflict | NotFound

type_synonym ('p, 'a) tx = "'p store \<Rightarrow> m6_error + 'a \<times> 'p store"

definition tx_return :: "'a \<Rightarrow> ('p, 'a) tx" where
  "tx_return a s = Inr (a, s)"

definition tx_fail :: "m6_error \<Rightarrow> ('p, 'a) tx" where
  "tx_fail e s = Inl e"

definition tx_bind :: "('p, 'a) tx \<Rightarrow> ('a \<Rightarrow> ('p, 'b) tx) \<Rightarrow> ('p, 'b) tx" where
  "tx_bind m k s = (case m s of Inl e \<Rightarrow> Inl e | Inr (a, s') \<Rightarrow> k a s')"

definition tx_then :: "('p, 'a) tx \<Rightarrow> ('p, 'b) tx \<Rightarrow> ('p, 'b) tx" where
  "tx_then m n = tx_bind m (\<lambda>_. n)"

text \<open>\<open>map_err(|error| WenlanError::VectorDb(..))\<close>.\<close>

definition vector_db :: "('p, 'a) tx \<Rightarrow> ('p, 'a) tx" where
  "vector_db m s = (case m s of Inl _ \<Rightarrow> Inl VectorDb | Inr x \<Rightarrow> Inr x)"

definition tx_read :: "('p store \<Rightarrow> 'a) \<Rightarrow> ('p, 'a) tx" where
  "tx_read f s = Inr (f s, s)"

text \<open>A statement that evaluates \<open>unixepoch()\<close>.\<close>

definition tx_now :: "(int \<Rightarrow> ('p, 'a) tx) \<Rightarrow> ('p, 'a) tx" where
  "tx_now f s = f (s_clock s (s_tick s)) (s\<lparr>s_tick := Suc (s_tick s)\<rparr>)"

fun tx_each :: "('x \<Rightarrow> ('p, unit) tx) \<Rightarrow> 'x list \<Rightarrow> ('p, unit) tx" where
  "tx_each f [] = tx_return ()"
| "tx_each f (x # xs) = tx_then (f x) (tx_each f xs)"

definition require_one :: "m6_error \<Rightarrow> nat \<Rightarrow> ('p, unit) tx" where
  "require_one e affected = (if affected = 1 then tx_return () else tx_fail e)"

text \<open>A transaction of its own: it commits what succeeded and keeps nothing of an error.\<close>

definition committed :: "('p, 'a) tx \<Rightarrow> 'p store \<Rightarrow> 'p store" where
  "committed m s = (case m s of Inl _ \<Rightarrow> s | Inr (_, s') \<Rightarrow> s')"

subsection \<open>Statements over the rows of a table\<close>

definition affected :: "('r \<Rightarrow> bool) \<Rightarrow> 'r list \<Rightarrow> nat" where
  "affected P rows = length (filter P rows)"

definition delete_where :: "('r \<Rightarrow> bool) \<Rightarrow> 'r list \<Rightarrow> 'r list" where
  "delete_where P rows = filter (\<lambda>r. \<not> P r) rows"

definition update_where :: "('r \<Rightarrow> bool) \<Rightarrow> ('r \<Rightarrow> 'r) \<Rightarrow> 'r list \<Rightarrow> 'r list" where
  "update_where P f rows = map (\<lambda>r. if P r then f r else r) rows"

definition occurs :: "('r \<Rightarrow> bool) \<Rightarrow> 'r list \<Rightarrow> bool" where
  "occurs P rows = list_ex P rows"

lemma occurs_iff: "occurs P rows \<longleftrightarrow> (\<exists>r \<in> set rows. P r)"
  by (simp add: occurs_def list_ex_iff)

lemma occurs_simps [simp]:
  "occurs P [] = False" "occurs P (r # rows) = (P r \<or> occurs P rows)"
  "occurs P (rows @ rows') = (occurs P rows \<or> occurs P rows')"
  by (auto simp: occurs_iff)

lemma set_delete_where [simp]: "set (delete_where P rows) = {r \<in> set rows. \<not> P r}"
  by (auto simp: delete_where_def)

lemma set_update_where [simp]:
  "set (update_where P f rows) = (\<lambda>r. if P r then f r else r) ` set rows"
  by (simp add: update_where_def)

lemma occurs_delete_where: "occurs Q (delete_where P rows) \<longleftrightarrow> occurs (\<lambda>r. Q r \<and> \<not> P r) rows"
  by (auto simp: occurs_iff)

lemma occurs_update_where:
  "occurs Q (update_where P f rows) \<longleftrightarrow> occurs (\<lambda>r. if P r then Q (f r) else Q r) rows"
  by (auto simp: occurs_iff)

lemma occurs_cong: "(\<And>r. r \<in> set rows \<Longrightarrow> P r = Q r) \<Longrightarrow> occurs P rows = occurs Q rows"
  by (auto simp: occurs_iff)

lemma affected_pos: "affected P rows = 0 \<longleftrightarrow> \<not> occurs P rows"
  by (auto simp: affected_def occurs_iff filter_empty_conv)

text \<open>No two rows have the same key: a \<open>PRIMARY KEY\<close>, or a unique index over the rows of \<open>P\<close>.\<close>

definition unique_key :: "('r \<Rightarrow> 'k) \<Rightarrow> ('r \<Rightarrow> bool) \<Rightarrow> 'r list \<Rightarrow> bool" where
  "unique_key key P rows \<longleftrightarrow> distinct (map key (filter P rows))"

lemma unique_key_delete: "unique_key key P rows \<Longrightarrow> unique_key key P (delete_where Q rows)"
proof -
  have "filter P (delete_where Q rows) = filter (\<lambda>r. \<not> Q r) (filter P rows)"
    by (simp add: delete_where_def conj_commute)
  then show "unique_key key P rows \<Longrightarrow> unique_key key P (delete_where Q rows)"
    unfolding unique_key_def by (simp only: distinct_map_filter)
qed

lemma unique_key_snoc:
  "unique_key key P (rows @ [r]) \<longleftrightarrow>
     unique_key key P rows \<and> (P r \<longrightarrow> \<not> occurs (\<lambda>x. P x \<and> key x = key r) rows)"
proof -
  have "key r \<in> key ` {x \<in> set rows. P x} \<longleftrightarrow> (\<exists>x \<in> set rows. P x \<and> key x = key r)"
    by (auto simp: image_iff)
  then show ?thesis by (auto simp: unique_key_def occurs_iff)
qed

lemma unique_keyD:
  "unique_key key P rows \<Longrightarrow> a \<in> set rows \<Longrightarrow> b \<in> set rows \<Longrightarrow> P a \<Longrightarrow> P b \<Longrightarrow> key a = key b \<Longrightarrow> a = b"
  by (auto simp: unique_key_def distinct_map inj_on_def)

subsection \<open>Transactions that succeed\<close>

named_theorems tx_simps \<open>how a transaction succeeds\<close>

lemma tx_return_iff [tx_simps]: "tx_return a s = Inr (b, s') \<longleftrightarrow> b = a \<and> s' = s"
  by (auto simp: tx_return_def)

lemma tx_fail_iff [tx_simps]: "tx_fail e s = Inr x \<longleftrightarrow> False"
  by (simp add: tx_fail_def)

lemma tx_bind_iff [tx_simps]:
  "tx_bind m k s = Inr x \<longleftrightarrow> (\<exists>a s'. m s = Inr (a, s') \<and> k a s' = Inr x)"
  by (simp add: tx_bind_def split: sum.split)

lemma tx_then_iff [tx_simps]:
  "tx_then m n s = Inr x \<longleftrightarrow> (\<exists>a s'. m s = Inr (a, s') \<and> n s' = Inr x)"
  by (simp add: tx_then_def tx_bind_iff)

lemma vector_db_iff [tx_simps]: "vector_db m s = Inr x \<longleftrightarrow> m s = Inr x"
  by (simp add: vector_db_def split: sum.split)

lemma tx_read_iff [tx_simps]: "tx_read f s = Inr (b, s') \<longleftrightarrow> b = f s \<and> s' = s"
  by (auto simp: tx_read_def)

lemma tx_now_iff [tx_simps]:
  "tx_now f s = Inr x \<longleftrightarrow> f (s_clock s (s_tick s)) (s\<lparr>s_tick := Suc (s_tick s)\<rparr>) = Inr x"
  by (simp add: tx_now_def)

lemma require_one_iff [tx_simps]: "require_one e n s = Inr (b, s') \<longleftrightarrow> n = 1 \<and> s' = s"
  by (auto simp: require_one_def tx_simps)

text \<open>\<open>keeps R m\<close>: a success of \<open>m\<close> relates the store it found with the store it leaves.\<close>

definition keeps :: "('p store \<Rightarrow> 'p store \<Rightarrow> bool) \<Rightarrow> ('p, 'a) tx \<Rightarrow> bool" where
  "keeps R m \<longleftrightarrow> (\<forall>s a s'. m s = Inr (a, s') \<longrightarrow> R s s')"

lemma keepsI: "(\<And>s a s'. m s = Inr (a, s') \<Longrightarrow> R s s') \<Longrightarrow> keeps R m"
  by (simp add: keeps_def)

lemma keepsD: "keeps R m \<Longrightarrow> m s = Inr (a, s') \<Longrightarrow> R s s'"
  unfolding keeps_def by blast

lemma keeps_branches:
  "(b \<Longrightarrow> keeps R m) \<Longrightarrow> (\<not> b \<Longrightarrow> keeps R n) \<Longrightarrow> keeps R (if b then m else n)"
  "keeps R m \<Longrightarrow> (\<And>x. keeps R (k x)) \<Longrightarrow> keeps R (case opt of None \<Rightarrow> m | Some x \<Rightarrow> k x)"
  "keeps R (f y) \<Longrightarrow> keeps R (let z = y in f z)"
  "(\<And>x z. keeps R (g x z)) \<Longrightarrow> keeps R (case p of (x, z) \<Rightarrow> g x z)"
  by (auto split: option.split prod.split)

text \<open>A relation a transaction keeps when its statements do. The laws make it one of sequences.\<close>

locale store_order =
  fixes R :: "'p store \<Rightarrow> 'p store \<Rightarrow> bool"
  assumes store_refl: "R s s"
    and store_trans: "R s t \<Longrightarrow> R t u \<Longrightarrow> R s u"
    and store_tick: "R s (s\<lparr>s_tick := n\<rparr>)"
begin

lemma keeps_bind: "keeps R m \<Longrightarrow> (\<And>a. keeps R (k a)) \<Longrightarrow> keeps R (tx_bind m k)"
  unfolding keeps_def tx_bind_iff by (blast intro: store_trans)

lemma keeps_then: "keeps R m \<Longrightarrow> keeps R n \<Longrightarrow> keeps R (tx_then m n)"
  unfolding tx_then_def by (rule keeps_bind)

lemma keeps_quiet:
  "keeps R (tx_return a)" "keeps R (tx_fail e)" "keeps R (tx_read f)" "keeps R (require_one e n)"
  by (auto simp: keeps_def tx_simps store_refl)

lemma keeps_vector_db: "keeps R m \<Longrightarrow> keeps R (vector_db m)"
  by (simp add: keeps_def vector_db_iff)

lemma keeps_now: "(\<And>t. keeps R (m t)) \<Longrightarrow> keeps R (tx_now m)"
  by (rule keepsI, unfold tx_now_iff) (rule store_trans [OF store_tick], rule keepsD)

lemma keeps_each: "(\<And>x. x \<in> set xs \<Longrightarrow> keeps R (f x)) \<Longrightarrow> keeps R (tx_each f xs)"
  by (induction xs) (auto intro!: keeps_quiet keeps_then)

lemmas keeps_rules = keeps_bind keeps_then keeps_quiet keeps_vector_db keeps_now keeps_each keeps_branches

end

end
