(* ===== verification/Genesis_Leases.thy ===== *)
theory Genesis_Leases
  imports Genesis_Store
begin

text \<open>
  \<open>m6/leases.rs\<close>: the facade over the shared table \<open>grouping_leases\<close>. A lease is held by its token
  until it expires; acquiring reaps the expired rows of the phase and space, and the rows of any
  other input generation. The tokens are \<open>uuid\<close>s the caller of the model supplies.
\<close>

datatype lease_phase = GenesisPhase | FrontierPhase

definition all_lease_phases :: "lease_phase list" where
  "all_lease_phases = [GenesisPhase, FrontierPhase]"

fun lease_phase_as_str :: "lease_phase \<Rightarrow> string" where
  "lease_phase_as_str GenesisPhase = ''genesis''"
| "lease_phase_as_str FrontierPhase = ''frontier''"

definition genesis_lease_ttl_seconds :: int where
  "genesis_lease_ttl_seconds = 900"

definition frontier_lease_ttl_seconds :: int where
  "frontier_lease_ttl_seconds = 120"

fun ttl_seconds :: "lease_phase \<Rightarrow> int" where
  "ttl_seconds GenesisPhase = genesis_lease_ttl_seconds"
| "ttl_seconds FrontierPhase = frontier_lease_ttl_seconds"

definition lease_key :: "lease \<Rightarrow> string \<times> string \<times> int" where
  "lease_key l = (le_phase l, le_space l, le_generation l)"

definition lease_acquire ::
    "string \<Rightarrow> lease_phase \<Rightarrow> string \<Rightarrow> int \<Rightarrow> int \<Rightarrow> ('p, string option) tx" where
  "lease_acquire token phase space generation attempt =
     tx_then
       (tx_now (\<lambda>t s. Inr ((), s\<lparr>s_leases := delete_where (\<lambda>l. le_phase l = lease_phase_as_str phase
            \<and> le_space l = space \<and> (le_expires l \<le> t \<or> le_generation l \<noteq> generation)) (s_leases s)\<rparr>)))
       (tx_now (\<lambda>t s.
          if occurs (\<lambda>l. lease_key l = (lease_phase_as_str phase, space, generation)) (s_leases s)
          then Inr (None, s)
          else Inr (Some token, s\<lparr>s_leases := s_leases s @
                 [\<lparr>le_phase = lease_phase_as_str phase, le_space = space, le_generation = generation,
                   le_token = token, le_expires = t + ttl_seconds phase, le_attempt = attempt\<rparr>]\<rparr>)))"

definition lease_owns :: "lease_phase \<Rightarrow> string \<Rightarrow> int \<Rightarrow> string \<Rightarrow> ('p, bool) tx" where
  "lease_owns phase space generation token =
     tx_now (\<lambda>t. tx_read (\<lambda>s. occurs (\<lambda>l. lease_key l = (lease_phase_as_str phase, space, generation)
        \<and> le_token l = token \<and> le_expires l > t) (s_leases s)))"

definition lease_release :: "lease_phase \<Rightarrow> string \<Rightarrow> int \<Rightarrow> string \<Rightarrow> ('p, nat) tx" where
  "lease_release phase space generation token s =
     (let mine = (\<lambda>l. lease_key l = (lease_phase_as_str phase, space, generation) \<and> le_token l = token)
      in Inr (affected mine (s_leases s), s\<lparr>s_leases := delete_where mine (s_leases s)\<rparr>))"

definition reap_expired_m6_phases :: "('p, nat) tx" where
  "reap_expired_m6_phases = tx_now (\<lambda>t s.
     let expired = (\<lambda>l. le_expires l \<le> t \<and> le_phase l \<in> set (map lease_phase_as_str all_lease_phases))
     in Inr (affected expired (s_leases s), s\<lparr>s_leases := delete_where expired (s_leases s)\<rparr>))"

section \<open>One holder\<close>

text \<open>The rows of one phase and space: at most one. (The table's key would allow one for every
  generation.)\<close>

definition single_holder :: "lease_phase \<Rightarrow> 'p store \<Rightarrow> bool" where
  "single_holder phase s \<longleftrightarrow> unique_key le_space (\<lambda>l. le_phase l = lease_phase_as_str phase) (s_leases s)"

lemma phase_str_inject [simp]: "lease_phase_as_str a = lease_phase_as_str b \<longleftrightarrow> a = b"
  by (cases a; cases b) simp_all

definition holder_kept :: "'p store \<Rightarrow> 'p store \<Rightarrow> bool" where
  "holder_kept s s' \<longleftrightarrow> (\<forall>p. single_holder p s \<longrightarrow> single_holder p s')"

interpretation holders: store_order holder_kept
  by unfold_locales (auto simp: holder_kept_def single_holder_def)

named_theorems holder_intros \<open>transactions that keep one holder\<close>

declare holders.keeps_rules [holder_intros]

lemma single_acquire [holder_intros]: "keeps holder_kept (lease_acquire token phase space generation attempt)"
  unfolding holder_kept_def
proof (intro keepsI allI impI)
  fix s a s' p
  assume s: "single_holder p s" and r: "lease_acquire token phase space generation attempt s = Inr (a, s' :: 'a store)"
  let ?stale = "\<lambda>l. le_phase l = lease_phase_as_str phase \<and> le_space l = space
    \<and> (le_expires l \<le> s_clock s (s_tick s) \<or> le_generation l \<noteq> generation)"
  let ?left = "delete_where ?stale (s_leases s)"
  have left: "unique_key le_space (\<lambda>l. le_phase l = lease_phase_as_str p) ?left"
    using s by (simp add: single_holder_def unique_key_delete)
  show "single_holder p s'"
  proof (cases "occurs (\<lambda>l. lease_key l = (lease_phase_as_str phase, space, generation)) ?left")
    case True
    with r left show ?thesis
      by (auto simp: lease_acquire_def tx_simps single_holder_def)
  next
    case False
    then have none: "\<not> occurs (\<lambda>l. le_phase l = lease_phase_as_str phase \<and> le_space l = space) ?left"
      by (auto simp: occurs_iff lease_key_def)
    from False r left none show ?thesis
      by (auto simp: lease_acquire_def tx_simps single_holder_def unique_key_snoc)
  qed
qed

lemma single_release [holder_intros]: "keeps holder_kept (lease_release phase space generation token)"
  by (auto simp: keeps_def holder_kept_def lease_release_def Let_def single_holder_def unique_key_delete)

lemma single_reap [holder_intros]: "keeps holder_kept reap_expired_m6_phases"
  by (auto simp: keeps_def holder_kept_def reap_expired_m6_phases_def Let_def tx_simps single_holder_def unique_key_delete)

lemma owns_iff: "lease_owns phase space generation token s = Inr (b, s') \<longleftrightarrow>
    b = occurs (\<lambda>l. lease_key l = (lease_phase_as_str phase, space, generation)
        \<and> le_token l = token \<and> le_expires l > s_clock s (s_tick s)) (s_leases s)
    \<and> s' = s\<lparr>s_tick := Suc (s_tick s)\<rparr>"
  by (auto simp: lease_owns_def tx_simps)

lemma one_owner:
  assumes "single_holder phase s"
    and "lease_owns phase space g a s = Inr (True, s1)" "lease_owns phase space h b s = Inr (True, s2)"
  shows "a = b \<and> g = h"
proof -
  obtain l m where "l \<in> set (s_leases s)" "lease_key l = (lease_phase_as_str phase, space, g)" "le_token l = a"
      "m \<in> set (s_leases s)" "lease_key m = (lease_phase_as_str phase, space, h)" "le_token m = b"
    using assms(2,3) unfolding owns_iff occurs_iff by blast
  moreover from this have "l = m"
    using unique_keyD [OF assms(1) [unfolded single_holder_def], of l m] by (simp add: lease_key_def)
  ultimately show ?thesis by (simp add: lease_key_def)
qed

end
