(* ===== verification/Genesis_Identity.thy ===== *)
theory Genesis_Identity
  imports Genesis_Store
begin

text \<open>
  \<open>m6/digest.rs\<close> and \<open>m6/identity.rs\<close>: the domain-separated digest over length-prefixed parts and the
  identities derived with it. SHA-256 is an argument, \<open>sha\<close>; texts are their UTF-8 bytes. The laws
  proved here are about the preimages: two different identities can only agree by a collision.
\<close>

section \<open>Numbers as text\<close>

definition int_part :: "int \<Rightarrow> string" where
  "int_part n = (if n < 0 then ''-'' @ decimal (nat (- n)) else decimal (nat n))"

definition digit_value :: "char \<Rightarrow> nat option" where
  "digit_value c = (if 48 \<le> (of_char c :: nat) \<and> (of_char c :: nat) \<le> 57 then Some (of_char c - 48) else None)"

text \<open>The inverse, to show that no two numbers have the same text (and for the cursor's \<open>parse\<close>).\<close>

fun read_digits :: "nat \<Rightarrow> string \<Rightarrow> nat option" where
  "read_digits n [] = Some n"
| "read_digits n (c # cs) = (case digit_value c of None \<Rightarrow> None | Some d \<Rightarrow> read_digits (n * 10 + d) cs)"

lemma digit_value_char [simp]: "d < 10 \<Longrightarrow> digit_value (char_of (48 + d)) = Some d"
  by (simp add: digit_value_def)

lemma read_digits_append:
  "read_digits n (xs @ ys) = (case read_digits n xs of None \<Rightarrow> None | Some m \<Rightarrow> read_digits m ys)"
  by (induction xs arbitrary: n) (simp_all split: option.split)

lemma read_digits_decimal: "read_digits 0 (decimal n) = Some n"
proof (induction n rule: decimal.induct)
  case (1 n)
  show ?case
  proof (cases "n < 10")
    case True
    then show ?thesis by (simp add: decimal.simps [of n])
  next
    case False
    then have "read_digits 0 (decimal (n div 10)) = Some (n div 10)" by (rule 1)
    then show ?thesis using False
      by (simp add: decimal.simps [of n] read_digits_append)
  qed
qed

lemma decimal_not_empty: "decimal n \<noteq> []"
  by (simp add: decimal.simps [of n])

lemma decimal_digits: "c \<in> set (decimal n) \<Longrightarrow> digit_value c \<noteq> None"
proof (induction n rule: decimal.induct)
  case (1 n)
  then show ?case
    by (cases "n < 10") (auto simp: decimal.simps [of n])
qed

lemma decimal_inject: "decimal m = decimal n \<longleftrightarrow> m = n"
  by (metis option.inject read_digits_decimal)

lemma minus_no_digit: "digit_value CHR ''-'' = None"
  by (simp add: digit_value_def)

lemma hd_decimal: "decimal n = CHR ''-'' # cs \<longleftrightarrow> False"
  using decimal_digits [of "CHR ''-''" n] minus_no_digit by auto

lemma int_part_inject: "int_part m = int_part n \<longleftrightarrow> m = n"
  using hd_decimal [of "nat m"] hd_decimal [of "nat n"] hd_decimal [of "nat m", THEN sym]
  by (auto simp: int_part_def decimal_inject hd_decimal dest: sym)

section \<open>The digest\<close>

definition to_le_bytes :: "nat \<Rightarrow> string" where
  "to_le_bytes n = map (\<lambda>k. char_of (n div 256 ^ k mod 256)) [0..<8]"

definition write_part :: "string \<Rightarrow> string" where
  "write_part bytes = to_le_bytes (length bytes mod 2 ^ 64) @ bytes"

definition m6_preimage :: "string \<Rightarrow> string list \<Rightarrow> string" where
  "m6_preimage domain parts = concat (map write_part (domain # parts))"

definition hex_char :: "nat \<Rightarrow> char" where
  "hex_char n = (if n < 10 then char_of (48 + n) else char_of (87 + n))"

definition hex_text :: "string \<Rightarrow> string" where
  "hex_text bytes = concat (map (\<lambda>c. [hex_char (of_char c div 16), hex_char (of_char c mod 16)]) bytes)"

definition m6_digest :: "(string \<Rightarrow> string) \<Rightarrow> string \<Rightarrow> string list \<Rightarrow> string" where
  "m6_digest sha domain parts = hex_text (sha (m6_preimage domain parts))"

definition absent_part :: string where
  "absent_part = []"

definition sorted_set :: "string list \<Rightarrow> string list" where
  "sorted_set items = (let sorted = remdups (sort items) in int_part (int (length sorted)) # sorted)"

section \<open>Identities\<close>

fun signal_tag :: "signal_kind \<Rightarrow> string" where
  "signal_tag EvidenceCluster = ''evidence-cluster''"
| "signal_tag OrphanWikilink = ''orphan-wikilink''"
| "signal_tag CommunityOverview = ''community-overview''"
| "signal_tag SpaceOverview = ''space-overview''"

definition signal_from_tag :: "string \<Rightarrow> signal_kind option" where
  "signal_from_tag tag =
     (if tag = ''evidence-cluster'' then Some EvidenceCluster
      else if tag = ''orphan-wikilink'' then Some OrphanWikilink
      else if tag = ''community-overview'' then Some CommunityOverview
      else if tag = ''space-overview'' then Some SpaceOverview
      else None)"

definition domain_slot :: string where "domain_slot = ''m6-slot-v1''"
definition domain_page :: string where "domain_page = ''m6-page-v1''"
definition domain_candidate :: string where "domain_candidate = ''m6-candidate-v1''"
definition domain_fingerprint :: string where "domain_fingerprint = ''m6-fingerprint-v1''"
definition domain_active_roots :: string where "domain_active_roots = ''m6-active-roots-v1''"
definition page_id_prefix :: string where "page_id_prefix = ''m6p_''"

definition common_frame :: "signal_kind \<Rightarrow> string \<Rightarrow> string list" where
  "common_frame signal space_id = [signal_tag signal, space_id]"

definition slot_id_evidence_cluster :: "(string \<Rightarrow> string) \<Rightarrow> string \<Rightarrow> string list \<Rightarrow> string" where
  "slot_id_evidence_cluster sha space_id groups =
     m6_digest sha domain_slot (common_frame EvidenceCluster space_id @ sorted_set groups)"

definition slot_id_orphan_wikilink :: "(string \<Rightarrow> string) \<Rightarrow> string \<Rightarrow> string \<Rightarrow> string" where
  "slot_id_orphan_wikilink sha space_id label_key =
     m6_digest sha domain_slot (common_frame OrphanWikilink space_id @ [label_key])"

definition slot_id_community_overview :: "(string \<Rightarrow> string) \<Rightarrow> string \<Rightarrow> string \<Rightarrow> string" where
  "slot_id_community_overview sha space_id community_id =
     m6_digest sha domain_slot (common_frame CommunityOverview space_id @ [community_id])"

definition slot_id_space_overview :: "(string \<Rightarrow> string) \<Rightarrow> string \<Rightarrow> string" where
  "slot_id_space_overview sha space_id = m6_digest sha domain_slot (common_frame SpaceOverview space_id)"

definition page_id :: "(string \<Rightarrow> string) \<Rightarrow> string \<Rightarrow> string" where
  "page_id sha slot_id = page_id_prefix @ m6_digest sha domain_page [slot_id]"

definition candidate_id :: "(string \<Rightarrow> string) \<Rightarrow> string \<Rightarrow> int \<Rightarrow> string" where
  "candidate_id sha slot_id coverage_epoch =
     m6_digest sha domain_candidate [slot_id, int_part coverage_epoch]"

definition active_root_parts :: "(string \<times> string) list \<Rightarrow> string list" where
  "active_root_parts roots =
     (let sorted = remdups (sort roots)
      in int_part (int (length sorted)) # concat (map (\<lambda>(root_id, status). [root_id, status]) sorted))"

definition active_root_digest :: "(string \<Rightarrow> string) \<Rightarrow> (string \<times> string) list \<Rightarrow> string" where
  "active_root_digest sha roots = m6_digest sha domain_active_roots (active_root_parts roots)"

record fingerprint =
  fp_slot_id :: string
  fp_signal_version :: int
  fp_community_id :: "string option"
  fp_published_generation :: "int option"
  fp_coverage_epoch :: int
  fp_root_ids :: "string list"
  fp_input_generation :: int
  fp_active_root_digest :: string
  fp_model_version :: string
  fp_projection_version :: string
  fp_prompt_version :: string

definition fingerprint_parts :: "fingerprint \<Rightarrow> string list" where
  "fingerprint_parts fp =
     [fp_slot_id fp, int_part (fp_signal_version fp),
      (case fp_community_id fp of Some i \<Rightarrow> i | None \<Rightarrow> absent_part),
      (case fp_published_generation fp of Some g \<Rightarrow> int_part g | None \<Rightarrow> absent_part),
      int_part (fp_coverage_epoch fp)]
     @ sorted_set (fp_root_ids fp)
     @ [int_part (fp_input_generation fp), fp_active_root_digest fp, fp_model_version fp,
        fp_projection_version fp, fp_prompt_version fp]"

definition fingerprint_digest :: "(string \<Rightarrow> string) \<Rightarrow> fingerprint \<Rightarrow> string" where
  "fingerprint_digest sha fp = m6_digest sha domain_fingerprint (fingerprint_parts fp)"

section \<open>Different identities have different preimages\<close>

lemma to_le_bytes_inject:
  assumes "m < 2 ^ 64" "n < 2 ^ 64" "to_le_bytes m = to_le_bytes n"
  shows "m = n"
proof -
  have eq: "m div 256 ^ k mod 256 = n div 256 ^ k mod 256" if "k < 8" for k
  proof -
    have "to_le_bytes m ! k = to_le_bytes n ! k" using assms(3) by simp
    then have "(char_of (m div 256 ^ k mod 256) :: char) = char_of (n div 256 ^ k mod 256)"
      using that by (simp add: to_le_bytes_def)
    then show ?thesis by (metis mod_mod_trivial of_char_of)
  qed
  have "m mod 256 ^ k = n mod 256 ^ k" if "k \<le> 8" for k
    using that
  proof (induction k)
    case (Suc k)
    have split: "x mod 256 ^ Suc k = 256 ^ k * (x div 256 ^ k mod 256) + x mod 256 ^ k" for x :: nat
      using mod_mult2_eq [of x "256 ^ k" 256] by (simp add: mult.commute)
    show ?case unfolding split using Suc eq [of k] by simp
  qed simp
  from this [of 8] assms(1,2) show ?thesis by simp
qed

lemma length_to_le_bytes [simp]: "length (to_le_bytes n) = 8"
  by (simp add: to_le_bytes_def)

lemma write_part_append_inject:
  assumes "length a < 2 ^ 64" "length b < 2 ^ 64" "write_part a @ xs = write_part b @ ys"
  shows "a = b \<and> xs = ys"
proof -
  from assms have "to_le_bytes (length a) = to_le_bytes (length b)" "a @ xs = b @ ys"
    by (simp_all add: write_part_def)
  moreover from this(1) assms(1,2) have "length a = length b" by (intro to_le_bytes_inject)
  ultimately show ?thesis by simp
qed

lemma preimage_parts_inject:
  assumes "list_all (\<lambda>p. length p < 2 ^ 64) ps" "list_all (\<lambda>p. length p < 2 ^ 64) qs"
    and "concat (map write_part ps) = concat (map write_part qs)"
  shows "ps = qs"
  using assms
proof (induction ps arbitrary: qs)
  case Nil
  have "write_part q \<noteq> []" for q
    using length_to_le_bytes by (metis append_is_Nil_conv list.size(3) write_part_def zero_neq_numeral)
  with Nil show ?case by (cases qs) auto
next
  case (Cons p ps)
  obtain q qs' where qs: "qs = q # qs'"
  proof (cases qs)
    case Nil
    with Cons.prems(3) have "write_part p = []" by simp
    then show ?thesis using length_to_le_bytes
      by (metis append_is_Nil_conv list.size(3) write_part_def zero_neq_numeral)
  qed (use that in blast)
  from Cons.prems have "p = q \<and> concat (map write_part ps) = concat (map write_part qs')"
    unfolding qs by (intro write_part_append_inject) simp_all
  with Cons qs show ?case by simp
qed

lemma digest_preimage_inject:
  assumes "list_all (\<lambda>p. length p < 2 ^ 64) (d # ps)" "list_all (\<lambda>p. length p < 2 ^ 64) (e # qs)"
    and "m6_preimage d ps = m6_preimage e qs"
  shows "d = e \<and> ps = qs"
  using preimage_parts_inject [OF assms(1,2)] assms(3) by (simp add: m6_preimage_def)

lemma sorted_set_inject:
  assumes "sorted_set xs = sorted_set ys"
  shows "set xs = set ys"
proof -
  have "remdups (sort xs) = remdups (sort ys)"
    using assms by (simp add: sorted_set_def Let_def)
  then have "set (remdups (sort xs)) = set (remdups (sort ys))" by (rule arg_cong)
  then show ?thesis by simp
qed

lemma signal_tag_round_trip: "signal_from_tag (signal_tag k) = Some k"
  by (cases k) (simp_all add: signal_from_tag_def)

lemma signal_tag_inject [simp]: "signal_tag a = signal_tag b \<longleftrightarrow> a = b"
  by (metis option.inject signal_tag_round_trip)

end
