(* ===== verification/Genesis_Frontier.thy ===== *)
theory Genesis_Frontier
  imports Genesis_Leases Genesis_Identity
begin

text \<open>
  \<open>m6/frontier_policy.rs\<close> and \<open>m6/frontier.rs\<close>: the durable homes of an evidence group (the frontier, a
  surfaced card, a suppression, a quarantine), the transitions between them, the accounting of the
  homes and its reconciliation, and the cursor of the frontier scan.
\<close>

type_synonym group_key = "string \<times> string \<times> int"

definition fr_key :: "frontier_row \<Rightarrow> group_key" where
  "fr_key r = (fr_space r, fr_group r, fr_epoch r)"

definition su_key :: "suppression \<Rightarrow> group_key" where
  "su_key r = (su_space r, su_group r, su_epoch r)"

definition cb_key :: "card_binding \<Rightarrow> group_key" where
  "cb_key r = (cb_space r, cb_group r, cb_epoch r)"

definition qu_key :: "quarantine \<Rightarrow> group_key" where
  "qu_key r = (qu_space r, qu_group r, qu_epoch r)"

definition gc_key :: "group_coverage \<Rightarrow> group_key" where
  "gc_key r = (gc_space r, gc_group r, gc_epoch r)"

text \<open>The live rows: \<open>lapsed_at IS NULL\<close>, \<open>closed_at IS NULL\<close>, \<open>lifted_at IS NULL\<close>.\<close>

definition su_live :: "suppression \<Rightarrow> bool" where "su_live r \<longleftrightarrow> su_lapsed r = None"
definition cb_live :: "card_binding \<Rightarrow> bool" where "cb_live r \<longleftrightarrow> cb_closed r = None"
definition qu_live :: "quarantine \<Rightarrow> bool" where "qu_live r \<longleftrightarrow> qu_lifted r = None"

text \<open>\<open>CHECK(length(trim(x)) > 0)\<close>; \<open>trim\<close> removes spaces.\<close>

definition not_blank :: "string \<Rightarrow> bool" where
  "not_blank x \<longleftrightarrow> list_ex (\<lambda>c. c \<noteq> CHR '' '') x"

definition suppression_seconds :: int where "suppression_seconds = 180 * 86400"
definition next_scan_max_ahead_seconds :: int where "next_scan_max_ahead_seconds = 86400"
definition below_floor_surfacing_seconds :: int where "below_floor_surfacing_seconds = 7 * 86400"
definition frontier_scan_slice_rows :: nat where "frontier_scan_slice_rows = 512"

section \<open>Frontier policy\<close>

subsection \<open>Shared statements\<close>

text \<open>\<open>INSERT INTO genesis_frontier\<close>, without and with \<open>ON CONFLICT DO NOTHING\<close>.\<close>

definition insert_frontier :: "frontier_row \<Rightarrow> ('p, unit) tx" where
  "insert_frontier r s =
     (if occurs (\<lambda>x. fr_key x = fr_key r) (s_frontier s) then Inl Constraint
      else Inr ((), s\<lparr>s_frontier := s_frontier s @ [r]\<rparr>))"

definition insert_frontier_or_ignore :: "frontier_row \<Rightarrow> ('p, nat) tx" where
  "insert_frontier_or_ignore r s =
     (if occurs (\<lambda>x. fr_key x = fr_key r) (s_frontier s) then Inr (0, s)
      else Inr (1, s\<lparr>s_frontier := s_frontier s @ [r]\<rparr>))"

definition delete_frontier :: "group_key \<Rightarrow> ('p, nat) tx" where
  "delete_frontier k s =
     Inr (affected (\<lambda>x. fr_key x = k) (s_frontier s),
          s\<lparr>s_frontier := delete_where (\<lambda>x. fr_key x = k) (s_frontier s)\<rparr>)"

definition frontier_first_seen_at :: "group_key \<Rightarrow> ('p, int) tx" where
  "frontier_first_seen_at k s =
     (case find (\<lambda>x. fr_key x = k) (s_frontier s) of
        None \<Rightarrow> Inl Invariant
      | Some r \<Rightarrow> Inr (fr_first_seen r, s))"

definition insert_suppression :: "group_key \<Rightarrow> string \<Rightarrow> string \<Rightarrow> int \<Rightarrow> ('p, unit) tx" where
  "insert_suppression k page reason first_seen = tx_now (\<lambda>t s.
     let (space, gid, epoch) = k;
         r = \<lparr>su_space = space, su_group = gid, su_epoch = epoch, su_page = page, su_reason = reason,
              su_first_seen = first_seen, su_at = t, su_expires = t + suppression_seconds,
              su_lapsed = None\<rparr>
     in if not_blank page \<and> not_blank reason
           \<and> \<not> occurs (\<lambda>x. su_key x = k \<and> (su_at x = t \<or> su_live x)) (s_suppressions s)
        then Inr ((), s\<lparr>s_suppressions := s_suppressions s @ [r]\<rparr>)
        else Inl Constraint)"

subsection \<open>Transitions\<close>

definition suppress_frontier_group ::
    "string \<Rightarrow> string \<Rightarrow> int \<Rightarrow> string \<Rightarrow> string \<Rightarrow> ('p, unit) tx" where
  "suppress_frontier_group space gid epoch page reason =
     tx_bind (frontier_first_seen_at (space, gid, epoch)) (\<lambda>first_seen.
     tx_bind (delete_frontier (space, gid, epoch)) (\<lambda>removed.
     tx_then (require_one Invariant removed)
       (insert_suppression (space, gid, epoch) page reason first_seen)))"

definition insert_card_binding :: "group_key \<Rightarrow> string \<Rightarrow> string \<Rightarrow> int \<Rightarrow> ('p, unit) tx" where
  "insert_card_binding k cid page first_seen = tx_now (\<lambda>t s.
     let (space, gid, epoch) = k;
         r = \<lparr>cb_space = space, cb_group = gid, cb_epoch = epoch, cb_card = cid, cb_page = page,
              cb_first_seen = first_seen, cb_created = t, cb_closed = None\<rparr>
     in if not_blank cid \<and> not_blank page
           \<and> \<not> occurs (\<lambda>x. cb_key x = k \<and> (cb_card x = cid \<or> cb_live x)) (s_cards s)
        then Inr ((), s\<lparr>s_cards := s_cards s @ [r]\<rparr>)
        else Inl Constraint)"

definition bind_group :: "string \<Rightarrow> int \<Rightarrow> string \<Rightarrow> string \<times> string \<Rightarrow> ('p, unit) tx" where
  "bind_group space epoch cid pair =
     (let (gid, page) = pair
      in tx_bind (frontier_first_seen_at (space, gid, epoch)) (\<lambda>first_seen.
         tx_bind (delete_frontier (space, gid, epoch)) (\<lambda>removed.
         tx_then (require_one Invariant removed)
           (insert_card_binding (space, gid, epoch) cid page first_seen))))"

definition bind_frontier_groups_to_card ::
    "string \<Rightarrow> int \<Rightarrow> string \<Rightarrow> (string \<times> string) list \<Rightarrow> ('p, nat) tx" where
  "bind_frontier_groups_to_card space epoch cid groups =
     tx_then (tx_each (bind_group space epoch cid) groups) (tx_return (length groups))"

definition lapse_suppression :: "suppression \<Rightarrow> ('p, unit) tx" where
  "lapse_suppression e =
     tx_bind (tx_now (\<lambda>t s.
       let mine = (\<lambda>x. su_key x = su_key e \<and> su_at x = su_at e \<and> su_live x \<and> su_expires x \<le> t)
       in Inr (affected mine (s_suppressions s),
               s\<lparr>s_suppressions := update_where mine (su_lapsed_update (\<lambda>_. Some t)) (s_suppressions s)\<rparr>)))
     (\<lambda>lapsed. tx_then (require_one Invariant lapsed)
       (tx_now (\<lambda>t. insert_frontier \<lparr>fr_space = su_space e, fr_group = su_group e, fr_epoch = su_epoch e,
          fr_first_seen = su_first_seen e, fr_next_scan = t\<rparr>)))"

definition reconcile_expired_suppressions :: "string \<Rightarrow> int \<Rightarrow> ('p, nat) tx" where
  "reconcile_expired_suppressions space epoch =
     tx_bind (tx_now (\<lambda>t. tx_read (\<lambda>s. sort_key (\<lambda>x. (su_expires x, su_group x, su_at x))
         (filter (\<lambda>x. su_space x = space \<and> su_epoch x = epoch \<and> su_live x \<and> su_expires x \<le> t)
            (s_suppressions s)))))
     (\<lambda>expired. tx_then (tx_each lapse_suppression expired) (tx_return (length expired)))"

definition quarantine_frontier_group :: "string \<Rightarrow> string \<Rightarrow> int \<Rightarrow> string \<Rightarrow> ('p, unit) tx" where
  "quarantine_frontier_group space gid epoch reason =
     tx_bind (frontier_first_seen_at (space, gid, epoch)) (\<lambda>first_seen.
     tx_bind (delete_frontier (space, gid, epoch)) (\<lambda>removed.
     tx_then (require_one Invariant removed)
       (tx_now (\<lambda>t s.
          let k = (space, gid, epoch);
              previous = map qu_at (filter (\<lambda>x. qu_key x = k) (s_quarantines s));
              at = (if previous = [] then t else max t (Max (set previous) + 1));
              r = \<lparr>qu_space = space, qu_group = gid, qu_epoch = epoch, qu_reason = reason,
                   qu_first_seen = first_seen, qu_at = at, qu_lifted = None\<rparr>
          in if not_blank reason
                \<and> \<not> occurs (\<lambda>x. qu_key x = k \<and> (qu_at x = at \<or> qu_live x)) (s_quarantines s)
             then Inr ((), s\<lparr>s_quarantines := s_quarantines s @ [r]\<rparr>)
             else Inl Constraint))))"

definition lift_quarantine_to_frontier :: "string \<Rightarrow> string \<Rightarrow> int \<Rightarrow> ('p, nat) tx" where
  "lift_quarantine_to_frontier space gid epoch =
     tx_bind (tx_read (\<lambda>s. find (\<lambda>x. qu_key x = (space, gid, epoch) \<and> qu_live x) (s_quarantines s)))
     (\<lambda>row. case row of
        None \<Rightarrow> tx_fail Invariant
      | Some q \<Rightarrow>
          tx_bind (tx_now (\<lambda>t s.
            let mine = (\<lambda>x. qu_key x = (space, gid, epoch) \<and> qu_at x = qu_at q \<and> qu_live x)
            in Inr (affected mine (s_quarantines s),
                    s\<lparr>s_quarantines := update_where mine (\<lambda>x. x\<lparr>qu_lifted := Some (max t (qu_at x))\<rparr>)
                        (s_quarantines s)\<rparr>)))
          (\<lambda>lifted. tx_then (require_one Invariant lifted)
            (tx_then (tx_now (\<lambda>t. insert_frontier \<lparr>fr_space = space, fr_group = gid, fr_epoch = epoch,
                fr_first_seen = qu_first_seen q, fr_next_scan = t\<rparr>))
              (tx_return 1))))"

definition open_card_bindings :: "string \<Rightarrow> ('p, card_binding list) tx" where
  "open_card_bindings cid = tx_read (\<lambda>s. sort_key (\<lambda>x. (cb_space x, cb_epoch x, cb_group x))
     (filter (\<lambda>x. cb_card x = cid \<and> cb_live x) (s_cards s)))"

definition close_cards :: "(card_binding \<Rightarrow> bool) \<Rightarrow> ('p, nat) tx" where
  "close_cards P = tx_now (\<lambda>t s.
     let mine = (\<lambda>x. P x \<and> cb_live x)
     in if occurs (\<lambda>x. mine x \<and> t < cb_created x) (s_cards s) then Inl Constraint
        else Inr (affected mine (s_cards s),
               s\<lparr>s_cards := update_where mine (cb_closed_update (\<lambda>_. Some t)) (s_cards s)\<rparr>))"

definition dismiss_card_to_suppression :: "string \<Rightarrow> string \<Rightarrow> ('p, nat) tx" where
  "dismiss_card_to_suppression cid reason =
     tx_bind (open_card_bindings cid) (\<lambda>bindings.
       if bindings = [] then tx_return 0
       else tx_bind (close_cards (\<lambda>x. cb_card x = cid)) (\<lambda>closed.
         if closed \<noteq> length bindings then tx_fail Invariant
         else tx_then (tx_each (\<lambda>b. insert_suppression (cb_key b) (cb_page b) reason (cb_first_seen b)) bindings)
                (tx_return (length bindings))))"

section \<open>The frontier\<close>

subsection \<open>Accounting\<close>

definition concept_live :: "claim \<Rightarrow> bool" where
  "concept_live x \<longleftrightarrow> cl_role x = Concept \<and> cl_released x = None"

definition eligible_groups :: "string \<Rightarrow> 'p store \<Rightarrow> string list" where
  "eligible_groups space s = remdups (sort (concat (map (\<lambda>e.
     if ed_space e = space \<and> ed_grounded e \<and> ed_valid_until e = None
     then map ro_group (filter (\<lambda>r. ed_root e = Some (ro_id r) \<and> ro_status r = ''active''
            \<and> ro_kind r \<noteq> ''generated'') (s_roots s))
     else []) (s_edges s))))"

text \<open>The six homes of a group. The joins of the query are over keys that the tables keep unique, so
  each contributes at most one.\<close>

datatype home = Covered | Claimed | InFrontier | OnCard | IsSuppressed | Quarantined

definition all_homes :: "home list" where
  "all_homes = [Covered, Claimed, InFrontier, OnCard, IsSuppressed, Quarantined]"

fun at_home :: "'p store \<Rightarrow> home \<Rightarrow> group_key \<Rightarrow> bool" where
  "at_home s Covered k = occurs (\<lambda>x. gc_key x = k) (s_coverage s)"
| "at_home s Claimed k = occurs (\<lambda>x. concept_live x \<and> cl_group x = fst (snd k) \<and> cl_epoch x = snd (snd k)
     \<and> occurs (\<lambda>c. ca_id c = cl_candidate x \<and> ca_space c = fst k) (s_candidates s)) (s_claims s)"
| "at_home s InFrontier k = occurs (\<lambda>x. fr_key x = k) (s_frontier s)"
| "at_home s OnCard k = occurs (\<lambda>x. cb_key x = k \<and> cb_live x) (s_cards s)"
| "at_home s IsSuppressed k = occurs (\<lambda>x. su_key x = k \<and> su_live x) (s_suppressions s)"
| "at_home s Quarantined k = occurs (\<lambda>x. qu_key x = k \<and> qu_live x) (s_quarantines s)"

definition reason_count :: "'p store \<Rightarrow> group_key \<Rightarrow> nat" where
  "reason_count s k = length (filter (\<lambda>h. at_home s h k) all_homes)"

definition reason_counts :: "string \<Rightarrow> int \<Rightarrow> 'p store \<Rightarrow> (string \<times> nat) list" where
  "reason_counts space epoch s =
     map (\<lambda>g. (g, reason_count s (space, g, epoch))) (eligible_groups space s)"

subsection \<open>Transitions of the frontier\<close>

definition insert_frontier_row :: "string \<Rightarrow> string \<Rightarrow> int \<Rightarrow> ('p, nat) tx" where
  "insert_frontier_row space gid epoch = tx_now (\<lambda>t. insert_frontier_or_ignore
     \<lparr>fr_space = space, fr_group = gid, fr_epoch = epoch, fr_first_seen = t, fr_next_scan = t\<rparr>)"

definition retire_frontier_row :: "string \<Rightarrow> string \<Rightarrow> int \<Rightarrow> ('p, nat) tx" where
  "retire_frontier_row space gid epoch = delete_frontier (space, gid, epoch)"

definition restore_frontier_row :: "string \<Rightarrow> string \<Rightarrow> int \<Rightarrow> ('p, nat) tx" where
  "restore_frontier_row space gid epoch = tx_now (\<lambda>t s.
     let claims = map cl_created (filter (\<lambda>x. cl_group x = gid \<and> cl_epoch x = epoch
            \<and> occurs (\<lambda>c. ca_id c = cl_candidate x \<and> ca_space c = space) (s_candidates s)) (s_claims s))
     in insert_frontier_or_ignore \<lparr>fr_space = space, fr_group = gid, fr_epoch = epoch,
          fr_first_seen = (if claims = [] then t else Min (set claims)), fr_next_scan = t\<rparr> s)"

definition expire_card_binding_to_frontier :: "string \<Rightarrow> string \<Rightarrow> int \<Rightarrow> ('p, bool) tx" where
  "expire_card_binding_to_frontier space gid epoch =
     tx_bind (tx_read (\<lambda>s. find (\<lambda>x. cb_key x = (space, gid, epoch) \<and> cb_live x) (s_cards s)))
     (\<lambda>row. case row of
        None \<Rightarrow> tx_return False
      | Some b \<Rightarrow>
          tx_bind (vector_db (close_cards (\<lambda>x. cb_key x = (space, gid, epoch) \<and> cb_card x = cb_card b)))
          (\<lambda>closed. if closed \<noteq> 1 then tx_fail Conflict
            else tx_then (tx_now (\<lambda>t. insert_frontier_or_ignore \<lparr>fr_space = space, fr_group = gid,
                   fr_epoch = epoch, fr_first_seen = cb_first_seen b, fr_next_scan = t\<rparr>))
                 (tx_return True)))"

definition defer_scan :: "string \<Rightarrow> string \<Rightarrow> int \<Rightarrow> int \<Rightarrow> ('p, nat) tx" where
  "defer_scan space gid epoch delay_seconds = tx_now (\<lambda>t s.
     let mine = (\<lambda>x. fr_key x = (space, gid, epoch))
     in Inr (affected mine (s_frontier s), s\<lparr>s_frontier := update_where mine
          (\<lambda>x. x\<lparr>fr_next_scan := t + min (max delay_seconds 0) next_scan_max_ahead_seconds\<rparr>)
          (s_frontier s)\<rparr>))"

definition max_next_scan_lead_seconds :: "string \<Rightarrow> ('p, int) tx" where
  "max_next_scan_lead_seconds space = tx_now (\<lambda>t. tx_read (\<lambda>s.
     let leads = map (\<lambda>x. fr_next_scan x - t) (filter (\<lambda>x. fr_space x = space) (s_frontier s))
     in if leads = [] then 0 else Max (set leads)))"

record reconcile_outcome =
  oc_repaired :: "string list"
  oc_lapsed :: nat
  oc_examined :: nat

definition reconcile_space :: "string \<Rightarrow> int \<Rightarrow> ('p, reconcile_outcome) tx" where
  "reconcile_space space epoch =
     tx_bind (vector_db (reconcile_expired_suppressions space epoch)) (\<lambda>lapsed.
     tx_bind (tx_read (reason_counts space epoch)) (\<lambda>accounting.
       if list_ex (\<lambda>(g, n). n > 1) accounting then tx_fail Conflict
       else let missing = map fst (filter (\<lambda>(g, n). n = 0) accounting)
            in tx_then (tx_each (\<lambda>g. tx_bind (insert_frontier_row space g epoch) (\<lambda>_. tx_return ())) missing)
                 (tx_return \<lparr>oc_repaired = missing, oc_lapsed = lapsed, oc_examined = length accounting\<rparr>)))"

subsection \<open>The scan cursor\<close>

record scan_cursor =
  sc_next_scan :: int
  sc_first_seen :: int
  sc_group :: string

definition frontier_cursor_key_prefix :: string where
  "frontier_cursor_key_prefix = ''m6_frontier_cursor_v1:''"

definition cursor_key :: "string \<Rightarrow> string" where
  "cursor_key space = frontier_cursor_key_prefix @ space"

text \<open>\<open>str::parse::<i64>\<close>: an optional sign, at least one digit, and no overflow.\<close>

definition parse_unsigned :: "string \<Rightarrow> nat option" where
  "parse_unsigned cs = (if cs = [] then None else read_digits 0 cs)"

definition parse_i64 :: "string \<Rightarrow> int option" where
  "parse_i64 cs =
     (let n = (case cs of
          c # ds \<Rightarrow> if c = CHR ''-'' then map_option (\<lambda>n. - int n) (parse_unsigned ds)
                    else if c = CHR ''+'' then map_option int (parse_unsigned ds)
                    else map_option int (parse_unsigned cs)
        | [] \<Rightarrow> None)
      in case n of
           None \<Rightarrow> None
         | Some n \<Rightarrow> if - (2 ^ 63) \<le> n \<and> n < 2 ^ 63 then Some n else None)"

text \<open>\<open>splitn(3, '|')\<close>, of which the third part is the rest.\<close>

definition split_once :: "string \<Rightarrow> (string \<times> string) option" where
  "split_once cs = (case dropWhile (\<lambda>c. c \<noteq> CHR ''|'') cs of
       [] \<Rightarrow> None
     | _ # rest \<Rightarrow> Some (takeWhile (\<lambda>c. c \<noteq> CHR ''|'') cs, rest))"

definition parse_cursor :: "string \<Rightarrow> scan_cursor option" where
  "parse_cursor value =
     Option.bind (split_once value) (\<lambda>(a, rest).
     Option.bind (parse_i64 a) (\<lambda>next.
     Option.bind (split_once rest) (\<lambda>(b, gid).
     Option.bind (parse_i64 b) (\<lambda>first.
       if gid = [] then None
       else Some \<lparr>sc_next_scan = next, sc_first_seen = first, sc_group = gid\<rparr>))))"

definition cursor_text :: "scan_cursor option \<Rightarrow> string" where
  "cursor_text cursor = (case cursor of
       Some c \<Rightarrow> int_part (sc_next_scan c) @ ''|'' @ int_part (sc_first_seen c) @ ''|'' @ sc_group c
     | None \<Rightarrow> [])"

definition read_cursor :: "string \<Rightarrow> ('p, scan_cursor option) tx" where
  "read_cursor space = tx_read (\<lambda>s. Option.bind (s_metadata s (cursor_key space)) parse_cursor)"

definition write_cursor :: "string \<Rightarrow> scan_cursor option \<Rightarrow> ('p, unit) tx" where
  "write_cursor space cursor s =
     Inr ((), s\<lparr>s_metadata := (s_metadata s)(cursor_key space \<mapsto> cursor_text cursor)\<rparr>)"

definition row_position :: "frontier_row \<Rightarrow> int \<times> int \<times> string" where
  "row_position x = (fr_next_scan x, fr_first_seen x, fr_group x)"

definition cursor_position :: "scan_cursor \<Rightarrow> int \<times> int \<times> string" where
  "cursor_position c = (sc_next_scan c, sc_first_seen c, sc_group c)"

definition scan_slice ::
    "string \<Rightarrow> int \<Rightarrow> scan_cursor option \<Rightarrow> ('p, frontier_row list \<times> scan_cursor option) tx" where
  "scan_slice space epoch cursor = tx_read (\<lambda>s.
     let rows = take frontier_scan_slice_rows (sort_key row_position
           (filter (\<lambda>x. fr_space x = space \<and> fr_epoch x = epoch
              \<and> is_none_or (\<lambda>c. cursor_position c < row_position x) cursor) (s_frontier s)))
     in (rows,
         if length rows = frontier_scan_slice_rows
         then Some \<lparr>sc_next_scan = fr_next_scan (last rows), sc_first_seen = fr_first_seen (last rows),
                    sc_group = fr_group (last rows)\<rparr>
         else None))"

subsection \<open>The card of below-floor groups\<close>

definition domain_card_space :: string where "domain_card_space = ''m6-card-space-v1''"
definition card_id_prefix :: string where "card_id_prefix = ''m6_unformed_topic_''"

definition card_id :: "(string \<Rightarrow> string) \<Rightarrow> string \<Rightarrow> int \<Rightarrow> string" where
  "card_id sha space_id epoch =
     card_id_prefix @ m6_digest sha domain_card_space [space_id] @ ''_'' @ int_part epoch"

definition below_floor_groups :: "string \<Rightarrow> int \<Rightarrow> ('p, string list) tx" where
  "below_floor_groups space epoch = tx_now (\<lambda>t. tx_read (\<lambda>s. map fr_group
     (sort_key (\<lambda>x. (fr_first_seen x, fr_group x))
       (filter (\<lambda>x. fr_space x = space \<and> fr_epoch x = epoch
          \<and> fr_first_seen x \<le> t - below_floor_surfacing_seconds) (s_frontier s)))))"

definition surface_below_floor_groups ::
    "(string \<Rightarrow> string) \<Rightarrow> string \<Rightarrow> string \<Rightarrow> int \<Rightarrow> ('p, (string \<times> string list) option) tx" where
  "surface_below_floor_groups sha space space_id epoch =
     tx_bind (below_floor_groups space epoch) (\<lambda>groups.
       if groups = [] then tx_return None
       else let cid = card_id sha space_id epoch;
                card_groups = map (\<lambda>g. (g, page_id sha (slot_id_evidence_cluster sha space_id [g]))) groups
            in tx_then (vector_db (bind_frontier_groups_to_card space epoch cid card_groups))
                 (tx_return (Some (cid, groups))))"

end
