(* ===== verification/Genesis_Candidates.thy ===== *)
theory Genesis_Candidates
  imports Genesis_Frontier
begin

text \<open>
  \<open>m6/candidates.rs\<close>: the coverage epoch of a space, the candidate rows with their states and legal
  transitions, and the claims by which a candidate reserves roots and groups. A refused claim is an
  answer, not an error: the statement leaves the tables as they were and the transaction goes on.
\<close>

section \<open>States and transitions\<close>

definition candidate_states :: "candidate_state list" where
  "candidate_states = [Observed, Prepared, Inferencing, Validating, Published, RetryWait, Stale,
     ReviewRequired, Suppressed, Superseded]"

definition terminal_states :: "candidate_state list" where
  "terminal_states = [Published, Suppressed, Superseded]"

definition pending_states :: "candidate_state list" where
  "pending_states = [Observed, Prepared, Inferencing, Validating, RetryWait]"

fun state_as_str :: "candidate_state \<Rightarrow> string" where
  "state_as_str Observed = ''observed''"
| "state_as_str Prepared = ''prepared''"
| "state_as_str Inferencing = ''inferencing''"
| "state_as_str Validating = ''validating''"
| "state_as_str Published = ''published''"
| "state_as_str RetryWait = ''retry_wait''"
| "state_as_str Stale = ''stale''"
| "state_as_str ReviewRequired = ''review_required''"
| "state_as_str Suppressed = ''suppressed''"
| "state_as_str Superseded = ''superseded''"

definition state_parse :: "string \<Rightarrow> candidate_state option" where
  "state_parse text = find (\<lambda>st. state_as_str st = text) candidate_states"

definition is_terminal :: "candidate_state \<Rightarrow> bool" where
  "is_terminal st \<longleftrightarrow> st \<in> set terminal_states"

definition candidate_transitions :: "(string \<times> candidate_state \<times> candidate_state) list" where
  "candidate_transitions =
     [(''A2'', Observed, Prepared), (''A3'', Observed, Stale), (''A4'', Observed, Superseded),
      (''A5'', Prepared, Inferencing), (''A6'', Prepared, RetryWait), (''A7'', Prepared, Stale),
      (''A7'', Inferencing, Stale), (''A7'', Validating, Stale), (''A8'', Inferencing, Validating),
      (''A9'', Inferencing, RetryWait), (''A10'', Validating, Published), (''A11'', Validating, RetryWait),
      (''A12'', Validating, ReviewRequired), (''A13'', RetryWait, Prepared), (''A14'', RetryWait, Stale),
      (''A15'', RetryWait, Stale), (''A16'', RetryWait, Superseded),
      (''A17'', ReviewRequired, Suppressed), (''A18'', ReviewRequired, Stale), (''A19'', Stale, Prepared),
      (''A1'', Observed, Observed)]"

definition transition_is_legal :: "candidate_state \<Rightarrow> candidate_state \<Rightarrow> bool" where
  "transition_is_legal a b \<longleftrightarrow> list_ex (\<lambda>(_, c, d). c = a \<and> d = b) candidate_transitions"

fun role_as_str :: "claim_role \<Rightarrow> string" where
  "role_as_str Concept = ''concept''"
| "role_as_str Witness = ''witness''"

fun claim_role_for :: "signal_kind \<Rightarrow> claim_role" where
  "claim_role_for EvidenceCluster = Concept"
| "claim_role_for OrphanWikilink = Concept"
| "claim_role_for CommunityOverview = Witness"
| "claim_role_for SpaceOverview = Witness"

section \<open>Delays\<close>

definition retry_attempt_limit :: int where "retry_attempt_limit = 5"
definition retry_base_delay_seconds :: int where "retry_base_delay_seconds = 60"
definition retry_max_delay_seconds :: int where "retry_max_delay_seconds = 4 * 3600"
definition stale_retry_exhausted_delay_seconds :: int where "stale_retry_exhausted_delay_seconds = 86400"
definition stale_card_expired_delay_seconds :: int where "stale_card_expired_delay_seconds = 180 * 86400"
definition pending_candidates_per_space_cap :: nat where "pending_candidates_per_space_cap = 128"

definition saturating_mul_i64 :: "int \<Rightarrow> int \<Rightarrow> int" where
  "saturating_mul_i64 a b = max (- (2 ^ 63)) (min (2 ^ 63 - 1) (a * b))"

fun backoff_loop :: "nat \<Rightarrow> int \<Rightarrow> int" where
  "backoff_loop 0 delay = min delay retry_max_delay_seconds"
| "backoff_loop (Suc n) delay =
     (let delay = saturating_mul_i64 delay 4
      in if delay \<ge> retry_max_delay_seconds then retry_max_delay_seconds else backoff_loop n delay)"

definition retry_backoff_seconds :: "int \<Rightarrow> int" where
  "retry_backoff_seconds attempt =
     (if attempt \<le> 0 then 0 else backoff_loop (nat (attempt - 1)) retry_base_delay_seconds)"

definition retry_exhausted :: "int \<Rightarrow> bool" where
  "retry_exhausted attempt \<longleftrightarrow> attempt > retry_attempt_limit"

datatype stale_reason = InputMoved | LeaseLost | RetryExhausted | CardExpired

fun reason_as_str :: "stale_reason \<Rightarrow> string" where
  "reason_as_str InputMoved = ''input_moved''"
| "reason_as_str LeaseLost = ''lease_lost''"
| "reason_as_str RetryExhausted = ''retry_exhausted''"
| "reason_as_str CardExpired = ''card_expired''"

fun re_entry_delay_seconds :: "stale_reason \<Rightarrow> int \<Rightarrow> int" where
  "re_entry_delay_seconds InputMoved attempt = 0"
| "re_entry_delay_seconds LeaseLost attempt = retry_backoff_seconds attempt"
| "re_entry_delay_seconds RetryExhausted attempt = stale_retry_exhausted_delay_seconds"
| "re_entry_delay_seconds CardExpired attempt = stale_card_expired_delay_seconds"

datatype retry_charge = BudgetRefusal | Charged

section \<open>The coverage epoch\<close>

definition epoch_transitions :: "(string \<times> epoch_state \<times> epoch_state) list" where
  "epoch_transitions = [(''D2'', Active, Migrating), (''D3'', Migrating, Active), (''D4'', Migrating, Active)]"

definition epoch_transition_is_legal :: "epoch_state \<Rightarrow> epoch_state \<Rightarrow> bool" where
  "epoch_transition_is_legal a b \<longleftrightarrow> list_ex (\<lambda>(_, c, d). c = a \<and> d = b) epoch_transitions"

definition read_coverage_state :: "string \<Rightarrow> ('p, coverage_state option) tx" where
  "read_coverage_state space_id = tx_read (\<lambda>s. find (\<lambda>c. cs_space_id c = space_id) (s_epochs s))"

text \<open>The trigger aborts an insert for a space or an id that has a row, or that no space has.\<close>

definition open_coverage_epoch :: "string \<Rightarrow> string \<Rightarrow> ('p, coverage_state) tx" where
  "open_coverage_epoch space_id space =
     tx_bind (read_coverage_state space_id) (\<lambda>row. case row of
       Some c \<Rightarrow> tx_return c
     | None \<Rightarrow>
         tx_then (vector_db (tx_now (\<lambda>t s.
           if (space_id, space) \<notin> set (s_spaces s)
              \<or> occurs (\<lambda>c. cs_space c = space \<or> cs_space_id c = space_id) (s_epochs s)
           then Inl Constraint
           else Inr ((), s\<lparr>s_epochs := s_epochs s @
                  [\<lparr>cs_space = space, cs_space_id = space_id, cs_epoch = 1, cs_state = Active,
                    cs_opened = t, cs_cursor = None, cs_enabled = False\<rparr>]\<rparr>))))
         (tx_bind (read_coverage_state space_id) (\<lambda>row. case row of
            Some c \<Rightarrow> tx_return c | None \<Rightarrow> tx_fail VectorDb)))"

definition update_epochs ::
    "string \<Rightarrow> epoch_state \<Rightarrow> (coverage_state \<Rightarrow> coverage_state) \<Rightarrow> ('p, nat) tx" where
  "update_epochs space_id st f s =
     (let mine = (\<lambda>c. cs_space_id c = space_id \<and> cs_state c = st)
      in Inr (affected mine (s_epochs s), s\<lparr>s_epochs := update_where mine f (s_epochs s)\<rparr>))"

definition begin_epoch_migration :: "string \<Rightarrow> ('p, unit) tx" where
  "begin_epoch_migration space_id =
     tx_bind (update_epochs space_id Active (\<lambda>c. c\<lparr>cs_state := Migrating, cs_cursor := None\<rparr>))
       (require_one Conflict)"

definition complete_epoch_migration :: "string \<Rightarrow> ('p, int) tx" where
  "complete_epoch_migration space_id =
     tx_then (tx_bind (update_epochs space_id Migrating
         (\<lambda>c. c\<lparr>cs_epoch := cs_epoch c + 1, cs_state := Active, cs_cursor := None\<rparr>))
       (require_one Conflict))
     (tx_bind (read_coverage_state space_id) (\<lambda>row.
        tx_return (case row of None \<Rightarrow> 0 | Some c \<Rightarrow> cs_epoch c)))"

definition abandon_epoch_migration :: "string \<Rightarrow> ('p, unit) tx" where
  "abandon_epoch_migration space_id =
     tx_bind (update_epochs space_id Migrating (\<lambda>c. c\<lparr>cs_state := Active, cs_cursor := None\<rparr>))
       (require_one Conflict)"

section \<open>The candidate row\<close>

record observed_candidate =
  ob_candidate_id :: string
  ob_slot_id :: string
  ob_page_id :: string
  ob_space :: string
  ob_signal :: signal_kind
  ob_epoch :: int
  ob_generation :: int
  ob_digest :: string

datatype observe_outcome = DidObserve | AlreadyPresent | RefusedPendingCap

definition candidate_row :: "string \<Rightarrow> 'p store \<Rightarrow> 'p candidate option" where
  "candidate_row i s = find (\<lambda>c. ca_id c = i) (s_candidates s)"

definition read_candidate :: "string \<Rightarrow> ('p, 'p candidate option) tx" where
  "read_candidate i = tx_read (candidate_row i)"

definition pending_candidate_count :: "string \<Rightarrow> 'p store \<Rightarrow> nat" where
  "pending_candidate_count space s =
     affected (\<lambda>c. ca_space c = space \<and> ca_state c \<in> set pending_states) (s_candidates s)"

definition observe_candidate :: "observed_candidate \<Rightarrow> ('p, observe_outcome) tx" where
  "observe_candidate ob =
     tx_bind (read_candidate (ob_candidate_id ob)) (\<lambda>row.
       if row \<noteq> None then tx_return AlreadyPresent
       else tx_bind (tx_read (pending_candidate_count (ob_space ob))) (\<lambda>pending.
         if pending \<ge> pending_candidates_per_space_cap then tx_return RefusedPendingCap
         else tx_now (\<lambda>t s. Inr (DidObserve, s\<lparr>s_candidates := s_candidates s @
           [\<lparr>ca_id = ob_candidate_id ob, ca_slot = ob_slot_id ob, ca_page = ob_page_id ob,
             ca_space = ob_space ob, ca_signal = ob_signal ob, ca_epoch = ob_epoch ob,
             ca_generation = ob_generation ob, ca_digest = ob_digest ob, ca_state = Observed,
             ca_reason = None, ca_attempt = 0, ca_next_attempt = None, ca_token = None,
             ca_receipt = None, ca_payload = None, ca_compacted = None, ca_created = t,
             ca_updated = t\<rparr>]\<rparr>))))"

text \<open>\<open>read_candidate(..)?.ok_or_else(NotFound)?\<close> and the \<open>UPDATE\<close>s of a candidate in given states.\<close>

definition get_candidate :: "string \<Rightarrow> ('p, 'p candidate) tx" where
  "get_candidate i = tx_bind (read_candidate i) (\<lambda>row. case row of
     None \<Rightarrow> tx_fail NotFound | Some c \<Rightarrow> tx_return c)"

definition update_candidate ::
    "string \<Rightarrow> candidate_state list \<Rightarrow> (int \<Rightarrow> 'p candidate \<Rightarrow> 'p candidate) \<Rightarrow> ('p, unit) tx" where
  "update_candidate i states f =
     tx_bind (tx_now (\<lambda>t s.
       let mine = (\<lambda>c. ca_id c = i \<and> ca_state c \<in> set states)
       in Inr (affected mine (s_candidates s),
               s\<lparr>s_candidates := update_where mine (f t) (s_candidates s)\<rparr>)))
     (require_one Conflict)"

definition guard_transition :: "candidate_state \<Rightarrow> candidate_state \<Rightarrow> ('p, unit) tx" where
  "guard_transition a b = (if transition_is_legal a b then tx_return () else tx_fail Conflict)"

section \<open>Claims\<close>

record claim_reservation =
  rv_root :: string
  rv_group :: string

text \<open>The upsert, with the two partial unique indexes over live concept claims: is it accepted?\<close>

definition insert_claim :: "string \<Rightarrow> claim_reservation \<Rightarrow> int \<Rightarrow> claim_role \<Rightarrow> ('p, bool) tx" where
  "insert_claim i rv epoch role = tx_now (\<lambda>t s.
     let own = (\<lambda>x. cl_candidate x = i \<and> cl_root x = rv_root rv);
         revive = (\<lambda>x. x\<lparr>cl_group := rv_group rv, cl_epoch := epoch, cl_role := role,
                     cl_released := None, cl_reason := None\<rparr>);
         fresh = \<lparr>cl_candidate = i, cl_root = rv_root rv, cl_group = rv_group rv, cl_epoch = epoch,
                  cl_role = role, cl_released = None, cl_reason = None, cl_created = t\<rparr>
     in if role = Concept \<and> occurs (\<lambda>x. \<not> own x \<and> concept_live x \<and> cl_epoch x = epoch
             \<and> (cl_root x = rv_root rv \<or> cl_group x = rv_group rv)) (s_claims s)
        then Inr (False, s)
        else Inr (True, s\<lparr>s_claims := (if occurs own (s_claims s) then update_where own revive (s_claims s)
                                       else s_claims s @ [fresh])\<rparr>))"

fun claim_each :: "string \<Rightarrow> int \<Rightarrow> claim_role \<Rightarrow> claim_reservation list \<Rightarrow> ('p, string option) tx" where
  "claim_each i epoch role [] = tx_return None"
| "claim_each i epoch role (rv # rvs) = tx_bind (insert_claim i rv epoch role) (\<lambda>accepted.
     if accepted then claim_each i epoch role rvs else tx_return (Some (rv_root rv)))"

definition distinct_groups :: "claim_reservation list \<Rightarrow> string list" where
  "distinct_groups rvs = remdups (sort (map rv_group rvs))"

definition candidate_concept_groups :: "string \<Rightarrow> bool \<Rightarrow> ('p, string list) tx" where
  "candidate_concept_groups i live_only = tx_read (\<lambda>s. remdups (sort (map cl_group
     (filter (\<lambda>x. cl_candidate x = i \<and> cl_role x = Concept \<and> (live_only \<longrightarrow> cl_released x = None))
       (s_claims s)))))"

definition release_claims_to_frontier :: "'p candidate \<Rightarrow> string \<Rightarrow> ('p, string list) tx" where
  "release_claims_to_frontier c reason =
     tx_bind (candidate_concept_groups (ca_id c) True) (\<lambda>groups.
     tx_then (tx_now (\<lambda>t s. Inr ((), s\<lparr>s_claims := update_where
         (\<lambda>x. cl_candidate x = ca_id c \<and> cl_released x = None)
         (\<lambda>x. x\<lparr>cl_released := Some t, cl_reason := Some reason\<rparr>) (s_claims s)\<rparr>)))
     (tx_then (tx_each (\<lambda>g. tx_then (restore_frontier_row (ca_space c) g (ca_epoch c)) (tx_return ())) groups)
       (tx_return groups)))"

definition settle_groups_to_frontier :: "'p candidate \<Rightarrow> string \<Rightarrow> ('p, unit) tx" where
  "settle_groups_to_frontier c reason =
     tx_then (release_claims_to_frontier c reason)
     (tx_bind (candidate_concept_groups (ca_id c) False) (\<lambda>groups.
        tx_each (\<lambda>g. tx_then (expire_card_binding_to_frontier (ca_space c) g (ca_epoch c)) (tx_return ()))
          groups))"

section \<open>Transitions of a candidate\<close>

datatype prepare_outcome = DidPrepare string | LeaseHeld | NotDue | ClaimRefused string

definition backoff_elapsed :: "string \<Rightarrow> ('p, bool) tx" where
  "backoff_elapsed i = tx_now (\<lambda>t. tx_read (\<lambda>s. case candidate_row i s of
     None \<Rightarrow> False
   | Some c \<Rightarrow> t \<ge> (case ca_next_attempt c of None \<Rightarrow> 0 | Some n \<Rightarrow> n)))"

definition finish_prepare ::
    "'p candidate \<Rightarrow> string \<Rightarrow> claim_reservation list \<Rightarrow> ('p, prepare_outcome) tx" where
  "finish_prepare c token claims =
     (let role = claim_role_for (ca_signal c)
      in tx_bind (claim_each (ca_id c) (ca_epoch c) role claims) (\<lambda>refused. case refused of
           Some r \<Rightarrow> tx_return (ClaimRefused r)
         | None \<Rightarrow>
             tx_then (if role = Concept
                      then tx_each (\<lambda>g. tx_then (retire_frontier_row (ca_space c) g (ca_epoch c)) (tx_return ()))
                             (distinct_groups claims)
                      else tx_return ())
             (tx_then (update_candidate (ca_id c) [Observed, RetryWait, Stale]
                (\<lambda>t x. x\<lparr>ca_state := Prepared, ca_token := Some token,
                   ca_attempt := (if ca_state c = Stale then 0 else ca_attempt c),
                   ca_reason := None, ca_next_attempt := None, ca_updated := t\<rparr>))
             (tx_return (DidPrepare token)))))"

definition prepare_candidate ::
    "string \<Rightarrow> string \<Rightarrow> claim_reservation list \<Rightarrow> ('p, prepare_outcome) tx" where
  "prepare_candidate token i claims =
     tx_bind (get_candidate i) (\<lambda>c.
     if \<not> transition_is_legal (ca_state c) Prepared then tx_fail Conflict
     else tx_bind (if ca_state c \<in> {RetryWait, Stale} then backoff_elapsed i else tx_return True) (\<lambda>due.
       if \<not> due then tx_return NotDue
       else tx_bind (lease_acquire token GenesisPhase (ca_space c) (ca_generation c) (ca_attempt c)) (\<lambda>lease.
         case lease of
           None \<Rightarrow> tx_return LeaseHeld
         | Some lease_token \<Rightarrow> finish_prepare c lease_token claims)))"

definition move_state ::
    "string \<Rightarrow> candidate_state list \<Rightarrow> candidate_state \<Rightarrow> string option \<Rightarrow> ('p, unit) tx" where
  "move_state i from_states to_state reason =
     tx_bind (get_candidate i) (\<lambda>c.
     tx_then (guard_transition (ca_state c) to_state)
       (if ca_state c \<notin> set from_states then tx_fail Conflict
        else update_candidate i [ca_state c] (\<lambda>t x. x\<lparr>ca_state := to_state,
               ca_reason := (case reason of None \<Rightarrow> ca_reason x | Some r \<Rightarrow> Some r), ca_updated := t\<rparr>)))"

definition mark_inferencing :: "string \<Rightarrow> ('p, unit) tx" where
  "mark_inferencing i = move_state i [Prepared] Inferencing None"

definition mark_validating :: "string \<Rightarrow> ('p, unit) tx" where
  "mark_validating i = move_state i [Inferencing] Validating None"

definition mark_retry_wait :: "string \<Rightarrow> retry_charge \<Rightarrow> ('p, unit) tx" where
  "mark_retry_wait i charge =
     tx_bind (get_candidate i) (\<lambda>c.
     tx_then (guard_transition (ca_state c) RetryWait)
     (let attempt = (case charge of BudgetRefusal \<Rightarrow> ca_attempt c | Charged \<Rightarrow> ca_attempt c + 1);
          delay = (case charge of BudgetRefusal \<Rightarrow> 0 | Charged \<Rightarrow> retry_backoff_seconds attempt)
      in update_candidate i [Prepared, Inferencing, Validating] (\<lambda>t x. x\<lparr>ca_state := RetryWait,
           ca_attempt := attempt, ca_next_attempt := Some (t + delay), ca_updated := t\<rparr>)))"

definition mark_stale :: "string \<Rightarrow> stale_reason \<Rightarrow> ('p, unit) tx" where
  "mark_stale i reason =
     tx_bind (get_candidate i) (\<lambda>c.
     tx_then (guard_transition (ca_state c) Stale)
     (tx_then (settle_groups_to_frontier c (reason_as_str reason))
       (update_candidate i [Observed, Prepared, Inferencing, Validating, RetryWait, ReviewRequired]
          (\<lambda>t x. x\<lparr>ca_state := Stale, ca_reason := Some (reason_as_str reason), ca_token := None,
             ca_next_attempt := Some (t + re_entry_delay_seconds reason (ca_attempt c)),
             ca_updated := t\<rparr>))))"

definition mark_superseded :: "string \<Rightarrow> ('p, unit) tx" where
  "mark_superseded i =
     tx_bind (get_candidate i) (\<lambda>c.
     tx_then (guard_transition (ca_state c) Superseded)
     (tx_then (settle_groups_to_frontier c ''slot_published'')
       (update_candidate i [Observed, RetryWait] (\<lambda>t x. x\<lparr>ca_state := Superseded,
          ca_reason := Some ''slot_published'', ca_token := None, ca_next_attempt := None,
          ca_updated := t\<rparr>))))"

definition mark_review_required :: "string \<Rightarrow> string \<Rightarrow> ('p, unit) tx" where
  "mark_review_required i card_name =
     tx_bind (get_candidate i) (\<lambda>c.
     tx_then (guard_transition (ca_state c) ReviewRequired)
     (tx_bind (release_claims_to_frontier c ''review_required'') (\<lambda>groups.
      tx_then (vector_db (bind_frontier_groups_to_card (ca_space c) (ca_epoch c) card_name
                 (map (\<lambda>g. (g, ca_page c)) groups)))
       (update_candidate i [Validating] (\<lambda>t x. x\<lparr>ca_state := ReviewRequired,
          ca_reason := Some ''review_required'', ca_token := None, ca_next_attempt := None,
          ca_updated := t\<rparr>)))))"

definition mark_suppressed :: "string \<Rightarrow> string \<Rightarrow> string \<Rightarrow> ('p, unit) tx" where
  "mark_suppressed i card_name reason =
     tx_bind (get_candidate i) (\<lambda>c.
     tx_then (guard_transition (ca_state c) Suppressed)
     (tx_then (vector_db (dismiss_card_to_suppression card_name reason))
       (update_candidate i [ReviewRequired] (\<lambda>t x. x\<lparr>ca_state := Suppressed, ca_reason := Some reason,
          ca_token := None, ca_next_attempt := None, ca_updated := t\<rparr>))))"

definition compact_terminal_payloads :: "string \<Rightarrow> int \<Rightarrow> ('p, nat) tx" where
  "compact_terminal_payloads space retention_seconds = tx_now (\<lambda>t s.
     let old = (\<lambda>c. ca_space c = space \<and> ca_state c \<in> {Published, Stale, Suppressed, Superseded}
          \<and> ca_updated c \<le> t - retention_seconds \<and> ca_payload c \<noteq> None)
     in Inr (affected old (s_candidates s), s\<lparr>s_candidates :=
          update_where old (\<lambda>c. c\<lparr>ca_payload := None, ca_compacted := Some t\<rparr>) (s_candidates s)\<rparr>))"

definition live_claims :: "string \<Rightarrow> int \<Rightarrow> ('p, claim list) tx" where
  "live_claims space epoch = tx_read (\<lambda>s. sort_key (\<lambda>x. (cl_candidate x, cl_root x))
     (filter (\<lambda>x. occurs (\<lambda>c. ca_id c = cl_candidate x \<and> ca_space c = space) (s_candidates s)
        \<and> cl_epoch x = epoch \<and> cl_released x = None) (s_claims s)))"

end
