(* ===== verification/Label_Key.thy ===== *)
theory Label_Key
  imports Prelude
begin

text \<open>
  \<open>m6/label_key.rs\<close>: the key of a wikilink target. A Rust string is its UTF-8 bytes, \<open>chars\<close> its scalar values; the
  tables of Unicode (NFKC, lower case, \<open>White_Space\<close> and the general categories) are the record \<open>unicode\<close>.
\<close>

section \<open>Scalars and bytes\<close>

type_synonym scalar = nat

definition utf8_encode_scalar :: "scalar \<Rightarrow> string" where
  "utf8_encode_scalar c =
     (if c < 128 then [char_of c]
      else if c < 2048 then [char_of (192 + c div 64), char_of (128 + c mod 64)]
      else if c < 65536 then [char_of (224 + c div 4096), char_of (128 + c div 64 mod 64), char_of (128 + c mod 64)]
      else [char_of (240 + c div 262144), char_of (128 + c div 4096 mod 64), char_of (128 + c div 64 mod 64),
            char_of (128 + c mod 64)])"

definition utf8_encode :: "scalar list \<Rightarrow> string" where
  "utf8_encode cs = concat (map utf8_encode_scalar cs)"

definition utf8_tail :: "nat \<Rightarrow> nat" where
  "utf8_tail lead = (if lead < 192 then 0 else if lead < 224 then 1 else if lead < 240 then 2 else 3)"

definition utf8_lead :: "nat \<Rightarrow> nat" where
  "utf8_lead lead = (if lead < 192 then lead else if lead < 224 then lead - 192 else if lead < 240 then lead - 224
     else lead - 240)"

fun utf8_decode :: "string \<Rightarrow> scalar list" where
  "utf8_decode [] = []"
| "utf8_decode (b # bs) =
     (let n = utf8_tail (of_char b)
      in foldl (\<lambda>v x. v * 64 + (of_char x - 128)) (utf8_lead (of_char b)) (take n bs) # utf8_decode (drop n bs))"

lemma utf8_decode_groups:
  "a < 192 \<Longrightarrow> utf8_decode (char_of a # bs) = a # utf8_decode bs"
  "a < 32 \<Longrightarrow> x < 64 \<Longrightarrow> utf8_decode (char_of (192 + a) # char_of (128 + x) # bs) = (a * 64 + x) # utf8_decode bs"
  "a < 16 \<Longrightarrow> x < 64 \<Longrightarrow> y < 64 \<Longrightarrow> utf8_decode (char_of (224 + a) # char_of (128 + x) # char_of (128 + y) # bs)
     = ((a * 64 + x) * 64 + y) # utf8_decode bs"
  "a < 8 \<Longrightarrow> x < 64 \<Longrightarrow> y < 64 \<Longrightarrow> z < 64 \<Longrightarrow>
     utf8_decode (char_of (240 + a) # char_of (128 + x) # char_of (128 + y) # char_of (128 + z) # bs)
     = (((a * 64 + x) * 64 + y) * 64 + z) # utf8_decode bs"
  by (simp_all add: utf8_tail_def utf8_lead_def)

lemma utf8_decode_scalar:
  assumes "c < 1114112"
  shows "utf8_decode (utf8_encode_scalar c @ bs) = c # utf8_decode bs"
proof -
  have div: "c div 4096 = c div 64 div 64" "c div 262144 = c div 64 div 64 div 64"
    by (simp_all add: div_mult2_eq [symmetric])
  have eq: "c div 64 * 64 + c mod 64 = c" "(c div 4096 * 64 + c div 64 mod 64) * 64 + c mod 64 = c"
    "((c div 262144 * 64 + c div 4096 mod 64) * 64 + c div 64 mod 64) * 64 + c mod 64 = c"
    unfolding div by (simp_all only: div_mult_mod_eq)
  consider "c < 128" | "128 \<le> c" "c < 2048" | "2048 \<le> c" "c < 65536" | "65536 \<le> c" by linarith
  then show ?thesis
  proof cases
    case 1
    then show ?thesis using utf8_decode_groups(1) [of c bs] by (simp add: utf8_encode_scalar_def del: utf8_decode.simps)
  next
    case 2
    then have "c div 64 < 32" by linarith
    with 2 show ?thesis using utf8_decode_groups(2) [of "c div 64" "c mod 64" bs] eq(1)
      by (simp add: utf8_encode_scalar_def del: utf8_decode.simps)
  next
    case 3
    then have "c div 4096 < 16" by linarith
    with 3 show ?thesis using utf8_decode_groups(3) [of "c div 4096" "c div 64 mod 64" "c mod 64" bs] eq(2)
      by (simp add: utf8_encode_scalar_def del: utf8_decode.simps)
  next
    case 4
    then have "c div 262144 < 8" using assms by linarith
    with 4 show ?thesis
      using utf8_decode_groups(4) [of "c div 262144" "c div 4096 mod 64" "c div 64 mod 64" "c mod 64" bs] eq(3)
      by (simp add: utf8_encode_scalar_def del: utf8_decode.simps)
  qed
qed

lemma utf8_round_trip: "list_all (\<lambda>c. c < 1114112) cs \<Longrightarrow> utf8_decode (utf8_encode cs) = cs"
  by (induction cs) (simp_all add: utf8_encode_def utf8_decode_scalar del: utf8_decode.simps(2))

section \<open>The normalization of a label\<close>

record unicode =
  uc_nfkc :: "scalar list \<Rightarrow> scalar list"
  uc_lower :: "scalar list \<Rightarrow> scalar list"
  uc_white :: "scalar \<Rightarrow> bool"
  uc_control :: "scalar \<Rightarrow> bool"
  uc_format :: "scalar \<Rightarrow> bool"

datatype label_rejection = TooLongRaw | Structural | ControlOrFormat | BadLength

fun rejection_code :: "label_rejection \<Rightarrow> string" where
  "rejection_code TooLongRaw = ''R0''"
| "rejection_code Structural = ''R1''"
| "rejection_code ControlOrFormat = ''R2''"
| "rejection_code BadLength = ''R3''"

definition label_raw_precap_scalars :: nat where "label_raw_precap_scalars = 1024"
definition label_key_min_scalars :: nat where "label_key_min_scalars = 1"
definition label_key_max_scalars :: nat where "label_key_max_scalars = 128"

text \<open>\<open>#\<close>, \<open>|\<close>, \<open>[\<close> and \<open>]\<close>; the space is 32.\<close>

definition structural_chars :: "scalar list" where
  "structural_chars = [35, 124, 91, 93]"

definition is_control_or_format :: "unicode \<Rightarrow> scalar \<Rightarrow> bool" where
  "is_control_or_format U c \<longleftrightarrow> uc_control U c \<or> uc_format U c"

fun collapse_loop :: "(scalar \<Rightarrow> bool) \<Rightarrow> scalar list \<Rightarrow> bool \<Rightarrow> scalar list \<Rightarrow> scalar list" where
  "collapse_loop white out pending_space [] = out"
| "collapse_loop white out pending_space (ch # cs) =
     (if white ch then collapse_loop white out (out \<noteq> []) cs
      else collapse_loop white ((if pending_space then out @ [32] else out) @ [ch]) False cs)"

definition collapse_whitespace :: "(scalar \<Rightarrow> bool) \<Rightarrow> scalar list \<Rightarrow> scalar list" where
  "collapse_whitespace white input = collapse_loop white [] False input"

definition normalize_label_key :: "unicode \<Rightarrow> scalar list \<Rightarrow> label_rejection + scalar list" where
  "normalize_label_key U raw =
     (if length raw > label_raw_precap_scalars then Inl TooLongRaw
      else let normalized = uc_nfkc U (uc_lower U (uc_nfkc U raw))
           in if list_ex (\<lambda>c. c \<in> set structural_chars) normalized then Inl Structural
              else let collapsed = collapse_whitespace (uc_white U) normalized
                   in if list_ex (is_control_or_format U) collapsed then Inl ControlOrFormat
                      else if \<not> (label_key_min_scalars \<le> length collapsed \<and> length collapsed \<le> label_key_max_scalars)
                           then Inl BadLength
                           else Inr collapsed)"

text \<open>The key of a target in its bytes.\<close>

definition label_key :: "unicode \<Rightarrow> string \<Rightarrow> string option" where
  "label_key U target = (case normalize_label_key U (utf8_decode target) of
     Inl _ \<Rightarrow> None | Inr key \<Rightarrow> Some (utf8_encode key))"

section \<open>What a key looks like\<close>

text \<open>The reference: the words between the white space, joined with single spaces.\<close>

function words :: "(scalar \<Rightarrow> bool) \<Rightarrow> scalar list \<Rightarrow> scalar list list" where
  "words white cs = (case dropWhile white cs of
       [] \<Rightarrow> []
     | ds \<Rightarrow> takeWhile (\<lambda>c. \<not> white c) ds # words white (dropWhile (\<lambda>c. \<not> white c) ds))"
  by pat_completeness auto
termination
proof (relation "measure (\<lambda>(white, cs). length cs)")
  fix white :: "scalar \<Rightarrow> bool" and cs d ds assume *: "dropWhile white cs = d # ds"
  then have "\<not> white d" by (metis list.distinct(1) list.sel(1) hd_dropWhile)
  then have "length (dropWhile (\<lambda>c. \<not> white c) (d # ds)) < length (d # ds)"
    by (simp add: le_imp_less_Suc length_dropWhile_le)
  also have "\<dots> \<le> length cs" using * length_dropWhile_le [of white cs] by simp
  finally show "((white, dropWhile (\<lambda>c. \<not> white c) (d # ds)), white, cs) \<in> measure (\<lambda>(white, cs). length cs)" by simp
qed simp

declare words.simps [simp del]

fun join_words :: "scalar list list \<Rightarrow> scalar list" where
  "join_words [] = []"
| "join_words (w # ws) = w @ concat (map ((#) 32) ws)"

lemma words_Nil [simp]: "words white [] = []"
  by (simp add: words.simps)

lemma words_white [simp]: "white c \<Longrightarrow> words white (c # cs) = words white cs"
  by (simp add: words.simps [of white "c # cs"] words.simps [of white cs])

lemma words_char: "\<not> white c \<Longrightarrow> words white (c # cs)
    = (c # takeWhile (\<lambda>c. \<not> white c) cs) # words white (dropWhile (\<lambda>c. \<not> white c) cs)"
  by (simp add: words.simps [of white "c # cs"])

lemma word_chars: "w \<in> set (words white cs) \<Longrightarrow> w \<noteq> [] \<and> (\<forall>c \<in> set w. \<not> white c \<and> c \<in> set cs)"
proof (induction white cs rule: words.induct)
  case (1 white cs)
  show ?case
  proof (cases "dropWhile white cs")
    case Nil
    with "1.prems" show ?thesis by (simp add: words.simps [of white cs])
  next
    case (Cons d ds)
    then have d: "\<not> white d" by (metis list.distinct(1) list.sel(1) hd_dropWhile)
    have sub: "set (d # ds) \<subseteq> set cs" using set_dropWhileD [of _ white cs] Cons by auto
    have "w = takeWhile (\<lambda>c. \<not> white c) (d # ds) \<or> w \<in> set (words white (dropWhile (\<lambda>c. \<not> white c) (d # ds)))"
      using "1.prems" by (auto simp: words.simps [of white cs] Cons)
    then show ?thesis
    proof
      assume "w = takeWhile (\<lambda>c. \<not> white c) (d # ds)"
      then show ?thesis using d sub by (auto dest: set_takeWhileD)
    next
      assume "w \<in> set (words white (dropWhile (\<lambda>c. \<not> white c) (d # ds)))"
      from "1.IH" [OF Cons this] sub show ?thesis by (blast dest: set_dropWhileD)
    qed
  qed
qed

text \<open>What is still to come of an output that has begun, without and with a space pending.\<close>

lemma collapse_loop_words:
  "out \<noteq> [] \<Longrightarrow> collapse_loop white out True cs = out @ concat (map ((#) 32) (words white cs))
    \<and> collapse_loop white out False cs
      = out @ takeWhile (\<lambda>c. \<not> white c) cs @ concat (map ((#) 32) (words white (dropWhile (\<lambda>c. \<not> white c) cs)))"
  by (induction cs arbitrary: out) (simp_all add: words_char)

lemma collapse_is_words: "collapse_whitespace white cs = join_words (words white cs)"
  unfolding collapse_whitespace_def
  by (induction cs) (simp_all add: words_char collapse_loop_words)

lemma words_word:
  assumes "w \<noteq> []" "\<forall>c \<in> set w. \<not> white c" "ds = [] \<or> white (hd ds)"
  shows "words white (w @ ds) = w # words white ds"
proof -
  obtain c cs where w: "w = c # cs" "\<not> white c" "\<forall>c \<in> set cs. \<not> white c" using assms by (cases w) auto
  moreover have "takeWhile (\<lambda>c. \<not> white c) ds = []" "dropWhile (\<lambda>c. \<not> white c) ds = ds"
    using assms(3) by (cases ds; simp)+
  ultimately show ?thesis by (simp add: words_char takeWhile_append2 dropWhile_append2)
qed

lemma words_join:
  assumes "white 32" "\<forall>w \<in> set ws. w \<noteq> [] \<and> (\<forall>c \<in> set w. \<not> white c)"
  shows "words white (join_words ws) = ws"
proof -
  have spaced: "words white (concat (map ((#) 32) ws)) = ws" if "\<forall>w \<in> set ws. w \<noteq> [] \<and> (\<forall>c \<in> set w. \<not> white c)" for ws
    using that
  proof (induction ws)
    case (Cons w ws)
    let ?ds = "concat (map ((#) 32) ws)"
    have "?ds = [] \<or> white (hd ?ds)" using assms(1) by (cases ws) auto
    with Cons words_word [of w white ?ds] assms(1) show ?case by simp
  qed simp
  show ?thesis
  proof (cases ws)
    case (Cons w vs)
    let ?ds = "concat (map ((#) 32) vs)"
    have "?ds = [] \<or> white (hd ?ds)" using assms(1) by (cases vs) auto
    with words_word [of w white ?ds] spaced [of vs] assms(2) Cons show ?thesis by simp
  qed simp
qed

text \<open>C30 (equivalence). A target is accepted exactly when it is short enough, its normal form has no separator of the
  parser, and the words of the normal form, joined with single spaces, are a key of 1 to 128 scalars without control
  and format characters; that key is the result, and it is spaced canonically: collapsing it again changes nothing.\<close>

theorem label_keys_are_canonical:
  assumes "uc_white U 32"
  shows "normalize_label_key U raw = Inr key \<longleftrightarrow>
    (let normal = uc_nfkc U (uc_lower U (uc_nfkc U raw))
     in length raw \<le> 1024 \<and> key = join_words (words (uc_white U) normal) \<and> collapse_whitespace (uc_white U) key = key
        \<and> list_all (\<lambda>c. c \<notin> {35, 124, 91, 93}) normal \<and> list_all (\<lambda>c. \<not> is_control_or_format U c) key
        \<and> 1 \<le> length key \<and> length key \<le> 128)"
proof -
  have "words (uc_white U) (join_words (words (uc_white U) cs)) = words (uc_white U) cs" for cs
    by (rule words_join [where white = "uc_white U", OF assms]) (auto dest: word_chars)
  then have "collapse_whitespace (uc_white U) (join_words (words (uc_white U) cs)) = join_words (words (uc_white U) cs)" for cs
    by (simp add: collapse_is_words)
  then show ?thesis
    by (auto simp: normalize_label_key_def Let_def collapse_is_words label_raw_precap_scalars_def label_key_min_scalars_def
        label_key_max_scalars_def structural_chars_def list_all_iff list_ex_iff)
qed

text \<open>A demonstration of Unicode's tables for ASCII.\<close>

definition ascii_unicode :: unicode where
  "ascii_unicode = \<lparr>uc_nfkc = id, uc_lower = map (\<lambda>c. if 65 \<le> c \<and> c \<le> 90 then c + 32 else c),
     uc_white = (\<lambda>c. c = 32 \<or> 9 \<le> c \<and> c \<le> 13), uc_control = (\<lambda>c. c < 32 \<or> c = 127), uc_format = (\<lambda>_. False)\<rparr>"

theorem label_keys_are_canonical_witness:
  "normalize_label_key ascii_unicode [32, 65, 9, 10, 66, 32] = Inr [97, 32, 98]"
  by (subst label_keys_are_canonical)
    (simp_all add: ascii_unicode_def Let_def words.simps collapse_whitespace_def is_control_or_format_def)

end
