(* ===== verification/Wikilinks.thy ===== *)
theory Wikilinks
  imports Label_Key "HOL-Library.Sublist"
begin

text \<open>
  The wikilinks of a page, from \<open>sources/obsidian.rs\<close>: the fenced code blocks, the regular expression
  \<open>WIKILINK_RE\<close> and the extraction both the write path and the genesis signals use.
\<close>

section \<open>Code blocks\<close>

text \<open>\<open>str::split\<close> at a character: one piece more than there are separators.\<close>

fun split_at_char :: "char \<Rightarrow> string \<Rightarrow> string list" where
  "split_at_char c [] = [[]]"
| "split_at_char c (x # xs) =
     (if x = c then [] # split_at_char c xs
      else (case split_at_char c xs of [] \<Rightarrow> [[x]] | piece # pieces \<Rightarrow> (x # piece) # pieces))"

definition trim_start :: "unicode \<Rightarrow> string \<Rightarrow> string" where
  "trim_start U line = utf8_encode (dropWhile (uc_white U) (utf8_decode line))"

text \<open>The loop over the lines: the offset of the line, and the start and fence of the open block.\<close>

fun fence_loop :: "unicode \<Rightarrow> nat \<Rightarrow> string list \<Rightarrow> nat \<Rightarrow> (nat \<times> char) option \<Rightarrow> (nat \<times> nat) list" where
  "fence_loop U len [] offset None = []"
| "fence_loop U len [] offset (Some (block_start, fence)) = [(block_start, len)]"
| "fence_loop U len (line # lines) offset None =
     (let trimmed = trim_start U line
      in fence_loop U len lines (offset + length line + 1)
           (if prefix ''```'' trimmed \<or> prefix ''~~~'' trimmed then Some (offset, hd trimmed) else None))"
| "fence_loop U len (line # lines) offset (Some (block_start, fence)) =
     (if prefix (if fence = CHR ''`'' then ''```'' else ''~~~'') (trim_start U line)
      then (block_start, offset + length line) # fence_loop U len lines (offset + length line + 1) None
      else fence_loop U len lines (offset + length line + 1) (Some (block_start, fence)))"

definition code_block_ranges :: "unicode \<Rightarrow> string \<Rightarrow> (nat \<times> nat) list" where
  "code_block_ranges U content = fence_loop U (length content) (split_at_char (char_of (10 :: nat)) content) 0 None"

definition in_code_block :: "nat \<Rightarrow> (nat \<times> nat) list \<Rightarrow> bool" where
  "in_code_block offset ranges \<longleftrightarrow> list_ex (\<lambda>(a, b). a \<le> offset \<and> offset < b) ranges"

section \<open>The expression\<close>

record wikilink =
  wl_target :: string
  wl_heading :: "string option"
  wl_display :: "string option"
  wl_embed :: bool

text \<open>An optional group: the separator and a non-empty run of characters outside \<open>stops\<close>.\<close>

definition match_group :: "char \<Rightarrow> string \<Rightarrow> string \<Rightarrow> string option \<times> string" where
  "match_group sep stops s = (case s of
     [] \<Rightarrow> (None, s)
   | c # cs \<Rightarrow> (let run = takeWhile (\<lambda>x. x \<notin> set stops) cs
                in if c = sep \<and> run \<noteq> [] then (Some run, drop (length run) cs) else (None, s)))"

text \<open>The expression anchored at the start of a text, with the rest of the text. A run stops at the first
  character its class excludes, and only such a character can follow it, so the greedy match is the only one.\<close>

definition match_body :: "bool \<Rightarrow> string \<Rightarrow> (wikilink \<times> string) option" where
  "match_body bang s =
     (let body = drop 2 s;
          target = takeWhile (\<lambda>x. x \<notin> set '']|#'') body;
          (heading, s1) = match_group CHR ''#'' '']|'' (drop (length target) body);
          (display, s2) = match_group CHR ''|'' '']'' s1
      in if prefix ''[['' s \<and> target \<noteq> [] \<and> prefix '']]'' s2
         then Some (\<lparr>wl_target = target, wl_heading = heading, wl_display = display, wl_embed = bang\<rparr>, drop 2 s2)
         else None)"

definition match_wikilink :: "string \<Rightarrow> (wikilink \<times> string) option" where
  "match_wikilink s = (if prefix ''!'' s then match_body True (tl s) else match_body False s)"

subsection \<open>Links as text\<close>

fun group_text :: "char \<Rightarrow> string option \<Rightarrow> string" where
  "group_text sep None = []"
| "group_text sep (Some run) = sep # run"

definition body_text :: "wikilink \<Rightarrow> string" where
  "body_text l = ''[['' @ wl_target l @ group_text CHR ''#'' (wl_heading l) @ group_text CHR ''|'' (wl_display l) @ '']]''"

definition link_text :: "wikilink \<Rightarrow> string" where
  "link_text l = (if wl_embed l then ''!'' else []) @ body_text l"

definition link_ok :: "wikilink \<Rightarrow> bool" where
  "link_ok l \<longleftrightarrow> wl_target l \<noteq> [] \<and> set (wl_target l) \<inter> set '']|#'' = {}
     \<and> is_none_or (\<lambda>h. h \<noteq> [] \<and> set h \<inter> set '']|'' = {}) (wl_heading l)
     \<and> is_none_or (\<lambda>d. d \<noteq> [] \<and> CHR '']'' \<notin> set d) (wl_display l)"

lemma match_group_sound:
  assumes "match_group sep stops s = (g, r)"
  shows "s = group_text sep g @ r" "is_none_or (\<lambda>x. x \<noteq> [] \<and> set x \<inter> set stops = {}) g"
proof -
  have "s = group_text sep g @ r \<and> is_none_or (\<lambda>x. x \<noteq> [] \<and> set x \<inter> set stops = {}) g"
  proof (cases s)
    case Nil
    with assms show ?thesis by (simp add: match_group_def)
  next
    case (Cons c cs)
    let ?run = "takeWhile (\<lambda>x. x \<notin> set stops) cs"
    have "?run @ drop (length ?run) cs = cs" by (metis dropWhile_eq_drop takeWhile_dropWhile_id)
    then show ?thesis using assms Cons by (auto simp: match_group_def Let_def dest: set_takeWhileD split: if_splits)
  qed
  then show "s = group_text sep g @ r" "is_none_or (\<lambda>x. x \<noteq> [] \<and> set x \<inter> set stops = {}) g" by simp_all
qed

lemma run_stops:
  assumes "set xs \<inter> set stops = {}" "ys \<noteq> []" "hd ys \<in> set stops"
  shows "takeWhile (\<lambda>x. x \<notin> set stops) (xs @ ys) = xs"
proof -
  have "takeWhile (\<lambda>x. x \<notin> set stops) ys = []" using assms(2,3) by (cases ys) simp_all
  with assms(1) show ?thesis by (subst takeWhile_append2) auto
qed

lemma match_group_complete:
  assumes "is_none_or (\<lambda>x. x \<noteq> [] \<and> set x \<inter> set stops = {}) g" "r \<noteq> []" "hd r \<in> set stops" "hd r \<noteq> sep"
  shows "match_group sep stops (group_text sep g @ r) = (g, r)"
proof (cases g)
  case None
  with assms(2,4) show ?thesis by (cases r) (simp_all add: match_group_def Let_def)
next
  case (Some run)
  have "takeWhile (\<lambda>x. x \<notin> set stops) (run @ r) = run"
    using assms Some by (intro run_stops) simp_all
  with assms(1) Some show ?thesis by (simp add: match_group_def Let_def)
qed

lemma match_body_sound:
  assumes "match_body e s = Some (l, r)"
  shows "s = body_text l @ r" "link_ok l" "wl_embed l = e"
proof -
  define target where "target = takeWhile (\<lambda>x. x \<notin> set '']|#'') (drop 2 s)"
  obtain h s1 where h: "match_group CHR ''#'' '']|'' (drop (length target) (drop 2 s)) = (h, s1)" by fastforce
  obtain d s2 where d: "match_group CHR ''|'' '']'' s1 = (d, s2)" by fastforce
  have m: "prefix ''[['' s" "prefix '']]'' s2" "target \<noteq> []" "r = drop 2 s2"
      "l = \<lparr>wl_target = target, wl_heading = h, wl_display = d, wl_embed = e\<rparr>"
    using assms h d unfolding match_body_def Let_def target_def [symmetric] by (simp_all split: if_splits)
  have "s = ''[['' @ drop 2 s" "s2 = '']]'' @ r" using m(1,2,4) by (auto simp: prefix_def)
  moreover have "drop 2 s = target @ drop (length target) (drop 2 s)"
    unfolding target_def by (metis dropWhile_eq_drop takeWhile_dropWhile_id)
  ultimately show "s = body_text l @ r"
    using match_group_sound(1) [OF h] match_group_sound(1) [OF d] m(5) by (simp add: body_text_def)
  show "link_ok l" using match_group_sound(2) [OF h] match_group_sound(2) [OF d] m(3,5)
    by (auto simp: link_ok_def is_none_or_iff target_def dest: set_takeWhileD)
  show "wl_embed l = e" using m(5) by simp
qed

lemma match_body_complete:
  assumes "link_ok l"
  shows "match_body (wl_embed l) (body_text l @ r) = Some (l, r)"
proof -
  let ?d = "group_text CHR ''|'' (wl_display l) @ '']]'' @ r"
  let ?h = "group_text CHR ''#'' (wl_heading l) @ ?d"
  have stop: "?h \<noteq> [] \<and> hd ?h \<in> set '']|#''"
    by (cases "wl_heading l"; cases "wl_display l") simp_all
  have target: "takeWhile (\<lambda>x. x \<notin> set '']|#'') (wl_target l @ ?h) = wl_target l"
    using assms stop by (intro run_stops) (simp_all only: link_ok_def simp_thms)
  have h: "match_group CHR ''#'' '']|'' ?h = (wl_heading l, ?d)"
    using assms by (intro match_group_complete) (cases "wl_display l"; auto simp: link_ok_def is_none_or_iff)+
  have d: "match_group CHR ''|'' '']'' ?d = (wl_display l, '']]'' @ r)"
    using assms by (intro match_group_complete) (auto simp: link_ok_def is_none_or_iff)
  have "drop 2 (body_text l @ r) = wl_target l @ ?h" "prefix ''[['' (body_text l @ r)"
    by (simp_all add: body_text_def)
  then show ?thesis using assms target h d
    by (simp add: match_body_def Let_def link_ok_def)
qed

lemma match_wikilink_sound:
  assumes "match_wikilink s = Some (l, r)"
  shows "s = link_text l @ r" "link_ok l"
proof -
  have "s = link_text l @ r \<and> link_ok l"
  proof (cases "prefix ''!'' s")
    case True
    then obtain cs where s: "s = CHR ''!'' # cs" by (auto simp: prefix_def)
    with assms match_body_sound [of True cs l r] show ?thesis by (simp add: match_wikilink_def link_text_def)
  next
    case False
    with assms match_body_sound [of False s l r] show ?thesis by (simp add: match_wikilink_def link_text_def)
  qed
  then show "s = link_text l @ r" "link_ok l" by simp_all
qed

lemma match_wikilink_complete: "link_ok l \<Longrightarrow> match_wikilink (link_text l @ r) = Some (l, r)"
  using match_body_complete [of l r] by (cases "wl_embed l") (auto simp: match_wikilink_def link_text_def body_text_def)

lemma link_text_pos: "0 < length (link_text l)"
  by (simp add: link_text_def body_text_def)

lemma match_wikilink_shorter: "match_wikilink s = Some (l, r) \<Longrightarrow> length r < length s"
  using match_wikilink_sound(1) [of s l r] link_text_pos [of l] by simp

section \<open>The extraction\<close>

record wikilink_with_span = wikilink +
  wl_start :: nat
  wl_end :: nat

text \<open>\<open>captures_iter\<close>: the leftmost match, then the matches after its end, each with its offset.\<close>

function link_matches :: "nat \<Rightarrow> string \<Rightarrow> (nat \<times> wikilink) list" where
  "link_matches offset s = (case s of
     [] \<Rightarrow> []
   | c # cs \<Rightarrow> (case match_wikilink s of
        None \<Rightarrow> link_matches (offset + 1) cs
      | Some (l, r) \<Rightarrow> (offset, l) # link_matches (offset + (length s - length r)) r))"
  by pat_completeness auto
termination
  by (relation "measure (\<lambda>(offset, s). length s)") (auto dest: match_wikilink_shorter)

declare link_matches.simps [simp del]

definition with_span :: "nat \<times> wikilink \<Rightarrow> wikilink_with_span" where
  "with_span m = (let start = fst m + (if wl_embed (snd m) then 3 else 2)
     in wikilink.extend (snd m) \<lparr>wl_start = start, wl_end = start + length (wl_target (snd m))\<rparr>)"

definition extract_wikilinks_with_spans :: "unicode \<Rightarrow> string \<Rightarrow> wikilink_with_span list" where
  "extract_wikilinks_with_spans U content =
     map with_span (filter (\<lambda>m. \<not> in_code_block (fst m) (code_block_ranges U content)) (link_matches 0 content))"

definition extract_wikilinks :: "unicode \<Rightarrow> string \<Rightarrow> wikilink list" where
  "extract_wikilinks U content = map wikilink.truncate (extract_wikilinks_with_spans U content)"

section \<open>Where the links of a page are\<close>

lemma link_matches_Nil [simp]: "link_matches offset [] = []"
  by (simp add: link_matches.simps)

lemma link_matches_skip:
  "match_wikilink (c # cs) = None \<Longrightarrow> link_matches offset (c # cs) = link_matches (Suc offset) cs"
  by (simp add: link_matches.simps [of offset "c # cs"])

lemma link_matches_found:
  assumes "match_wikilink s = Some (l, r)"
  shows "link_matches offset s = (offset, l) # link_matches (offset + (length s - length r)) r"
proof -
  have "s \<noteq> []" using match_wikilink_shorter [OF assms] by auto
  then show ?thesis using assms by (subst link_matches.simps) (auto split: list.split)
qed

lemma link_matches_link:
  "link_ok l \<Longrightarrow> link_matches offset (link_text l @ r) = (offset, l) # link_matches (offset + length (link_text l)) r"
  using link_matches_found [OF match_wikilink_complete, of l offset r] by simp

text \<open>A match found by the scan is the text of its link at its offset.\<close>

lemma link_matches_sound:
  "(n, l) \<in> set (link_matches offset s) \<Longrightarrow>
     offset \<le> n \<and> link_ok l \<and> (\<exists>a b. s = a @ link_text l @ b \<and> length a = n - offset)"
proof (induction offset s rule: link_matches.induct)
  case (1 offset s)
  show ?case
  proof (cases s)
    case Nil
    with "1.prems" show ?thesis by simp
  next
    case (Cons c cs)
    show ?thesis
    proof (cases "match_wikilink s")
      case None
      then have "(n, l) \<in> set (link_matches (offset + 1) cs)"
        using "1.prems" Cons by (simp add: link_matches_skip)
      from "1.IH"(1) [OF Cons None this] obtain a b where ab: "offset + 1 \<le> n" "link_ok l" "cs = a @ link_text l @ b"
          "length a = n - (offset + 1)" by blast
      then have "s = (c # a) @ link_text l @ b \<and> length (c # a) = n - offset" using Cons by simp
      with ab show ?thesis by (metis add_leD1)
    next
      case (Some x)
      then obtain k r where x: "match_wikilink s = Some (k, r)" by (cases x) simp
      note s = match_wikilink_sound [OF x]
      note m = link_matches_found [OF x, of offset]
      show ?thesis
      proof (cases "(n, l) = (offset, k)")
        case True
        with s have "s = [] @ link_text l @ r \<and> length [] = n - offset" by simp
        with True s show ?thesis by blast
      next
        case False
        with m "1.prems" have "(n, l) \<in> set (link_matches (offset + (length s - length r)) r)" by auto
        from "1.IH"(2) [OF Cons x _ this] obtain a b where ab: "offset + length (link_text k) \<le> n" "link_ok l"
            "r = a @ link_text l @ b" "length a = n - (offset + length (link_text k))"
          using s(1) by auto
        then have "s = (link_text k @ a) @ link_text l @ b \<and> length (link_text k @ a) = n - offset" using s(1) by simp
        with ab show ?thesis by (metis add_leD1)
      qed
    qed
  qed
qed

lemma with_span_simps [simp]:
  "wl_target (with_span m) = wl_target (snd m)" "wl_embed (with_span m) = wl_embed (snd m)"
  "wl_end (with_span m) = wl_start (with_span m) + length (wl_target (snd m))"
  "wl_start (with_span m) = fst m + (if wl_embed (snd m) then 3 else 2)"
  "wikilink.truncate (with_span m) = snd m"
  by (simp_all add: with_span_def Let_def wikilink.defs)

text \<open>C24 (functional). The span of an extracted link is where its target stands in the page: the bytes of the span are
  the target, which is not empty and has no separator in it, they stand after two brackets, and the link does not begin
  inside a code block.\<close>

theorem link_spans_are_exact:
  assumes "k \<in> set (extract_wikilinks_with_spans U content)"
  shows "take (wl_end k - wl_start k) (drop (wl_start k) content) = wl_target k
    \<and> wl_start k < wl_end k \<and> wl_end k \<le> length content \<and> set (wl_target k) \<inter> set '']|#'' = {}
    \<and> take 2 (drop (wl_start k - 2) content) = ''[[''
    \<and> \<not> in_code_block (wl_start k - (if wl_embed k then 3 else 2)) (code_block_ranges U content)"
proof -
  from assms obtain n l where m: "(n, l) \<in> set (link_matches 0 content)" and k: "k = with_span (n, l)"
    and c: "\<not> in_code_block n (code_block_ranges U content)"
    by (auto simp: extract_wikilinks_with_spans_def)
  from link_matches_sound [OF m] obtain a b where ab: "link_ok l" "content = a @ link_text l @ b" "length a = n" by auto
  have "wl_target l \<noteq> []" using ab(1) by (simp add: link_ok_def)
  then show ?thesis using ab c
    by (auto simp: k link_text_def body_text_def link_ok_def)
qed

text \<open>A page with links in it, and what is extracted from it again.\<close>

fun page_text :: "(string \<times> wikilink) list \<Rightarrow> string \<Rightarrow> string" where
  "page_text [] tail = tail"
| "page_text ((plain, l) # rest) tail = plain @ link_text l @ page_text rest tail"

lemma match_plain: "c \<noteq> CHR ''!'' \<Longrightarrow> c \<noteq> CHR ''['' \<Longrightarrow> match_wikilink (c # cs) = None"
  by (auto simp: match_wikilink_def match_body_def Let_def split: prod.split)

lemma match_bang: "\<not> prefix ''[['' cs \<Longrightarrow> match_wikilink (CHR ''!'' # cs) = None"
  by (auto simp: match_wikilink_def match_body_def Let_def split: prod.split)

lemma link_matches_plain:
  "CHR ''['' \<notin> set plain \<Longrightarrow> (plain \<noteq> [] \<Longrightarrow> last plain = CHR ''!'' \<Longrightarrow> \<not> prefix ''[['' s)
    \<Longrightarrow> link_matches offset (plain @ s) = link_matches (offset + length plain) s"
proof (induction plain arbitrary: offset)
  case (Cons c plain)
  have "match_wikilink (c # plain @ s) = None"
  proof (cases "c = CHR ''!''")
    case True
    then have "\<not> prefix ''[['' (plain @ s)" using Cons.prems by (cases plain) auto
    with True show ?thesis by (simp add: match_bang)
  next
    case False
    then show ?thesis using Cons.prems(1) by (intro match_plain) auto
  qed
  then show ?case using Cons by (simp add: link_matches_skip split: if_splits)
qed simp

lemma link_matches_page:
  assumes "list_all (\<lambda>(plain, l). CHR ''['' \<notin> set plain \<and> (plain \<noteq> [] \<and> last plain = CHR ''!'' \<longrightarrow> wl_embed l) \<and> link_ok l) items"
    and "CHR ''['' \<notin> set tail"
  shows "map snd (link_matches offset (page_text items tail)) = map snd items"
  using assms(1)
proof (induction items arbitrary: offset)
  case Nil
  have "link_matches offset (tail @ []) = []" using assms(2) by (subst link_matches_plain) simp_all
  then show ?case by simp
next
  case (Cons item items)
  obtain plain l where i: "item = (plain, l)" by (cases item)
  have "prefix ''[['' (link_text l @ r) \<Longrightarrow> \<not> wl_embed l" for r by (auto simp: link_text_def)
  then have "link_matches offset (plain @ link_text l @ page_text items tail)
      = link_matches (offset + length plain) (link_text l @ page_text items tail)"
    using Cons.prems by (intro link_matches_plain) (auto simp: i)
  then show ?case using Cons by (simp add: i link_matches_link)
qed

text \<open>C22 (roundtrip). The links written into a page without code blocks, with text between them that has no opening
  bracket and no exclamation mark right before a link that is no embed, are the links extracted from it: all of them, in
  their order, with target, heading, display text and embedding.\<close>

theorem written_links_are_extracted:
  assumes "list_all (\<lambda>(plain, l). CHR ''['' \<notin> set plain \<and> (plain \<noteq> [] \<and> last plain = CHR ''!'' \<longrightarrow> wl_embed l) \<and> link_ok l) items"
    and "CHR ''['' \<notin> set tail"
    and "code_block_ranges U (page_text items tail) = []"
  shows "extract_wikilinks U (page_text items tail) = map snd items"
  using link_matches_page [OF assms(1,2), of 0] assms(3)
  by (simp add: extract_wikilinks_def extract_wikilinks_with_spans_def in_code_block_def comp_def)

definition demo_link :: wikilink where
  "demo_link = \<lparr>wl_target = ''Beta'', wl_heading = Some ''top'', wl_display = Some ''the beta'', wl_embed = True\<rparr>"

theorem link_spans_are_exact_witness:
  "\<exists>k. k \<in> set (extract_wikilinks_with_spans ascii_unicode ''a [[b]]'')
    \<and> take (wl_end k - wl_start k) (drop (wl_start k) ''a [[b]]'') = ''b''"
proof -
  let ?l = "\<lparr>wl_target = ''b'', wl_heading = None, wl_display = None, wl_embed = False\<rparr>"
  have "extract_wikilinks_with_spans ascii_unicode ''a [[b]]'' = [with_span (2, ?l)]" by code_simp
  then have k: "with_span (2, ?l) \<in> set (extract_wikilinks_with_spans ascii_unicode ''a [[b]]'')" by simp
  then show ?thesis using link_spans_are_exact [OF k] by (intro exI [of _ "with_span (2, ?l)"]) simp
qed

theorem written_links_are_extracted_witness:
  "extract_wikilinks ascii_unicode ''see ![[Beta#top|the beta]].'' = [demo_link]"
proof -
  have shown: "page_text [(''see '', demo_link)] ''.'' = ''see ![[Beta#top|the beta]].''"
    by (simp add: demo_link_def link_text_def body_text_def)
  have "code_block_ranges ascii_unicode ''see ![[Beta#top|the beta]].'' = []"
    by code_simp
  then have "code_block_ranges ascii_unicode (page_text [(''see '', demo_link)] ''.'') = []" by (simp only: shown)
  then have "extract_wikilinks ascii_unicode (page_text [(''see '', demo_link)] ''.'') = map snd [(''see '', demo_link)]"
    by (intro written_links_are_extracted) (simp_all add: demo_link_def link_ok_def)
  then show ?thesis by (simp only: shown) simp
qed

end
