(* ===== verification/Genesis_Signals.thy ===== *)
theory Genesis_Signals
  imports Genesis_Candidates Wikilinks
begin

text \<open>
  The four signals of \<open>m6/signals.rs\<close> over the evidence, with the count of independent groups of
  \<open>m6/independence.rs\<close>: what the shadow driver proposes as candidates. The functions only read. SHA-256 and the
  tables of Unicode are the record \<open>signal_env\<close>.
\<close>

section \<open>Proposals\<close>

record proposal =
  pr_slot :: string
  pr_page :: string
  pr_signal :: signal_kind
  pr_roots :: "string list"
  pr_group_count :: int

record signal_env =
  tv_sha :: "string \<Rightarrow> string"
  tv_unicode :: unicode

section \<open>Independence\<close>

definition independence_group_floor :: int where
  "independence_group_floor = 3"

definition admits :: "int \<Rightarrow> bool" where
  "admits group_count \<longleftrightarrow> group_count \<ge> independence_group_floor"

text \<open>SQLite's \<open>lower\<close>: ASCII only.\<close>

definition sql_lower :: "string \<Rightarrow> string" where
  "sql_lower = map (\<lambda>c. if 65 \<le> (of_char c :: nat) \<and> (of_char c :: nat) \<le> 90 then char_of ((of_char c :: nat) + 32) else c)"

text \<open>A grounded, open edge with an active root that is not generated; the scope \<open>P\<close> narrows the edges.\<close>

definition live_evidence :: "(edge \<Rightarrow> bool) \<Rightarrow> 'p store \<Rightarrow> (edge \<times> root) list" where
  "live_evidence P s = concat (map (\<lambda>e.
     if ed_grounded e \<and> ed_valid_until e = None \<and> P e
     then map (Pair e) (filter (\<lambda>r. ed_root e = Some (ro_id r) \<and> ro_status r = ''active'' \<and> ro_kind r \<noteq> ''generated'')
            (s_roots s))
     else []) (s_edges s))"

definition touches_overview :: "'p store \<Rightarrow> edge \<Rightarrow> bool" where
  "touches_overview s e \<longleftrightarrow> occurs (\<lambda>p. ((ed_src_kind e = ''page'' \<and> pg_id p = ed_src e)
       \<or> (ed_dst_kind e = ''page'' \<and> pg_id p = ed_dst e)) \<and> sql_lower (pg_title p) = ''overview'') (s_pages s)"

definition counted_evidence :: "(edge \<Rightarrow> bool) \<Rightarrow> 'p store \<Rightarrow> (edge \<times> root) list" where
  "counted_evidence P s = filter (\<lambda>(e, r). \<not> touches_overview s e) (live_evidence P s)"

definition distinct_group_count :: "(edge \<Rightarrow> bool) \<Rightarrow> 'p store \<Rightarrow> int" where
  "distinct_group_count P s = int (length (remdups (map (ro_group \<circ> snd) (counted_evidence P s))))"

section \<open>What the signals read\<close>

definition roots_per_candidate_cap :: nat where
  "roots_per_candidate_cap = 64"

definition min_grounded_nodes_overview :: nat where
  "min_grounded_nodes_overview = 5"

definition min_orphan_referring_pages :: nat where
  "min_orphan_referring_pages = 2"

definition resolve_space_name :: "string \<Rightarrow> ('p, string) tx" where
  "resolve_space_name space_id s = (case find (\<lambda>p. fst p = space_id) (s_spaces s) of
     None \<Rightarrow> Inl VectorDb | Some p \<Rightarrow> Inr (snd p, s))"

definition has_active_overview_subscription :: "string \<Rightarrow> string \<Rightarrow> 'p store \<Rightarrow> bool" where
  "has_active_overview_subscription scope_kind scope_id s \<longleftrightarrow>
     occurs (\<lambda>x. sb_kind x = scope_kind \<and> sb_scope x = scope_id \<and> sb_state x = ''active'') (s_subscriptions s)"

definition scoped_root_ids :: "(edge \<Rightarrow> bool) \<Rightarrow> 'p store \<Rightarrow> string list" where
  "scoped_root_ids P s = take roots_per_candidate_cap (sort (remdups (map (ro_id \<circ> snd) (counted_evidence P s))))"

definition scoped_group_ids :: "(edge \<Rightarrow> bool) \<Rightarrow> 'p store \<Rightarrow> string list" where
  "scoped_group_ids P s = sort (remdups (map (ro_group \<circ> snd) (counted_evidence P s)))"

definition scoped_grounded_node_count :: "(edge \<Rightarrow> bool) \<Rightarrow> 'p store \<Rightarrow> nat" where
  "scoped_grounded_node_count P s = (let es = map fst (live_evidence P s)
     in length (remdups (map ed_src (filter (\<lambda>e. ed_src_kind e = ''entity'') es)
                       @ map ed_dst (filter (\<lambda>e. ed_dst_kind e = ''entity'') es))))"

definition current_communities :: "string \<Rightarrow> 'p store \<Rightarrow> string list" where
  "current_communities space s = sort (map cm_id (filter (\<lambda>c. cm_space c = space \<and> cm_retired c = None) (s_communities s)))"

definition community_member_node_ids :: "string \<Rightarrow> string \<Rightarrow> string option \<Rightarrow> 'p store \<Rightarrow> string list" where
  "community_member_node_ids space community_id attachment s = sort (map mb_node (filter (\<lambda>m.
     mb_space m = space \<and> mb_community m = community_id \<and> is_none_or (\<lambda>a. mb_attachment m = a) attachment) (s_members s)))"

definition member_predicate :: "string list \<Rightarrow> edge \<Rightarrow> bool" where
  "member_predicate member_ids e \<longleftrightarrow> (ed_src_kind e = ''entity'' \<and> ed_src e \<in> set member_ids)
     \<or> (ed_dst_kind e = ''entity'' \<and> ed_dst e \<in> set member_ids)"

section \<open>The signals\<close>

definition space_overview :: "'z signal_env_scheme \<Rightarrow> string \<Rightarrow> ('p, proposal option) tx" where
  "space_overview E space_id = tx_bind (resolve_space_name space_id) (\<lambda>space. tx_read (\<lambda>s.
     if has_active_overview_subscription ''space'' space s then None
     else let P = \<lambda>e. ed_space e = space;
              group_count = distinct_group_count P s
          in if \<not> admits group_count then None
             else let root_ids = scoped_root_ids P s
                  in if scoped_grounded_node_count P s < min_grounded_nodes_overview then None
                     else let slot_id = slot_id_space_overview (tv_sha E) space_id
                          in Some \<lparr>pr_slot = slot_id, pr_page = page_id (tv_sha E) slot_id, pr_signal = SpaceOverview,
                                   pr_roots = root_ids, pr_group_count = group_count\<rparr>))"

definition evidence_cluster_of :: "'z signal_env_scheme \<Rightarrow> string \<Rightarrow> string \<Rightarrow> 'p store \<Rightarrow> string \<Rightarrow> proposal option" where
  "evidence_cluster_of E space_id space s community_id =
     (let member_ids = community_member_node_ids space community_id (Some ''core'') s
      in if member_ids = [] then None
         else let P = member_predicate member_ids;
                  group_count = distinct_group_count P s
              in if \<not> admits group_count then None
                 else let slot_id = slot_id_evidence_cluster (tv_sha E) space_id (scoped_group_ids P s)
                      in Some \<lparr>pr_slot = slot_id, pr_page = page_id (tv_sha E) slot_id, pr_signal = EvidenceCluster,
                               pr_roots = scoped_root_ids P s, pr_group_count = group_count\<rparr>)"

definition evidence_cluster :: "'z signal_env_scheme \<Rightarrow> string \<Rightarrow> bool \<Rightarrow> ('p, proposal list) tx" where
  "evidence_cluster E space_id durable =
     (if \<not> durable then tx_return []
      else tx_bind (resolve_space_name space_id) (\<lambda>space. tx_read (\<lambda>s.
        sort_key pr_slot (List.map_filter (evidence_cluster_of E space_id space s) (current_communities space s)))))"

definition community_overview_of :: "'z signal_env_scheme \<Rightarrow> string \<Rightarrow> string \<Rightarrow> 'p store \<Rightarrow> string \<Rightarrow> proposal option" where
  "community_overview_of E space_id space s community_id =
     (if has_active_overview_subscription ''community'' community_id s then None
      else let member_ids = community_member_node_ids space community_id None s
           in if member_ids = [] then None
              else let P = member_predicate member_ids;
                       group_count = distinct_group_count P s
                   in if \<not> admits group_count then None
                      else if scoped_grounded_node_count P s < min_grounded_nodes_overview then None
                      else let slot_id = slot_id_community_overview (tv_sha E) space_id community_id
                           in Some \<lparr>pr_slot = slot_id, pr_page = page_id (tv_sha E) slot_id, pr_signal = CommunityOverview,
                                    pr_roots = scoped_root_ids P s, pr_group_count = group_count\<rparr>)"

definition community_overview :: "'z signal_env_scheme \<Rightarrow> string \<Rightarrow> bool \<Rightarrow> ('p, proposal list) tx" where
  "community_overview E space_id durable =
     (if \<not> durable then tx_return []
      else tx_bind (resolve_space_name space_id) (\<lambda>space. tx_read (\<lambda>s.
        sort_key pr_slot (List.map_filter (community_overview_of E space_id space s) (current_communities space s)))))"

subsection \<open>Orphan wikilinks\<close>

text \<open>\<open>str::get\<close> of a range: none outside the text or inside a scalar. A negative bound, read as \<open>usize\<close>, is outside.\<close>

definition is_char_boundary :: "string \<Rightarrow> int \<Rightarrow> bool" where
  "is_char_boundary content n \<longleftrightarrow> n = 0 \<or> n = int (length content)
     \<or> (0 < n \<and> n < int (length content)
        \<and> (let b = (of_char (content ! nat n) :: nat) in b < 128 \<or> 192 \<le> b))"

definition str_get :: "string \<Rightarrow> int \<Rightarrow> int \<Rightarrow> string option" where
  "str_get content a b = (if a \<le> b \<and> is_char_boundary content a \<and> is_char_boundary content b
     then Some (take (nat (b - a)) (drop (nat a) content)) else None)"

definition revision_content_digest :: "(string \<Rightarrow> string) \<Rightarrow> string \<Rightarrow> string" where
  "revision_content_digest sha content = hex_text (sha content)"

text \<open>The rows of the query, a page and a raw label each.\<close>

definition orphan_rows :: "string \<Rightarrow> 'p store \<Rightarrow> (string \<times> string) list" where
  "orphan_rows space s = concat (map (\<lambda>l.
     if pl_target l \<noteq> None then []
     else concat (map (\<lambda>p.
       if pg_id p = pl_source l \<and> pg_space p = space \<and> pg_status p = ''active'' \<and> sql_lower (pg_title p) \<noteq> ''overview''
       then map (\<lambda>_. (pl_source l, pl_label l)) (filter (\<lambda>t. pt_page t = pg_id p \<and> pt_status t = ''supported''
              \<and> pt_version t = pg_version p) (s_page_truth s))
       else []) (s_pages s))) (s_links s))"

fun push_new :: "'x list \<Rightarrow> 'x list \<Rightarrow> 'x list" where
  "push_new xs [] = xs"
| "push_new xs (y # ys) = push_new (if y \<in> set xs then xs else xs @ [y]) ys"

definition orphan_candidate_pages :: "unicode \<Rightarrow> string \<Rightarrow> 'p store \<Rightarrow> (string \<times> string list) list" where
  "orphan_candidate_pages U space s = (let rows = orphan_rows space s
     in map (\<lambda>key. (key, push_new [] (map fst (filter (\<lambda>r. label_key U (snd r) = Some key) rows))))
          (sort (remdups (List.map_filter (label_key U \<circ> snd) rows))))"

definition containing_revisions :: "'z signal_env_scheme \<Rightarrow> string \<Rightarrow> string \<Rightarrow> 'p store \<Rightarrow> string list" where
  "containing_revisions E page label s = (case find (\<lambda>p. pg_id p = page) (s_pages s) of
     None \<Rightarrow> []
   | Some p \<Rightarrow>
       (let content = pg_content p;
            occurrences = map (\<lambda>k. (int (wl_start k), int (wl_end k))) (filter (\<lambda>k. label_key (tv_unicode E) (wl_target k) = Some label)
              (extract_wikilinks_with_spans (tv_unicode E) content));
            anchors = concat (map (\<lambda>v.
              if pc_page v = page \<and> pc_version v = pg_version p
              then filter (\<lambda>a. an_revision a = pc_revision v \<and> an_doc a = page \<and> an_version a = pg_version p) (s_anchors s)
              else []) (s_page_claims s))
        in if occurrences = [] then []
           else map an_revision (filter (\<lambda>a. case str_get content (an_start a) (an_end a) of
                  None \<Rightarrow> False
                | Some span \<Rightarrow> revision_content_digest (tv_sha E) span = an_digest a
                    \<and> list_ex (\<lambda>(x, y). an_start a \<le> x \<and> y \<le> an_end a) occurrences) anchors)))"

definition supports_scope :: "string list \<Rightarrow> 'p store \<Rightarrow> edge \<Rightarrow> bool" where
  "supports_scope revision_ids s e \<longleftrightarrow> occurs (\<lambda>x. ed_type x = ''supports'' \<and> ed_src_kind x = ''claim_revision''
     \<and> ed_src x \<in> set revision_ids \<and> ed_valid_until x = None \<and> ed_root x \<noteq> None \<and> ed_root x = ed_root e) (s_edges s)"

definition orphan_wikilink_slot :: "'z signal_env_scheme \<Rightarrow> string \<Rightarrow> 'p store \<Rightarrow> string \<times> string list \<Rightarrow> proposal option" where
  "orphan_wikilink_slot E space_id s = (\<lambda>(label, page_ids).
     let revision_ids = remdups (sort (concat (map (\<lambda>page. containing_revisions E page label s) page_ids)))
     in if revision_ids = [] then None
        else let P = supports_scope revision_ids s;
                 group_count = distinct_group_count P s
             in if \<not> admits group_count then None
                else let slot_id = slot_id_orphan_wikilink (tv_sha E) space_id label
                     in Some \<lparr>pr_slot = slot_id, pr_page = page_id (tv_sha E) slot_id, pr_signal = OrphanWikilink,
                              pr_roots = scoped_root_ids P s, pr_group_count = group_count\<rparr>)"

definition orphan_wikilink :: "'z signal_env_scheme \<Rightarrow> string \<Rightarrow> ('p, proposal list) tx" where
  "orphan_wikilink E space_id = tx_bind (resolve_space_name space_id) (\<lambda>space. tx_read (\<lambda>s.
     sort_key pr_slot (List.map_filter (\<lambda>(label, page_ids).
         if length page_ids < min_orphan_referring_pages then None else orphan_wikilink_slot E space_id s (label, page_ids))
       (orphan_candidate_pages (tv_unicode E) space s))))"

text \<open>All four, in the order of their slots, as \<open>admitted_proposals\<close> of \<open>shadow.rs\<close> collects them.\<close>

definition signal_proposals :: "'z signal_env_scheme \<Rightarrow> string \<Rightarrow> bool \<Rightarrow> ('p, proposal list) tx" where
  "signal_proposals E space_id durable =
     tx_bind (space_overview E space_id) (\<lambda>overview.
     tx_bind (evidence_cluster E space_id durable) (\<lambda>clusters.
     tx_bind (community_overview E space_id durable) (\<lambda>communities.
     tx_bind (orphan_wikilink E space_id) (\<lambda>orphans.
       tx_return (sort_key pr_slot ((case overview of None \<Rightarrow> [] | Some p \<Rightarrow> [p]) @ clusters @ communities @ orphans))))))"

section \<open>What is admitted\<close>

lemma resolve_iff [tx_simps]:
  "resolve_space_name i s = Inr (n, s') \<longleftrightarrow> s' = s \<and> (\<exists>p. find (\<lambda>p. fst p = i) (s_spaces s) = Some p \<and> n = snd p)"
  by (auto simp: resolve_space_name_def split: option.split)

text \<open>The supporting roots: a bounded set in order, each backed by an edge in scope.\<close>

definition backed :: "(edge \<Rightarrow> bool) \<Rightarrow> 'p store \<Rightarrow> string \<Rightarrow> bool" where
  "backed P s r \<longleftrightarrow> occurs (\<lambda>x. ro_id x = r \<and> ro_status x = ''active'' \<and> ro_kind x \<noteq> ''generated'') (s_roots s)
     \<and> occurs (\<lambda>e. ed_root e = Some r \<and> ed_grounded e \<and> ed_valid_until e = None \<and> P e \<and> \<not> touches_overview s e) (s_edges s)"

definition proposal_ok :: "'p store \<Rightarrow> proposal \<Rightarrow> bool" where
  "proposal_ok s p \<longleftrightarrow> independence_group_floor \<le> pr_group_count p \<and> pr_roots p \<noteq> []
     \<and> distinct (pr_roots p) \<and> sorted (pr_roots p) \<and> length (pr_roots p) \<le> roots_per_candidate_cap
     \<and> list_all (backed (\<lambda>_. True) s) (pr_roots p)"

lemma counted_backed: "(e, r) \<in> set (counted_evidence P s) \<Longrightarrow> backed P s (ro_id r)"
  by (fastforce simp: counted_evidence_def live_evidence_def backed_def occurs_iff split: if_splits)

lemma backed_weaken: "backed P s r \<Longrightarrow> backed (\<lambda>_. True) s r"
  by (auto simp: backed_def occurs_iff)

lemma scoped_roots:
  "distinct (scoped_root_ids P s)" "sorted (scoped_root_ids P s)" "length (scoped_root_ids P s) \<le> roots_per_candidate_cap"
  "list_all (backed P s) (scoped_root_ids P s)"
  by (auto simp: scoped_root_ids_def sorted_wrt_take list_all_iff dest!: in_set_takeD) (blast intro: counted_backed)

lemma admitted_roots: "admits (distinct_group_count P s) \<Longrightarrow> scoped_root_ids P s \<noteq> []"
  by (cases "counted_evidence P s")
    (auto simp: admits_def distinct_group_count_def independence_group_floor_def scoped_root_ids_def roots_per_candidate_cap_def
      dest: arg_cong [where f = set])

lemma scoped_proposal_ok:
  "admits (distinct_group_count P s) \<Longrightarrow> pr_roots p = scoped_root_ids P s \<Longrightarrow> pr_group_count p = distinct_group_count P s
    \<Longrightarrow> proposal_ok s p"
  using scoped_roots [of P s] admitted_roots [of P s]
  by (auto simp: proposal_ok_def admits_def list_all_iff intro: backed_weaken)

lemma signals_ok:
  "evidence_cluster_of E i sp s c = Some p \<Longrightarrow> proposal_ok s p" "community_overview_of E i sp s c = Some p \<Longrightarrow> proposal_ok s p"
  "orphan_wikilink_slot E i s x = Some p \<Longrightarrow> proposal_ok s p"
  by (auto simp: evidence_cluster_of_def community_overview_of_def orphan_wikilink_slot_def Let_def
      intro: scoped_proposal_ok split: if_splits prod.splits)

lemma signal_proposals_ok:
  assumes "signal_proposals E space_id durable s = Inr (ps, s')"
  shows "s' = s" "\<forall>p \<in> set ps. proposal_ok s p" "sorted (map pr_slot ps)"
proof -
  show "s' = s" "sorted (map pr_slot ps)"
    using assms by (auto simp: signal_proposals_def space_overview_def evidence_cluster_def community_overview_def
        orphan_wikilink_def tx_simps split: if_splits)
  have "\<forall>p \<in> set ps. proposal_ok s p"
    using assms by (auto simp: signal_proposals_def space_overview_def evidence_cluster_def community_overview_def
        orphan_wikilink_def tx_simps Let_def map_filter_def intro: signals_ok scoped_proposal_ok split: if_splits option.splits)
  then show "\<forall>p \<in> set ps. proposal_ok s p" .
qed

end
