(* ===== verification/Genesis_Driver.thy ===== *)
theory Genesis_Driver
  imports Genesis_Signals
begin

text \<open>
  \<open>m6/finalize.rs\<close>, \<open>m6/recovery.rs\<close> and \<open>m6/shadow.rs\<close>: the eight gates of a dry-run finalization,
  the startup recovery scan, and one turn of the shadow driver. A turn runs several transactions:
  its result may be an error while the transactions before it stay committed.

  Arguments of a turn (the record \<open>turn_env\<close>, which extends the one of the signals): whether the community
  partition is durable (a query of \<open>db.rs\<close>), the divergences the sampled oracle finds, whether the readiness
  bookkeeping succeeds, and the drawn tokens.
\<close>

section \<open>The stored envelope\<close>

datatype cas_gate = LeaseOwnership | InputGeneration | RootDigest | CoverageEpoch | ClaimLiveness
  | EvidenceLiveness | CommunityGeneration | PageTruth

definition all_gates :: "cas_gate list" where
  "all_gates = [LeaseOwnership, InputGeneration, RootDigest, CoverageEpoch, ClaimLiveness,
     EvidenceLiveness, CommunityGeneration, PageTruth]"

fun gate_as_str :: "cas_gate \<Rightarrow> string" where
  "gate_as_str LeaseOwnership = ''e1_lease_ownership''"
| "gate_as_str InputGeneration = ''e2_input_generation''"
| "gate_as_str RootDigest = ''e3_root_digest''"
| "gate_as_str CoverageEpoch = ''e4_coverage_epoch''"
| "gate_as_str ClaimLiveness = ''e5_claim_liveness''"
| "gate_as_str EvidenceLiveness = ''e6_evidence_liveness''"
| "gate_as_str CommunityGeneration = ''e7_community_generation''"
| "gate_as_str PageTruth = ''e8_page_truth''"

definition gate_parse :: "string \<Rightarrow> cas_gate option" where
  "gate_parse text = find (\<lambda>g. gate_as_str g = text) all_gates"

datatype verdict = PassedAll | RefusedBy cas_gate

record cas_envelope =
  en_receipt :: string
  en_epoch_state :: epoch_state
  en_generation :: "int option"
  en_verdict :: "verdict option"

text \<open>The values of \<open>serde_json\<close>; the payload column holds the text of one.\<close>

datatype json = JNull | JText string | JInt int | JBool bool | JList "json list"
  | JObject "(string \<times> json) list"

fun json_get :: "json \<Rightarrow> string \<Rightarrow> json option" where
  "json_get (JObject entries) name = map_of entries name"
| "json_get _ name = None"

fun json_text :: "json \<Rightarrow> string option" where
  "json_text (JText t) = Some t"
| "json_text _ = None"

fun json_i64 :: "json \<Rightarrow> int option" where
  "json_i64 (JInt n) = (if - (2 ^ 63) \<le> n \<and> n < 2 ^ 63 then Some n else None)"
| "json_i64 _ = None"

fun epoch_as_str :: "epoch_state \<Rightarrow> string" where
  "epoch_as_str Active = ''active''"
| "epoch_as_str Migrating = ''migrating''"

definition epoch_parse :: "string \<Rightarrow> epoch_state option" where
  "epoch_parse t = (if t = ''active'' then Some Active else if t = ''migrating'' then Some Migrating else None)"

definition receipt_id :: "string \<Rightarrow> string" where
  "receipt_id candidate = ''m6r_'' @ candidate"

definition envelope_to_json :: "cas_envelope \<Rightarrow> json" where
  "envelope_to_json en = JObject
     [(''receipt_id'', JText (en_receipt en)),
      (''epoch_state'', JText (epoch_as_str (en_epoch_state en))),
      (''community_generation'', (case en_generation en of None \<Rightarrow> JNull | Some g \<Rightarrow> JInt g)),
      (''verdict'', (case en_verdict en of None \<Rightarrow> JNull | Some PassedAll \<Rightarrow> JText ''passed''
         | Some (RefusedBy g) \<Rightarrow> JText (gate_as_str g)))]"

definition verdict_of_json :: "json option \<Rightarrow> verdict option option" where
  "verdict_of_json v = (case v of
       None \<Rightarrow> Some None
     | Some JNull \<Rightarrow> Some None
     | Some (JText t) \<Rightarrow> if t = ''passed'' then Some (Some PassedAll)
                       else map_option (\<lambda>g. Some (RefusedBy g)) (gate_parse t)
     | Some _ \<Rightarrow> None)"

definition envelope_from_json :: "json \<Rightarrow> cas_envelope option" where
  "envelope_from_json value =
     Option.bind (verdict_of_json (json_get value ''verdict'')) (\<lambda>verdict.
     Option.bind (Option.bind (json_get value ''receipt_id'') json_text) (\<lambda>receipt.
     Option.bind (Option.bind (Option.bind (json_get value ''epoch_state'') json_text) epoch_parse) (\<lambda>epoch.
     Option.bind (case json_get value ''community_generation'' of
          None \<Rightarrow> Some None
        | Some JNull \<Rightarrow> Some None
        | Some v \<Rightarrow> map_option Some (json_i64 v)) (\<lambda>generation.
       Some \<lparr>en_receipt = receipt, en_epoch_state = epoch, en_generation = generation,
             en_verdict = verdict\<rparr>))))"

type_synonym 'a gtx = "(json, 'a) tx"
type_synonym gstore = "json store"

definition record_envelope :: "string \<Rightarrow> cas_envelope \<Rightarrow> unit gtx" where
  "record_envelope i en =
     tx_bind (tx_now (\<lambda>t s. Inr (affected (\<lambda>c. ca_id c = i) (s_candidates s),
        s\<lparr>s_candidates := update_where (\<lambda>c. ca_id c = i)
            (\<lambda>c. c\<lparr>ca_payload := Some (envelope_to_json en), ca_receipt := Some (en_receipt en),
                   ca_updated := t\<rparr>) (s_candidates s)\<rparr>)))
     (require_one NotFound)"

definition read_envelope :: "string \<Rightarrow> gstore \<Rightarrow> cas_envelope option" where
  "read_envelope i s = Option.bind (candidate_row i s) (\<lambda>c. Option.bind (ca_payload c) envelope_from_json)"

section \<open>The gates\<close>

record turn_env = signal_env +
  tv_token :: "nat \<Rightarrow> string"
  tv_durable :: "gstore \<Rightarrow> bool"
  tv_divergences :: "string \<Rightarrow> gstore \<Rightarrow> nat"
  tv_ready :: "string \<Rightarrow> gstore \<Rightarrow> bool"

definition graph_row :: "string \<Rightarrow> gstore \<Rightarrow> graph_state option" where
  "graph_row space s = find (\<lambda>g. gs_space g = space) (s_graph s)"

definition grouping_generation :: "string \<Rightarrow> gstore \<Rightarrow> int" where
  "grouping_generation space s = (case graph_row space s of None \<Rightarrow> 0 | Some g \<Rightarrow> gs_grouping g)"

definition published_generation :: "string \<Rightarrow> gstore \<Rightarrow> int option" where
  "published_generation space s = Option.bind (graph_row space s) gs_published"

definition space_id_for :: "string \<Rightarrow> gstore \<Rightarrow> string option" where
  "space_id_for space s = map_option fst (find (\<lambda>p. snd p = space) (s_spaces s))"

definition root_status :: "string list \<Rightarrow> gstore \<Rightarrow> (string \<times> string) list" where
  "root_status root_ids s = sort (map (\<lambda>r. (r,
     case find (\<lambda>x. ro_id x = r) (s_roots s) of None \<Rightarrow> ''missing'' | Some x \<Rightarrow> ro_status x)) root_ids)"

definition claimed_root_status :: "string \<Rightarrow> gstore \<Rightarrow> (string \<times> string) list" where
  "claimed_root_status i s =
     root_status (sort (map cl_root (filter (\<lambda>x. cl_candidate x = i) (s_claims s)))) s"

definition e1_lease_ownership :: "json candidate \<Rightarrow> bool gtx" where
  "e1_lease_ownership c = (case ca_token c of
       None \<Rightarrow> tx_return False
     | Some token \<Rightarrow> lease_owns GenesisPhase (ca_space c) (ca_generation c) token)"

definition e2_input_generation :: "json candidate \<Rightarrow> gstore \<Rightarrow> bool" where
  "e2_input_generation c s \<longleftrightarrow> grouping_generation (ca_space c) s = ca_generation c"

definition e3_root_digest :: "(string \<Rightarrow> string) \<Rightarrow> json candidate \<Rightarrow> gstore \<Rightarrow> bool" where
  "e3_root_digest sha c s \<longleftrightarrow> active_root_digest sha (claimed_root_status (ca_id c) s) = ca_digest c"

definition e4_coverage_epoch :: "json candidate \<Rightarrow> cas_envelope \<Rightarrow> gstore \<Rightarrow> bool" where
  "e4_coverage_epoch c en s \<longleftrightarrow>
     (case space_id_for (ca_space c) s of
        None \<Rightarrow> False
      | Some space_id \<Rightarrow>
          (case find (\<lambda>x. cs_space_id x = space_id) (s_epochs s) of
             None \<Rightarrow> False
           | Some x \<Rightarrow> cs_epoch x = ca_epoch c \<and> cs_state x = en_epoch_state en))"

definition e5_claim_liveness :: "json candidate \<Rightarrow> gstore \<Rightarrow> bool" where
  "e5_claim_liveness c s \<longleftrightarrow>
     (let mine = filter (\<lambda>x. cl_candidate x = ca_id c) (s_claims s)
      in list_all (\<lambda>x. cl_released x = None \<and> cl_role x = claim_role_for (ca_signal c)) mine
         \<and> length mine > 0)"

definition e6_evidence_liveness :: "json candidate \<Rightarrow> gstore \<Rightarrow> bool" where
  "e6_evidence_liveness c s \<longleftrightarrow>
     affected (\<lambda>x. cl_candidate x = ca_id c
       \<and> (\<not> occurs (\<lambda>r. ro_id r = cl_root x \<and> ro_status r = ''active'' \<and> ro_kind r \<noteq> ''generated'') (s_roots s)
          \<or> \<not> occurs (\<lambda>e. ed_root e = Some (cl_root x) \<and> ed_grounded e \<and> ed_valid_until e = None) (s_edges s)))
       (s_claims s) = 0"

definition e7_community_generation ::
    "(gstore \<Rightarrow> bool) \<Rightarrow> json candidate \<Rightarrow> cas_envelope \<Rightarrow> gstore \<Rightarrow> bool" where
  "e7_community_generation durable c en s \<longleftrightarrow>
     ca_signal c \<notin> {EvidenceCluster, CommunityOverview}
     \<or> durable s \<and> (case graph_row (ca_space c) s of
          None \<Rightarrow> False
        | Some g \<Rightarrow> \<not> gs_dirty g \<and> gs_published g \<noteq> None \<and> gs_published g = en_generation en)"

definition e8_page_truth :: "json candidate \<Rightarrow> gstore \<Rightarrow> bool" where
  "e8_page_truth c s \<longleftrightarrow> \<not> occurs (\<lambda>x. cl_candidate x = ca_id c
     \<and> occurs (\<lambda>e. ed_type e = ''supports'' \<and> ed_src_kind e = ''claim_revision'' \<and> ed_root e = Some (cl_root x)
         \<and> ed_valid_until e = None
         \<and> occurs (\<lambda>v. pc_revision v = ed_src e
             \<and> occurs (\<lambda>p. pg_id p = pc_page v
                 \<and> (pg_status p \<noteq> ''active'' \<or> pc_version v \<noteq> pg_version p
                    \<or> (let truths = filter (\<lambda>t. pt_page t = pg_id p \<and> pt_version t = pg_version p) (s_page_truth s)
                       in truths = [] \<or> occurs (\<lambda>t. pt_status t \<noteq> ''supported'') truths)))
               (s_pages s)) (s_page_claims s)) (s_edges s)) (s_claims s)"

fun gate_holds :: "turn_env \<Rightarrow> json candidate \<Rightarrow> cas_envelope \<Rightarrow> cas_gate \<Rightarrow> bool gtx" where
  "gate_holds E c en LeaseOwnership = e1_lease_ownership c"
| "gate_holds E c en InputGeneration = tx_read (e2_input_generation c)"
| "gate_holds E c en RootDigest = tx_read (e3_root_digest (tv_sha E) c)"
| "gate_holds E c en CoverageEpoch = tx_read (e4_coverage_epoch c en)"
| "gate_holds E c en ClaimLiveness = tx_read (e5_claim_liveness c)"
| "gate_holds E c en EvidenceLiveness = tx_read (e6_evidence_liveness c)"
| "gate_holds E c en CommunityGeneration = tx_read (e7_community_generation (tv_durable E) c en)"
| "gate_holds E c en PageTruth = tx_read (e8_page_truth c)"

fun first_refusal :: "turn_env \<Rightarrow> json candidate \<Rightarrow> cas_envelope \<Rightarrow> cas_gate list \<Rightarrow> cas_gate option gtx" where
  "first_refusal E c en [] = tx_return None"
| "first_refusal E c en (g # gs) = tx_bind (gate_holds E c en g) (\<lambda>held.
     if held then first_refusal E c en gs else tx_return (Some g))"

definition evaluate_gates :: "turn_env \<Rightarrow> json candidate \<Rightarrow> cas_envelope \<Rightarrow> cas_gate option gtx" where
  "evaluate_gates E c en = first_refusal E c en all_gates"

datatype finalization = DryRunPassed | DryRunRefused cas_gate | NotEligible

definition dry_run_finalize :: "turn_env \<Rightarrow> string \<Rightarrow> finalization gtx" where
  "dry_run_finalize E i =
     tx_bind (read_candidate i) (\<lambda>row. case row of
       None \<Rightarrow> tx_return NotEligible
     | Some c \<Rightarrow>
         if ca_state c \<noteq> Prepared then tx_return NotEligible
         else tx_bind (tx_read (read_envelope i)) (\<lambda>stored. case stored of
           None \<Rightarrow> tx_return NotEligible
         | Some en \<Rightarrow>
             if en_verdict en \<noteq> None then tx_return NotEligible
             else tx_bind (evaluate_gates E c en) (\<lambda>refusal.
               tx_then (record_envelope i (en\<lparr>en_verdict := Some (case refusal of
                   None \<Rightarrow> PassedAll | Some g \<Rightarrow> RefusedBy g)\<rparr>))
               (tx_then (case ca_token c of
                   None \<Rightarrow> tx_return ()
                 | Some token \<Rightarrow> tx_then (lease_release GenesisPhase (ca_space c) (ca_generation c) token)
                                  (tx_return ()))
               (case refusal of
                   None \<Rightarrow> tx_return DryRunPassed
                 | Some g \<Rightarrow> tx_then (mark_retry_wait i Charged) (tx_return (DryRunRefused g)))))))"

section \<open>Sequences of transactions\<close>

type_synonym ('p, 'a) sessions = "'p store \<Rightarrow> (m6_error + 'a) \<times> 'p store"
type_synonym 'a session = "(json, 'a) sessions"

definition transaction :: "('p, 'a) tx \<Rightarrow> ('p, 'a) sessions" where
  "transaction m s = (case m s of Inl e \<Rightarrow> (Inl e, s) | Inr (a, s') \<Rightarrow> (Inr a, s'))"

definition ses_return :: "'a \<Rightarrow> ('p, 'a) sessions" where
  "ses_return a s = (Inr a, s)"

definition ses_bind :: "('p, 'a) sessions \<Rightarrow> ('a \<Rightarrow> ('p, 'b) sessions) \<Rightarrow> ('p, 'b) sessions" where
  "ses_bind m k s = (case m s of (Inl e, s') \<Rightarrow> (Inl e, s') | (Inr a, s') \<Rightarrow> k a s')"

section \<open>The recovery scan\<close>

record recovery_report =
  rr_reaped :: nat
  rr_staled :: "string list"
  rr_live :: nat
  rr_handed_off :: nat

definition recoverable_states :: "candidate_state list" where
  "recoverable_states = [Prepared, Inferencing, Validating, RetryWait]"

definition orphaned_candidates :: "gstore \<Rightarrow> string list" where
  "orphaned_candidates s = remdups (sort (map ca_id (filter (\<lambda>c.
     ca_state c \<in> set recoverable_states
     \<and> occurs (\<lambda>x. cl_candidate x = ca_id c \<and> cl_released x = None) (s_claims s)) (s_candidates s))))"

definition lease_is_live :: "json candidate \<Rightarrow> bool gtx" where
  "lease_is_live c = e1_lease_ownership c"

text \<open>One candidate of step 2: is it staled (\<open>Some True\<close>), left to its lease (\<open>Some False\<close>), or no longer
  to be recovered?\<close>

definition recover_candidate :: "string \<Rightarrow> bool option gtx" where
  "recover_candidate i =
     tx_bind (read_candidate i) (\<lambda>row. case row of
       None \<Rightarrow> tx_return None
     | Some c \<Rightarrow>
         if ca_state c \<notin> set recoverable_states then tx_return None
         else tx_bind (lease_is_live c) (\<lambda>live.
           if live then tx_return (Some False)
           else tx_then (mark_stale i LeaseLost) (tx_return (Some True))))"

fun recover_each :: "string list \<Rightarrow> recovery_report \<Rightarrow> recovery_report session" where
  "recover_each [] report = ses_return report"
| "recover_each (i # is) report = ses_bind (transaction (recover_candidate i)) (\<lambda>r. recover_each is
     (case r of
        None \<Rightarrow> report
      | Some True \<Rightarrow> report\<lparr>rr_staled := rr_staled report @ [i]\<rparr>
      | Some False \<Rightarrow> report\<lparr>rr_live := rr_live report + 1\<rparr>))"

definition handed_off_projections :: "gstore \<Rightarrow> nat" where
  "handed_off_projections s = affected (\<lambda>st. st = ''handed_off'') (s_outbox s)"

definition recovery_scan :: "recovery_report session" where
  "recovery_scan =
     ses_bind (transaction reap_expired_m6_phases) (\<lambda>reaped.
     ses_bind (transaction (tx_read orphaned_candidates)) (\<lambda>orphans.
     ses_bind (recover_each orphans \<lparr>rr_reaped = reaped, rr_staled = [], rr_live = 0, rr_handed_off = 0\<rparr>) (\<lambda>report.
     ses_bind (transaction (tx_read handed_off_projections)) (\<lambda>n.
       ses_return (report\<lparr>rr_handed_off := n\<rparr>)))))"

section \<open>The shadow turn\<close>

definition bump :: "string \<Rightarrow> string \<Rightarrow> int \<Rightarrow> unit gtx" where
  "bump space_id name by s =
     (if by \<le> 0 then Inr ((), s)
      else Inr ((), s\<lparr>s_counters := (s_counters s)((space_id, name) \<mapsto>
             (case s_counters s (space_id, name) of None \<Rightarrow> 0 | Some n \<Rightarrow> n) + by)\<rparr>))"

datatype genesis_turn =
  Idle | FrontierTurn string nat nat | PreparedTurn string | DryRunPassedTurn string
  | DryRunRefusedTurn string cas_gate | Requeued string string | Parked string string
  | RefusedBudget

definition did_work :: "genesis_turn \<Rightarrow> bool" where
  "did_work t \<longleftrightarrow> t \<noteq> Idle \<and> t \<noteq> RefusedBudget"

definition reconcile_transaction :: "turn_env \<Rightarrow> string \<Rightarrow> string \<Rightarrow> int \<Rightarrow> bool gtx" where
  "reconcile_transaction E space_id space epoch =
     tx_bind (tx_read (\<lambda>s. (grouping_generation space s, tv_token E (s_tick s)))) (\<lambda>(generation, fresh).
     tx_bind (lease_acquire fresh FrontierPhase space generation 0) (\<lambda>lease. case lease of
       None \<Rightarrow> tx_return False
     | Some token \<Rightarrow>
         tx_bind (reconcile_space space epoch) (\<lambda>outcome.
         tx_bind (read_cursor space) (\<lambda>cursor.
         tx_bind (scan_slice space epoch cursor) (\<lambda>(rows, next_cursor).
         tx_then (write_cursor space next_cursor)
         (let repaired = length (oc_repaired outcome);
              worked = repaired > 0 \<or> oc_lapsed outcome > 0
          in tx_then (bump space_id ''frontier_repairs'' (int repaired))
             (tx_then (if worked then bump space_id ''shadow_turns'' 1 else tx_return ())
             (tx_then (lease_release FrontierPhase space generation token)
               (tx_return worked)))))))))"

definition observe_space :: "string \<Rightarrow> int \<Rightarrow> (nat \<times> nat) gtx" where
  "observe_space space epoch = tx_now (\<lambda>t. tx_read (\<lambda>s.
     (affected (\<lambda>x. gc_space x = space \<and> gc_epoch x = epoch) (s_coverage s),
      affected (\<lambda>x. fr_space x = space \<and> fr_epoch x = epoch \<and> fr_next_scan x > t) (s_frontier s))))"

definition reconcile_turn :: "turn_env \<Rightarrow> string \<Rightarrow> string \<Rightarrow> int \<Rightarrow> genesis_turn option session" where
  "reconcile_turn E space_id space epoch =
     ses_bind (transaction (reconcile_transaction E space_id space epoch)) (\<lambda>worked.
       if \<not> worked then ses_return None
       else ses_bind (transaction (observe_space space epoch)) (\<lambda>(admitted, deferred).
         ses_return (Some (FrontierTurn space admitted deferred))))"

text \<open>\<open>fill_groups\<close>: a root without a row is dropped.\<close>

definition fill_groups :: "string list \<Rightarrow> gstore \<Rightarrow> claim_reservation list" where
  "fill_groups root_ids s = concat (map (\<lambda>r. case find (\<lambda>x. ro_id x = r) (s_roots s) of
     None \<Rightarrow> [] | Some x \<Rightarrow> [\<lparr>rv_root = r, rv_group = ro_group x\<rparr>]) root_ids)"

definition attempt_prepare :: "turn_env \<Rightarrow> string \<Rightarrow> string \<Rightarrow> string \<Rightarrow> proposal \<Rightarrow> genesis_turn option gtx" where
  "attempt_prepare E space_id space i proposal =
     tx_bind (tx_read (\<lambda>s. (fill_groups (pr_roots proposal) s, tv_token E (s_tick s)))) (\<lambda>(claims, fresh).
     tx_bind (prepare_candidate fresh i claims) (\<lambda>outcome. case outcome of
       DidPrepare _ \<Rightarrow>
         tx_bind (tx_read (published_generation space)) (\<lambda>published.
         tx_then (record_envelope i \<lparr>en_receipt = receipt_id i, en_epoch_state = Active,
             en_generation = published, en_verdict = None\<rparr>)
         (tx_then (bump space_id ''candidates_prepared'' 1)
         (tx_then (bump space_id ''shadow_turns'' 1) (tx_return (Some (PreparedTurn i))))))
     | ClaimRefused r \<Rightarrow> tx_return (Some (Requeued i (''claim refused on root '' @ r)))
     | LeaseHeld \<Rightarrow> tx_return None
     | NotDue \<Rightarrow> tx_return None))"

definition prepare_one ::
    "turn_env \<Rightarrow> string \<Rightarrow> string \<Rightarrow> int \<Rightarrow> proposal \<Rightarrow> string \<Rightarrow> genesis_turn option gtx" where
  "prepare_one E space_id space epoch proposal i =
     tx_bind (tx_read (\<lambda>s. (active_root_digest (tv_sha E) (root_status (pr_roots proposal) s),
        grouping_generation space s))) (\<lambda>(digest, generation).
     tx_bind (observe_candidate \<lparr>ob_candidate_id = i, ob_slot_id = pr_slot proposal,
        ob_page_id = pr_page proposal, ob_space = space, ob_signal = pr_signal proposal,
        ob_epoch = epoch, ob_generation = generation, ob_digest = digest\<rparr>) (\<lambda>observed.
     if observed = RefusedPendingCap then tx_return (Some RefusedBudget)
     else tx_bind (read_candidate i) (\<lambda>row. case row of
       None \<Rightarrow> tx_return None
     | Some c \<Rightarrow>
         if ca_state c = RetryWait \<and> retry_exhausted (ca_attempt c)
         then tx_then (mark_stale i RetryExhausted) (tx_return (Some (Parked i (reason_as_str RetryExhausted))))
         else if \<not> transition_is_legal (ca_state c) Prepared then tx_return None
         else attempt_prepare E space_id space i proposal)))"

fun prepare_each ::
    "turn_env \<Rightarrow> string \<Rightarrow> string \<Rightarrow> int \<Rightarrow> proposal list \<Rightarrow> genesis_turn option session" where
  "prepare_each E space_id space epoch [] = ses_return None"
| "prepare_each E space_id space epoch (p # ps) =
     ses_bind (transaction (prepare_one E space_id space epoch p (candidate_id (tv_sha E) (pr_slot p) epoch)))
       (\<lambda>turn. case turn of Some t \<Rightarrow> ses_return (Some t) | None \<Rightarrow> prepare_each E space_id space epoch ps)"

definition candidate_prepares_per_cycle_cap :: nat where
  "candidate_prepares_per_cycle_cap = 16"

definition admitted_proposals :: "turn_env \<Rightarrow> string \<Rightarrow> proposal list gtx" where
  "admitted_proposals E space_id = tx_bind (tx_read (tv_durable E)) (signal_proposals E space_id)"

definition prepare_turn :: "turn_env \<Rightarrow> string \<Rightarrow> string \<Rightarrow> int \<Rightarrow> genesis_turn option session" where
  "prepare_turn E space_id space epoch =
     ses_bind (transaction (admitted_proposals E space_id)) (\<lambda>proposals.
       prepare_each E space_id space epoch (take candidate_prepares_per_cycle_cap proposals))"

definition due_candidate :: "string \<Rightarrow> gstore \<Rightarrow> string option" where
  "due_candidate space s = find (\<lambda>i. is_some_and (\<lambda>en. en_verdict en = None) (read_envelope i s))
     (sort (map ca_id (filter (\<lambda>c. ca_space c = space \<and> ca_state c = Prepared \<and> ca_payload c \<noteq> None)
        (s_candidates s))))"

definition finalize_one :: "turn_env \<Rightarrow> string \<Rightarrow> string \<Rightarrow> genesis_turn option session" where
  "finalize_one E space_id space = transaction (tx_bind (tx_read (due_candidate space)) (\<lambda>due. case due of
     None \<Rightarrow> tx_return None
   | Some i \<Rightarrow>
       tx_bind (dry_run_finalize E i) (\<lambda>outcome. case outcome of
         DryRunPassed \<Rightarrow>
           tx_then (bump space_id ''dry_run_passed'' 1)
           (tx_then (bump space_id ''shadow_turns'' 1) (tx_return (Some (DryRunPassedTurn i))))
       | DryRunRefused g \<Rightarrow>
           tx_then (bump space_id (''dry_run_refused_'' @ gate_as_str g) 1)
           (tx_then (bump space_id ''shadow_turns'' 1) (tx_return (Some (DryRunRefusedTurn i g))))
       | NotEligible \<Rightarrow> tx_return None)))"

record shadow_state =
  sh_recovery :: "recovery_report option"
  sh_rotation :: usize
  sh_turns :: u64

definition oracle_sample_turns :: u64 where
  "oracle_sample_turns = 512"

definition sample_oracle :: "turn_env \<Rightarrow> string \<Rightarrow> unit session" where
  "sample_oracle E space_id = transaction (tx_bind (tx_read (tv_divergences E space_id)) (\<lambda>n.
     if n > 0 then bump space_id ''oracle_divergence'' (int n) else tx_return ()))"

definition open_turn :: "turn_env \<Rightarrow> string \<Rightarrow> string \<Rightarrow> coverage_state gtx" where
  "open_turn E space_id space =
     tx_bind (open_coverage_epoch space_id space) (\<lambda>coverage.
     tx_bind (tx_read (tv_ready E space)) (\<lambda>ready.
       if ready then tx_return coverage else tx_fail VectorDb))"

text \<open>The turn of one space: its result, and whether the rotation moves on.\<close>

definition space_turn ::
    "turn_env \<Rightarrow> bool \<Rightarrow> string \<Rightarrow> string \<Rightarrow> (genesis_turn \<times> bool) session" where
  "space_turn E sample space_id space =
     ses_bind (transaction (open_turn E space_id space)) (\<lambda>coverage.
     ses_bind (if sample then sample_oracle E space_id else ses_return ()) (\<lambda>_.
     ses_bind (reconcile_turn E space_id space (cs_epoch coverage)) (\<lambda>turn. case turn of
       Some t \<Rightarrow> ses_return (t, False)
     | None \<Rightarrow>
         ses_bind (prepare_turn E space_id space (cs_epoch coverage)) (\<lambda>turn.
           if turn \<noteq> None \<and> turn \<noteq> Some RefusedBudget then ses_return (the turn, False)
           else ses_bind (finalize_one E space_id space) (\<lambda>final. case final of
             Some t \<Rightarrow> ses_return (t, False)
           | None \<Rightarrow> ses_return (if turn = Some RefusedBudget then RefusedBudget else Idle, True))))))"

definition run_genesis_shadow_turn ::
    "turn_env \<Rightarrow> shadow_state \<Rightarrow> gstore \<Rightarrow> (m6_error + genesis_turn) \<times> shadow_state \<times> gstore" where
  "run_genesis_shadow_turn E sh s =
     (let sh = sh\<lparr>sh_turns := sat_inc (sh_turns sh)\<rparr>
      in if sh_recovery sh = None
         then (case recovery_scan s of
                 (Inl e, s') \<Rightarrow> (Inl e, sh, s')
               | (Inr report, s') \<Rightarrow> (Inr Idle, sh\<lparr>sh_recovery := Some report\<rparr>, s'))
         else if s_spaces s = [] then (Inr Idle, sh, s)
         else let spaces = sort_key snd (s_spaces s);
                  (space_id, space) = spaces ! (unat (sh_rotation sh) mod length spaces)
              in (case space_turn E (unat (sh_turns sh) mod unat oracle_sample_turns = 0) space_id space s of
                    (Inl e, s') \<Rightarrow> (Inl e, sh, s')
                  | (Inr (t, moves_on), s') \<Rightarrow>
                      (Inr t, if moves_on then sh\<lparr>sh_rotation := sh_rotation sh + 1\<rparr> else sh, s')))"

end
