(* ===== verification/Genesis_Placement.thy ===== *)
theory Genesis_Placement
  imports Genesis_Driver
begin

text \<open>
  The homes of the evidence groups as an abstract placement, and the refinement of its steps by the statements and the
  transitions of \<open>frontier_policy.rs\<close> and \<open>frontier.rs\<close>. \<open>booked\<close> relates the tables with a placement, up to groups
  that are between two homes while a transaction runs; \<open>moves_groups\<close> says of a transaction that it takes a placed
  store to a placed store by steps of the placement.
\<close>

declare split_paired_All [simp del] split_paired_Ex [simp del]

section \<open>Keys\<close>

lemma unique_key_Cons:
  "unique_key key P (r # rows) \<longleftrightarrow> unique_key key P rows \<and> (P r \<longrightarrow> \<not> occurs (\<lambda>x. P x \<and> key x = key r) rows)"
proof -
  have "key r \<in> key ` {x \<in> set rows. P x} \<longleftrightarrow> occurs (\<lambda>x. P x \<and> key x = key r) rows"
    by (auto simp: image_iff occurs_iff)
  then show ?thesis by (auto simp: unique_key_def)
qed

lemma unique_key_Nil [simp]: "unique_key key P []"
  by (simp add: unique_key_def)

text \<open>Rows that stop being counted, and rows that keep what they count by.\<close>

lemma unique_key_update_out:
  assumes "unique_key key P rows" "\<And>r. Q r \<Longrightarrow> P (f r) \<Longrightarrow> P r \<and> key (f r) = key r"
  shows "unique_key key P (update_where Q f rows)"
  using assms(1)
proof (induction rows)
  case (Cons r rows)
  have "occurs (\<lambda>x. P x \<and> key x = k) rows" if "occurs (\<lambda>x. P x \<and> key x = k) (update_where Q f rows)" for k
    using that assms(2) by (fastforce simp: occurs_update_where occurs_iff split: if_splits)
  with Cons assms(2) show ?case
    by (auto simp: update_where_def unique_key_Cons)
qed (simp add: update_where_def)

text \<open>One row, found by its own unique key, takes a key of which no other row is counted.\<close>

lemma unique_key_update_one:
  assumes "unique_key key P rows" "unique_key own (\<lambda>_. True) rows"
    and "\<And>r. key (f r) = k" "\<not> occurs (\<lambda>x. own x \<noteq> o' \<and> P x \<and> key x = k) rows"
  shows "unique_key key P (update_where (\<lambda>x. own x = o') f rows)"
  using assms(1,2,4)
proof (induction rows)
  case (Cons r rows)
  let ?u = "update_where (\<lambda>x. own x = o') f rows"
  show ?case
  proof (cases "own r = o'")
    case True
    with Cons.prems have "\<not> occurs (\<lambda>x. own x = o') rows"
      by (auto simp: unique_key_Cons occurs_iff)
    then have "?u = rows" by (auto simp: update_where_def occurs_iff intro!: map_idI)
    with Cons.prems True assms(3) show ?thesis
      by (auto simp: update_where_def unique_key_Cons occurs_iff)
  next
    case False
    have "unique_key key P ?u" using Cons by (simp add: unique_key_Cons)
    moreover have "P r \<Longrightarrow> \<not> occurs (\<lambda>x. P x \<and> key x = key r) ?u"
      using Cons.prems False assms(3) by (auto simp: unique_key_Cons occurs_update_where occurs_iff split: if_splits)
    ultimately show ?thesis using False by (simp add: update_where_def unique_key_Cons)
  qed
qed (simp add: update_where_def)

lemma occurs_update_out:
  assumes "unique_key key P rows" "q \<in> set rows" "P q" "Q q"
    and Q: "\<And>y. Q y \<Longrightarrow> key y = key q \<and> \<not> P (f y)"
  shows "occurs (\<lambda>x. key x = k \<and> P x) (update_where Q f rows) \<longleftrightarrow> occurs (\<lambda>x. key x = k \<and> P x) rows \<and> k \<noteq> key q"
proof -
  have "(if Q y then key (f y) = k \<and> P (f y) else key y = k \<and> P y) \<longleftrightarrow> (key y = k \<and> P y) \<and> k \<noteq> key q"
    if "y \<in> set rows" for y
  proof (cases "Q y")
    case True
    with Q [OF True] show ?thesis by auto
  next
    case False
    have "P y \<Longrightarrow> key y \<noteq> key q"
      using unique_keyD [OF assms(1) that assms(2) _ assms(3)] assms(4) False by blast
    with False show ?thesis by auto
  qed
  then have "occurs (\<lambda>y. if Q y then key (f y) = k \<and> P (f y) else key y = k \<and> P y) rows
      \<longleftrightarrow> occurs (\<lambda>y. (key y = k \<and> P y) \<and> k \<noteq> key q) rows" by (rule occurs_cong)
  then show ?thesis unfolding occurs_update_where by (auto simp: occurs_iff)
qed

section \<open>The schema\<close>

definition claim_linked :: "'p store \<Rightarrow> claim \<Rightarrow> bool" where
  "claim_linked s x \<longleftrightarrow> occurs (\<lambda>c. ca_id c = cl_candidate x \<and> ca_epoch c = cl_epoch x
     \<and> claim_role_for (ca_signal c) = cl_role x) (s_candidates s)"

definition schema_ok :: "'p store \<Rightarrow> bool" where
  "schema_ok s \<longleftrightarrow>
     unique_key fr_key (\<lambda>_. True) (s_frontier s) \<and> unique_key cb_key cb_live (s_cards s)
     \<and> unique_key su_key su_live (s_suppressions s) \<and> unique_key qu_key qu_live (s_quarantines s)
     \<and> unique_key (\<lambda>x. (cl_group x, cl_epoch x)) concept_live (s_claims s)
     \<and> unique_key (\<lambda>x. (cl_candidate x, cl_root x)) (\<lambda>_. True) (s_claims s)
     \<and> unique_key ca_id (\<lambda>_. True) (s_candidates s)
     \<and> (\<forall>x \<in> set (s_claims s). claim_linked s x)"

section \<open>The placement of the groups\<close>

type_synonym placement = "group_key \<rightharpoonup> home"

inductive place_step :: "placement \<Rightarrow> placement \<Rightarrow> bool" where
  discovered: "A k = None \<Longrightarrow> place_step A (A(k \<mapsto> InFrontier))"
| claimed: "A k = None \<or> A k = Some InFrontier \<Longrightarrow> place_step A (A(k \<mapsto> Claimed))"
| released: "A k = Some Claimed \<Longrightarrow> place_step A (A(k \<mapsto> InFrontier))"
| surfaced: "A k = Some InFrontier \<Longrightarrow> place_step A (A(k \<mapsto> OnCard))"
| card_expired: "A k = Some OnCard \<Longrightarrow> place_step A (A(k \<mapsto> InFrontier))"
| card_dismissed: "A k = Some OnCard \<Longrightarrow> place_step A (A(k \<mapsto> IsSuppressed))"
| suppressed: "A k = Some InFrontier \<Longrightarrow> place_step A (A(k \<mapsto> IsSuppressed))"
| lapsed: "A k = Some IsSuppressed \<Longrightarrow> place_step A (A(k \<mapsto> InFrontier))"
| quarantined: "A k = Some InFrontier \<Longrightarrow> place_step A (A(k \<mapsto> Quarantined))"
| lifted: "A k = Some Quarantined \<Longrightarrow> place_step A (A(k \<mapsto> InFrontier))"

text \<open>The tables agree with a placement, but for groups displaced from their home (\<open>D\<close>), and groups
  whose frontier row is yet to retire (\<open>F\<close>).\<close>

definition booked :: "'p store \<Rightarrow> placement \<Rightarrow> group_key set \<Rightarrow> group_key set \<Rightarrow> bool" where
  "booked s A D F \<longleftrightarrow> schema_ok s
     \<and> (\<forall>h k. at_home s h k \<longleftrightarrow> k \<notin> D \<and> A k = Some h \<or> h = InFrontier \<and> k \<in> F)"

abbreviation placed :: "'p store \<Rightarrow> placement \<Rightarrow> bool" where
  "placed s A \<equiv> booked s A {} {}"

lemma at_home_frame [simp]:
  "at_home (s\<lparr>s_tick := n\<rparr>) h k = at_home s h k"
  "at_home (s\<lparr>s_leases := ls\<rparr>) h k = at_home s h k"
  "at_home (s\<lparr>s_metadata := md\<rparr>) h k = at_home s h k"
  "at_home (s\<lparr>s_counters := cn\<rparr>) h k = at_home s h k"
  "at_home (s\<lparr>s_epochs := ep\<rparr>) h k = at_home s h k"
  by (cases h; simp)+

lemma schema_frame [simp]:
  "schema_ok (s\<lparr>s_tick := n\<rparr>) = schema_ok s"
  "schema_ok (s\<lparr>s_leases := ls\<rparr>) = schema_ok s"
  "schema_ok (s\<lparr>s_metadata := md\<rparr>) = schema_ok s"
  "schema_ok (s\<lparr>s_counters := cn\<rparr>) = schema_ok s"
  "schema_ok (s\<lparr>s_epochs := ep\<rparr>) = schema_ok s"
  by (simp_all add: schema_ok_def claim_linked_def)

lemma booked_frame [simp]:
  "booked (s\<lparr>s_tick := n\<rparr>) A D F = booked s A D F"
  "booked (s\<lparr>s_leases := ls\<rparr>) A D F = booked s A D F"
  "booked (s\<lparr>s_metadata := md\<rparr>) A D F = booked s A D F"
  "booked (s\<lparr>s_counters := cn\<rparr>) A D F = booked s A D F"
  "booked (s\<lparr>s_epochs := ep\<rparr>) A D F = booked s A D F"
  by (simp_all add: booked_def)

lemma booked_home: "booked s A D F \<Longrightarrow> at_home s h k \<longleftrightarrow> k \<notin> D \<and> A k = Some h \<or> h = InFrontier \<and> k \<in> F"
  unfolding booked_def by blast

lemma placed_reason_count: "placed s A \<Longrightarrow> reason_count s k = (case A k of None \<Rightarrow> 0 | Some _ \<Rightarrow> 1)"
proof (cases "A k")
  case (Some h)
  then show "placed s A \<Longrightarrow> ?thesis"
    by (cases h) (simp_all add: reason_count_def all_homes_def booked_home)
qed (simp add: reason_count_def all_homes_def booked_home)

section \<open>Statements\<close>

lemma schemaD:
  assumes "schema_ok s"
  shows "unique_key fr_key (\<lambda>_. True) (s_frontier s)" "unique_key cb_key cb_live (s_cards s)"
    "unique_key su_key su_live (s_suppressions s)" "unique_key qu_key qu_live (s_quarantines s)"
    "unique_key (\<lambda>x. (cl_group x, cl_epoch x)) concept_live (s_claims s)"
    "unique_key (\<lambda>x. (cl_candidate x, cl_root x)) (\<lambda>_. True) (s_claims s)"
    "unique_key ca_id (\<lambda>_. True) (s_candidates s)" "x \<in> set (s_claims s) \<Longrightarrow> claim_linked s x"
  using assms by (simp_all add: schema_ok_def)

lemma bookedI:
  assumes "schema_ok s'"
    and "\<And>h k. at_home s' h k \<longleftrightarrow> k \<notin> D \<and> A k = Some h \<or> h = InFrontier \<and> k \<in> F"
  shows "booked s' A D F"
  using assms by (simp add: booked_def)

text \<open>A row of the frontier goes, and comes.\<close>

lemma delete_frontier_home:
  assumes "delete_frontier k s = Inr (n, s')"
  shows "at_home s' h k' \<longleftrightarrow> at_home s h k' \<and> \<not> (h = InFrontier \<and> k' = k)"
    and "schema_ok s \<Longrightarrow> schema_ok s'" and "n = 0 \<longleftrightarrow> \<not> at_home s InFrontier k"
proof -
  have s': "s' = s\<lparr>s_frontier := delete_where (\<lambda>x. fr_key x = k) (s_frontier s)\<rparr>"
    and n: "n = affected (\<lambda>x. fr_key x = k) (s_frontier s)"
    using assms by (simp_all add: delete_frontier_def)
  show "at_home s' h k' \<longleftrightarrow> at_home s h k' \<and> \<not> (h = InFrontier \<and> k' = k)"
    by (cases h) (auto simp: s' occurs_delete_where occurs_iff)
  show "schema_ok s \<Longrightarrow> schema_ok s'"
    by (simp add: s' schema_ok_def claim_linked_def unique_key_delete)
  show "n = 0 \<longleftrightarrow> \<not> at_home s InFrontier k" by (simp add: n affected_pos)
qed

lemma insert_frontier_home:
  assumes "insert_frontier r s = Inr (u, s')"
  shows "at_home s' h k \<longleftrightarrow> at_home s h k \<or> h = InFrontier \<and> k = fr_key r"
    and "schema_ok s \<Longrightarrow> schema_ok s'" and "\<not> at_home s InFrontier (fr_key r)"
proof -
  have s': "s' = s\<lparr>s_frontier := s_frontier s @ [r]\<rparr>" and new: "\<not> occurs (\<lambda>x. fr_key x = fr_key r) (s_frontier s)"
    using assms by (auto simp: insert_frontier_def split: if_splits)
  show "at_home s' h k \<longleftrightarrow> at_home s h k \<or> h = InFrontier \<and> k = fr_key r"
    by (cases h) (auto simp: s')
  show "schema_ok s \<Longrightarrow> schema_ok s'" using new
    by (simp add: s' schema_ok_def claim_linked_def unique_key_snoc)
  show "\<not> at_home s InFrontier (fr_key r)" using new by simp
qed

lemma insert_ignore_home:
  assumes "insert_frontier_or_ignore r s = Inr (n, s')"
  shows "at_home s' h k \<longleftrightarrow> at_home s h k \<or> h = InFrontier \<and> k = fr_key r"
    and "schema_ok s \<Longrightarrow> schema_ok s'"
proof -
  consider "at_home s InFrontier (fr_key r)" "s' = s" | "insert_frontier r s = Inr ((), s')"
    using assms by (auto simp: insert_frontier_or_ignore_def insert_frontier_def split: if_splits)
  then show "at_home s' h k \<longleftrightarrow> at_home s h k \<or> h = InFrontier \<and> k = fr_key r"
    by cases (auto dest: insert_frontier_home(1))
  show "schema_ok s \<Longrightarrow> schema_ok s'"
    using assms by (auto simp: insert_frontier_or_ignore_def schema_ok_def claim_linked_def unique_key_snoc
        split: if_splits)
qed

lemma insert_suppression_home:
  assumes "insert_suppression k page reason first s = Inr (u, s')"
  shows "at_home s' h k' \<longleftrightarrow> at_home s h k' \<or> h = IsSuppressed \<and> k' = k"
    and "schema_ok s \<Longrightarrow> schema_ok s'"
proof -
  obtain sp g e where k: "k = (sp, g, e)" by (cases k)
  let ?t = "s_clock s (s_tick s)"
  let ?r = "\<lparr>su_space = sp, su_group = g, su_epoch = e, su_page = page, su_reason = reason,
    su_first_seen = first, su_at = ?t, su_expires = ?t + suppression_seconds, su_lapsed = None\<rparr>"
  have s': "s' = s\<lparr>s_tick := Suc (s_tick s), s_suppressions := s_suppressions s @ [?r]\<rparr>"
    and new: "\<not> occurs (\<lambda>x. su_key x = k \<and> (su_at x = ?t \<or> su_live x)) (s_suppressions s)"
    using assms by (auto simp: insert_suppression_def tx_simps k split: if_splits)
  have r: "su_key ?r = k" "su_live ?r" by (simp_all add: su_key_def k su_live_def)
  show "at_home s' h k' \<longleftrightarrow> at_home s h k' \<or> h = IsSuppressed \<and> k' = k"
    using r by (cases h) (auto simp: s')
  have "\<not> occurs (\<lambda>x. su_live x \<and> su_key x = k) (s_suppressions s)"
    using new by (auto simp: occurs_iff)
  then show "schema_ok s \<Longrightarrow> schema_ok s'" using r
    by (simp add: s' schema_ok_def claim_linked_def unique_key_snoc)
qed

lemma insert_card_home:
  assumes "insert_card_binding k cid page first s = Inr (u, s')"
  shows "at_home s' h k' \<longleftrightarrow> at_home s h k' \<or> h = OnCard \<and> k' = k"
    and "schema_ok s \<Longrightarrow> schema_ok s'"
proof -
  obtain sp g e where k: "k = (sp, g, e)" by (cases k)
  let ?t = "s_clock s (s_tick s)"
  let ?r = "\<lparr>cb_space = sp, cb_group = g, cb_epoch = e, cb_card = cid, cb_page = page,
    cb_first_seen = first, cb_created = ?t, cb_closed = None\<rparr>"
  have s': "s' = s\<lparr>s_tick := Suc (s_tick s), s_cards := s_cards s @ [?r]\<rparr>"
    and new: "\<not> occurs (\<lambda>x. cb_key x = k \<and> (cb_card x = cid \<or> cb_live x)) (s_cards s)"
    using assms by (auto simp: insert_card_binding_def tx_simps k split: if_splits)
  have r: "cb_key ?r = k" "cb_live ?r" by (simp_all add: cb_key_def k cb_live_def)
  show "at_home s' h k' \<longleftrightarrow> at_home s h k' \<or> h = OnCard \<and> k' = k"
    using r by (cases h) (auto simp: s')
  have "\<not> occurs (\<lambda>x. cb_live x \<and> cb_key x = k) (s_cards s)"
    using new by (auto simp: occurs_iff)
  then show "schema_ok s \<Longrightarrow> schema_ok s'" using r
    by (simp add: s' schema_ok_def claim_linked_def unique_key_snoc)
qed

lemma close_cards_home:
  assumes "close_cards P s = Inr (n, s')"
  shows "at_home s' h k \<longleftrightarrow> (if h = OnCard then occurs (\<lambda>x. cb_key x = k \<and> cb_live x \<and> \<not> P x) (s_cards s)
      else at_home s h k)"
    and "schema_ok s \<Longrightarrow> schema_ok s'" and "n = affected (\<lambda>x. P x \<and> cb_live x) (s_cards s)"
proof -
  let ?t = "s_clock s (s_tick s)"
  have s': "s' = s\<lparr>s_tick := Suc (s_tick s),
      s_cards := update_where (\<lambda>x. P x \<and> cb_live x) (cb_closed_update (\<lambda>_. Some ?t)) (s_cards s)\<rparr>"
    and n: "n = affected (\<lambda>x. P x \<and> cb_live x) (s_cards s)"
    using assms by (simp_all add: close_cards_def tx_simps Let_def split: if_splits)
  have key: "cb_key (cb_closed_update f x) = cb_key x" "cb_live (cb_closed_update (\<lambda>_. Some ?t) x) = False" for f x
    by (simp_all add: cb_key_def cb_live_def)
  show "at_home s' h k \<longleftrightarrow> (if h = OnCard then occurs (\<lambda>x. cb_key x = k \<and> cb_live x \<and> \<not> P x) (s_cards s)
      else at_home s h k)"
    by (cases h) (auto simp: s' occurs_update_where key occurs_iff split: if_splits)
  show "schema_ok s \<Longrightarrow> schema_ok s'"
    using unique_key_update_out [of cb_key cb_live "s_cards s" "\<lambda>x. P x \<and> cb_live x"
        "cb_closed_update (\<lambda>_. Some ?t)"] key(2) by (auto simp: s' schema_ok_def claim_linked_def)
  show "n = affected (\<lambda>x. P x \<and> cb_live x) (s_cards s)" by (rule n)
qed


section \<open>Moves between homes\<close>

lemma displace:
  assumes "placed s A" "A k = Some h0" "schema_ok s'"
    and "\<And>h k'. at_home s' h k' \<longleftrightarrow> at_home s h k' \<and> \<not> (h = h0 \<and> k' = k)"
  shows "booked s' A {k} {}"
proof (rule bookedI)
  show "at_home s' h k' \<longleftrightarrow> k' \<notin> {k} \<and> A k' = Some h \<or> h = InFrontier \<and> k' \<in> {}" for h k'
    using booked_home [OF assms(1), of h k'] assms(2,4) by auto
qed (rule assms(3))

text \<open>What a frontier row gives up is taken up by the next home.\<close>

lemma retire_from_frontier:
  assumes b: "placed s A" and f: "frontier_first_seen_at k s = Inr (first, s1)"
    and d: "delete_frontier k s1 = Inr (n, s2)"
  shows "A k = Some InFrontier \<and> booked s2 A {k} {}"
proof -
  have s1: "s1 = s" and k: "at_home s InFrontier k"
    using f by (auto simp: frontier_first_seen_at_def occurs_iff find_Some_iff split: option.splits)
  then have A: "A k = Some InFrontier" using booked_home [OF b, of InFrontier k] by simp
  have "booked s2 A {k} {}"
    using b delete_frontier_home(1,2) [OF d] by (intro displace [OF b A]) (simp_all add: booked_def s1)
  with A show ?thesis ..
qed

lemma settle_displaced:
  assumes "booked s A (insert k D) F" "k \<notin> D" "schema_ok s'"
    and "\<And>h k'. at_home s' h k' \<longleftrightarrow> at_home s h k' \<or> h = h0 \<and> k' = k"
    and "k \<notin> F \<or> h0 = InFrontier"
  shows "booked s' (A(k \<mapsto> h0)) D F"
proof (rule bookedI)
  show "at_home s' h k' \<longleftrightarrow> k' \<notin> D \<and> (A(k \<mapsto> h0)) k' = Some h \<or> h = InFrontier \<and> k' \<in> F" for h k'
    using booked_home [OF assms(1), of h k'] assms(2,4,5) by auto
qed (rule assms(3))

lemma suppress_placed:
  assumes b: "placed s A" and r: "suppress_frontier_group space gid epoch page reason s = Inr (u, s')"
  shows "\<exists>A'. place_step\<^sup>*\<^sup>* A A' \<and> placed s' A'"
proof -
  let ?k = "(space, gid, epoch)"
  obtain first s1 n s2 where "frontier_first_seen_at ?k s = Inr (first, s1)" "delete_frontier ?k s1 = Inr (n, s2)"
    and i: "insert_suppression ?k page reason first s2 = Inr (u, s')"
    using r by (auto simp: suppress_frontier_group_def tx_simps)
  from retire_from_frontier [OF b this(1,2)] have A: "A ?k = Some InFrontier" and b2: "booked s2 A {?k} {}"
    by simp_all
  have "placed s' (A(?k \<mapsto> IsSuppressed))"
    using b2 insert_suppression_home [OF i] by (intro settle_displaced [of s2]) (auto simp: booked_def)
  with suppressed [where A = A and k = ?k] A show ?thesis by blast
qed

lemma bind_group_placed:
  assumes b: "placed s A" and r: "bind_group space epoch cid pair s = Inr (u, s')"
  shows "\<exists>A'. place_step\<^sup>*\<^sup>* A A' \<and> placed s' A'"
proof -
  obtain gid page where pair: "pair = (gid, page)" by (cases pair)
  let ?k = "(space, gid, epoch)"
  obtain first s1 n s2 where "frontier_first_seen_at ?k s = Inr (first, s1)" "delete_frontier ?k s1 = Inr (n, s2)"
    and i: "insert_card_binding ?k cid page first s2 = Inr (u, s')"
    using r by (auto simp: bind_group_def pair tx_simps)
  from retire_from_frontier [OF b this(1,2)] have A: "A ?k = Some InFrontier" and b2: "booked s2 A {?k} {}"
    by simp_all
  have "placed s' (A(?k \<mapsto> OnCard))"
    using b2 insert_card_home [OF i] by (intro settle_displaced [of s2]) (auto simp: booked_def)
  with surfaced [where A = A and k = ?k] A show ?thesis by blast
qed

text \<open>A transaction that moves groups only along the placement's steps.\<close>

definition moves_rel :: "'p store \<Rightarrow> 'p store \<Rightarrow> bool" where
  "moves_rel s s' \<longleftrightarrow> (\<forall>A. placed s A \<longrightarrow> (\<exists>A'. place_step\<^sup>*\<^sup>* A A' \<and> placed s' A'))"

interpretation moving: store_order moves_rel
proof
  fix s t u :: "'a store"
  show "moves_rel s s" unfolding moves_rel_def by blast
  show "moves_rel s (s\<lparr>s_tick := n\<rparr>)" for n unfolding moves_rel_def by auto
  show "moves_rel s t \<Longrightarrow> moves_rel t u \<Longrightarrow> moves_rel s u"
    unfolding moves_rel_def by (meson rtranclp_trans)
qed

abbreviation moves_groups :: "('p, 'a) tx \<Rightarrow> bool" where
  "moves_groups m \<equiv> keeps moves_rel m"

named_theorems moves_intros \<open>transactions that move groups along the steps\<close>

declare moving.keeps_rules [moves_intros]

lemma moves_groupsI:
  assumes "\<And>s A a s'. placed s A \<Longrightarrow> m s = Inr (a, s') \<Longrightarrow> \<exists>A'. place_step\<^sup>*\<^sup>* A A' \<and> placed s' A'"
  shows "moves_groups m"
  using assms by (intro keepsI) (simp add: moves_rel_def)

lemma moves_groupsD:
  "moves_groups m \<Longrightarrow> placed s A \<Longrightarrow> m s = Inr (a, s') \<Longrightarrow> \<exists>A'. place_step\<^sup>*\<^sup>* A A' \<and> placed s' A'"
  by (drule (1) keepsD) (simp add: moves_rel_def)

lemma moves_same:
  assumes "\<And>s A a s'. placed s A \<Longrightarrow> m s = Inr (a, s') \<Longrightarrow> placed s' A"
  shows "moves_groups m"
  using assms by (intro moves_groupsI) blast

lemma moves_suppress [moves_intros]: "moves_groups (suppress_frontier_group space gid epoch page reason)"
  by (rule moves_groupsI) (rule suppress_placed)

lemma moves_bind_card [moves_intros]: "moves_groups (bind_frontier_groups_to_card space epoch cid groups)"
  unfolding bind_frontier_groups_to_card_def
  by (intro moves_intros moves_groupsI [OF bind_group_placed])


subsection \<open>Lapses, lifts and cards\<close>

lemma affected_oneD: "affected P rows = 1 \<Longrightarrow> \<exists>r \<in> set rows. P r"
  using affected_pos [of P rows] by (auto simp: occurs_iff)

lemma lapse_placed:
  assumes b: "placed s A" and r: "lapse_suppression e s = Inr (u, s')"
  shows "A (su_key e) = Some IsSuppressed \<and> placed s' (A(su_key e \<mapsto> InFrontier))"
proof -
  let ?t = "s_clock s (s_tick s)"
  let ?mine = "\<lambda>x. su_key x = su_key e \<and> su_at x = su_at e \<and> su_live x \<and> su_expires x \<le> ?t"
  let ?s1 = "s\<lparr>s_tick := Suc (s_tick s), s_suppressions := update_where ?mine (su_lapsed_update (\<lambda>_. Some ?t)) (s_suppressions s)\<rparr>"
  let ?k = "su_key e"
  define s2 where s2: "s2 = ?s1\<lparr>s_tick := Suc (Suc (s_tick s))\<rparr>"
  define row where "row = \<lparr>fr_space = su_space e, fr_group = su_group e, fr_epoch = su_epoch e,
    fr_first_seen = su_first_seen e, fr_next_scan = s_clock s (Suc (s_tick s))\<rparr>"
  have row: "fr_key row = ?k" by (simp add: row_def fr_key_def su_key_def)
  have one: "affected ?mine (s_suppressions s) = 1" and i: "insert_frontier row s2 = Inr (u, s')"
    using r by (auto simp: lapse_suppression_def tx_simps Let_def row_def s2)
  from affected_oneD [OF one] obtain x where x: "x \<in> set (s_suppressions s)" "?mine x" by blast
  then have "at_home s IsSuppressed ?k" by (auto simp: occurs_iff)
  then have A: "A ?k = Some IsSuppressed" using booked_home [OF b, of IsSuppressed ?k] by simp
  have sc: "schema_ok s" using b by (simp add: booked_def)
  have key: "su_key (su_lapsed_update g y) = su_key y" "\<not> su_live (su_lapsed_update (\<lambda>_. Some ?t) y)" for g y
    by (simp_all add: su_key_def su_live_def)
  have "at_home s2 IsSuppressed k \<longleftrightarrow> at_home s IsSuppressed k \<and> k \<noteq> ?k" for k
    using occurs_update_out [OF schemaD(3) [OF sc] x(1), of ?mine] x key by (simp add: s2)
  then have home: "at_home s2 h k \<longleftrightarrow> at_home s h k \<and> \<not> (h = IsSuppressed \<and> k = ?k)" for h k
    by (cases h) (auto simp: s2)
  have "schema_ok s2"
    using sc unique_key_update_out [OF schemaD(3) [OF sc], of ?mine "su_lapsed_update (\<lambda>_. Some ?t)"] key
    by (auto simp: s2 schema_ok_def claim_linked_def)
  then have "booked s2 A {?k} {}" using home by (intro displace [OF b A])
  moreover have "schema_ok s'" using insert_frontier_home(2) [OF i] \<open>schema_ok s2\<close> by blast
  ultimately have "placed s' (A(?k \<mapsto> InFrontier))"
    using insert_frontier_home(1) [OF i] row by (intro settle_displaced [of s2]) simp_all
  with A show ?thesis ..
qed

lemma moves_lapse [moves_intros]: "moves_groups (lapse_suppression e)"
proof (rule moves_groupsI)
  fix s A a s' assume "placed s A" "lapse_suppression e s = Inr (a, s' :: 'a store)"
  from lapse_placed [OF this] lapsed [where A = A and k = "su_key e"]
  show "\<exists>A'. place_step\<^sup>*\<^sup>* A A' \<and> placed s' A'" by blast
qed

lemma moves_reconcile_expired [moves_intros]: "moves_groups (reconcile_expired_suppressions space epoch)"
  unfolding reconcile_expired_suppressions_def by (intro moves_intros)

lemma quarantine_placed:
  assumes b: "placed s A" and r: "quarantine_frontier_group space gid epoch reason s = Inr (u, s')"
  shows "\<exists>A'. place_step\<^sup>*\<^sup>* A A' \<and> placed s' A'"
proof -
  let ?k = "(space, gid, epoch)"
  obtain first s1 n s2 at where f: "frontier_first_seen_at ?k s = Inr (first, s1)" "delete_frontier ?k s1 = Inr (n, s2)"
    and new: "\<not> occurs (\<lambda>x. qu_key x = ?k \<and> (qu_at x = at \<or> qu_live x)) (s_quarantines s2)"
    and s': "s' = s2\<lparr>s_tick := Suc (s_tick s2), s_quarantines := s_quarantines s2 @
        [\<lparr>qu_space = space, qu_group = gid, qu_epoch = epoch, qu_reason = reason, qu_first_seen = first,
          qu_at = at, qu_lifted = None\<rparr>]\<rparr>"
    using r by (auto simp: quarantine_frontier_group_def tx_simps Let_def split: if_splits)
  let ?r = "\<lparr>qu_space = space, qu_group = gid, qu_epoch = epoch, qu_reason = reason, qu_first_seen = first,
          qu_at = at, qu_lifted = None\<rparr>"
  from retire_from_frontier [OF b f] have A: "A ?k = Some InFrontier" and b2: "booked s2 A {?k} {}"
    by simp_all
  have row: "qu_key ?r = ?k" "qu_live ?r" by (simp_all add: qu_key_def qu_live_def)
  have "\<not> occurs (\<lambda>x. qu_live x \<and> qu_key x = ?k) (s_quarantines s2)"
    using new by (auto simp: occurs_iff)
  then have "schema_ok s'" using b2 row
    by (simp add: s' booked_def schema_ok_def claim_linked_def unique_key_snoc)
  moreover have "at_home s' h k' \<longleftrightarrow> at_home s2 h k' \<or> h = Quarantined \<and> k' = ?k" for h k'
    using row by (cases h) (auto simp: s')
  ultimately have "placed s' (A(?k \<mapsto> Quarantined))"
    using b2 by (intro settle_displaced [of s2]) simp_all
  with quarantined [where A = A and k = ?k] A show ?thesis by blast
qed

lemma moves_quarantine [moves_intros]: "moves_groups (quarantine_frontier_group space gid epoch reason)"
  by (rule moves_groupsI) (rule quarantine_placed)

lemma lift_placed:
  assumes b: "placed s A" and r: "lift_quarantine_to_frontier space gid epoch s = Inr (u, s')"
  shows "\<exists>A'. place_step\<^sup>*\<^sup>* A A' \<and> placed s' A'"
proof -
  let ?k = "(space, gid, epoch)" and ?t = "s_clock s (s_tick s)"
  obtain q where q: "find (\<lambda>x. qu_key x = ?k \<and> qu_live x) (s_quarantines s) = Some q"
    using r by (auto simp: lift_quarantine_to_frontier_def tx_simps split: option.splits)
  let ?mine = "\<lambda>x. qu_key x = ?k \<and> qu_at x = qu_at q \<and> qu_live x" and ?lift = "\<lambda>x. x\<lparr>qu_lifted := Some (max ?t (qu_at x))\<rparr>"
  let ?s1 = "s\<lparr>s_tick := Suc (s_tick s), s_quarantines := update_where ?mine ?lift (s_quarantines s)\<rparr>"
  define s2 where s2: "s2 = ?s1\<lparr>s_tick := Suc (Suc (s_tick s))\<rparr>"
  define row where "row = \<lparr>fr_space = space, fr_group = gid, fr_epoch = epoch,
    fr_first_seen = qu_first_seen q, fr_next_scan = s_clock s (Suc (s_tick s))\<rparr>"
  have row: "fr_key row = ?k" by (simp add: row_def fr_key_def)
  have i: "insert_frontier row s2 = Inr ((), s')"
    using r q by (auto simp: lift_quarantine_to_frontier_def tx_simps Let_def row_def s2)
  have x: "q \<in> set (s_quarantines s)" "qu_key q = ?k" "qu_live q"
    using q by (auto simp: find_Some_iff)
  then have "at_home s Quarantined ?k" by (auto simp: occurs_iff)
  then have A: "A ?k = Some Quarantined" using booked_home [OF b, of Quarantined ?k] by simp
  have sc: "schema_ok s" using b by (simp add: booked_def)
  have key: "qu_key (qu_lifted_update g y) = qu_key y" "\<not> qu_live (qu_lifted_update (\<lambda>_. Some n) y)" for g n y
    by (simp_all add: qu_key_def qu_live_def)
  have "at_home s2 Quarantined k \<longleftrightarrow> at_home s Quarantined k \<and> k \<noteq> ?k" for k
    using occurs_update_out [OF schemaD(4) [OF sc] x(1), of ?mine ?lift] x key by (simp add: s2)
  then have home: "at_home s2 h k \<longleftrightarrow> at_home s h k \<and> \<not> (h = Quarantined \<and> k = ?k)" for h k
    by (cases h) (auto simp: s2)
  have "schema_ok s2"
    using sc unique_key_update_out [OF schemaD(4) [OF sc], of ?mine ?lift] key
    by (auto simp: s2 schema_ok_def claim_linked_def)
  then have "booked s2 A {?k} {}" using home by (intro displace [OF b A])
  moreover have "schema_ok s'" using insert_frontier_home(2) [OF i] \<open>schema_ok s2\<close> by blast
  ultimately have "placed s' (A(?k \<mapsto> InFrontier))"
    using insert_frontier_home(1) [OF i] row by (intro settle_displaced [of s2]) simp_all
  with lifted [where A = A and k = ?k] A show ?thesis by blast
qed

lemma moves_lift [moves_intros]: "moves_groups (lift_quarantine_to_frontier space gid epoch)"
  by (rule moves_groupsI) (rule lift_placed)


lemma expire_card_placed:
  assumes b: "placed s A" and r: "expire_card_binding_to_frontier space gid epoch s = Inr (u, s')"
  shows "\<exists>A'. place_step\<^sup>*\<^sup>* A A' \<and> placed s' A'"
proof (cases "find (\<lambda>x. cb_key x = (space, gid, epoch) \<and> cb_live x) (s_cards s)")
  case None
  with r have "s' = s" by (auto simp: expire_card_binding_to_frontier_def tx_simps)
  with b show ?thesis by blast
next
  case (Some c)
  let ?k = "(space, gid, epoch)"
  let ?P = "\<lambda>x. cb_key x = ?k \<and> cb_card x = cb_card c"
  obtain n s1 m where cl: "close_cards ?P s = Inr (n, s1)"
    and i: "insert_frontier_or_ignore \<lparr>fr_space = space, fr_group = gid, fr_epoch = epoch,
      fr_first_seen = cb_first_seen c, fr_next_scan = s_clock s1 (s_tick s1)\<rparr>
      (s1\<lparr>s_tick := Suc (s_tick s1)\<rparr>) = Inr (m, s')"
    using r Some by (auto simp: expire_card_binding_to_frontier_def tx_simps split: if_splits)
  have c: "c \<in> set (s_cards s)" "cb_key c = ?k" "cb_live c" using Some by (auto simp: find_Some_iff)
  then have "at_home s OnCard ?k" by (auto simp: occurs_iff)
  then have A: "A ?k = Some OnCard" using booked_home [OF b, of OnCard ?k] by simp
  have sc: "schema_ok s" using b by (simp add: booked_def)
  have only: "y = c" if "y \<in> set (s_cards s)" "cb_live y" "cb_key y = ?k" for y
    using unique_keyD [OF schemaD(2) [OF sc] that(1) c(1) that(2) c(3)] that(3) c(2) by simp
  have "(cb_key y = k \<and> cb_live y \<and> \<not> ?P y) = ((cb_key y = k \<and> cb_live y) \<and> k \<noteq> ?k)"
    if "y \<in> set (s_cards s)" for y k
    using only [OF that] by (cases "k = ?k") auto
  then have "occurs (\<lambda>x. cb_key x = k \<and> cb_live x \<and> \<not> ?P x) (s_cards s)
      = occurs (\<lambda>x. (cb_key x = k \<and> cb_live x) \<and> k \<noteq> ?k) (s_cards s)" for k
    by (rule occurs_cong)
  then have "occurs (\<lambda>x. cb_key x = k \<and> cb_live x \<and> \<not> ?P x) (s_cards s) \<longleftrightarrow> at_home s OnCard k \<and> k \<noteq> ?k" for k
    by (auto simp: occurs_iff)
  then have home: "at_home s1 h k \<longleftrightarrow> at_home s h k \<and> \<not> (h = OnCard \<and> k = ?k)" for h k
    using close_cards_home(1) [OF cl, of h k] by auto
  have s1: "schema_ok s1" using close_cards_home(2) [OF cl sc] .
  then have b1: "booked s1 A {?k} {}" using home by (intro displace [OF b A])
  have "placed s' (A(?k \<mapsto> InFrontier))"
    using insert_ignore_home [OF i] s1 by (intro settle_displaced [OF b1]) (simp_all add: fr_key_def)
  with card_expired [where A = A and k = ?k] A show ?thesis by blast
qed

lemma moves_expire_card [moves_intros]: "moves_groups (expire_card_binding_to_frontier space gid epoch)"
  by (rule moves_groupsI) (rule expire_card_placed)

text \<open>Groups displaced together, each finding its next home in turn.\<close>

definition moved :: "placement \<Rightarrow> group_key set \<Rightarrow> home \<Rightarrow> placement" where
  "moved A K h = (\<lambda>k. if k \<in> K then Some h else A k)"

lemma moved_insert: "moved (A(k \<mapsto> h)) K h = moved A (insert k K) h"
  by (auto simp: moved_def)

lemma settle_each:
  assumes "\<And>x s s' u. x \<in> set xs \<Longrightarrow> f x s = Inr (u, s') \<Longrightarrow>
      (schema_ok s \<longrightarrow> schema_ok s') \<and> (\<forall>h k. at_home s' h k \<longleftrightarrow> at_home s h k \<or> h = h0 \<and> k = key x)"
    and "\<And>A k. A k = h1 \<Longrightarrow> place_step A (A(k \<mapsto> h0))"
  shows "booked s A (key ` set xs) {} \<Longrightarrow> distinct (map key xs) \<Longrightarrow> (\<forall>x \<in> set xs. A (key x) = h1)
    \<Longrightarrow> tx_each f xs s = Inr (u, s')
    \<Longrightarrow> place_step\<^sup>*\<^sup>* A (moved A (key ` set xs) h0) \<and> placed s' (moved A (key ` set xs) h0)"
  using assms(1)
proof (induction xs arbitrary: s A u)
  case Nil
  then show ?case by (auto simp: tx_simps moved_def)
next
  case (Cons x xs)
  obtain s1 v where s1: "f x s = Inr (v, s1)" and rest: "tx_each f xs s1 = Inr (u, s')"
    using Cons.prems(4) by (auto simp: tx_simps)
  let ?A = "A(key x \<mapsto> h0)"
  have x: "key x \<notin> key ` set xs" using Cons.prems(2) by simp
  have fx: "schema_ok s \<longrightarrow> schema_ok s1" "at_home s1 h k \<longleftrightarrow> at_home s h k \<or> h = h0 \<and> k = key x" for h k
    using Cons.prems(5) [of x, OF _ s1] by auto
  have "booked s1 ?A (key ` set xs) {}"
    using Cons.prems(1) fx x by (intro settle_displaced [of s]) (simp_all add: booked_def)
  moreover have "distinct (map key xs)" using Cons.prems(2) by simp
  moreover have "\<forall>y \<in> set xs. ?A (key y) = h1"
  proof
    fix y assume y: "y \<in> set xs"
    with x have "key y \<noteq> key x" by (metis image_eqI)
    with y Cons.prems(3) show "?A (key y) = h1" by simp
  qed
  ultimately have "place_step\<^sup>*\<^sup>* ?A (moved ?A (key ` set xs) h0) \<and> placed s' (moved ?A (key ` set xs) h0)"
    by (rule Cons.IH [OF _ _ _ rest]) (rule Cons.prems(5), simp_all)
  moreover have "place_step A ?A" using assms(2) Cons.prems(3) by simp
  ultimately show ?case by (simp add: moved_insert) (blast intro: converse_rtranclp_into_rtranclp)
qed

lemma dismiss_placed:
  assumes b: "placed s A" and r: "dismiss_card_to_suppression cid reason s = Inr (u, s')"
  shows "\<exists>A'. place_step\<^sup>*\<^sup>* A A' \<and> placed s' A'"
proof -
  let ?open = "filter (\<lambda>x. cb_card x = cid \<and> cb_live x) (s_cards s)"
  let ?bs = "sort_key (\<lambda>x. (cb_space x, cb_epoch x, cb_group x)) ?open"
  show ?thesis
  proof (cases "?bs = []")
    case True
    with r have "s' = s" by (simp add: dismiss_card_to_suppression_def open_card_bindings_def tx_simps)
    with b show ?thesis by blast
  next
    case False
    obtain n s1 where cl: "close_cards (\<lambda>x. cb_card x = cid) s = Inr (n, s1)"
      and each: "tx_each (\<lambda>b. insert_suppression (cb_key b) (cb_page b) reason (cb_first_seen b)) ?bs s1 = Inr ((), s')"
      using r False by (auto simp: dismiss_card_to_suppression_def open_card_bindings_def tx_simps split: if_splits)
    have sc: "schema_ok s" using b by (simp add: booked_def)
    have live: "x \<in> set ?bs \<Longrightarrow> x \<in> set (s_cards s) \<and> cb_card x = cid \<and> cb_live x" for x by simp
    have on: "A (cb_key x) = Some OnCard" if "x \<in> set ?bs" for x
    proof -
      have "at_home s OnCard (cb_key x)" using live [OF that] by (auto simp: occurs_iff)
      then show ?thesis using booked_home [OF b, of OnCard "cb_key x"] by simp
    qed
    have uniq: "x = y" if "x \<in> set (s_cards s)" "cb_live x" "y \<in> set (s_cards s)" "cb_live y" "cb_key x = cb_key y" for x y
      using unique_keyD [OF schemaD(2) [OF sc] that(1,3,2,4,5)] .
    have "distinct (map cb_key (filter cb_live (s_cards s)))" using schemaD(2) [OF sc] by (simp add: unique_key_def)
    then have "distinct (map cb_key (filter (\<lambda>x. cb_card x = cid) (filter cb_live (s_cards s))))"
      by (rule distinct_map_filter)
    then have "distinct ?open \<and> inj_on cb_key (set ?open)" by (simp add: distinct_map conj_commute)
    then have d: "distinct (map cb_key ?bs)" by (simp add: distinct_map)
    have off: "occurs (\<lambda>x. cb_key x = k \<and> cb_live x \<and> cb_card x \<noteq> cid) (s_cards s)
        \<longleftrightarrow> at_home s OnCard k \<and> k \<notin> cb_key ` set ?bs" for k
    proof (cases "k \<in> cb_key ` set ?bs")
      case True
      then obtain x where x: "x \<in> set ?bs" "k = cb_key x" by blast
      have "cb_card y = cid" if "y \<in> set (s_cards s)" "cb_live y" "cb_key y = k" for y
        using uniq [of x y] live [OF x(1)] that x(2) by simp
      with True show ?thesis by (auto simp: occurs_iff)
    next
      case False
      then have "cb_card y \<noteq> cid" if "y \<in> set (s_cards s)" "cb_live y" "cb_key y = k" for y
        using that by auto
      then have "occurs (\<lambda>x. cb_key x = k \<and> cb_live x \<and> cb_card x \<noteq> cid) (s_cards s)
          \<longleftrightarrow> occurs (\<lambda>x. cb_key x = k \<and> cb_live x) (s_cards s)" by (intro occurs_cong) blast
      with False show ?thesis by simp
    qed
    have "booked s1 A (cb_key ` set ?bs) {}"
    proof (rule bookedI)
      show "schema_ok s1" using close_cards_home(2) [OF cl sc] .
      show "at_home s1 h k \<longleftrightarrow> k \<notin> cb_key ` set ?bs \<and> A k = Some h \<or> h = InFrontier \<and> k \<in> {}" for h k
        using close_cards_home(1) [OF cl, of h k] off [of k] booked_home [OF b, of h k] on
        by (cases "h = OnCard") auto
    qed
    from settle_each [where ?h1.0 = "Some OnCard" and ?h0.0 = IsSuppressed, OF _ card_dismissed this d _ each] on
    show ?thesis using insert_suppression_home by blast
  qed
qed

lemma moves_dismiss [moves_intros]: "moves_groups (dismiss_card_to_suppression cid reason)"
  by (rule moves_groupsI) (rule dismiss_placed)

end
