(* ===== verification/Genesis_Claims.thy ===== *)
theory Genesis_Claims
  imports Genesis_Placement
begin

text \<open>
  The claims of \<open>candidates.rs\<close> over the placement: what an accepted claim does to the homes, what the statements on
  candidate rows leave alone, and the loop that claims the groups of a concept candidate.
\<close>

section \<open>Claims\<close>

lemma candidate_rowD:
  "candidate_row i s = Some c \<Longrightarrow> c \<in> set (s_candidates s) \<and> ca_id c = i"
  by (auto simp: candidate_row_def find_Some_iff)

lemma candidate_row_unique:
  assumes "schema_ok s" "candidate_row i s = Some c"
  shows "occurs (\<lambda>d. ca_id d = i \<and> Q d) (s_candidates s) \<longleftrightarrow> Q c"
  using unique_keyD [OF schemaD(7) [OF assms(1)]] candidate_rowD [OF assms(2)] by (auto simp: occurs_iff)

lemma own_claim:
  assumes "schema_ok s" "candidate_row i s = Some c" "x \<in> set (s_claims s)" "cl_candidate x = i"
  shows "cl_epoch x = ca_epoch c" "cl_role x = claim_role_for (ca_signal c)"
  using schemaD(8) [OF assms(1,3)] candidate_row_unique [OF assms(1,2)] assms(4)
  by (auto simp: claim_linked_def)

lemma at_home_claimed:
  assumes "schema_ok s" "candidate_row i s = Some c" "x \<in> set (s_claims s)" "cl_candidate x = i" "concept_live x"
  shows "at_home s Claimed (ca_space c, cl_group x, ca_epoch c)"
  using own_claim [OF assms(1-4)] assms candidate_row_unique [OF assms(1,2)] by (auto simp: occurs_iff)

definition claim_key :: "'p candidate \<Rightarrow> string \<Rightarrow> group_key" where
  "claim_key c g = (ca_space c, g, ca_epoch c)"

text \<open>What an accepted claim does to the claim rows.\<close>

definition own_row :: "string \<Rightarrow> claim_reservation \<Rightarrow> claim \<Rightarrow> bool" where
  "own_row i rv x \<longleftrightarrow> cl_candidate x = i \<and> cl_root x = rv_root rv"

definition revived :: "claim_reservation \<Rightarrow> int \<Rightarrow> claim_role \<Rightarrow> claim \<Rightarrow> claim" where
  "revived rv epoch role x = x\<lparr>cl_group := rv_group rv, cl_epoch := epoch, cl_role := role,
     cl_released := None, cl_reason := None\<rparr>"

lemma revived_simps [simp]:
  "cl_candidate (revived rv e r x) = cl_candidate x" "cl_root (revived rv e r x) = cl_root x"
  "cl_group (revived rv e r x) = rv_group rv" "cl_epoch (revived rv e r x) = e"
  "cl_role (revived rv e r x) = r" "concept_live (revived rv e r x) \<longleftrightarrow> r = Concept"
  by (simp_all add: revived_def concept_live_def)

lemma insert_claim_rows:
  assumes "insert_claim i rv epoch role s = Inr (True, s')"
  obtains (revive) "s' = s\<lparr>s_tick := Suc (s_tick s),
        s_claims := update_where (own_row i rv) (revived rv epoch role) (s_claims s)\<rparr>"
      "occurs (own_row i rv) (s_claims s)"
      "role = Concept \<Longrightarrow> \<not> occurs (\<lambda>x. \<not> own_row i rv x \<and> concept_live x
        \<and> cl_group x = rv_group rv \<and> cl_epoch x = epoch) (s_claims s)"
    | (fresh) x where "s' = s\<lparr>s_tick := Suc (s_tick s), s_claims := s_claims s @ [x]\<rparr>"
      "\<not> occurs (own_row i rv) (s_claims s)" "own_row i rv x" "cl_group x = rv_group rv" "cl_epoch x = epoch"
      "cl_role x = role" "cl_released x = None"
      "role = Concept \<Longrightarrow> \<not> occurs (\<lambda>x. concept_live x
        \<and> cl_group x = rv_group rv \<and> cl_epoch x = epoch) (s_claims s)"
proof -
  let ?new = "\<lparr>cl_candidate = i, cl_root = rv_root rv, cl_group = rv_group rv, cl_epoch = epoch,
                  cl_role = role, cl_released = None, cl_reason = None, cl_created = s_clock s (s_tick s)\<rparr>"
  let ?clash = "\<lambda>x. \<not> own_row i rv x \<and> concept_live x \<and> cl_epoch x = epoch
             \<and> (cl_root x = rv_root rv \<or> cl_group x = rv_group rv)"
  have ok: "role = Concept \<Longrightarrow> \<not> occurs ?clash (s_claims s)"
    and s': "s' = s\<lparr>s_tick := Suc (s_tick s), s_claims := (if occurs (own_row i rv) (s_claims s)
        then update_where (own_row i rv) (revived rv epoch role) (s_claims s) else s_claims s @ [?new])\<rparr>"
    using assms by (auto simp: insert_claim_def tx_simps Let_def own_row_def [abs_def] revived_def [abs_def]
        split: if_splits)
  show thesis
  proof (cases "occurs (own_row i rv) (s_claims s)")
    case True
    from s' True have "s' = s\<lparr>s_tick := Suc (s_tick s),
        s_claims := update_where (own_row i rv) (revived rv epoch role) (s_claims s)\<rparr>" by simp
    then show thesis by (rule revive [OF _ True]) (use ok in \<open>auto simp: occurs_iff\<close>)
  next
    case False
    from s' False have "s' = s\<lparr>s_tick := Suc (s_tick s), s_claims := s_claims s @ [?new]\<rparr>" by simp
    then show thesis by (rule fresh [OF _ False]) (use ok False in \<open>auto simp: occurs_iff own_row_def\<close>)
  qed
qed

lemma insert_claim_refused: "insert_claim i rv epoch role s = Inr (False, s') \<Longrightarrow> s' = s\<lparr>s_tick := Suc (s_tick s)\<rparr>"
  by (auto simp: insert_claim_def tx_simps Let_def split: if_splits)

lemma insert_claim_schema:
  assumes sc: "schema_ok s" and c: "candidate_row i s = Some c"
    and r: "insert_claim i rv (ca_epoch c) (claim_role_for (ca_signal c)) s = Inr (True, s')"
  shows "schema_ok s'"
proof -
  let ?role = "claim_role_for (ca_signal c)" and ?e = "ca_epoch c" and ?group = "\<lambda>x. (cl_group x, cl_epoch x)"
  have linked: "claim_linked s x" if "cl_candidate x = i" "cl_epoch x = ?e" "cl_role x = ?role" for x
    using that candidate_row_unique [OF sc c] by (simp add: claim_linked_def)
  have own: "own_row i rv = (\<lambda>x. (cl_candidate x, cl_root x) = (i, rv_root rv))"
    by (simp add: own_row_def [abs_def])
  from r show ?thesis
  proof (cases rule: insert_claim_rows)
    case revive
    let ?rows = "update_where (own_row i rv) (revived rv ?e ?role) (s_claims s)"
    have "unique_key ?group concept_live ?rows"
    proof (cases ?role)
      case Concept
      with revive(3) show ?thesis
        unfolding own by (intro unique_key_update_one [OF schemaD(5,6) [OF sc]])
          (auto simp: occurs_iff)
    next
      case Witness
      then show ?thesis by (intro unique_key_update_out [OF schemaD(5) [OF sc]]) simp
    qed
    moreover have "unique_key (\<lambda>x. (cl_candidate x, cl_root x)) (\<lambda>_. True) ?rows"
      by (intro unique_key_update_out [OF schemaD(6) [OF sc]]) simp
    moreover have "claim_linked s x" if "x \<in> set ?rows" for x
      using that schemaD(8) [OF sc] linked by (auto simp: own_row_def)
    ultimately show ?thesis using sc by (simp add: revive(1) schema_ok_def claim_linked_def)
  next
    case (fresh x)
    have "concept_live x \<Longrightarrow> \<not> occurs (\<lambda>y. concept_live y \<and> ?group y = ?group x) (s_claims s)"
      using fresh by (simp add: concept_live_def)
    moreover have "\<not> occurs (\<lambda>y. (cl_candidate y, cl_root y) = (cl_candidate x, cl_root x)) (s_claims s)"
      using fresh(2,3) by (simp add: own own_row_def)
    moreover have "claim_linked s x" using fresh by (intro linked) (simp_all add: own_row_def)
    ultimately show ?thesis using sc by (simp add: fresh(1) schema_ok_def claim_linked_def unique_key_snoc)
  qed
qed

text \<open>The group of an accepted claim is held by the candidate; a root that moved to another group would
  leave its former group without a claim.\<close>

definition homed :: "'p store \<Rightarrow> group_key \<Rightarrow> claim \<Rightarrow> bool" where
  "homed s k x \<longleftrightarrow> concept_live x \<and> cl_group x = fst (snd k) \<and> cl_epoch x = snd (snd k)
     \<and> occurs (\<lambda>c. ca_id c = cl_candidate x \<and> ca_space c = fst k) (s_candidates s)"

lemma homed_own:
  assumes "schema_ok s" "candidate_row i s = Some c" "cl_candidate x = i" "cl_epoch x = ca_epoch c"
  shows "homed s k x \<longleftrightarrow> concept_live x \<and> k = claim_key c (cl_group x)"
  using assms(3,4) candidate_row_unique [OF assms(1,2), of "\<lambda>c. ca_space c = fst k"]
  by (cases k) (auto simp: homed_def claim_key_def)

lemma claim_accepted_home:
  assumes sc: "schema_ok s" and c: "candidate_row i s = Some c" and role: "claim_role_for (ca_signal c) = Concept"
    and stable: "\<And>x. x \<in> set (s_claims s) \<Longrightarrow> own_row i rv x \<Longrightarrow> concept_live x \<Longrightarrow> cl_group x = rv_group rv"
    and r: "insert_claim i rv (ca_epoch c) Concept s = Inr (True, s')"
  shows "at_home s' h k \<longleftrightarrow> at_home s h k \<or> h = Claimed \<and> k = claim_key c (rv_group rv)"
proof -
  let ?k = "claim_key c (rv_group rv)"
  from r have "\<exists>rows. s' = s\<lparr>s_tick := Suc (s_tick s), s_claims := rows\<rparr>
      \<and> (occurs (homed s k) rows \<longleftrightarrow> occurs (homed s k) (s_claims s) \<or> k = ?k)"
  proof (cases rule: insert_claim_rows)
    case revive
    have own: "homed s k (revived rv (ca_epoch c) Concept x) \<longleftrightarrow> k = ?k" if "own_row i rv x" for x
      using that by (subst homed_own [OF sc c]) (simp_all add: own_row_def)
    have was: "k = ?k" if "own_row i rv x" "x \<in> set (s_claims s)" "homed s k x" for x
      using that stable [OF that(2,1)] own_claim(1) [OF sc c that(2)] homed_own [OF sc c, of x k]
      by (simp add: own_row_def)
    have "occurs (homed s k) (update_where (own_row i rv) (revived rv (ca_epoch c) Concept) (s_claims s))
        \<longleftrightarrow> occurs (\<lambda>x. if own_row i rv x then k = ?k else homed s k x) (s_claims s)"
      unfolding occurs_update_where using own by (intro occurs_cong) simp
    also have "\<dots> \<longleftrightarrow> occurs (homed s k) (s_claims s) \<or> k = ?k"
      using revive(2) was unfolding occurs_iff by metis
    finally show ?thesis using revive(1) by blast
  next
    case (fresh x)
    then have "homed s k x \<longleftrightarrow> k = ?k" by (subst homed_own [OF sc c]) (simp_all add: own_row_def concept_live_def)
    then show ?thesis using fresh(1) by auto
  qed
  then show ?thesis by (cases h) (auto simp: homed_def [abs_def])
qed

section \<open>Frames\<close>

text \<open>Statements on the columns that place no group.\<close>

lemma booked_candidates:
  assumes "booked s A D F"
    and "\<And>Q. (\<And>c d. ca_id c = ca_id d \<Longrightarrow> ca_space c = ca_space d \<Longrightarrow> ca_epoch c = ca_epoch d
      \<Longrightarrow> ca_signal c = ca_signal d \<Longrightarrow> Q c = Q d) \<Longrightarrow> occurs Q rows = occurs Q (s_candidates s)"
    and "unique_key ca_id (\<lambda>_. True) rows"
  shows "booked (s\<lparr>s_candidates := rows\<rparr>) A D F"
proof (rule bookedI)
  have "claim_linked (s\<lparr>s_candidates := rows\<rparr>) x = claim_linked s x" for x
    unfolding claim_linked_def by (simp, rule assms(2)) simp
  then show "schema_ok (s\<lparr>s_candidates := rows\<rparr>)"
    using assms(1,3) by (simp add: booked_def schema_ok_def)
  have "occurs (\<lambda>c. ca_id c = i \<and> ca_space c = sp) rows = occurs (\<lambda>c. ca_id c = i \<and> ca_space c = sp) (s_candidates s)"
    for i sp by (rule assms(2)) simp
  then have "at_home (s\<lparr>s_candidates := rows\<rparr>) h k = at_home s h k" for h k
    by (cases h) simp_all
  then show "at_home (s\<lparr>s_candidates := rows\<rparr>) h k \<longleftrightarrow> k \<notin> D \<and> A k = Some h \<or> h = InFrontier \<and> k \<in> F" for h k
    using booked_home [OF assms(1)] by simp
qed

definition keeps_identity :: "('p candidate \<Rightarrow> 'p candidate) \<Rightarrow> bool" where
  "keeps_identity f \<longleftrightarrow> (\<forall>c. ca_id (f c) = ca_id c \<and> ca_space (f c) = ca_space c
     \<and> ca_epoch (f c) = ca_epoch c \<and> ca_signal (f c) = ca_signal c)"

lemma booked_update_candidates:
  assumes "booked s A D F" "keeps_identity f"
  shows "booked (s\<lparr>s_candidates := update_where P f (s_candidates s)\<rparr>) A D F"
proof (rule booked_candidates [OF assms(1)])
  show "unique_key ca_id (\<lambda>_. True) (update_where P f (s_candidates s))"
    using assms by (intro unique_key_update_out schemaD(7)) (simp_all add: keeps_identity_def booked_def)
next
  fix Q :: "'a candidate \<Rightarrow> bool"
  assume "\<And>c d. ca_id c = ca_id d \<Longrightarrow> ca_space c = ca_space d \<Longrightarrow> ca_epoch c = ca_epoch d
      \<Longrightarrow> ca_signal c = ca_signal d \<Longrightarrow> Q c = Q d"
  then have "Q (f c) = Q c" for c using assms(2) unfolding keeps_identity_def by metis
  then show "occurs Q (update_where P f (s_candidates s)) = occurs Q (s_candidates s)"
    unfolding occurs_update_where by simp
qed

lemma update_candidate_booked:
  assumes "update_candidate i states f s = Inr (u, s')" "booked s A D F" "\<And>t. keeps_identity (f t)"
  shows "booked s' A D F"
proof -
  let ?s = "s\<lparr>s_tick := Suc (s_tick s)\<rparr>"
  have "s' = ?s\<lparr>s_candidates := update_where (\<lambda>c. ca_id c = i \<and> ca_state c \<in> set states) (f (s_clock s (s_tick s)))
      (s_candidates ?s)\<rparr>"
    using assms(1) by (auto simp: update_candidate_def tx_simps Let_def)
  then show ?thesis using assms(2,3) booked_update_candidates [of ?s] by simp
qed

lemma moves_update_candidate [moves_intros]:
  "(\<And>t. keeps_identity (f t)) \<Longrightarrow> moves_groups (update_candidate i states f)"
  by (rule moves_same) (rule update_candidate_booked)

lemma moves_lease_acquire [moves_intros]: "moves_groups (lease_acquire token phase space generation attempt)"
  by (rule moves_same) (auto simp: lease_acquire_def tx_simps split: if_splits)

lemma moves_lease_other [moves_intros]:
  "moves_groups (lease_owns phase space generation token)"
  "moves_groups (lease_release phase space generation token)" "moves_groups reap_expired_m6_phases"
  by (rule moves_same; auto simp: lease_owns_def lease_release_def reap_expired_m6_phases_def Let_def tx_simps)+

lemma moves_candidate_reads [moves_intros]:
  "moves_groups (read_candidate i)" "moves_groups (get_candidate i)" "moves_groups (backoff_elapsed i)"
  "moves_groups (guard_transition a b)"
  unfolding read_candidate_def get_candidate_def backoff_elapsed_def guard_transition_def
  by (intro moves_intros)+

lemma moves_move_state [moves_intros]: "moves_groups (move_state i froms st reason)"
  unfolding move_state_def by (intro moves_intros) (simp_all add: keeps_identity_def)

lemma moves_mark [moves_intros]:
  "moves_groups (mark_inferencing i)" "moves_groups (mark_validating i)" "moves_groups (mark_retry_wait i charge)"
  "moves_groups (mark_suppressed i card_name reason)"
  unfolding mark_inferencing_def mark_validating_def mark_retry_wait_def mark_suppressed_def
  by (intro moves_intros; simp add: keeps_identity_def)+

lemma moves_compact [moves_intros]: "moves_groups (compact_terminal_payloads space retention)"
proof (rule moves_same)
  fix s A n s'
  assume s: "placed s A" and r: "compact_terminal_payloads space retention s = Inr (n, s')"
  let ?s = "s\<lparr>s_tick := Suc (s_tick s)\<rparr>"
  have "placed (?s\<lparr>s_candidates := update_where P (\<lambda>c. c\<lparr>ca_payload := None, ca_compacted := Some t\<rparr>) (s_candidates ?s)\<rparr>) A" for P t
    using s by (intro booked_update_candidates) (simp_all add: keeps_identity_def)
  then show "placed s' A" using r by (auto simp: compact_terminal_payloads_def tx_simps Let_def)
qed

lemma moves_defer [moves_intros]: "moves_groups (defer_scan space gid epoch delay)"
proof (rule moves_same)
  fix s A n s'
  assume s: "placed s A" and r: "defer_scan space gid epoch delay s = Inr (n, s')"
  define f where "f = (\<lambda>x :: frontier_row. x\<lparr>fr_next_scan := s_clock s (s_tick s) + min (max delay 0) next_scan_max_ahead_seconds\<rparr>)"
  have s': "s' = s\<lparr>s_tick := Suc (s_tick s), s_frontier := update_where (\<lambda>x. fr_key x = (space, gid, epoch)) f (s_frontier s)\<rparr>"
    using r by (auto simp: defer_scan_def tx_simps Let_def f_def)
  have f: "fr_key (f x) = fr_key x" for x by (simp add: f_def fr_key_def)
  have "at_home s' h k = at_home s h k" for h k
    by (cases h) (simp_all add: s' occurs_update_where f, intro occurs_cong, auto)
  moreover have "schema_ok s'" using s f
    by (auto simp: s' booked_def schema_ok_def claim_linked_def intro!: unique_key_update_out)
  ultimately show "placed s' A" using s by (simp add: booked_def)
qed

lemma observe_placed:
  assumes "placed s A" "observe_candidate ob s = Inr (r, s')"
  shows "placed s' A"
proof (cases "r = DidObserve")
  case False
  with assms show ?thesis
    by (auto simp: observe_candidate_def read_candidate_def tx_simps split: if_splits)
next
  case True
  let ?s = "s\<lparr>s_tick := Suc (s_tick s)\<rparr>"
  obtain c where s': "s' = ?s\<lparr>s_candidates := s_candidates ?s @ [c]\<rparr>" and none: "candidate_row (ca_id c) s = None"
    using assms(2) True
    by (auto simp: observe_candidate_def read_candidate_def tx_simps split: if_splits)
  have sc: "schema_ok s" using assms(1) by (simp add: booked_def)
  have new: "\<not> occurs (\<lambda>d. ca_id d = ca_id c) (s_candidates s)"
    using none by (simp add: candidate_row_def find_None_iff occurs_iff)
  have other: "cl_candidate x \<noteq> ca_id c" if "x \<in> set (s_claims s)" for x
    using schemaD(8) [OF sc that] new by (auto simp: claim_linked_def occurs_iff)
  have linked: "claim_linked s' x" if "x \<in> set (s_claims s)" for x
    using schemaD(8) [OF sc that] by (simp add: s' claim_linked_def)
  have "occurs (homed s' k) (s_claims s) = occurs (homed s k) (s_claims s)" for k
    using other by (intro occurs_cong) (simp add: s' homed_def, metis)
  then have "at_home s' h k = at_home s h k" for h k
    by (cases h) (auto simp: s' homed_def [abs_def])
  moreover have "schema_ok s'" using sc linked new
    by (auto simp: s' schema_ok_def unique_key_snoc)
  ultimately show ?thesis using assms(1) by (simp add: booked_def)
qed

lemma moves_observe [moves_intros]: "moves_groups (observe_candidate ob)"
  by (rule moves_same) (rule observe_placed)

section \<open>Preparing\<close>

lemma candidate_row_frame [simp]:
  "candidate_row i (s\<lparr>s_tick := n\<rparr>) = candidate_row i s" "candidate_row i (s\<lparr>s_claims := cl\<rparr>) = candidate_row i s"
  "candidate_row i (s\<lparr>s_leases := ls\<rparr>) = candidate_row i s"
  "candidate_row i (s\<lparr>s_frontier := fs\<rparr>) = candidate_row i s"
  by (simp_all add: candidate_row_def)

lemma insert_claim_candidates:
  "insert_claim i rv epoch role s = Inr (b, s') \<Longrightarrow> candidate_row j s' = candidate_row j s"
  by (auto simp: insert_claim_def tx_simps Let_def split: if_splits)

lemma claim_each_candidates:
  "claim_each i epoch role rvs s = Inr (refused, s') \<Longrightarrow> candidate_row j s' = candidate_row j s"
proof (induction rvs arbitrary: s)
  case (Cons rv rvs)
  obtain b s1 where one: "insert_claim i rv epoch role s = Inr (b, s1)"
    and rest: "(if b then claim_each i epoch role rvs else tx_return (Some (rv_root rv))) s1 = Inr (refused, s')"
    using Cons.prems by (auto simp: tx_simps)
  have "candidate_row j s' = candidate_row j s1"
    using rest Cons.IH [of s1] by (cases b) (simp_all add: tx_simps)
  with insert_claim_candidates [OF one] show ?case by simp
qed (simp add: tx_simps)

text \<open>The roots a candidate holds have not moved to other groups.\<close>

definition claims_stable :: "'p store \<Rightarrow> string \<Rightarrow> claim_reservation list \<Rightarrow> bool" where
  "claims_stable s i rvs \<longleftrightarrow> distinct (map rv_root rvs) \<and> list_all (\<lambda>rv.
     \<not> occurs (\<lambda>x. own_row i rv x \<and> concept_live x \<and> cl_group x \<noteq> rv_group rv) (s_claims s)) rvs"

lemma claims_stable_step:
  assumes "claims_stable s i (rv # rvs)" "insert_claim i rv epoch role s = Inr (True, s')"
  shows "claims_stable s' i rvs"
proof -
  let ?bad = "\<lambda>r x. own_row i r x \<and> concept_live x \<and> cl_group x \<noteq> rv_group r"
  have "occurs (?bad r) (s_claims s') = occurs (?bad r) (s_claims s)" if "r \<in> set rvs" for r
  proof -
    have neq: "rv_root r \<noteq> rv_root rv" using assms(1) that by (simp add: claims_stable_def) (metis image_eqI)
    from assms(2) show ?thesis
    proof (cases rule: insert_claim_rows)
      case revive
      show ?thesis using neq by (simp add: revive(1) occurs_update_where, intro occurs_cong) (auto simp: own_row_def)
    next
      case (fresh x)
      then show ?thesis using neq by (auto simp: own_row_def)
    qed
  qed
  then show ?thesis using assms(1) by (simp add: claims_stable_def list_all_iff)
qed

definition claimable :: "placement \<Rightarrow> group_key \<Rightarrow> bool" where
  "claimable A k \<longleftrightarrow> A k = None \<or> A k = Some InFrontier \<or> A k = Some Claimed"

lemma claim_placed:
  assumes b: "booked s A {} F" and F: "\<forall>k \<in> F. A k = Some Claimed"
    and c: "candidate_row i s = Some c" and role: "claim_role_for (ca_signal c) = Concept"
    and free: "claimable A (claim_key c (rv_group rv))"
    and stable: "claims_stable s i (rv # rvs)"
    and r: "insert_claim i rv (ca_epoch c) Concept s = Inr (True, s')"
  defines "k \<equiv> claim_key c (rv_group rv)"
  shows "booked s' (A(k \<mapsto> Claimed)) {} (if A k = Some InFrontier then insert k F else F)"
proof -
  have sc: "schema_ok s" using b by (simp add: booked_def)
  have own: "\<And>x. x \<in> set (s_claims s) \<Longrightarrow> own_row i rv x \<Longrightarrow> concept_live x \<Longrightarrow> cl_group x = rv_group rv"
    using stable by (auto simp: claims_stable_def occurs_iff)
  have home: "at_home s' h k' \<longleftrightarrow> at_home s h k' \<or> h = Claimed \<and> k' = k" for h k'
    unfolding k_def by (rule claim_accepted_home [OF sc c role own r])
  show ?thesis
  proof (rule bookedI)
    show "schema_ok s'" using insert_claim_schema [OF sc c] r role by simp
    show "at_home s' h k' \<longleftrightarrow> k' \<notin> {} \<and> (A(k \<mapsto> Claimed)) k' = Some h
      \<or> h = InFrontier \<and> k' \<in> (if A k = Some InFrontier then insert k F else F)" for h k'
      using home [of h k'] booked_home [OF b, of h k'] free F
      by (auto simp: claimable_def k_def)
  qed
qed

lemma place_claimed: "claimable A k \<Longrightarrow> place_step\<^sup>*\<^sup>* A (A(k \<mapsto> Claimed))"
  using claimed [of A k] by (cases "A k = Some Claimed") (auto simp: claimable_def map_upd_triv)

lemma claim_each_placed:
  assumes "booked s A {} F" "\<forall>k \<in> F. A k = Some Claimed"
    and "candidate_row i s = Some c" "claim_role_for (ca_signal c) = Concept"
    and "\<forall>rv \<in> set rvs. claimable A (claim_key c (rv_group rv))" "claims_stable s i rvs"
    and "claim_each i (ca_epoch c) Concept rvs s = Inr (None, s')"
  defines "keys \<equiv> \<lambda>rvs. (\<lambda>rv. claim_key c (rv_group rv)) ` set rvs"
  shows "\<exists>A' F'. place_step\<^sup>*\<^sup>* A A' \<and> booked s' A' {} F' \<and> F' \<subseteq> F \<union> keys rvs
    \<and> (\<forall>k. A k = Some Claimed \<or> k \<in> keys rvs \<longrightarrow> A' k = Some Claimed)"
  using assms(1-7)
proof (induction rvs arbitrary: s A F)
  case Nil
  then show ?case by (auto simp: tx_simps keys_def intro!: exI [of _ A] exI [of _ F])
next
  case (Cons rv rvs)
  let ?k = "claim_key c (rv_group rv)"
  let ?A = "A(?k \<mapsto> Claimed)" and ?F = "if A ?k = Some InFrontier then insert ?k F else F"
  obtain s1 where one: "insert_claim i rv (ca_epoch c) Concept s = Inr (True, s1)"
    and rest: "claim_each i (ca_epoch c) Concept rvs s1 = Inr (None, s')"
    using Cons.prems(7) by (auto simp: tx_simps split: if_splits)
  have free: "claimable A ?k" using Cons.prems(5) by simp
  have "booked s1 ?A {} ?F" by (rule claim_placed [OF Cons.prems(1-4) free Cons.prems(6) one])
  moreover have "\<forall>k \<in> ?F. ?A k = Some Claimed" using Cons.prems(2) by auto
  moreover have "candidate_row i s1 = Some c" using Cons.prems(3) insert_claim_candidates [OF one] by simp
  moreover have "\<forall>rv \<in> set rvs. claimable ?A (claim_key c (rv_group rv))"
    using Cons.prems(5) by (auto simp: claimable_def)
  ultimately have "\<exists>A' F'. place_step\<^sup>*\<^sup>* ?A A' \<and> booked s' A' {} F' \<and> F' \<subseteq> ?F \<union> keys rvs
      \<and> (\<forall>k. ?A k = Some Claimed \<or> k \<in> keys rvs \<longrightarrow> A' k = Some Claimed)"
    using Cons.prems(4) claims_stable_step [OF Cons.prems(6) one] rest by (intro Cons.IH)
  then obtain A' F' where "place_step\<^sup>*\<^sup>* ?A A'" "booked s' A' {} F'" and F': "F' \<subseteq> ?F \<union> keys rvs"
    and A': "\<forall>k. ?A k = Some Claimed \<or> k \<in> keys rvs \<longrightarrow> A' k = Some Claimed" by blast
  moreover have "F' \<subseteq> F \<union> keys (rv # rvs)"
    using F' by (simp add: keys_def split: if_splits) blast+
  moreover have "\<forall>k. A k = Some Claimed \<or> k \<in> keys (rv # rvs) \<longrightarrow> A' k = Some Claimed"
    using A' by (auto simp: keys_def)
  ultimately show ?case using rtranclp_trans [OF place_claimed [OF free]] by blast
qed

lemma witness_claim_booked:
  assumes b: "booked s A D F" and c: "candidate_row i s = Some c" and role: "claim_role_for (ca_signal c) = Witness"
    and r: "insert_claim i rv (ca_epoch c) Witness s = Inr (True, s')"
  shows "booked s' A D F"
proof -
  have sc: "schema_ok s" using b by (simp add: booked_def)
  have not: "\<not> homed s k x" if "own_row i rv x" "x \<in> set (s_claims s)" for x k
    using own_claim(2) [OF sc c that(2)] that(1) role by (simp add: own_row_def homed_def concept_live_def)
  have rev: "\<not> homed s k (revived rv (ca_epoch c) Witness x)" for k x by (simp add: homed_def)
  have "\<exists>rows. s' = s\<lparr>s_tick := Suc (s_tick s), s_claims := rows\<rparr> \<and> (\<forall>k. occurs (homed s k) rows \<longleftrightarrow> occurs (homed s k) (s_claims s))"
    using r
  proof (cases rule: insert_claim_rows)
    case revive
    have "occurs (homed s k) (update_where (own_row i rv) (revived rv (ca_epoch c) Witness) (s_claims s))
        \<longleftrightarrow> occurs (homed s k) (s_claims s)" for k
      unfolding occurs_update_where using rev not by (intro occurs_cong) simp
    with revive(1) show ?thesis by blast
  next
    case (fresh x)
    then have "\<not> homed s k x" for k by (simp add: homed_def concept_live_def)
    with fresh(1) show ?thesis by (intro exI [of _ "s_claims s @ [x]"]) simp
  qed
  then obtain rows where s': "s' = s\<lparr>s_tick := Suc (s_tick s), s_claims := rows\<rparr>"
    and rows: "\<And>k. occurs (homed s k) rows \<longleftrightarrow> occurs (homed s k) (s_claims s)" by blast
  have "at_home s' h k = at_home s h k" for h k
    using rows [of k] by (cases h) (simp_all add: s' homed_def [abs_def])
  moreover have "schema_ok s'" using insert_claim_schema [OF sc c] r role by simp
  ultimately show ?thesis using b by (simp add: booked_def)
qed

lemma witness_each_booked:
  assumes "booked s A D F" "candidate_row i s = Some c" "claim_role_for (ca_signal c) = Witness"
    and "claim_each i (ca_epoch c) Witness rvs s = Inr (refused, s')"
  shows "booked s' A D F"
  using assms
proof (induction rvs arbitrary: s)
  case (Cons rv rvs)
  obtain b s1 where one: "insert_claim i rv (ca_epoch c) Witness s = Inr (b, s1)"
    and rest: "(if b then claim_each i (ca_epoch c) Witness rvs else tx_return (Some (rv_root rv))) s1 = Inr (refused, s')"
    using Cons.prems(4) by (auto simp: tx_simps)
  show ?case
  proof (cases b)
    case True
    then show ?thesis
      using one rest Cons.prems witness_claim_booked [of s A D F i c rv s1] insert_claim_candidates [OF one]
      by (intro Cons.IH [of s1]) simp_all
  next
    case False
    then show ?thesis using one rest Cons.prems(1) by (auto simp: tx_simps dest: insert_claim_refused)
  qed
qed (simp add: tx_simps)

end
