(* ===== verification/Genesis_Accounting.thy ===== *)
theory Genesis_Accounting
  imports Genesis_Claims
begin

text \<open>
  Preparing a candidate, releasing its groups, and reconciling a space, over the placement. A refused claim leaves a
  transaction that must not be committed: \<open>granted\<close> is the outcome for which the accounting is kept.
\<close>

section \<open>Preparing a candidate\<close>

lemma retire_row_booked:
  assumes "booked s A {} F" "A (sp, g, e) \<noteq> Some InFrontier" "retire_frontier_row sp g e s = Inr (n, s')"
  shows "booked s' A {} (F - {(sp, g, e)})"
proof (rule bookedI)
  have d: "delete_frontier (sp, g, e) s = Inr (n, s')" using assms(3) by (simp add: retire_frontier_row_def)
  show "schema_ok s'" using delete_frontier_home(2) [OF d] assms(1) by (simp add: booked_def)
  show "at_home s' h k \<longleftrightarrow> k \<notin> {} \<and> A k = Some h \<or> h = InFrontier \<and> k \<in> F - {(sp, g, e)}" for h k
    using delete_frontier_home(1) [OF d, of h k] booked_home [OF assms(1), of h k] assms(2) by auto
qed

lemma retire_each_booked:
  assumes "booked s A {} F" "\<forall>g \<in> set gs. A (sp, g, e) \<noteq> Some InFrontier"
    and "tx_each (\<lambda>g. tx_then (retire_frontier_row sp g e) (tx_return ())) gs s = Inr (u, s')"
  shows "booked s' A {} (F - (\<lambda>g. (sp, g, e)) ` set gs)"
  using assms
proof (induction gs arbitrary: s F)
  case (Cons g gs)
  obtain n s1 where one: "retire_frontier_row sp g e s = Inr (n, s1)"
    and rest: "tx_each (\<lambda>g. tx_then (retire_frontier_row sp g e) (tx_return ())) gs s1 = Inr (u, s')"
    using Cons.prems(3) by (auto simp: tx_simps)
  have "booked s1 A {} (F - {(sp, g, e)})" using Cons.prems one by (intro retire_row_booked) simp_all
  then have "booked s' A {} (F - {(sp, g, e)} - (\<lambda>g. (sp, g, e)) ` set gs)"
    using Cons.prems(2) rest by (intro Cons.IH) simp_all
  then show ?case by (simp add: Diff_insert2 [symmetric] insert_commute)
qed (simp add: tx_simps)

text \<open>The caller's part: the groups a concept candidate claims are new, in the frontier, or claimed; and
  the transaction of a refused claim is not committed.\<close>

definition clear_to_claim :: "'p store \<Rightarrow> 'p candidate \<Rightarrow> claim_reservation list \<Rightarrow> bool" where
  "clear_to_claim s c rvs \<longleftrightarrow> claim_role_for (ca_signal c) = Witness
     \<or> claims_stable s (ca_id c) rvs
       \<and> list_all (\<lambda>rv. \<not> list_ex (\<lambda>h. at_home s h (claim_key c (rv_group rv)))
            [Covered, OnCard, IsSuppressed, Quarantined]) rvs"

lemma clear_claimable:
  assumes "booked s A {} {}" "clear_to_claim s c rvs" "claim_role_for (ca_signal c) = Concept" "rv \<in> set rvs"
  shows "claimable A (claim_key c (rv_group rv))"
proof -
  let ?k = "claim_key c (rv_group rv)"
  have "\<not> at_home s h ?k" if "h \<in> {Covered, OnCard, IsSuppressed, Quarantined}" for h
    using assms(2-4) that by (auto simp: clear_to_claim_def list_all_iff)
  then have "A ?k \<noteq> Some h" if "h \<in> {Covered, OnCard, IsSuppressed, Quarantined}" for h
    using that booked_home [OF assms(1), of h ?k] by blast
  then show ?thesis
    by (cases "A ?k"; simp add: claimable_def) (metis home.exhaust)
qed

definition granted :: "prepare_outcome \<Rightarrow> bool" where
  "granted r \<longleftrightarrow> (case r of ClaimRefused _ \<Rightarrow> False | _ \<Rightarrow> True)"

lemma finish_prepare_placed:
  assumes b: "placed s A" and c: "candidate_row (ca_id c) s = Some c"
    and clear: "clear_to_claim s c rvs"
    and r: "finish_prepare c token rvs s = Inr (out, s')" and out: "granted out"
  shows "\<exists>A'. place_step\<^sup>*\<^sup>* A A' \<and> placed s' A'"
proof -
  let ?role = "claim_role_for (ca_signal c)"
  have identity: "keeps_identity (\<lambda>x. x\<lparr>ca_state := Prepared, ca_token := Some token,
     ca_attempt := a, ca_reason := None, ca_next_attempt := None, ca_updated := t\<rparr>)" for a t
    by (simp add: keeps_identity_def)
  obtain s1 s2 where each: "claim_each (ca_id c) (ca_epoch c) ?role rvs s = Inr (None, s1)"
    and retire: "(if ?role = Concept then tx_each (\<lambda>g. tx_then (retire_frontier_row (ca_space c) g (ca_epoch c)) (tx_return ()))
                   (distinct_groups rvs) else tx_return ()) s1 = Inr ((), s2)"
    and upd: "update_candidate (ca_id c) [Observed, RetryWait, Stale] (\<lambda>t x. x\<lparr>ca_state := Prepared,
       ca_token := Some token, ca_attempt := (if ca_state c = Stale then 0 else ca_attempt c),
       ca_reason := None, ca_next_attempt := None, ca_updated := t\<rparr>) s2 = Inr ((), s')"
    using r out by (auto simp: finish_prepare_def tx_simps Let_def granted_def split: option.splits)
  have "\<exists>A'. place_step\<^sup>*\<^sup>* A A' \<and> placed s2 A'"
  proof (cases ?role)
    case Witness
    then have "placed s1 A" using witness_each_booked [OF b c] each by simp
    then show ?thesis using retire Witness by (auto simp: tx_simps)
  next
    case Concept
    let ?keys = "(\<lambda>rv. claim_key c (rv_group rv)) ` set rvs"
    have "claims_stable s (ca_id c) rvs" using clear Concept by (simp add: clear_to_claim_def)
    then obtain A' F' where A': "place_step\<^sup>*\<^sup>* A A'" "booked s1 A' {} F'" "F' \<subseteq> ?keys"
      and keys: "\<And>k. k \<in> ?keys \<Longrightarrow> A' k = Some Claimed"
      using claim_each_placed [OF b _ c Concept, of rvs s1] clear_claimable [OF b clear Concept] each Concept by auto
    let ?gs = "distinct_groups rvs"
    have gs: "set ?gs = rv_group ` set rvs" by (simp add: distinct_groups_def)
    have "A' (ca_space c, g, ca_epoch c) \<noteq> Some InFrontier" if "g \<in> set ?gs" for g
    proof -
      have "(ca_space c, g, ca_epoch c) \<in> ?keys" using that by (auto simp: gs claim_key_def)
      with keys show ?thesis by simp
    qed
    then have "booked s2 A' {} (F' - (\<lambda>g. (ca_space c, g, ca_epoch c)) ` set ?gs)"
      using retire_each_booked [OF A'(2)] retire Concept by simp
    moreover have "F' - (\<lambda>g. (ca_space c, g, ca_epoch c)) ` set ?gs = {}"
      using A'(3) by (auto simp: gs claim_key_def)
    ultimately show ?thesis using A'(1) by auto
  qed
  then show ?thesis using update_candidate_booked [OF upd _ identity] by blast
qed

lemma booked_same_tables:
  assumes "s_candidates s' = s_candidates s" "s_claims s' = s_claims s" "s_coverage s' = s_coverage s"
    "s_frontier s' = s_frontier s" "s_cards s' = s_cards s" "s_suppressions s' = s_suppressions s"
    "s_quarantines s' = s_quarantines s"
  shows "booked s' A D F = booked s A D F" "clear_to_claim s' c rvs = clear_to_claim s c rvs"
    "candidate_row i s' = candidate_row i s"
proof -
  have home: "at_home s' h k = at_home s h k" for h k by (cases h) (simp_all add: assms)
  show "booked s' A D F = booked s A D F"
    by (simp add: booked_def home schema_ok_def claim_linked_def assms)
  show "clear_to_claim s' c rvs = clear_to_claim s c rvs"
    by (simp add: clear_to_claim_def claims_stable_def home assms del: at_home.simps)
  show "candidate_row i s' = candidate_row i s" by (simp add: candidate_row_def assms)
qed

lemma get_candidate_iff:
  "get_candidate i s = Inr (c, s') \<longleftrightarrow> candidate_row i s = Some c \<and> s' = s"
  by (auto simp: get_candidate_def read_candidate_def tx_simps split: option.splits)

text \<open>Preparing, for the candidate the row of \<open>i\<close> names.\<close>

definition prepare_guard :: "string \<Rightarrow> claim_reservation list \<Rightarrow> 'p store \<Rightarrow> bool" where
  "prepare_guard i rvs s = (case candidate_row i s of None \<Rightarrow> True | Some c \<Rightarrow> clear_to_claim s c rvs)"

text \<open>How a prepare returns: not due, refused the lease, or done with the lease in hand.\<close>

lemma prepare_success:
  assumes r: "prepare_candidate token i rvs s = Inr (out, s')"
  obtains (not_due) "out = NotDue" "s' = s\<lparr>s_tick := Suc (s_tick s)\<rparr>"
    | (lease) c s1 lease s2 where "candidate_row i s = Some c" "s1 = s \<or> s1 = s\<lparr>s_tick := Suc (s_tick s)\<rparr>"
        "lease_acquire token GenesisPhase (ca_space c) (ca_generation c) (ca_attempt c) s1 = Inr (lease, s2)"
        "lease = None \<and> out = LeaseHeld \<and> s' = s2 \<or> (\<exists>t. lease = Some t \<and> finish_prepare c t rvs s2 = Inr (out, s'))"
proof -
  obtain c where c: "candidate_row i s = Some c"
    using r by (auto simp: prepare_candidate_def tx_simps get_candidate_iff)
  have legal: "transition_is_legal (ca_state c) Prepared"
    using r c by (auto simp: prepare_candidate_def tx_simps get_candidate_iff split: if_splits)
  obtain due s1 where due: "(if ca_state c \<in> {RetryWait, Stale} then backoff_elapsed i else tx_return True) s = Inr (due, s1)"
    and rest: "(if \<not> due then tx_return NotDue
       else tx_bind (lease_acquire token GenesisPhase (ca_space c) (ca_generation c) (ca_attempt c)) (\<lambda>lease.
         case lease of
           None \<Rightarrow> tx_return LeaseHeld
         | Some lease_token \<Rightarrow> finish_prepare c lease_token rvs)) s1 = Inr (out, s')"
    using r c legal by (auto simp: prepare_candidate_def tx_simps get_candidate_iff)
  have s1: "s1 = s\<lparr>s_tick := Suc (s_tick s)\<rparr> \<or> s1 = s \<and> due"
    using due by (auto simp: backoff_elapsed_def tx_simps split: if_splits)
  show thesis
  proof (cases due)
    case False
    then show thesis using rest s1 by (intro not_due) (auto simp: tx_simps)
  next
    case True
    then obtain l s2 where acq: "lease_acquire token GenesisPhase (ca_space c) (ca_generation c) (ca_attempt c) s1 = Inr (l, s2)"
      and fin: "(case l of None \<Rightarrow> tx_return LeaseHeld | Some lease_token \<Rightarrow> finish_prepare c lease_token rvs) s2 = Inr (out, s')"
      using rest by (auto simp: tx_simps)
    show thesis by (rule lease [OF c _ acq]) (use s1 fin in \<open>cases l; auto simp: tx_simps\<close>)+
  qed
qed

lemma prepare_placed:
  assumes b: "placed s A" and guard: "prepare_guard i rvs s"
    and r: "prepare_candidate token i rvs s = Inr (out, s')" and out: "granted out"
  shows "\<exists>A'. place_step\<^sup>*\<^sup>* A A' \<and> placed s' A'"
  using r
proof (cases rule: prepare_success)
  case not_due
  with b show ?thesis by auto
next
  case (lease c s1 l s2)
  have i: "ca_id c = i" using candidate_rowD [OF lease(1)] by simp
  have clear: "clear_to_claim s c rvs" using guard lease(1) by (simp add: prepare_guard_def)
  have "s_candidates s2 = s_candidates s \<and> s_claims s2 = s_claims s \<and> s_coverage s2 = s_coverage s
      \<and> s_frontier s2 = s_frontier s \<and> s_cards s2 = s_cards s \<and> s_suppressions s2 = s_suppressions s
      \<and> s_quarantines s2 = s_quarantines s"
    using lease(2,3) by (auto simp: lease_acquire_def tx_simps split: if_splits)
  then have same: "placed s2 A" "clear_to_claim s2 c rvs" "candidate_row i s2 = Some c"
    using booked_same_tables [of s2 s] b clear lease(1) by simp_all
  from lease(4) show ?thesis
  proof (elim disjE exE conjE)
    assume "s' = s2"
    with same(1) show ?thesis by auto
  next
    fix t assume "finish_prepare c t rvs s2 = Inr (out, s')"
    then show ?thesis using finish_prepare_placed [OF same(1) _ same(2) _ out] same(3) i by simp
  qed
qed

section \<open>Releasing a candidate's groups\<close>

lemma restore_row_home:
  assumes "restore_frontier_row sp g e s = Inr (n, s')"
  shows "at_home s' h k \<longleftrightarrow> at_home s h k \<or> h = InFrontier \<and> k = (sp, g, e)"
    and "schema_ok s \<Longrightarrow> schema_ok s'"
proof -
  have "\<exists>first next. insert_frontier_or_ignore \<lparr>fr_space = sp, fr_group = g, fr_epoch = e,
      fr_first_seen = first, fr_next_scan = next\<rparr> (s\<lparr>s_tick := Suc (s_tick s)\<rparr>) = Inr (n, s')"
    using assms unfolding restore_frontier_row_def tx_now_iff Let_def by blast
  then obtain row where i: "insert_frontier_or_ignore row (s\<lparr>s_tick := Suc (s_tick s)\<rparr>) = Inr (n, s')"
    and key: "fr_key row = (sp, g, e)" by (auto simp: fr_key_def)
  show "at_home s' h k \<longleftrightarrow> at_home s h k \<or> h = InFrontier \<and> k = (sp, g, e)"
    using insert_ignore_home(1) [OF i] key by simp
  show "schema_ok s \<Longrightarrow> schema_ok s'" using insert_ignore_home(2) [OF i] by simp
qed

lemma release_placed:
  assumes b: "placed s A" and c: "candidate_row (ca_id c) s = Some c"
    and r: "release_claims_to_frontier c reason s = Inr (gs, s')"
  shows "\<exists>A'. place_step\<^sup>*\<^sup>* A A' \<and> placed s' A'"
proof -
  let ?mine = "\<lambda>x. cl_candidate x = ca_id c \<and> cl_released x = None"
  let ?free = "\<lambda>x. x\<lparr>cl_released := Some (s_clock s (s_tick s)), cl_reason := Some reason\<rparr>"
  let ?live = "\<lambda>x. cl_candidate x = ca_id c \<and> concept_live x"
  define s1 where "s1 = s\<lparr>s_tick := Suc (s_tick s), s_claims := update_where ?mine ?free (s_claims s)\<rparr>"
  define key :: "string \<Rightarrow> group_key" where "key = (\<lambda>g. (ca_space c, g, ca_epoch c))"
  have gs: "gs = remdups (sort (map cl_group (filter ?live (s_claims s))))"
    and each: "tx_each (\<lambda>g. tx_then (restore_frontier_row (ca_space c) g (ca_epoch c)) (tx_return ())) gs s1 = Inr ((), s')"
    using r by (auto simp: release_claims_to_frontier_def candidate_concept_groups_def tx_simps s1_def concept_live_def)
  have sc: "schema_ok s" using b by (simp add: booked_def)
  have free: "\<not> concept_live (?free x)" for x by (simp add: concept_live_def)
  have mine: "homed s k x \<longleftrightarrow> concept_live x \<and> k = key (cl_group x)" if "x \<in> set (s_claims s)" "cl_candidate x = ca_id c" for x k
    using homed_own [OF sc c that(2) own_claim(1) [OF sc c that]] by (simp add: key_def claim_key_def)
  have live: "g \<in> set gs \<longleftrightarrow> (\<exists>x \<in> set (s_claims s). ?live x \<and> cl_group x = g)" for g by (auto simp: gs)
  have claimed: "A (key g) = Some Claimed" if "g \<in> set gs" for g
  proof -
    obtain x where x: "x \<in> set (s_claims s)" "?live x" "cl_group x = g" using \<open>g \<in> set gs\<close> live by blast
    then have "homed s (key g) x" using mine by simp
    with x(1) have "at_home s Claimed (key g)" by (auto simp: homed_def occurs_iff)
    then show ?thesis using booked_home [OF b, of Claimed "key g"] by simp
  qed
  have one: "y = x" if "x \<in> set (s_claims s)" "concept_live x" "y \<in> set (s_claims s)" "concept_live y"
    "cl_group x = cl_group y" "cl_epoch x = cl_epoch y" for x y
    using unique_keyD [OF schemaD(5) [OF sc] that(3,1,4,2)] that(5,6) by simp
  have off: "occurs (homed s k) (update_where ?mine ?free (s_claims s)) \<longleftrightarrow> occurs (homed s k) (s_claims s) \<and> k \<notin> key ` set gs" for k
  proof -
    have "(if ?mine x then homed s k (?free x) else homed s k x) \<longleftrightarrow> homed s k x \<and> k \<notin> key ` set gs"
      if x: "x \<in> set (s_claims s)" for x
    proof (cases "?live x")
      case True
      then have "cl_group x \<in> set gs" using live x by blast
      then have "homed s k x \<Longrightarrow> k \<in> key ` set gs" using mine [OF x] True by simp
      moreover have "\<not> homed s k (?free x)" using free by (simp add: homed_def)
      ultimately show ?thesis using True by (auto simp: concept_live_def)
    next
      case False
      have "k \<notin> key ` set gs" if h: "homed s k x"
      proof
        assume "k \<in> key ` set gs"
        then obtain y where y: "y \<in> set (s_claims s)" "?live y" "k = key (cl_group y)" using live by auto
        have "cl_epoch y = ca_epoch c" using own_claim(1) [OF sc c y(1)] y(2) by simp
        then have "x = y" using one [OF y(1) _ x] h y(2,3) by (auto simp: homed_def key_def)
        with y False show False by simp
      qed
      moreover have "?mine x \<Longrightarrow> \<not> homed s k x" using False by (auto simp: homed_def)
      moreover have "\<not> homed s k (?free x)" using free by (simp add: homed_def)
      ultimately show ?thesis by auto
    qed
    then have "occurs (homed s k) (update_where ?mine ?free (s_claims s)) \<longleftrightarrow> occurs (\<lambda>x. homed s k x \<and> k \<notin> key ` set gs) (s_claims s)"
      unfolding occurs_update_where by (rule occurs_cong)
    then show ?thesis by (auto simp: occurs_iff)
  qed
  have home: "at_home s1 h k \<longleftrightarrow> at_home s h k \<and> \<not> (h = Claimed \<and> k \<in> key ` set gs)" for h k
    using off [of k] by (cases h) (simp_all add: s1_def homed_def [abs_def])
  have "booked s1 A (key ` set gs) {}"
  proof (rule bookedI)
    have "unique_key (\<lambda>x. (cl_group x, cl_epoch x)) concept_live (update_where ?mine ?free (s_claims s))"
      by (intro unique_key_update_out [OF schemaD(5) [OF sc]]) (simp add: concept_live_def)
    moreover have "unique_key (\<lambda>x. (cl_candidate x, cl_root x)) (\<lambda>_. True) (update_where ?mine ?free (s_claims s))"
      by (intro unique_key_update_out [OF schemaD(6) [OF sc]]) simp
    ultimately show "schema_ok s1" using sc by (auto simp: s1_def schema_ok_def claim_linked_def)
    show "at_home s1 h k \<longleftrightarrow> k \<notin> key ` set gs \<and> A k = Some h \<or> h = InFrontier \<and> k \<in> {}" for h k
      using home [of h k] booked_home [OF b, of h k] claimed by auto
  qed
  moreover have "distinct (map key gs)" by (simp add: gs distinct_map key_def inj_on_def)
  ultimately have "place_step\<^sup>*\<^sup>* A (moved A (key ` set gs) InFrontier) \<and> placed s' (moved A (key ` set gs) InFrontier)"
    using claimed
    by (intro settle_each [where ?h1.0 = "Some Claimed" and ?h0.0 = InFrontier, OF _ released _ _ _ each])
      (auto simp: tx_simps key_def dest: restore_row_home)
  then show ?thesis by blast
qed

text \<open>A step after the candidate's row was read.\<close>

lemma moves_with_candidate:
  assumes "\<And>c s A u s'. candidate_row (ca_id c) s = Some c \<Longrightarrow> placed s A \<Longrightarrow> f c s = Inr (u, s')
      \<Longrightarrow> \<exists>A'. place_step\<^sup>*\<^sup>* A A' \<and> placed s' A'"
    and k: "\<And>c u. moves_groups (k c u)"
  shows "moves_groups (tx_bind (get_candidate i) (\<lambda>c. tx_then (guard_transition (ca_state c) st) (tx_bind (f c) (k c))))"
proof (rule moves_groupsI)
  fix s A a s'
  assume b: "placed s A" and r: "tx_bind (get_candidate i)
    (\<lambda>c. tx_then (guard_transition (ca_state c) st) (tx_bind (f c) (k c))) s = Inr (a, s')"
  then obtain c s0 u s1 where c: "candidate_row i s = Some c"
    and f: "f c s = Inr (u, s1)" and rest: "k c u s1 = Inr (a, s')"
    by (auto simp: tx_simps get_candidate_iff guard_transition_def split: if_splits)
  have "candidate_row (ca_id c) s = Some c" using c candidate_rowD [OF c] by simp
  then obtain A1 where A1: "place_step\<^sup>*\<^sup>* A A1" "placed s1 A1" using assms(1) b f by blast
  then obtain A2 where "place_step\<^sup>*\<^sup>* A1 A2" "placed s' A2" using moves_groupsD [OF k _ rest] by blast
  with A1(1) show "\<exists>A'. place_step\<^sup>*\<^sup>* A A' \<and> placed s' A'" by (blast intro: rtranclp_trans)
qed

lemma settle_placed:
  assumes "candidate_row (ca_id c) s = Some c" "placed s A" "settle_groups_to_frontier c reason s = Inr (u, s')"
  shows "\<exists>A'. place_step\<^sup>*\<^sup>* A A' \<and> placed s' A'"
proof -
  obtain gs s1 where r: "release_claims_to_frontier c reason s = Inr (gs, s1)"
    and rest: "tx_bind (candidate_concept_groups (ca_id c) False) (\<lambda>groups.
        tx_each (\<lambda>g. tx_then (expire_card_binding_to_frontier (ca_space c) g (ca_epoch c)) (tx_return ())) groups) s1 = Inr (u, s')"
    using assms(3) by (auto simp: settle_groups_to_frontier_def tx_simps)
  obtain A1 where A1: "place_step\<^sup>*\<^sup>* A A1" "placed s1 A1" using release_placed [OF assms(2,1) r] by blast
  have m: "moves_groups (tx_bind (candidate_concept_groups (ca_id c) False) (\<lambda>groups.
        tx_each (\<lambda>g. tx_then (expire_card_binding_to_frontier (ca_space c) g (ca_epoch c)) (tx_return ())) groups) :: ('a, unit) tx)"
    unfolding candidate_concept_groups_def by (intro moves_intros)
  obtain A2 where "place_step\<^sup>*\<^sup>* A1 A2" "placed s' A2" using moves_groupsD [OF m A1(2) rest] by blast
  with A1(1) show ?thesis by (blast intro: rtranclp_trans)
qed

lemma moves_settling [moves_intros]:
  "moves_groups (mark_stale i stale)" "moves_groups (mark_superseded i)" "moves_groups (mark_review_required i card_name)"
proof -
  show "moves_groups (mark_stale i stale)"
    unfolding mark_stale_def tx_then_def [of "settle_groups_to_frontier _ _"]
    by (intro moves_with_candidate moves_intros settle_placed) (simp_all add: keeps_identity_def)
  show "moves_groups (mark_superseded i)"
    unfolding mark_superseded_def tx_then_def [of "settle_groups_to_frontier _ _"]
    by (intro moves_with_candidate moves_intros settle_placed) (simp_all add: keeps_identity_def)
  show "moves_groups (mark_review_required i card_name)"
    unfolding mark_review_required_def
    by (intro moves_with_candidate moves_intros release_placed) (simp_all add: keeps_identity_def)
qed

section \<open>Reconciling a space\<close>

lemma insert_row_home:
  assumes "insert_frontier_row sp g e s = Inr (n, s')"
  shows "at_home s' h k \<longleftrightarrow> at_home s h k \<or> h = InFrontier \<and> k = (sp, g, e)"
    and "schema_ok s \<Longrightarrow> schema_ok s'"
proof -
  have "\<exists>first next. insert_frontier_or_ignore \<lparr>fr_space = sp, fr_group = g, fr_epoch = e,
      fr_first_seen = first, fr_next_scan = next\<rparr> (s\<lparr>s_tick := Suc (s_tick s)\<rparr>) = Inr (n, s')"
    using assms unfolding insert_frontier_row_def tx_now_iff by blast
  then obtain row where i: "insert_frontier_or_ignore row (s\<lparr>s_tick := Suc (s_tick s)\<rparr>) = Inr (n, s')"
    and key: "fr_key row = (sp, g, e)" by (auto simp: fr_key_def)
  show "at_home s' h k \<longleftrightarrow> at_home s h k \<or> h = InFrontier \<and> k = (sp, g, e)"
    using insert_ignore_home(1) [OF i] key by simp
  show "schema_ok s \<Longrightarrow> schema_ok s'" using insert_ignore_home(2) [OF i] by simp
qed

lemma insert_row_evidence:
  "insert_frontier_row sp g e s = Inr (n, s') \<Longrightarrow> s_roots s' = s_roots s \<and> s_edges s' = s_edges s"
  by (auto simp: insert_frontier_row_def insert_frontier_or_ignore_def tx_simps split: if_splits)

lemma insert_rows_evidence:
  "tx_each (\<lambda>g. tx_bind (insert_frontier_row sp g e) (\<lambda>_. tx_return ())) gs s = Inr (u, s')
    \<Longrightarrow> eligible_groups space s' = eligible_groups space s"
proof (induction gs arbitrary: s)
  case (Cons g gs)
  then obtain n s1 where "insert_frontier_row sp g e s = Inr (n, s1)"
    "tx_each (\<lambda>g. tx_bind (insert_frontier_row sp g e) (\<lambda>_. tx_return ())) gs s1 = Inr (u, s')"
    by (auto simp: tx_simps)
  moreover from insert_row_evidence [OF this(1)] have "eligible_groups space s1 = eligible_groups space s"
    by (simp add: eligible_groups_def cong: if_cong)
  ultimately show ?case using Cons.IH [of s1] by simp
qed (simp add: tx_simps)

lemma reconcile_success:
  assumes b: "placed s A" and r: "reconcile_space sp e s = Inr (out, s')"
  obtains A1 s1 where "place_step\<^sup>*\<^sup>* A A1" "placed s1 A1" "reconcile_expired_suppressions sp e s = Inr (oc_lapsed out, s1)"
    "oc_repaired out = filter (\<lambda>g. reason_count s1 (sp, g, e) = 0) (eligible_groups sp s1)"
    "oc_examined out = length (eligible_groups sp s1)"
    "placed s' (moved A1 ((\<lambda>g. (sp, g, e)) ` set (oc_repaired out)) InFrontier)"
    "place_step\<^sup>*\<^sup>* A1 (moved A1 ((\<lambda>g. (sp, g, e)) ` set (oc_repaired out)) InFrontier)"
    "eligible_groups sp s' = eligible_groups sp s1"
proof -
  obtain n s1 where x: "reconcile_expired_suppressions sp e s = Inr (n, s1)"
    and each: "tx_each (\<lambda>g. tx_bind (insert_frontier_row sp g e) (\<lambda>_. tx_return ())) (oc_repaired out) s1 = Inr ((), s')"
    and out: "oc_lapsed out = n" "oc_examined out = length (reason_counts sp e s1)"
      "oc_repaired out = map fst (filter (\<lambda>(g, n). n = 0) (reason_counts sp e s1))"
    using r by (auto simp: reconcile_space_def tx_simps Let_def split: if_splits)
  obtain A1 where A1: "place_step\<^sup>*\<^sup>* A A1" "placed s1 A1"
    using moves_groupsD [OF moves_reconcile_expired b x] by blast
  define key :: "string \<Rightarrow> group_key" where "key = (\<lambda>g. (sp, g, e))"
  have missing: "oc_repaired out = filter (\<lambda>g. reason_count s1 (key g) = 0) (eligible_groups sp s1)"
    by (simp add: out(3) reason_counts_def filter_map o_def key_def)
  have none: "A1 (key g) = None" if "g \<in> set (oc_repaired out)" for g
    using that placed_reason_count [OF A1(2), of "key g"] by (auto simp: missing split: option.splits)
  have "booked s1 A1 (key ` set (oc_repaired out)) {}"
    using A1(2) none by (auto simp: booked_def)
  moreover have "distinct (map key (oc_repaired out))"
    by (simp add: missing eligible_groups_def distinct_map key_def inj_on_def)
  ultimately have "place_step\<^sup>*\<^sup>* A1 (moved A1 (key ` set (oc_repaired out)) InFrontier)
      \<and> placed s' (moved A1 (key ` set (oc_repaired out)) InFrontier)"
    using none
    by (intro settle_each [where ?h1.0 = None and ?h0.0 = InFrontier, OF _ discovered _ _ _ each])
      (auto simp: tx_simps key_def dest: insert_row_home)
  then show thesis using that [OF A1] x out(1,2) missing insert_rows_evidence [OF each]
    by (simp add: key_def reason_counts_def)
qed

lemma moves_reconcile_space [moves_intros]: "moves_groups (reconcile_space sp e)"
proof (rule moves_groupsI)
  fix s A out s' assume "placed s A" "reconcile_space sp e s = Inr (out, s' :: 'a store)"
  then show "\<exists>A'. place_step\<^sup>*\<^sup>* A A' \<and> placed s' A'"
    by (rule reconcile_success) (blast intro: rtranclp_trans)
qed

lemma place_step_dom: "place_step\<^sup>*\<^sup>* A A' \<Longrightarrow> A k \<noteq> None \<Longrightarrow> A' k \<noteq> None"
proof (induction rule: rtranclp_induct)
  case (step B C)
  from step.hyps(2) step.IH [OF step.prems] show ?case by cases auto
qed

lemma reconcile_complete:
  assumes b: "placed s A" and r: "reconcile_space sp e s = Inr (out, s')" and g: "g \<in> set (eligible_groups sp s')"
  shows "reason_count s' (sp, g, e) = 1"
  using b r
proof (rule reconcile_success)
  fix A1 s1
  let ?A = "moved A1 ((\<lambda>g. (sp, g, e)) ` set (oc_repaired out)) InFrontier"
  assume s1: "placed s1 A1" and p: "placed s' ?A" and el: "eligible_groups sp s' = eligible_groups sp s1"
    and rep: "oc_repaired out = filter (\<lambda>g. reason_count s1 (sp, g, e) = 0) (eligible_groups sp s1)"
  have "?A (sp, g, e) \<noteq> None"
    using g el placed_reason_count [OF s1, of "(sp, g, e)"] by (auto simp: moved_def rep split: option.splits)
  then show ?thesis using placed_reason_count [OF p, of "(sp, g, e)"] by auto
qed

lemma reconcile_no_conflict:
  fixes s :: "'p store"
  assumes b: "placed s A"
  shows "reconcile_space sp e s \<noteq> Inl Conflict"
proof
  assume r: "reconcile_space sp e s = Inl Conflict"
  show False
  proof (cases "reconcile_expired_suppressions sp e s")
    case (Inl err)
    then show False using r by (simp add: reconcile_space_def tx_bind_def vector_db_def)
  next
    case (Inr x)
    obtain n s1 where x: "x = (n, s1)" by (cases x)
    obtain A1 where A1: "placed s1 A1" using moves_groupsD [OF moves_reconcile_expired b Inr [unfolded x]] by blast
    have "\<not> list_ex (\<lambda>(g, n). n > 1) (reason_counts sp e s1)"
      by (auto simp: list_ex_iff reason_counts_def placed_reason_count [OF A1] split: option.splits)
    moreover have "tx_each (\<lambda>g. tx_bind (insert_frontier_row sp g e) (\<lambda>_. tx_return ())) gs s2 \<noteq> Inl err" for gs and s2 :: "'p store" and err
      by (induction gs arbitrary: s2) (simp_all add: tx_return_def tx_then_def tx_bind_def insert_frontier_row_def
          tx_now_def insert_frontier_or_ignore_def)
    ultimately show False using r
      by (simp add: reconcile_space_def tx_bind_def vector_db_def Inr x tx_read_def Let_def tx_then_def
          tx_return_def split: sum.splits prod.splits)
  qed
qed

end
