(* ===== verification/Genesis_Shadow.thy ===== *)
theory Genesis_Shadow
  imports Genesis_Accounting
begin

text \<open>
  The transactions of \<open>shadow.rs\<close>, \<open>finalize.rs\<close> and \<open>recovery.rs\<close> keep the accounting: what no turn touches, the
  invariant of the driver, and a prepare in a turn, whose reservations follow the groups of the roots.
\<close>

section \<open>What no turn touches\<close>

definition root_group :: "'p store \<Rightarrow> string \<Rightarrow> string option" where
  "root_group s r = map_option ro_group (find (\<lambda>x. ro_id x = r) (s_roots s))"

text \<open>Every live concept claim is on the group its root is in.\<close>

definition claims_follow :: "'p store \<Rightarrow> bool" where
  "claims_follow s \<longleftrightarrow> (\<forall>x \<in> set (s_claims s). concept_live x \<longrightarrow> root_group s (cl_root x) = Some (cl_group x))"

text \<open>No group has been covered by a page, surfaced, suppressed or quarantined.\<close>

definition shadow_only :: "'p store \<Rightarrow> bool" where
  "shadow_only s \<longleftrightarrow> s_coverage s = [] \<and> \<not> occurs cb_live (s_cards s) \<and> \<not> occurs su_live (s_suppressions s)
     \<and> \<not> occurs qu_live (s_quarantines s)"

definition shadow_rel :: "'p store \<Rightarrow> 'p store \<Rightarrow> bool" where
  "shadow_rel s s' \<longleftrightarrow> s_roots s' = s_roots s \<and> (shadow_only s \<longrightarrow> shadow_only s') \<and> (claims_follow s \<longrightarrow> claims_follow s')"

lemma shadow_frameI:
  assumes "s_roots s' = s_roots s" "s_coverage s' = s_coverage s" "s_cards s' = s_cards s"
    "s_suppressions s' = s_suppressions s" "s_quarantines s' = s_quarantines s" "s_claims s' = s_claims s"
  shows "shadow_rel s s'"
  using assms by (simp add: shadow_rel_def shadow_only_def claims_follow_def root_group_def)

interpretation shadow: store_order shadow_rel
  by unfold_locales (auto simp: shadow_rel_def shadow_only_def claims_follow_def root_group_def)

named_theorems shadow_intros \<open>transactions of the shadow driver\<close>

declare shadow.keeps_rules [shadow_intros]

lemma shadow_statements [shadow_intros]:
  "keeps shadow_rel (insert_frontier r)" "keeps shadow_rel (insert_frontier_or_ignore r)"
  "keeps shadow_rel (delete_frontier k)" "keeps shadow_rel (lease_release phase space generation token)"
  by (auto intro!: keepsI shadow_frameI simp: insert_frontier_def insert_frontier_or_ignore_def delete_frontier_def
      lease_release_def Let_def split: if_splits)

lemma shadow_reads [shadow_intros]:
  "keeps shadow_rel (read_candidate i)" "keeps shadow_rel (get_candidate i)" "keeps shadow_rel (backoff_elapsed i)"
  "keeps shadow_rel (guard_transition a b)" "keeps shadow_rel (candidate_concept_groups i live)"
  "keeps shadow_rel (read_coverage_state i)" "keeps shadow_rel (read_cursor space)"
  "keeps shadow_rel (scan_slice space epoch cursor)" "keeps shadow_rel (lease_owns phase space generation token)"
  unfolding read_candidate_def get_candidate_def backoff_elapsed_def guard_transition_def candidate_concept_groups_def
    read_coverage_state_def read_cursor_def scan_slice_def lease_owns_def
  by (intro shadow_intros)+

lemma shadow_lease_acquire [shadow_intros]: "keeps shadow_rel (lease_acquire token phase space generation attempt)"
  unfolding lease_acquire_def
  by (intro shadow_intros; intro keepsI shadow_frameI) (auto split: if_splits)

lemma shadow_frontier_rows [shadow_intros]:
  "keeps shadow_rel (insert_frontier_row space gid epoch)" "keeps shadow_rel (retire_frontier_row space gid epoch)"
  unfolding insert_frontier_row_def retire_frontier_row_def by (intro shadow_intros)+

lemma shadow_restore [shadow_intros]: "keeps shadow_rel (restore_frontier_row space gid epoch)"
proof (rule keepsI)
  fix s n s' assume "restore_frontier_row space gid epoch s = Inr (n, s')"
  then have "\<exists>row. insert_frontier_or_ignore row (s\<lparr>s_tick := Suc (s_tick s)\<rparr>) = Inr (n, s')"
    unfolding restore_frontier_row_def tx_now_iff Let_def by blast
  then have "shadow_rel (s\<lparr>s_tick := Suc (s_tick s)\<rparr>) s'" using keepsD [OF shadow_statements(2)] by blast
  then show "shadow_rel s s'" by (rule shadow.store_trans [OF shadow.store_tick])
qed

lemma shadow_close_cards [shadow_intros]: "keeps shadow_rel (close_cards P)"
  unfolding close_cards_def
  by (intro shadow_intros; intro keepsI)
    (auto simp: Let_def shadow_rel_def shadow_only_def claims_follow_def root_group_def occurs_update_where
      cb_live_def occurs_iff split: if_splits)

lemma shadow_update_candidate [shadow_intros]: "keeps shadow_rel (update_candidate i states f)"
  unfolding update_candidate_def
  by (intro shadow_intros; intro keepsI shadow_frameI) (auto simp: Let_def)

lemma shadow_observe [shadow_intros]: "keeps shadow_rel (observe_candidate ob)"
  unfolding observe_candidate_def
  by (intro shadow_intros; intro keepsI shadow_frameI) auto

lemma shadow_lapse [shadow_intros]: "keeps shadow_rel (lapse_suppression e)"
  unfolding lapse_suppression_def
  by (intro shadow_intros; intro keepsI)
    (auto simp: Let_def shadow_rel_def shadow_only_def claims_follow_def root_group_def occurs_update_where
      su_live_def occurs_iff)

lemma shadow_reconcile [shadow_intros]:
  "keeps shadow_rel (reconcile_expired_suppressions space epoch)" "keeps shadow_rel (reconcile_space space epoch)"
proof -
  show x: "keeps shadow_rel (reconcile_expired_suppressions space epoch)"
    unfolding reconcile_expired_suppressions_def by (intro shadow_intros)
  show "keeps shadow_rel (reconcile_space space epoch)"
    unfolding reconcile_space_def by (intro x shadow_intros)
qed

lemma shadow_expire_card [shadow_intros]: "keeps shadow_rel (expire_card_binding_to_frontier space gid epoch)"
  unfolding expire_card_binding_to_frontier_def by (intro shadow_intros)

lemma shadow_release [shadow_intros]: "keeps shadow_rel (release_claims_to_frontier c reason)"
  unfolding release_claims_to_frontier_def
  by (intro shadow_intros; intro keepsI)
    (auto simp: shadow_rel_def shadow_only_def claims_follow_def root_group_def concept_live_def)

lemma shadow_settle [shadow_intros]: "keeps shadow_rel (settle_groups_to_frontier c reason)"
  unfolding settle_groups_to_frontier_def by (intro shadow_intros)

lemma shadow_marks [shadow_intros]:
  "keeps shadow_rel (mark_stale i reason)" "keeps shadow_rel (mark_retry_wait i charge)"
  unfolding mark_stale_def mark_retry_wait_def by (intro shadow_intros)+

lemma shadow_open_epoch [shadow_intros]: "keeps shadow_rel (open_coverage_epoch space_id space)"
  unfolding open_coverage_epoch_def
  by (intro shadow_intros; intro keepsI shadow_frameI) (auto split: if_splits)

text \<open>A claim whose reservation names the group of its root.\<close>

definition follows_roots :: "'p store \<Rightarrow> claim_reservation list \<Rightarrow> bool" where
  "follows_roots s rvs \<longleftrightarrow> (\<forall>rv \<in> set rvs. root_group s (rv_root rv) = Some (rv_group rv))"

lemma shadow_insert_claim:
  assumes "insert_claim i rv epoch role s = Inr (b, s')" "root_group s (rv_root rv) = Some (rv_group rv)"
  shows "shadow_rel s s'"
proof (cases b)
  case False
  then show ?thesis using assms(1) shadow.store_tick by (auto dest: insert_claim_refused)
next
  case True
  with assms(1) have "insert_claim i rv epoch role s = Inr (True, s')" by simp
  then show ?thesis
  proof (cases rule: insert_claim_rows)
    case revive
    then show ?thesis using assms(2)
      by (auto simp: shadow_rel_def shadow_only_def claims_follow_def root_group_def own_row_def)
  next
    case (fresh x)
    then show ?thesis using assms(2)
      by (auto simp: shadow_rel_def shadow_only_def claims_follow_def root_group_def own_row_def)
  qed
qed

lemma shadow_claim_each:
  "claim_each i epoch role rvs s = Inr (refused, s') \<Longrightarrow> follows_roots s rvs \<Longrightarrow> shadow_rel s s'"
proof (induction rvs arbitrary: s)
  case Nil
  then show ?case by (simp add: tx_simps shadow.store_refl)
next
  case (Cons rv rvs)
  obtain b s1 where one: "insert_claim i rv epoch role s = Inr (b, s1)"
    and rest: "(if b then claim_each i epoch role rvs else tx_return (Some (rv_root rv))) s1 = Inr (refused, s')"
    using Cons.prems(1) by (auto simp: tx_simps)
  have s1: "shadow_rel s s1" using shadow_insert_claim [OF one] Cons.prems(2) by (simp add: follows_roots_def)
  then have "follows_roots s1 rvs" using Cons.prems(2)
    by (simp add: follows_roots_def root_group_def shadow_rel_def)
  then have "shadow_rel s1 s'" using rest Cons.IH [of s1] by (cases b) (simp_all add: tx_simps shadow.store_refl)
  with s1 show ?case by (rule shadow.store_trans)
qed

section \<open>The invariant of the shadow driver\<close>

definition shadow_ok :: "'p store \<Rightarrow> bool" where
  "shadow_ok s \<longleftrightarrow> (\<exists>A. placed s A) \<and> shadow_only s \<and> claims_follow s"

text \<open>The accounting holds on, and no group loses its home.\<close>

definition settled_rel :: "'p store \<Rightarrow> 'p store \<Rightarrow> bool" where
  "settled_rel s s' \<longleftrightarrow> (shadow_ok s \<longrightarrow> shadow_ok s' \<and> (\<forall>k. reason_count s k = 1 \<longrightarrow> reason_count s' k = 1))"

lemma placed_step_count:
  assumes "placed s A" "place_step\<^sup>*\<^sup>* A A'" "placed s' A'" "reason_count s k = 1"
  shows "reason_count s' k = 1"
proof -
  have "A k \<noteq> None" using assms(4) placed_reason_count [OF assms(1), of k] by (cases "A k") simp_all
  then have "A' k \<noteq> None" by (rule place_step_dom [OF assms(2)])
  then show ?thesis using placed_reason_count [OF assms(3), of k] by (cases "A' k") simp_all
qed

lemma settledI: "moves_rel s s' \<Longrightarrow> shadow_rel s s' \<Longrightarrow> settled_rel s s'"
proof -
  assume m: "moves_rel s s'" and d: "shadow_rel s s'"
  show "settled_rel s s'"
  proof (unfold settled_rel_def, rule impI)
    assume ok: "shadow_ok s"
    then obtain A where A: "placed s A" by (auto simp: shadow_ok_def)
    with m obtain A' where A': "place_step\<^sup>*\<^sup>* A A'" "placed s' A'" by (auto simp: moves_rel_def)
    have "shadow_ok s'" using ok d A'(2) by (auto simp: shadow_ok_def shadow_rel_def)
    then show "shadow_ok s' \<and> (\<forall>k. reason_count s k = 1 \<longrightarrow> reason_count s' k = 1)"
      using placed_step_count [OF A A'] by blast
  qed
qed

interpretation settling: store_order settled_rel
proof
  fix s t u :: "'a store"
  show "settled_rel s s" by (simp add: settled_rel_def)
  show "settled_rel s t \<Longrightarrow> settled_rel t u \<Longrightarrow> settled_rel s u" by (simp add: settled_rel_def)
  show "settled_rel s (s\<lparr>s_tick := n\<rparr>)" for n
    by (rule settledI [OF moving.store_tick shadow.store_tick])
qed

lemma settles: "moves_groups m \<Longrightarrow> keeps shadow_rel m \<Longrightarrow> keeps settled_rel m"
  unfolding keeps_def by (blast intro: settledI)

subsection \<open>The statements of the driver\<close>

lemma moves_driver_statements [moves_intros]:
  "moves_groups (record_envelope i en)" "moves_groups (bump space_id name by)" "moves_groups (write_cursor space cursor)"
  "moves_groups (read_cursor space)" "moves_groups (scan_slice space epoch cursor)"
proof -
  show "moves_groups (record_envelope i en)"
  proof (rule moves_same)
    fix s A u s' assume s: "placed s A" and r: "record_envelope i en s = Inr (u, s')"
    let ?s = "s\<lparr>s_tick := Suc (s_tick s)\<rparr>"
    have "keeps_identity (\<lambda>c. c\<lparr>ca_payload := Some (envelope_to_json en), ca_receipt := Some (en_receipt en), ca_updated := t\<rparr>)" for t
      by (simp add: keeps_identity_def)
    from booked_update_candidates [of ?s A "{}" "{}", OF _ this] s r
    show "placed s' A" by (auto simp: record_envelope_def tx_simps)
  qed
  show "moves_groups (bump space_id name by)" "moves_groups (write_cursor space cursor)"
    by (rule moves_same; auto simp: bump_def write_cursor_def split: if_splits)+
  show "moves_groups (read_cursor space)" "moves_groups (scan_slice space epoch cursor)"
    unfolding read_cursor_def scan_slice_def by (intro moves_intros)+
qed

lemma shadow_driver_statements [shadow_intros]:
  "keeps shadow_rel (record_envelope i en)" "keeps shadow_rel (bump space_id name by)" "keeps shadow_rel (write_cursor space cursor)"
proof -
  show "keeps shadow_rel (record_envelope i en)"
    unfolding record_envelope_def by (intro shadow_intros; intro keepsI shadow_frameI) auto
  show "keeps shadow_rel (bump space_id name by)" "keeps shadow_rel (write_cursor space cursor)"
    by (intro keepsI shadow_frameI; auto simp: bump_def write_cursor_def split: if_splits)+
qed

lemma moves_open_epoch [moves_intros]: "moves_groups (open_coverage_epoch space_id space)"
proof -
  have "moves_groups (\<lambda>s. if (space_id, space) \<notin> set (s_spaces s)
              \<or> occurs (\<lambda>c. cs_space c = space \<or> cs_space_id c = space_id) (s_epochs s)
           then Inl Constraint
           else Inr ((), s\<lparr>s_epochs := s_epochs s @
                  [\<lparr>cs_space = space, cs_space_id = space_id, cs_epoch = 1, cs_state = Active,
                    cs_opened = t, cs_cursor = None, cs_enabled = False\<rparr>]\<rparr>))" for t
    by (rule moves_same) (auto split: if_splits)
  then show ?thesis unfolding open_coverage_epoch_def read_coverage_state_def by (intro moves_intros)
qed

named_theorems settle_intros \<open>transactions that keep the accounting settled\<close>

declare settling.keeps_rules [settle_intros]

lemmas settles_statements [settle_intros] =
  settles [OF moves_driver_statements(1) shadow_driver_statements(1)]
  settles [OF moves_driver_statements(2) shadow_driver_statements(2)]
  settles [OF moves_driver_statements(3) shadow_driver_statements(3)]
  settles [OF moves_driver_statements(4) shadow_reads(7)]
  settles [OF moves_driver_statements(5) shadow_reads(8)]
  settles [OF moves_reconcile_space shadow_reconcile(2)]
  settles [OF moves_lease_acquire shadow_lease_acquire]
  settles [OF moves_lease_other(1) shadow_reads(9)]
  settles [OF moves_lease_other(2) shadow_statements(4)]
  settles [OF moves_settling(1) shadow_marks(1)]
  settles [OF moves_mark(3) shadow_marks(2)]
  settles [OF moves_open_epoch shadow_open_epoch]
  settles [OF moves_observe shadow_observe]
  settles [OF moves_candidate_reads(1) shadow_reads(1)]

lemma settles_reap [settle_intros]: "keeps settled_rel reap_expired_m6_phases"
proof (rule settles [OF moves_lease_other(3)])
  show "keeps shadow_rel reap_expired_m6_phases"
    unfolding reap_expired_m6_phases_def by (intro shadow_intros; intro keepsI shadow_frameI) (auto simp: Let_def)
qed

lemma settles_reconcile_transaction [settle_intros]: "keeps settled_rel (reconcile_transaction E space_id space epoch)"
  unfolding reconcile_transaction_def by (intro settle_intros)

lemma settles_gate [settle_intros]: "keeps settled_rel (gate_holds E c en g)"
  by (cases g) (auto simp: e1_lease_ownership_def intro!: settle_intros)

lemma settles_first_refusal [settle_intros]: "keeps settled_rel (first_refusal E c en gs)"
  by (induction gs) (auto intro!: settle_intros)

lemma settles_dry_run [settle_intros]: "keeps settled_rel (dry_run_finalize E i)"
  unfolding dry_run_finalize_def evaluate_gates_def by (intro settle_intros)

lemma settles_recover [settle_intros]: "keeps settled_rel (recover_candidate i)"
  unfolding recover_candidate_def lease_is_live_def e1_lease_ownership_def by (intro settle_intros)

subsection \<open>Preparing in a turn\<close>

lemma fill_groups_iff:
  "rv \<in> set (fill_groups rs s) \<longleftrightarrow> rv_root rv \<in> set rs \<and> root_group s (rv_root rv) = Some (rv_group rv)"
proof (induction rs)
  case (Cons r rs)
  show ?case
  proof (cases "find (\<lambda>x. ro_id x = r) (s_roots s)")
    case None
    with Cons show ?thesis by (auto simp: fill_groups_def root_group_def)
  next
    case (Some x)
    with Cons show ?thesis by (cases rv) (auto simp: fill_groups_def root_group_def)
  qed
qed (simp add: fill_groups_def)

lemma fill_groups_follow: "follows_roots s (fill_groups rs s)"
  by (simp add: follows_roots_def fill_groups_iff)

lemma distinct_fill_groups: "distinct rs \<Longrightarrow> distinct (map rv_root (fill_groups rs s))"
proof (induction rs)
  case (Cons r rs)
  have "rv_root ` set (fill_groups rs s) \<subseteq> set rs" by (auto simp: fill_groups_iff)
  with Cons show ?case by (auto simp: fill_groups_def split: option.splits)
qed (simp add: fill_groups_def)

lemma shadow_prepare_guard:
  assumes "shadow_ok s" "distinct (map rv_root rvs)" "follows_roots s rvs"
  shows "prepare_guard i rvs s"
proof -
  have "claims_stable s i' rvs" for i'
    using assms by (auto simp: claims_stable_def list_all_iff occurs_iff own_row_def shadow_ok_def claims_follow_def
        follows_roots_def)
  moreover have "\<not> at_home s h k" if "h \<in> {Covered, OnCard, IsSuppressed, Quarantined}" for h k
    using assms(1) that by (auto simp: shadow_ok_def shadow_only_def occurs_iff)
  ultimately show ?thesis
    by (simp add: prepare_guard_def clear_to_claim_def list_all_iff del: at_home.simps split: option.split)
qed

lemma follows_frame: "shadow_rel s s' \<Longrightarrow> follows_roots s' rvs = follows_roots s rvs"
  by (simp add: shadow_rel_def follows_roots_def root_group_def)

lemma shadow_finish_prepare:
  assumes "finish_prepare c token rvs s = Inr (out, s')" "follows_roots s rvs"
  shows "shadow_rel s s'"
proof -
  let ?role = "claim_role_for (ca_signal c)"
  obtain refused s1 where each: "claim_each (ca_id c) (ca_epoch c) ?role rvs s = Inr (refused, s1)"
    and rest: "(case refused of Some r \<Rightarrow> tx_return (ClaimRefused r) | None \<Rightarrow>
             tx_then (if ?role = Concept
                      then tx_each (\<lambda>g. tx_then (retire_frontier_row (ca_space c) g (ca_epoch c)) (tx_return ()))
                             (distinct_groups rvs)
                      else tx_return ())
             (tx_then (update_candidate (ca_id c) [Observed, RetryWait, Stale]
                (\<lambda>t x. x\<lparr>ca_state := Prepared, ca_token := Some token,
                   ca_attempt := (if ca_state c = Stale then 0 else ca_attempt c),
                   ca_reason := None, ca_next_attempt := None, ca_updated := t\<rparr>))
             (tx_return (DidPrepare token)))) s1 = Inr (out, s')"
    using assms(1) unfolding finish_prepare_def Let_def tx_bind_iff by blast
  have "shadow_rel s1 s'"
    using rest by (elim keepsD [rotated]) (intro shadow_intros)
  with shadow_claim_each [OF each assms(2)] show ?thesis by (rule shadow.store_trans)
qed

lemma shadow_prepare:
  assumes r: "prepare_candidate token i rvs s = Inr (out, s')" and f: "follows_roots s rvs"
  shows "shadow_rel s s'"
  using r
proof (cases rule: prepare_success)
  case not_due
  then show ?thesis using shadow.store_tick by simp
next
  case (lease c s1 l s2)
  have "shadow_rel s s1" using lease(2) shadow.store_tick shadow.store_refl by auto
  then have s2: "shadow_rel s s2" using keepsD [OF shadow_lease_acquire lease(3)] by (rule shadow.store_trans)
  then have "shadow_rel s2 s'" using lease(4) shadow_finish_prepare [of c _ rvs s2 out s'] f follows_frame [OF s2]
    by (auto simp: shadow.store_refl)
  with s2 show ?thesis by (rule shadow.store_trans)
qed

lemma settles_prepare:
  assumes "prepare_candidate token i rvs s = Inr (out, s')" "granted out"
    and "distinct (map rv_root rvs)" "follows_roots s rvs"
  shows "settled_rel s s'"
proof (unfold settled_rel_def, rule impI)
  assume ok: "shadow_ok s"
  then obtain A where A: "placed s A" by (auto simp: shadow_ok_def)
  from prepare_placed [OF A shadow_prepare_guard [OF ok assms(3,4)] assms(1,2)]
  obtain A' where A': "place_step\<^sup>*\<^sup>* A A'" "placed s' A'" by blast
  have "shadow_ok s'" using ok shadow_prepare [OF assms(1,4)] A'(2) by (auto simp: shadow_ok_def shadow_rel_def)
  moreover have "\<forall>k. reason_count s k = 1 \<longrightarrow> reason_count s' k = 1" using placed_step_count [OF A A'] by blast
  ultimately show "shadow_ok s' \<and> (\<forall>k. reason_count s k = 1 \<longrightarrow> reason_count s' k = 1)" ..
qed

definition requeued :: "genesis_turn option \<Rightarrow> bool" where
  "requeued t \<longleftrightarrow> (case t of Some (Requeued _ _) \<Rightarrow> True | _ \<Rightarrow> False)"

lemma settles_attempt:
  assumes r: "attempt_prepare E space_id space i proposal s = Inr (t, s')" and "\<not> requeued t" "distinct (pr_roots proposal)"
  shows "settled_rel s s'"
proof -
  let ?rvs = "fill_groups (pr_roots proposal) s"
  obtain out s1 where p: "prepare_candidate (tv_token E (s_tick s)) i ?rvs s = Inr (out, s1)"
    and rest: "(case out of
       DidPrepare _ \<Rightarrow>
         tx_bind (tx_read (published_generation space)) (\<lambda>published.
         tx_then (record_envelope i \<lparr>en_receipt = receipt_id i, en_epoch_state = Active,
             en_generation = published, en_verdict = None\<rparr>)
         (tx_then (bump space_id ''candidates_prepared'' 1)
         (tx_then (bump space_id ''shadow_turns'' 1) (tx_return (Some (PreparedTurn i))))))
     | ClaimRefused r \<Rightarrow> tx_return (Some (Requeued i (''claim refused on root '' @ r)))
     | LeaseHeld \<Rightarrow> tx_return None
     | NotDue \<Rightarrow> tx_return None) s1 = Inr (t, s')"
    using r by (auto simp: attempt_prepare_def tx_simps simp del: append.simps)
  have "granted out" using rest assms(2) by (cases out) (auto simp: granted_def requeued_def tx_simps)
  then have "settled_rel s s1"
    using p distinct_fill_groups [OF assms(3)] fill_groups_follow by (intro settles_prepare)
  moreover have "settled_rel s1 s'"
    using rest by (elim keepsD [rotated]) (cases out; simp; intro settle_intros)
  ultimately show ?thesis by (rule settling.store_trans)
qed

lemma settles_prepare_one:
  assumes r: "prepare_one E space_id space epoch proposal i s = Inr (t, s')" and t: "\<not> requeued t" and d: "distinct (pr_roots proposal)"
  shows "settled_rel s s'"
proof -
  obtain ob observed s1 where o: "observe_candidate ob s = Inr (observed, s1)"
    and rest: "(if observed = RefusedPendingCap then tx_return (Some RefusedBudget)
     else tx_bind (read_candidate i) (\<lambda>row. case row of
       None \<Rightarrow> tx_return None
     | Some c \<Rightarrow>
         if ca_state c = RetryWait \<and> retry_exhausted (ca_attempt c)
         then tx_then (mark_stale i RetryExhausted) (tx_return (Some (Parked i (reason_as_str RetryExhausted))))
         else if \<not> transition_is_legal (ca_state c) Prepared then tx_return None
         else attempt_prepare E space_id space i proposal)) s1 = Inr (t, s')"
    using r by (auto simp: prepare_one_def tx_simps)
  have s1: "settled_rel s s1" using o by (elim keepsD [rotated]) (intro settle_intros)
  have "settled_rel s1 s'"
  proof (cases "attempt_prepare E space_id space i proposal s1 = Inr (t, s')")
    case True
    with t d show ?thesis by (intro settles_attempt)
  next
    case False
    then have "keeps settled_rel (tx_then (mark_stale i RetryExhausted) (tx_return (Some (Parked i (reason_as_str RetryExhausted)))) :: genesis_turn option gtx)"
      by (intro settle_intros)
    from keepsD [OF this, of s1] show ?thesis using rest False
      by (auto simp: read_candidate_def tx_simps settling.store_refl split: if_splits option.splits)
  qed
  with s1 show ?thesis by (rule settling.store_trans)
qed

end
