(* ===== verification/Genesis_Turns.thy ===== *)
theory Genesis_Turns
  imports Genesis_Shadow
begin

text \<open>
  A turn is a sequence of transactions; a failing one is rolled back and ends the turn. Whatever relation the
  transactions keep, the turn keeps.
\<close>

section \<open>Turns\<close>

definition ses_keeps :: "('p store \<Rightarrow> 'p store \<Rightarrow> bool) \<Rightarrow> ('p, 'a) sessions \<Rightarrow> bool" where
  "ses_keeps R m \<longleftrightarrow> (\<forall>s. R s (snd (m s)))"

lemma ses_keepsD: "ses_keeps R m \<Longrightarrow> m s = (r, s') \<Longrightarrow> R s s'"
  unfolding ses_keeps_def by (metis snd_conv)

lemma ses_keeps_if: "ses_keeps R m \<Longrightarrow> ses_keeps R n \<Longrightarrow> ses_keeps R (if b then m else n)"
  by simp

text \<open>A transaction that fails is rolled back, so a session keeps what its transactions keep.\<close>

context store_order
begin

lemma ses_transaction: "keeps R m \<Longrightarrow> ses_keeps R (transaction m)"
  by (auto simp: ses_keeps_def keeps_def transaction_def store_refl split: sum.split)

lemma ses_keeps_return: "ses_keeps R (ses_return a)"
  by (simp add: ses_keeps_def ses_return_def store_refl)

lemma ses_keeps_bind:
  assumes "ses_keeps R m" "\<And>a. ses_keeps R (k a)"
  shows "ses_keeps R (ses_bind m k)"
  unfolding ses_keeps_def
proof
  fix s
  obtain r s1 where m: "m s = (r, s1)" by (cases "m s")
  have "R s s1" using ses_keepsD [OF assms(1) m] .
  moreover have "R s1 (snd (k a s1))" for a using assms(2) by (simp add: ses_keeps_def)
  ultimately show "R s (snd (ses_bind m k s))"
    using store_trans by (cases r) (auto simp: ses_bind_def m)
qed

lemmas ses_rules = ses_transaction ses_keeps_return ses_keeps_bind ses_keeps_if

end

lemma settles_recovery_scan: "ses_keeps settled_rel recovery_scan"
proof -
  have each: "ses_keeps settled_rel (recover_each is report)" for "is" report
    by (induction "is" arbitrary: report) (auto intro!: settling.ses_rules settle_intros)
  show ?thesis unfolding recovery_scan_def by (intro settling.ses_rules settle_intros each)
qed

lemma settles_reconcile_turn: "ses_keeps settled_rel (reconcile_turn E space_id space epoch)"
  unfolding reconcile_turn_def observe_space_def
  by (intro settling.ses_rules settle_intros)
    (auto split: prod.split intro!: settling.ses_rules settle_intros)

lemma settles_finalize_one: "ses_keeps settled_rel (finalize_one E space_id space)"
proof -
  have "keeps settled_rel (case outcome of
         DryRunPassed \<Rightarrow>
           tx_then (bump space_id ''dry_run_passed'' 1)
           (tx_then (bump space_id ''shadow_turns'' 1) (tx_return (Some (DryRunPassedTurn i))))
       | DryRunRefused g \<Rightarrow>
           tx_then (bump space_id (''dry_run_refused_'' @ gate_as_str g) 1)
           (tx_then (bump space_id ''shadow_turns'' 1) (tx_return (Some (DryRunRefusedTurn i g))))
       | NotEligible \<Rightarrow> tx_return None)" for i outcome
    by (cases outcome; simp; intro settle_intros)
  then show ?thesis unfolding finalize_one_def by (intro settling.ses_rules settle_intros)
qed

lemma settles_sample_oracle: "ses_keeps settled_rel (sample_oracle E space_id)"
  unfolding sample_oracle_def by (intro settling.ses_rules settle_intros)

lemma settles_open_turn: "keeps settled_rel (open_turn E space_id space)"
  unfolding open_turn_def by (intro settle_intros)

text \<open>No transaction of the turn was the one of a refused claim.\<close>

definition refusal_free :: "m6_error + genesis_turn option \<Rightarrow> bool" where
  "refusal_free r \<longleftrightarrow> (case r of Inl _ \<Rightarrow> True | Inr t \<Rightarrow> \<not> requeued t)"

lemma settles_prepare_each:
  assumes "prepare_each E space_id space epoch ps s = (r, s')" "refusal_free r" "\<forall>p \<in> set ps. distinct (pr_roots p)"
  shows "settled_rel s s'"
  using assms
proof (induction ps arbitrary: s)
  case Nil
  then show ?case by (simp add: ses_return_def settling.store_refl)
next
  case (Cons p ps)
  let ?one = "prepare_one E space_id space epoch p (candidate_id (tv_sha E) (pr_slot p) epoch)"
  show ?case
  proof (cases "?one s")
    case (Inl e)
    with Cons.prems(1) show ?thesis by (simp add: ses_bind_def transaction_def settling.store_refl)
  next
    case (Inr x)
    then obtain t s1 where one: "?one s = Inr (t, s1)" by (cases x) simp
    have r: "(case t of Some t \<Rightarrow> ses_return (Some t) | None \<Rightarrow> prepare_each E space_id space epoch ps) s1 = (r, s')"
      using Cons.prems(1) one by (simp add: ses_bind_def transaction_def)
    show ?thesis
    proof (cases t)
      case None
      then have "settled_rel s s1" using settles_prepare_one [OF one] Cons.prems(3) by (simp add: requeued_def)
      moreover have "settled_rel s1 s'" using None r Cons.prems(2,3) by (intro Cons.IH) simp_all
      ultimately show ?thesis by (rule settling.store_trans)
    next
      case (Some a)
      with r have "r = Inr t" "s' = s1" by (simp_all add: ses_return_def)
      with Cons.prems(2,3) show ?thesis using settles_prepare_one [OF one] by (simp add: refusal_free_def)
    qed
  qed
qed

text \<open>The signals only read, and what they admit lists each root once.\<close>

lemma admitted_quiet: "admitted_proposals E space_id s = Inr (ps, s') \<Longrightarrow> s' = s \<and> (\<forall>p \<in> set ps. proposal_ok s p)"
  using signal_proposals_ok(1,2) by (fastforce simp: admitted_proposals_def tx_simps)

lemma settles_prepare_turn:
  assumes "prepare_turn E space_id space epoch s = (r, s')" "refusal_free r"
  shows "settled_rel s s'"
proof (cases "admitted_proposals E space_id s")
  case (Inl e)
  with assms(1) show ?thesis by (simp add: prepare_turn_def ses_bind_def transaction_def settling.store_refl)
next
  case (Inr x)
  then obtain ps where ps: "admitted_proposals E space_id s = Inr (ps, s)" "\<forall>p \<in> set ps. proposal_ok s p"
    using admitted_quiet by (cases x) blast
  then have "prepare_each E space_id space epoch (take candidate_prepares_per_cycle_cap ps) s = (r, s')"
    using assms(1) by (simp add: prepare_turn_def ses_bind_def transaction_def)
  then show ?thesis using assms(2)
    by (rule settles_prepare_each) (use ps(2) in \<open>auto simp: proposal_ok_def dest: in_set_takeD\<close>)
qed

definition turn_clean :: "m6_error + genesis_turn \<Rightarrow> bool" where
  "turn_clean r \<longleftrightarrow> (case r of Inr (Requeued _ _) \<Rightarrow> False | _ \<Rightarrow> True)"

lemma settles_space_turn:
  assumes r: "space_turn E sample space_id space s = (r, s')" and clean: "turn_clean (map_sum id fst r)"
  shows "settled_rel s s'"
proof -
  define rest where "rest = (\<lambda>turn. if turn \<noteq> None \<and> turn \<noteq> Some RefusedBudget then ses_return (the turn, False)
           else ses_bind (finalize_one E space_id space) (\<lambda>final. case final of
             Some t \<Rightarrow> ses_return (t, False)
           | None \<Rightarrow> ses_return (if turn = Some RefusedBudget then RefusedBudget else Idle, True)) :: (genesis_turn \<times> bool) session)"
  have rest: "ses_keeps settled_rel (rest turn)" for turn
    unfolding rest_def by (intro settling.ses_rules settles_finalize_one) (auto split: option.split intro!: settling.ses_rules)
  have prep: "settled_rel s1 s2" if p: "ses_bind (prepare_turn E space_id space (cs_epoch coverage)) (rest) s1 = (r2, s2)"
    and clean: "turn_clean (map_sum id fst r2)" for s1 s2 r2 and coverage :: coverage_state
  proof -
    obtain x s3 where t: "prepare_turn E space_id space (cs_epoch coverage) s1 = (x, s3)"
      by (cases "prepare_turn E space_id space (cs_epoch coverage) s1")
    show ?thesis
    proof (cases x)
      case (Inl e)
      then show ?thesis using p t settles_prepare_turn [OF t]
        by (simp add: ses_bind_def refusal_free_def)
    next
      case (Inr turn)
      then have s2: "rest turn s3 = (r2, s2)" using p t by (simp add: ses_bind_def)
      have "\<not> requeued turn"
      proof
        assume "requeued turn"
        then obtain i y where "turn = Some (Requeued i y)"
          by (auto simp: requeued_def split: option.splits genesis_turn.splits)
        with s2 clean show False by (auto simp: rest_def ses_return_def turn_clean_def)
      qed
      then have "settled_rel s1 s3" using settles_prepare_turn [OF t] Inr
        by (simp add: refusal_free_def)
      with ses_keepsD [OF rest s2] show ?thesis by (blast intro: settling.store_trans)
    qed
  qed
  have coverage: "ses_keeps settled_rel (if sample then sample_oracle E space_id else ses_return ())"
    by (intro settling.ses_rules settles_sample_oracle)
  from r obtain c s1 where c: "transaction (open_turn E space_id space) s = (c, s1)" by (cases "transaction (open_turn E space_id space) s")
  have s1: "settled_rel s s1" using ses_keepsD [OF settling.ses_transaction [OF settles_open_turn] c] .
  show ?thesis
  proof (cases c)
    case (Inl e)
    with r c s1 show ?thesis by (simp add: space_turn_def ses_bind_def)
  next
    case (Inr cov)
    obtain o' s2 where o: "(if sample then sample_oracle E space_id else ses_return ()) s1 = (o', s2)"
      by (cases "(if sample then sample_oracle E space_id else ses_return ()) s1")
    have s2: "settled_rel s s2" using s1 ses_keepsD [OF coverage o] by (rule settling.store_trans)
    show ?thesis
    proof (cases o')
      case (Inl e)
      with r c o Inr s2 show ?thesis by (simp add: space_turn_def ses_bind_def)
    next
      case (Inr u)
      obtain w s3 where w: "reconcile_turn E space_id space (cs_epoch cov) s2 = (w, s3)"
        by (cases "reconcile_turn E space_id space (cs_epoch cov) s2")
      have s3: "settled_rel s s3" using s2 ses_keepsD [OF settles_reconcile_turn w] by (rule settling.store_trans)
      have outcome: "(case w of Inl e \<Rightarrow> (Inl e, s3) | Inr None \<Rightarrow> ses_bind (prepare_turn E space_id space (cs_epoch cov)) rest s3
          | Inr (Some t) \<Rightarrow> ses_return (t, False) s3) = (r, s')"
        using r c o w \<open>c = Inr cov\<close> Inr
        by (simp add: space_turn_def ses_bind_def rest_def split: sum.splits option.splits)
      consider e where "w = Inl e" | "w = Inr None" | t where "w = Inr (Some t)"
        by (metis option.exhaust sum.exhaust)
      then show ?thesis
      proof cases
        case 2
        then have "ses_bind (prepare_turn E space_id space (cs_epoch cov)) rest s3 = (r, s')" using outcome by simp
        from prep [OF this clean] s3 show ?thesis by (blast intro: settling.store_trans)
      qed (use outcome s3 in \<open>simp_all add: ses_return_def\<close>)
    qed
  qed
qed

lemma settles_turn:
  assumes r: "run_genesis_shadow_turn E sh s = (r, sh', s')" and clean: "turn_clean r"
  shows "settled_rel s s'"
proof -
  have recovery: "settled_rel s s1" if "recovery_scan s = (x, s1)" for x s1
    using ses_keepsD [OF settles_recovery_scan that] .
  have space: "settled_rel s s1" if "space_turn E b i n s = (x, s1)" "turn_clean (map_sum id fst x)" for b i n x s1
    by (rule settles_space_turn [OF that])
  from r clean recovery space settling.store_refl show ?thesis
    unfolding run_genesis_shadow_turn_def Let_def
    by (fastforce split: if_splits sum.splits prod.splits)
qed

end
