(* ===== verification/Genesis_Examples.thy ===== *)
theory Genesis_Examples
  imports Genesis_Turns
begin

text \<open>
  Small databases with their turns: roots in independence groups, the frontier rows of the groups, and no candidate
  yet; and a community whose evidence the first signal proposes. The examples evaluate the model on them.
\<close>

definition fresh_store :: gstore where
  "fresh_store = \<lparr>s_clock = (\<lambda>n. 1000 + int n), s_tick = 0, s_leases = [], s_frontier = [], s_suppressions = [], s_cards = [],
    s_quarantines = [], s_candidates = [], s_claims = [], s_epochs = [], s_coverage = [], s_metadata = (\<lambda>_. None),
    s_counters = (\<lambda>_. None), s_roots = [], s_edges = [], s_graph = [], s_page_claims = [], s_pages = [],
    s_page_truth = [], s_links = [], s_anchors = [], s_communities = [], s_members = [],
    s_subscriptions = [], s_spaces = [(''id1'', ''work'')], s_outbox = []\<rparr>"

definition demo_root :: "string \<Rightarrow> root" where
  "demo_root r = \<lparr>ro_id = r, ro_group = ''g1'', ro_status = ''active'', ro_kind = ''source''\<rparr>"

definition demo_edge :: "string \<Rightarrow> edge" where
  "demo_edge r = \<lparr>ed_type = ''supports'', ed_src_kind = ''claim'', ed_src = ''c'', ed_dst_kind = ''entity'', ed_dst = ''e'',
    ed_space = ''work'', ed_root = Some r,
    ed_grounded = True, ed_valid_until = None\<rparr>"

text \<open>Two roots of one independence group, with the frontier row of the group.\<close>

definition demo_store :: gstore where
  "demo_store = fresh_store\<lparr>s_roots := [demo_root ''r1'', demo_root ''r2''], s_edges := [demo_edge ''r1'', demo_edge ''r2''],
     s_frontier := [\<lparr>fr_space = ''work'', fr_group = ''g1'', fr_epoch = 1, fr_first_seen = 900, fr_next_scan = 900\<rparr>],
     s_epochs := [\<lparr>cs_space = ''work'', cs_space_id = ''id1'', cs_epoch = 1, cs_state = Active, cs_opened = 900,
        cs_cursor = None, cs_enabled = False\<rparr>]\<rparr>"

text \<open>A community with one core member, whose edges rest on the roots \<open>rs\<close>, each with its group.\<close>

definition cluster_store :: "(string \<times> string) list \<Rightarrow> gstore" where
  "cluster_store rs = fresh_store\<lparr>s_roots := map (\<lambda>(r, g). (demo_root r)\<lparr>ro_group := g\<rparr>) rs,
     s_edges := map (demo_edge \<circ> fst) rs,
     s_frontier := map (\<lambda>g. \<lparr>fr_space = ''work'', fr_group = g, fr_epoch = 1, fr_first_seen = 900, fr_next_scan = 900\<rparr>)
        (remdups (map snd rs)),
     s_epochs := [\<lparr>cs_space = ''work'', cs_space_id = ''id1'', cs_epoch = 1, cs_state = Active, cs_opened = 900,
        cs_cursor = None, cs_enabled = False\<rparr>],
     s_communities := [\<lparr>cm_id = ''c'', cm_space = ''work'', cm_retired = None\<rparr>],
     s_members := [\<lparr>mb_space = ''work'', mb_community = ''c'', mb_node = ''e'', mb_attachment = ''core''\<rparr>]\<rparr>"

definition genesis_demo_env :: turn_env where
  "genesis_demo_env = \<lparr>tv_sha = (\<lambda>_. ''ab''), tv_unicode = ascii_unicode, tv_token = (\<lambda>_. ''t''), tv_durable = (\<lambda>_. True),
     tv_divergences = (\<lambda>_ _. 0), tv_ready = (\<lambda>_ _. True)\<rparr>"

definition demo_cluster :: gstore where
  "demo_cluster = cluster_store [(''r1'', ''g1''), (''r2'', ''g2''), (''r3'', ''g3'')]"

text \<open>Two of the roots are in one group.\<close>

definition demo_double :: gstore where
  "demo_double = cluster_store [(''r1'', ''g1''), (''r2'', ''g1''), (''r3'', ''g2''), (''r4'', ''g3'')]"

definition genesis_demo_driver :: shadow_state where
  "genesis_demo_driver = \<lparr>sh_recovery = Some \<lparr>rr_reaped = 0, rr_staled = [], rr_live = 0, rr_handed_off = 0\<rparr>, sh_rotation = 0, sh_turns = 0\<rparr>"

lemmas genesis_demo_defs = fresh_store_def demo_root_def demo_edge_def demo_store_def cluster_store_def
  demo_cluster_def demo_double_def genesis_demo_env_def genesis_demo_driver_def

lemmas tx_defs = tx_return_def tx_fail_def tx_bind_def tx_then_def vector_db_def tx_read_def tx_now_def require_one_def
  committed_def affected_def delete_where_def update_where_def transaction_def ses_return_def ses_bind_def

lemmas turn_defs = run_genesis_shadow_turn_def space_turn_def open_turn_def open_coverage_epoch_def read_coverage_state_def
  sample_oracle_def reconcile_turn_def reconcile_transaction_def grouping_generation_def graph_row_def lease_acquire_def
  lease_key_def frontier_lease_ttl_seconds_def genesis_lease_ttl_seconds_def reconcile_space_def
  reconcile_expired_suppressions_def reason_counts_def reason_count_def all_homes_def eligible_groups_def
  read_cursor_def write_cursor_def scan_slice_def bump_def lease_release_def fr_key_def

lemmas prepare_defs = prepare_turn_def candidate_prepares_per_cycle_cap_def prepare_one_def observe_candidate_def
  read_candidate_def candidate_row_def pending_candidate_count_def pending_states_def pending_candidates_per_space_cap_def
  transition_is_legal_def candidate_transitions_def attempt_prepare_def fill_groups_def prepare_candidate_def get_candidate_def
  finish_prepare_def insert_claim_def concept_live_def oracle_sample_turns_def sat_inc_def Let_def

lemma demo_digest: "m6_digest (\<lambda>_. ''ab'') d ps = ''6162''"
  by (simp add: m6_digest_def hex_text_def hex_char_def char_of_def bit_Suc_0_iff)

lemma demo_candidate_id: "candidate_id (\<lambda>_. ''ab'') slot 1 = ''6162''"
  by (simp add: candidate_id_def demo_digest)

text \<open>The evidence of a community on distinct roots, in any scope that takes its edges.\<close>

definition clustered :: "(string \<times> string) list \<Rightarrow> gstore \<Rightarrow> bool" where
  "clustered rs s \<longleftrightarrow> distinct (map fst rs) \<and> s_roots s = s_roots (cluster_store rs) \<and> s_edges s = s_edges (cluster_store rs)
     \<and> s_pages s = [] \<and> s_links s = [] \<and> s_subscriptions s = [] \<and> s_communities s = s_communities (cluster_store rs)
     \<and> s_members s = s_members (cluster_store rs) \<and> s_spaces s = [(''id1'', ''work'')]"

lemma filter_root:
  "distinct (map fst rs) \<Longrightarrow> (r, g) \<in> set rs
    \<Longrightarrow> filter (\<lambda>x. r = ro_id x) (map (\<lambda>(r, g). (demo_root r)\<lparr>ro_group := g\<rparr>) rs) = [(demo_root r)\<lparr>ro_group := g\<rparr>]"
proof (induction rs)
  case (Cons q qs)
  have none: "filter (\<lambda>x. fst q = ro_id x) (map (\<lambda>(r, g). (demo_root r)\<lparr>ro_group := g\<rparr>) qs) = []"
  proof -
    have "fst x \<noteq> fst q" if "x \<in> set qs" for x
      using that Cons.prems(1) by (metis distinct.simps(2) image_eqI list.set_map list.simps(9))
    then have "ro_id ((demo_root (fst x))\<lparr>ro_group := snd x\<rparr>) \<noteq> fst q" if "x \<in> set qs" for x
      using that by (simp add: demo_root_def)
    then show ?thesis by (force simp: filter_empty_conv split_beta)
  qed
  show ?case
  proof (cases "q = (r, g)")
    case True
    with none show ?thesis by (simp add: demo_root_def)
  next
    case False
    then have "(r, g) \<in> set qs" using Cons.prems by auto
    moreover from this have "fst q \<noteq> r" using Cons.prems(1)
      by (metis distinct.simps(2) fst_conv image_eqI list.set_map list.simps(9))
    ultimately have "(r, g) \<in> set qs" "fst q \<noteq> r" by blast+
    with Cons show ?thesis by (cases q) (simp add: demo_root_def)
  qed
qed simp

lemma cluster_evidence:
  assumes "clustered rs s" "\<And>r. P (demo_edge r)"
  shows "live_evidence P s = map (\<lambda>(r, g). (demo_edge r, (demo_root r)\<lparr>ro_group := g\<rparr>)) rs" (is ?live)
    and "counted_evidence P s = map (\<lambda>(r, g). (demo_edge r, (demo_root r)\<lparr>ro_group := g\<rparr>)) rs"
proof -
  let ?roots = "map (\<lambda>(r, g). (demo_root r)\<lparr>ro_group := g\<rparr>) rs"
  have "concat (map (\<lambda>e. if ed_grounded e \<and> ed_valid_until e = None \<and> P e
       then map (Pair e) (filter (\<lambda>r. ed_root e = Some (ro_id r) \<and> ro_status r = ''active'' \<and> ro_kind r \<noteq> ''generated'') ?roots)
       else []) (map (demo_edge \<circ> fst) qs)) = map (\<lambda>(r, g). (demo_edge r, (demo_root r)\<lparr>ro_group := g\<rparr>)) qs"
    if "set qs \<subseteq> set rs" for qs
    using that
  proof (induction qs)
    case (Cons q qs)
    have ok: "filter (\<lambda>x. Some r = Some (ro_id x) \<and> ro_status x = ''active'' \<and> ro_kind x \<noteq> ''generated'') ?roots
        = filter (\<lambda>x. r = ro_id x) ?roots" for r
      by (rule filter_cong) (auto simp: demo_root_def)
    have "filter (\<lambda>x. fst q = ro_id x) ?roots = [(demo_root (fst q))\<lparr>ro_group := snd q\<rparr>]"
      using Cons.prems assms(1) by (intro filter_root) (auto simp: clustered_def)
    with Cons show ?case using assms(2) ok by (cases q) (simp add: demo_edge_def)
  qed simp
  from this [of rs] show ?live using assms(1)
    by (simp add: live_evidence_def clustered_def cluster_store_def cong: if_cong)
  then show "counted_evidence P s = map (\<lambda>(r, g). (demo_edge r, (demo_root r)\<lparr>ro_group := g\<rparr>)) rs"
    using assms(1) by (simp add: counted_evidence_def touches_overview_def clustered_def occurs_def)
qed

lemma cluster_scope:
  assumes "clustered rs s" "\<And>r. P (demo_edge r)"
  shows "distinct_group_count P s = int (length (remdups (map snd rs)))"
    and "scoped_root_ids P s = take 64 (sort (map fst rs))" and "scoped_grounded_node_count P s \<le> 1"
proof -
  have d: "distinct (map fst rs)" using assms(1) by (simp add: clustered_def)
  have m: "map (ro_group \<circ> snd) (counted_evidence P s) = map snd rs" "map (ro_id \<circ> snd) (counted_evidence P s) = map fst rs"
    by (auto simp: cluster_evidence(2) [where P = P, OF assms] demo_root_def)
  show "distinct_group_count P s = int (length (remdups (map snd rs)))"
    unfolding distinct_group_count_def m ..
  show "scoped_root_ids P s = take 64 (sort (map fst rs))"
    unfolding scoped_root_ids_def m roots_per_candidate_cap_def using d by (simp add: distinct_remdups_id)
  have es: "map fst (live_evidence P s) = map (demo_edge \<circ> fst) rs"
    unfolding cluster_evidence(1) [where P = P, OF assms] by auto
  have "filter (\<lambda>e. ed_src_kind e = ''entity'') (map (demo_edge \<circ> fst) rs) = []"
    "filter (\<lambda>e. ed_dst_kind e = ''entity'') (map (demo_edge \<circ> fst) rs) = map (demo_edge \<circ> fst) rs"
    "map ed_dst (map (demo_edge \<circ> fst) rs) = map (\<lambda>_. ''e'') rs"
    by (simp_all add: filter_empty_conv filter_id_conv demo_edge_def)
  then have "map ed_src (filter (\<lambda>e. ed_src_kind e = ''entity'') (map fst (live_evidence P s)))
      @ map ed_dst (filter (\<lambda>e. ed_dst_kind e = ''entity'') (map fst (live_evidence P s))) = map (\<lambda>_. ''e'') rs"
    by (simp only: es list.map append_Nil)
  then have "scoped_grounded_node_count P s = length (remdups (map (\<lambda>_. ''e'') rs))"
    by (simp only: scoped_grounded_node_count_def Let_def)
  moreover have "length (remdups (map (\<lambda>_. ''e'') rs)) \<le> 1"
    by (simp add: length_remdups_card_conv image_constant_conv)
  ultimately show "scoped_grounded_node_count P s \<le> 1" by simp
qed

text \<open>The signals admit the evidence cluster of the community, and nothing else.\<close>

definition demo_proposal :: "(string \<times> string) list \<Rightarrow> proposal" where
  "demo_proposal rs = \<lparr>pr_slot = ''6162'', pr_page = ''m6p_6162'', pr_signal = EvidenceCluster, pr_roots = take 64 (sort (map fst rs)),
     pr_group_count = int (length (remdups (map snd rs)))\<rparr>"

lemma cluster_signals:
  assumes "clustered rs s" "3 \<le> length (remdups (map snd rs))"
  shows "admitted_proposals genesis_demo_env ''id1'' s = Inr ([demo_proposal rs], s)"
proof -
  have member: "member_predicate [''e''] (demo_edge r)" for r by (simp add: member_predicate_def demo_edge_def)
  have space: "ed_space (demo_edge r) = ''work''" for r by (simp add: demo_edge_def)
  have name: "resolve_space_name ''id1'' s = Inr (''work'', s)" using assms(1) by (simp add: resolve_space_name_def clustered_def)
  have nodes: "\<not> 5 \<le> scoped_grounded_node_count P s" if "\<And>r. P (demo_edge r)" for P
    using cluster_scope(3) [OF assms(1), of P] that by fastforce
  have members: "community_member_node_ids ''work'' ''c'' a s = [''e'']" if "a = None \<or> a = Some ''core''" for a
    using assms(1) that by (auto simp: community_member_node_ids_def clustered_def cluster_store_def)
  have current: "current_communities ''work'' s = [''c'']"
    using assms(1) by (simp add: current_communities_def clustered_def cluster_store_def)
  have "evidence_cluster_of genesis_demo_env ''id1'' ''work'' s ''c'' = Some (demo_proposal rs)"
  proof -
    have floor: "admits (distinct_group_count (member_predicate [''e'']) s)"
      using assms(2) by (simp add: cluster_scope(1) [where P = "member_predicate [''e'']", OF assms(1) member] admits_def
          independence_group_floor_def)
    have sha: "tv_sha genesis_demo_env = (\<lambda>_. ''ab'')" by (simp add: genesis_demo_env_def)
    have "slot_id_evidence_cluster (\<lambda>_. ''ab'') i gs = ''6162''" "page_id (\<lambda>_. ''ab'') slot = ''m6p_6162''" for i gs slot
      by (simp_all only: slot_id_evidence_cluster_def page_id_def demo_digest page_id_prefix_def append.simps)
    then show ?thesis
      using floor cluster_scope(1,2) [where P = "member_predicate [''e'']", OF assms(1) member]
      by (simp only: evidence_cluster_of_def members simp_thms if_True if_False list.distinct Let_def sha demo_proposal_def)
  qed
  moreover have "community_overview_of genesis_demo_env ''id1'' ''work'' s ''c'' = None"
    using nodes [of "member_predicate [''e'']", OF member] by (simp add: community_overview_of_def members Let_def min_grounded_nodes_overview_def)
  moreover have "space_overview genesis_demo_env ''id1'' s = Inr (None, s)"
    using nodes [of "\<lambda>e. ed_space e = ''work''"] space
    by (simp add: space_overview_def tx_bind_def tx_read_def name Let_def min_grounded_nodes_overview_def)
  moreover have "orphan_wikilink genesis_demo_env ''id1'' s = Inr ([], s)"
    using assms(1) by (simp add: orphan_wikilink_def tx_bind_def tx_read_def name orphan_candidate_pages_def orphan_rows_def
        clustered_def map_filter_def)
  ultimately show ?thesis
    by (simp add: admitted_proposals_def signal_proposals_def evidence_cluster_def community_overview_def tx_bind_def tx_read_def
        tx_return_def name current map_filter_def) (simp add: genesis_demo_env_def)
qed

lemma cluster_signals_demo [unfolded genesis_demo_env_def]:
  "clustered [(''r1'', ''g1''), (''r2'', ''g2''), (''r3'', ''g3'')] s \<Longrightarrow> admitted_proposals genesis_demo_env ''id1'' s
     = Inr ([demo_proposal [(''r1'', ''g1''), (''r2'', ''g2''), (''r3'', ''g3'')]], s)"
  "clustered [(''r1'', ''g1''), (''r2'', ''g1''), (''r3'', ''g2''), (''r4'', ''g3'')] s \<Longrightarrow> admitted_proposals genesis_demo_env ''id1'' s
     = Inr ([demo_proposal [(''r1'', ''g1''), (''r2'', ''g1''), (''r3'', ''g2''), (''r4'', ''g3'')]], s)"
  by (simp_all add: cluster_signals)

text \<open>Over one root for each group the turn prepares the candidate.\<close>

lemma demo_prepare:
  "\<exists>sh' s'. run_genesis_shadow_turn genesis_demo_env genesis_demo_driver demo_cluster = (Inr (PreparedTurn ''6162''), sh', s')"
  by (simp add: turn_defs prepare_defs tx_defs genesis_demo_defs cluster_signals_demo clustered_def demo_proposal_def demo_candidate_id frontier_scan_slice_rows_def
      distinct_groups_def retire_frontier_row_def delete_frontier_def update_candidate_def record_envelope_def
      affected_def)

end
