(* ===== verification/Genesis_Operations.thy ===== *)
theory Genesis_Operations
  imports Genesis_Examples
begin

text \<open>
  Accounted tables, every operation of the genesis tables as one transaction, and the refinement of the placement by
  each of them; the reconciliation of a space.
\<close>

section \<open>Accounted stores\<close>

definition accounted :: "'p store \<Rightarrow> bool" where
  "accounted s \<longleftrightarrow> schema_ok s \<and> (\<forall>k. reason_count s k \<le> 1)"

lemma accounted_iff: "accounted s \<longleftrightarrow> (\<exists>A. placed s A)"
proof
  assume "\<exists>A. placed s A"
  then obtain A where A: "placed s A" ..
  then have "reason_count s k \<le> 1" for k by (simp add: placed_reason_count split: option.split)
  with A show "accounted s" by (simp add: accounted_def booked_def)
next
  assume acc: "accounted s"
  define A where "A = (\<lambda>k. find (\<lambda>h. at_home s h k) all_homes)"
  have "at_home s h k \<longleftrightarrow> A k = Some h" for h k
  proof -
    have one: "length (filter (\<lambda>h. at_home s h k) all_homes) \<le> 1"
      using acc by (simp add: accounted_def reason_count_def)
    show ?thesis using one unfolding A_def all_homes_def
      by (cases h) (simp_all del: at_home.simps split: if_splits)
  qed
  then have "placed s A" using acc by (simp add: booked_def accounted_def)
  then show "\<exists>A. placed s A" by blast
qed

lemma demo_schema: "schema_ok demo_store"
  by (simp add: schema_ok_def genesis_demo_defs unique_key_def)

lemma demo_accounted: "accounted demo_store"
  by (simp add: accounted_def demo_schema reason_count_def all_homes_def) (simp add: genesis_demo_defs)

lemma demo_cluster_accounted: "accounted demo_cluster"
proof -
  have "schema_ok demo_cluster" by (simp add: schema_ok_def genesis_demo_defs unique_key_def fr_key_def)
  then show ?thesis
    by (simp add: accounted_def reason_count_def all_homes_def) (simp add: genesis_demo_defs)
qed

section \<open>The operations\<close>

datatype genesis_op =
    Suppress string string int string string
  | BindCard string int string "(string \<times> string) list"
  | Surface "string \<Rightarrow> string" string string int
  | LapseExpired string int
  | Quarantine string string int string
  | LiftQuarantine string string int
  | DismissCard string string
  | ReconcileSpace string int
  | ExpireCard string string int
  | DeferScan string string int int
  | ObserveCandidate observed_candidate
  | PrepareCandidate string string "claim_reservation list"
  | ToInferencing string
  | ToValidating string
  | ToRetryWait string retry_charge
  | ToStale string stale_reason
  | ToSuperseded string
  | ToReview string string
  | ToSuppressed string string string
  | CompactPayloads string int
  | OpenEpoch string string
  | BeginMigration string
  | CompleteMigration string
  | AbandonMigration string

definition only :: "('p, 'a) tx \<Rightarrow> ('p, unit) tx" where
  "only m = tx_bind m (\<lambda>_. tx_return ())"

text \<open>
  A transaction is rolled back when the operation fails and committed otherwise, also when it reports a
  refusal as a value: the callers commit the refusals of a preparation, although its documentation asks
  them to roll a refused claim back.
\<close>

fun op_tx :: "genesis_op \<Rightarrow> ('p, unit) tx" where
  "op_tx (Suppress sp g e page reason) = suppress_frontier_group sp g e page reason"
| "op_tx (BindCard sp e cid gs) = only (bind_frontier_groups_to_card sp e cid gs)"
| "op_tx (Surface sha sp i e) = only (surface_below_floor_groups sha sp i e)"
| "op_tx (LapseExpired sp e) = only (reconcile_expired_suppressions sp e)"
| "op_tx (Quarantine sp g e reason) = quarantine_frontier_group sp g e reason"
| "op_tx (LiftQuarantine sp g e) = only (lift_quarantine_to_frontier sp g e)"
| "op_tx (DismissCard cid reason) = only (dismiss_card_to_suppression cid reason)"
| "op_tx (ReconcileSpace sp e) = only (reconcile_space sp e)"
| "op_tx (ExpireCard sp g e) = only (expire_card_binding_to_frontier sp g e)"
| "op_tx (DeferScan sp g e delay) = only (defer_scan sp g e delay)"
| "op_tx (ObserveCandidate ob) = only (observe_candidate ob)"
| "op_tx (PrepareCandidate token i rvs) = only (prepare_candidate token i rvs)"
| "op_tx (ToInferencing i) = mark_inferencing i"
| "op_tx (ToValidating i) = mark_validating i"
| "op_tx (ToRetryWait i charge) = mark_retry_wait i charge"
| "op_tx (ToStale i reason) = mark_stale i reason"
| "op_tx (ToSuperseded i) = mark_superseded i"
| "op_tx (ToReview i cid) = mark_review_required i cid"
| "op_tx (ToSuppressed i cid reason) = mark_suppressed i cid reason"
| "op_tx (CompactPayloads sp n) = only (compact_terminal_payloads sp n)"
| "op_tx (OpenEpoch i sp) = only (open_coverage_epoch i sp)"
| "op_tx (BeginMigration i) = begin_epoch_migration i"
| "op_tx (CompleteMigration i) = only (complete_epoch_migration i)"
| "op_tx (AbandonMigration i) = abandon_epoch_migration i"

text \<open>
  The caller's part, for a preparation only: the groups a concept candidate claims are new, in the
  frontier, or its own claims already, its roots have not changed their groups, and no claim is
  refused. What a committed refusal does is the subject of \<open>Genesis_Stall\<close>.
\<close>

fun op_guard :: "genesis_op \<Rightarrow> 'p store \<Rightarrow> bool" where
  "op_guard (PrepareCandidate token i rvs) s \<longleftrightarrow> prepare_guard i rvs s
     \<and> (case prepare_candidate token i rvs s of Inl _ \<Rightarrow> True | Inr (out, _) \<Rightarrow> granted out)"
| "op_guard _ s = True"

lemma moves_epochs [moves_intros]:
  "moves_groups (update_epochs i st f)" "moves_groups (begin_epoch_migration i)"
  "moves_groups (complete_epoch_migration i)" "moves_groups (abandon_epoch_migration i)"
proof -
  show u: "moves_groups (update_epochs i st f)" for st f
    by (rule moves_same) (auto simp: update_epochs_def Let_def)
  show "moves_groups (begin_epoch_migration i)" "moves_groups (complete_epoch_migration i)"
    "moves_groups (abandon_epoch_migration i)"
    unfolding begin_epoch_migration_def complete_epoch_migration_def abandon_epoch_migration_def read_coverage_state_def
    by (intro u moves_intros)+
qed

lemma moves_surface [moves_intros]: "moves_groups (surface_below_floor_groups sha sp i e)"
  unfolding surface_below_floor_groups_def below_floor_groups_def by (intro moves_intros)

lemma moves_only [moves_intros]: "moves_groups m \<Longrightarrow> moves_groups (only m)"
  unfolding only_def by (intro moves_intros)

lemma op_refines:
  assumes b: "placed s A" and guard: "op_guard op s" and r: "op_tx op s = Inr (u, s')"
  shows "\<exists>A'. place_step\<^sup>*\<^sup>* A A' \<and> placed s' A'"
proof (cases "\<exists>token i rvs. op = PrepareCandidate token i rvs")
  case True
  then obtain token i rvs where op: "op = PrepareCandidate token i rvs" by blast
  with r guard obtain out where "prepare_candidate token i rvs s = Inr (out, s')" "granted out"
    by (auto simp: only_def tx_simps)
  then show ?thesis using prepare_placed [OF b] guard op by simp
next
  case False
  then have "moves_groups (op_tx op :: ('a, unit) tx)" by (cases op) (auto intro!: moves_intros)
  then show ?thesis using b r by (rule moves_groupsD)
qed

text \<open>C3 (refinement). Every operation of the genesis tables, committed as its callers commit it, moves the
  groups along the steps of their placement: a group that is accounted for at one home is taken from there
  and put at one other, and no group has two homes or loses the last. Of a preparation this is claimed when
  its groups are free to be claimed and no claim is refused (\<open>op_guard\<close>); every other operation needs
  nothing but accounted tables.\<close>

theorem genesis_operations_refine_placement:
  assumes "placed s A" "op_guard op s"
  shows "\<exists>A'. place_step\<^sup>*\<^sup>* A A' \<and> placed (committed (op_tx op) s) A'"
proof (cases "op_tx op s")
  case (Inl e)
  with assms(1) show ?thesis by (auto simp: committed_def)
next
  case (Inr x)
  then obtain u s' where "op_tx op s = Inr (u, s')" by (cases x) simp
  with op_refines [OF assms this] show ?thesis by (simp add: committed_def)
qed

definition demo_observed :: gstore where
  "demo_observed = demo_store\<lparr>s_candidates := [\<lparr>ca_id = ''c1'', ca_slot = ''slot'', ca_page = ''page'', ca_space = ''work'',
     ca_signal = EvidenceCluster, ca_epoch = 1, ca_generation = 0, ca_digest = ''d'', ca_state = Observed, ca_reason = None,
     ca_attempt = 0, ca_next_attempt = None, ca_token = None, ca_receipt = None, ca_payload = None, ca_compacted = None,
     ca_created = 950, ca_updated = 950\<rparr>]\<rparr>"

lemma demo_observed_placed: "placed demo_observed [(''work'', ''g1'', 1) \<mapsto> InFrontier]"
proof (rule bookedI)
  show "schema_ok demo_observed" by (simp add: schema_ok_def demo_observed_def genesis_demo_defs unique_key_def)
  show "at_home demo_observed h k \<longleftrightarrow> k \<notin> {} \<and> [(''work'', ''g1'', 1) \<mapsto> InFrontier] k = Some h \<or> h = InFrontier \<and> k \<in> {}" for h k
    by (cases h) (auto simp: demo_observed_def genesis_demo_defs fr_key_def)
qed

theorem genesis_operations_refine_placement_witness:
  "\<exists>A'. place_step\<^sup>*\<^sup>* [(''work'', ''g1'', 1) \<mapsto> InFrontier] A'
    \<and> placed (committed (op_tx (PrepareCandidate ''t'' ''c1'' [\<lparr>rv_root = ''r1'', rv_group = ''g1''\<rparr>])) demo_observed) A'"
proof (rule genesis_operations_refine_placement [OF demo_observed_placed])
  have "case prepare_candidate ''t'' ''c1'' [\<lparr>rv_root = ''r1'', rv_group = ''g1''\<rparr>] demo_observed of
      Inl _ \<Rightarrow> True | Inr (out, _) \<Rightarrow> granted out" by code_simp
  then show "op_guard (PrepareCandidate ''t'' ''c1'' [\<lparr>rv_root = ''r1'', rv_group = ''g1''\<rparr>]) demo_observed"
    unfolding op_guard.simps by (rule conjI [rotated]) (simp add: prepare_guard_def candidate_row_def clear_to_claim_def claims_stable_def claim_key_def demo_observed_def genesis_demo_defs)
qed

section \<open>Reconciling\<close>

text \<open>C5 (functional). Over accounted tables, \<open>reconcile_space\<close> never reports a conflict; when it succeeds, every
  eligible group of the space has exactly one home, the tables are accounted still, and the repaired groups are
  those that had no home once the expired suppressions had lapsed.\<close>

theorem reconcile_space_accounts_for_every_group:
  assumes "accounted s"
  shows "case reconcile_space sp e s of
      Inl err \<Rightarrow> err \<noteq> Conflict
    | Inr (out, s') \<Rightarrow> accounted s' \<and> list_all (\<lambda>g. reason_count s' (sp, g, e) = 1) (eligible_groups sp s')
        \<and> (case reconcile_expired_suppressions sp e s of
             Inl _ \<Rightarrow> False
           | Inr (n, s1) \<Rightarrow> oc_lapsed out = n
               \<and> oc_repaired out = filter (\<lambda>g. reason_count s1 (sp, g, e) = 0) (eligible_groups sp s1))"
proof -
  from assms obtain A where A: "placed s A" by (auto simp: accounted_iff)
  show ?thesis
  proof (cases "reconcile_space sp e s")
    case (Inl err)
    then show ?thesis using reconcile_no_conflict [OF A] by auto
  next
    case (Inr x)
    then obtain out s' where r: "reconcile_space sp e s = Inr (out, s')" by (cases x) simp
    from A r show ?thesis
    proof (rule reconcile_success)
      fix A1 s1
      assume "reconcile_expired_suppressions sp e s = Inr (oc_lapsed out, s1)"
        "placed s' (moved A1 ((\<lambda>g. (sp, g, e)) ` set (oc_repaired out)) InFrontier)"
        "oc_repaired out = filter (\<lambda>g. reason_count s1 (sp, g, e) = 0) (eligible_groups sp s1)"
      then show ?thesis using reconcile_complete [OF A r]
        by (auto simp: r accounted_iff list_all_iff simp del: at_home.simps)
    qed
  qed
qed

theorem reconcile_space_accounts_for_every_group_witness:
  "case reconcile_space ''work'' 1 (demo_store\<lparr>s_frontier := []\<rparr>) of
      Inl err \<Rightarrow> err \<noteq> Conflict
    | Inr (out, s') \<Rightarrow> accounted s' \<and> list_all (\<lambda>g. reason_count s' (''work'', g, 1) = 1) (eligible_groups ''work'' s')
        \<and> (case reconcile_expired_suppressions ''work'' 1 (demo_store\<lparr>s_frontier := []\<rparr>) of
             Inl _ \<Rightarrow> False
           | Inr (n, s1) \<Rightarrow> oc_lapsed out = n
               \<and> oc_repaired out = filter (\<lambda>g. reason_count s1 (''work'', g, 1) = 0) (eligible_groups ''work'' s1))"
proof (rule reconcile_space_accounts_for_every_group)
  have "schema_ok (demo_store\<lparr>s_frontier := []\<rparr>)" by (simp add: schema_ok_def genesis_demo_defs unique_key_def)
  then show "accounted (demo_store\<lparr>s_frontier := []\<rparr>)"
    by (simp add: accounted_def reason_count_def all_homes_def) (simp add: genesis_demo_defs)
qed

end
