(* ===== verification/Genesis_Tables.thy ===== *)
theory Genesis_Tables
  imports Genesis_Operations
begin

text \<open>
  Leases and candidate rows over every operation: a phase of a space has one lease row, a candidate's row moves
  along the legal transitions only, and its columns are set as its state demands.
\<close>

section \<open>Leases and candidate rows over every operation\<close>

definition same_identity :: "'p candidate \<Rightarrow> 'p candidate \<Rightarrow> bool" where
  "same_identity c d \<longleftrightarrow> ca_id d = ca_id c \<and> ca_space d = ca_space c \<and> ca_epoch d = ca_epoch c
     \<and> ca_signal d = ca_signal c \<and> ca_slot d = ca_slot c \<and> ca_page d = ca_page c \<and> ca_created d = ca_created c
     \<and> ca_generation d = ca_generation c \<and> ca_digest d = ca_digest c"

text \<open>
  The columns that go with a state: who holds the lease, why the row is where it is, when it is due again.
  A row in a state of work has no reason, one that waits for a retry neither. No operation publishes a
  candidate yet: the finalization is a dry run, so no row is published.
\<close>

definition row_ok :: "'p candidate \<Rightarrow> bool" where
  "row_ok c \<longleftrightarrow> (case ca_state c of
       Observed \<Rightarrow> ca_token c = None \<and> ca_reason c = None \<and> ca_next_attempt c = None
     | Prepared \<Rightarrow> ca_token c \<noteq> None \<and> ca_reason c = None \<and> ca_next_attempt c = None
     | Inferencing \<Rightarrow> ca_token c \<noteq> None \<and> ca_reason c = None \<and> ca_next_attempt c = None
     | Validating \<Rightarrow> ca_token c \<noteq> None \<and> ca_reason c = None \<and> ca_next_attempt c = None
     | RetryWait \<Rightarrow> ca_token c \<noteq> None \<and> ca_reason c = None \<and> ca_next_attempt c \<noteq> None
     | Stale \<Rightarrow> ca_token c = None \<and> ca_reason c \<noteq> None \<and> ca_next_attempt c \<noteq> None
     | Published \<Rightarrow> False
     | _ \<Rightarrow> ca_token c = None \<and> ca_reason c \<noteq> None \<and> ca_next_attempt c = None)"

lemma row_ok_frame [simp]:
  "row_ok (c\<lparr>ca_payload := p\<rparr>) = row_ok c" "row_ok (c\<lparr>ca_receipt := r\<rparr>) = row_ok c" "row_ok (c\<lparr>ca_updated := t\<rparr>) = row_ok c"
  "row_ok (c\<lparr>ca_compacted := k\<rparr>) = row_ok c"
  by (simp_all add: row_ok_def cong: candidate_state.case_cong)

text \<open>A row stays, keeps what identifies it, moves along legal transitions only, and stays well-formed.\<close>

definition follows_machine :: "'p candidate \<Rightarrow> 'p candidate \<Rightarrow> bool" where
  "follows_machine c d \<longleftrightarrow> same_identity c d \<and> transition_is_legal\<^sup>*\<^sup>* (ca_state c) (ca_state d)
     \<and> (row_ok c \<longrightarrow> row_ok d)"

definition table_rel :: "'p store \<Rightarrow> 'p store \<Rightarrow> bool" where
  "table_rel s s' \<longleftrightarrow> holder_kept s s'
     \<and> (list_all row_ok (s_candidates s) \<longrightarrow> list_all row_ok (s_candidates s'))
     \<and> (\<forall>i c. candidate_row i s = Some c \<longrightarrow> (\<exists>d. candidate_row i s' = Some d \<and> follows_machine c d))"

lemma follows_machine_refl: "follows_machine c c"
  by (simp add: follows_machine_def same_identity_def)

lemma follows_machine_trans: "follows_machine c d \<Longrightarrow> follows_machine d e \<Longrightarrow> follows_machine c e"
  by (auto simp: follows_machine_def same_identity_def)

interpretation tabling: store_order table_rel
proof
  fix s t u :: "'a store"
  show "table_rel s s" by (auto simp: table_rel_def holders.store_refl intro: follows_machine_refl)
  show "table_rel s (s\<lparr>s_tick := n\<rparr>)" for n
    by (auto simp: table_rel_def holders.store_tick intro: follows_machine_refl)
  show "table_rel s t \<Longrightarrow> table_rel t u \<Longrightarrow> table_rel s u"
    unfolding table_rel_def by (meson holders.store_trans follows_machine_trans)
qed

named_theorems table_intros \<open>operations that keep holders and candidate rows\<close>

declare tabling.keeps_rules [table_intros]

lemma table_frameI: "s_leases s' = s_leases s \<Longrightarrow> s_candidates s' = s_candidates s \<Longrightarrow> table_rel s s'"
  by (auto simp: table_rel_def holder_kept_def single_holder_def candidate_row_def intro: follows_machine_refl)

lemma table_leaseI: "holder_kept s s' \<Longrightarrow> s_candidates s' = s_candidates s \<Longrightarrow> table_rel s s'"
  by (auto simp: table_rel_def candidate_row_def intro: follows_machine_refl)

lemma table_leases [table_intros]:
  "keeps table_rel (lease_acquire token phase space generation attempt)"
  "keeps table_rel (lease_release phase space generation token)" "keeps table_rel reap_expired_m6_phases"
proof -
  show "keeps table_rel (lease_acquire token phase space generation attempt)"
    by (rule keepsI, rule table_leaseI, rule keepsD [OF single_acquire]) (auto simp: lease_acquire_def tx_simps split: if_splits)
  show "keeps table_rel (lease_release phase space generation token)"
    by (rule keepsI, rule table_leaseI, rule keepsD [OF single_release]) (auto simp: lease_release_def Let_def)
  show "keeps table_rel reap_expired_m6_phases"
    by (rule keepsI, rule table_leaseI, rule keepsD [OF single_reap]) (auto simp: reap_expired_m6_phases_def Let_def tx_simps)
qed

lemma table_statements [table_intros]:
  "keeps table_rel (insert_frontier r)" "keeps table_rel (insert_frontier_or_ignore r)" "keeps table_rel (delete_frontier k)"
  "keeps table_rel (frontier_first_seen_at k)" "keeps table_rel (write_cursor space cursor)" "keeps table_rel (bump space_id name by)"
  "keeps table_rel (update_epochs i st g)"
  by (auto intro!: keepsI table_frameI simp: insert_frontier_def insert_frontier_or_ignore_def delete_frontier_def
      frontier_first_seen_at_def write_cursor_def bump_def update_epochs_def Let_def split: if_splits option.splits)

lemma table_reads [table_intros]:
  "keeps table_rel (read_candidate i)" "keeps table_rel (get_candidate i)" "keeps table_rel (backoff_elapsed i)"
  "keeps table_rel (guard_transition a b)" "keeps table_rel (candidate_concept_groups i live)"
  "keeps table_rel (read_coverage_state i)" "keeps table_rel (read_cursor space)" "keeps table_rel (open_card_bindings cid)"
  "keeps table_rel (scan_slice space epoch cursor)" "keeps table_rel (lease_owns phase space generation token)"
  "keeps table_rel (below_floor_groups space epoch)"
  unfolding read_candidate_def get_candidate_def backoff_elapsed_def guard_transition_def candidate_concept_groups_def
    read_coverage_state_def read_cursor_def scan_slice_def lease_owns_def open_card_bindings_def below_floor_groups_def
  by (intro table_intros)+

lemma table_homes [table_intros]:
  "keeps table_rel (insert_suppression k page reason first_seen)" "keeps table_rel (insert_card_binding k cid page first_seen)"
  "keeps table_rel (close_cards P)" "keeps table_rel (defer_scan space gid epoch delay)"
  unfolding insert_suppression_def insert_card_binding_def close_cards_def defer_scan_def
  by (intro table_intros; intro keepsI table_frameI; auto simp: Let_def split: if_splits prod.splits)+

lemma table_policy [table_intros]:
  "keeps table_rel (suppress_frontier_group space gid epoch page reason)" "keeps table_rel (bind_group space epoch cid pair)"
  "keeps table_rel (bind_frontier_groups_to_card space epoch cid groups)"
  "keeps table_rel (lapse_suppression e)" "keeps table_rel (reconcile_expired_suppressions space epoch)"
  "keeps table_rel (dismiss_card_to_suppression cid reason)"
  "keeps table_rel (insert_frontier_row space gid epoch)" "keeps table_rel (retire_frontier_row space gid epoch)"
  "keeps table_rel (expire_card_binding_to_frontier space gid epoch)"
  "keeps table_rel (reconcile_space space epoch)"
proof -
  show b: "keeps table_rel (bind_group space epoch cid pair)" for pair
    unfolding bind_group_def by (intro table_intros)
  show l: "keeps table_rel (lapse_suppression e)" for e
    unfolding lapse_suppression_def by (intro table_intros; intro keepsI table_frameI) (auto simp: Let_def)
  show x: "keeps table_rel (reconcile_expired_suppressions space epoch)"
    unfolding reconcile_expired_suppressions_def by (intro l table_intros)
  show i: "keeps table_rel (insert_frontier_row space gid epoch)" for gid
    unfolding insert_frontier_row_def by (intro table_intros)
  show "keeps table_rel (reconcile_space space epoch)"
    unfolding reconcile_space_def by (intro x i table_intros)
  show "keeps table_rel (bind_frontier_groups_to_card space epoch cid groups)"
    unfolding bind_frontier_groups_to_card_def by (intro b table_intros)
  show "keeps table_rel (suppress_frontier_group space gid epoch page reason)"
    "keeps table_rel (dismiss_card_to_suppression cid reason)" "keeps table_rel (retire_frontier_row space gid epoch)"
    "keeps table_rel (expire_card_binding_to_frontier space gid epoch)"
    unfolding suppress_frontier_group_def dismiss_card_to_suppression_def retire_frontier_row_def expire_card_binding_to_frontier_def
    by (intro table_intros)+
qed

lemma table_quarantine [table_intros]:
  "keeps table_rel (quarantine_frontier_group space gid epoch reason)" "keeps table_rel (lift_quarantine_to_frontier space gid epoch)"
  unfolding quarantine_frontier_group_def lift_quarantine_to_frontier_def
  by (intro table_intros; intro keepsI table_frameI; auto simp: Let_def split: if_splits)+

lemma table_restore [table_intros]: "keeps table_rel (restore_frontier_row space gid epoch)"
  unfolding restore_frontier_row_def
  by (intro table_intros; intro keepsI table_frameI) (auto simp: Let_def insert_frontier_or_ignore_def split: if_splits)

section \<open>Candidate rows\<close>

lemma find_update_where:
  assumes "\<And>r. own (f r) = own r"
  shows "find (\<lambda>r. own r = i) (update_where P f rows)
    = map_option (\<lambda>r. if P r then f r else r) (find (\<lambda>r. own r = i) rows)"
  by (induction rows) (auto simp: update_where_def assms)

lemma table_update:
  assumes "\<And>c. P c \<Longrightarrow> follows_machine c (f c)" "\<And>c. ca_id (f c) = ca_id c"
  shows "table_rel s (s\<lparr>s_candidates := update_where P f (s_candidates s)\<rparr>)"
proof -
  have "list_all row_ok (update_where P f (s_candidates s))" if "list_all row_ok (s_candidates s)"
    using that assms(1) by (auto simp: update_where_def list_all_iff follows_machine_def)
  then show ?thesis using assms follows_machine_refl
    by (auto simp: table_rel_def holder_kept_def single_holder_def candidate_row_def find_update_where)
qed

lemma table_update_candidate:
  assumes "\<And>t c. ca_state c \<in> set states \<Longrightarrow> follows_machine c (f t c)" "\<And>t c. ca_id (f t c) = ca_id c"
  shows "keeps table_rel (update_candidate i states f)"
  unfolding update_candidate_def
  by (intro table_intros) (auto simp: keeps_def Let_def assms intro!: table_update)

lemma follows_one:
  "same_identity c d \<Longrightarrow> transition_is_legal (ca_state c) (ca_state d) \<Longrightarrow> (row_ok c \<Longrightarrow> row_ok d) \<Longrightarrow> follows_machine c d"
  by (auto simp: follows_machine_def)

lemma table_move_state:
  assumes "\<And>x :: 'p candidate. ca_state x \<in> set froms \<Longrightarrow> row_ok x \<Longrightarrow> row_ok (x\<lparr>ca_state := st,
      ca_reason := (case reason of None \<Rightarrow> ca_reason x | Some r \<Rightarrow> Some r)\<rparr>)"
  shows "keeps table_rel (move_state i froms st reason :: ('p, unit) tx)"
proof (rule keepsI)
  fix s :: "'p store" and u s' assume r: "move_state i froms st reason s = Inr (u, s')"
  then obtain st0 where l: "transition_is_legal st0 st" "st0 \<in> set froms"
    and u: "update_candidate i [st0] (\<lambda>t x. x\<lparr>ca_state := st,
      ca_reason := (case reason of None \<Rightarrow> ca_reason x | Some r \<Rightarrow> Some r), ca_updated := t\<rparr>) s = Inr (u, s')"
    by (auto simp: move_state_def tx_simps get_candidate_iff guard_transition_def split: if_splits)
  from l have "keeps table_rel (update_candidate i [st0] (\<lambda>t x. x\<lparr>ca_state := st,
      ca_reason := (case reason of None \<Rightarrow> ca_reason x | Some r \<Rightarrow> Some r), ca_updated := t\<rparr>) :: ('p, unit) tx)"
    by (intro table_update_candidate follows_one) (auto simp: same_identity_def intro: assms)
  from keepsD [OF this u] show "table_rel s s'" .
qed

lemma table_release [table_intros]: "keeps table_rel (release_claims_to_frontier c reason)"
  unfolding release_claims_to_frontier_def by (intro table_intros; intro keepsI table_frameI) auto

lemma table_settle [table_intros]: "keeps table_rel (settle_groups_to_frontier c reason)"
  unfolding settle_groups_to_frontier_def by (intro table_intros)

lemma table_marks [table_intros]:
  "keeps table_rel (mark_inferencing i)" "keeps table_rel (mark_validating i)" "keeps table_rel (mark_retry_wait i charge)"
  "keeps table_rel (mark_stale i stale)" "keeps table_rel (mark_superseded i)" "keeps table_rel (mark_review_required i cid)"
  "keeps table_rel (mark_suppressed i cid text)"
  unfolding mark_inferencing_def mark_validating_def mark_retry_wait_def mark_stale_def mark_superseded_def
    mark_review_required_def mark_suppressed_def
  by (intro table_intros table_move_state table_update_candidate follows_one;
      auto simp: same_identity_def transition_is_legal_def candidate_transitions_def row_ok_def)+

lemma table_compact [table_intros]: "keeps table_rel (compact_terminal_payloads space retention)"
  unfolding compact_terminal_payloads_def
  by (intro table_intros)
    (auto simp: keeps_def Let_def follows_machine_def same_identity_def intro!: table_update)

lemma table_envelope [table_intros]: "keeps table_rel (record_envelope i en)"
  unfolding record_envelope_def
  by (intro table_intros) (auto simp: keeps_def follows_machine_def same_identity_def intro!: table_update)

lemma find_append_some: "find P xs = Some x \<Longrightarrow> find P (xs @ ys) = Some x"
  by (induction xs) auto

lemma table_observe [table_intros]: "keeps table_rel (observe_candidate ob)"
  unfolding observe_candidate_def
  by (intro table_intros)
    (auto simp: keeps_def table_rel_def holder_kept_def single_holder_def candidate_row_def find_append_some row_ok_def
      intro: follows_machine_refl)

lemma table_open_epoch [table_intros]: "keeps table_rel (open_coverage_epoch space_id space)"
  unfolding open_coverage_epoch_def by (intro table_intros; intro keepsI table_frameI) (auto split: if_splits)

lemma table_epochs [table_intros]:
  "keeps table_rel (begin_epoch_migration i)" "keeps table_rel (complete_epoch_migration i)" "keeps table_rel (abandon_epoch_migration i)"
  unfolding begin_epoch_migration_def complete_epoch_migration_def abandon_epoch_migration_def
  by (intro table_intros)+

lemma table_surface [table_intros]: "keeps table_rel (surface_below_floor_groups sha sp i e)"
  unfolding surface_below_floor_groups_def by (intro table_intros)

lemma table_claim_each [table_intros]: "keeps table_rel (claim_each i epoch role rvs)"
proof -
  have "keeps table_rel (insert_claim i rv epoch role)" for rv
    unfolding insert_claim_def by (intro table_intros; intro keepsI table_frameI) (auto simp: Let_def split: if_splits)
  then show ?thesis by (induction rvs) (auto intro!: table_intros)
qed

lemma table_finish_prepare [table_intros]: "keeps table_rel (finish_prepare c token rvs)"
  unfolding finish_prepare_def
  by (intro table_intros table_update_candidate follows_one)
    (auto simp: same_identity_def transition_is_legal_def candidate_transitions_def row_ok_def)

lemma table_prepare [table_intros]: "keeps table_rel (prepare_candidate token i rvs)"
  unfolding prepare_candidate_def by (intro table_intros)

lemma table_op: "keeps table_rel (op_tx op)"
  by (cases op) (auto simp: only_def intro!: table_intros)

end
