(* ===== verification/Genesis_Machine.thy ===== *)
theory Genesis_Machine
  imports Genesis_Tables
begin

text \<open>
  The steps of the shadow driver with its surroundings: turns, operations, restarts, and what other parts write about
  the evidence; and the properties of whatever is reached.
\<close>

section \<open>The machine of the shadow driver\<close>

lemma table_driver [table_intros]:
  "keeps table_rel (reconcile_transaction E space_id space epoch)" "keeps table_rel (observe_space space epoch)"
  "keeps table_rel (attempt_prepare E space_id space i proposal)" "keeps table_rel (prepare_one E space_id space epoch proposal i)"
  "keeps table_rel (gate_holds E c en g)" "keeps table_rel (first_refusal E c en gs)" "keeps table_rel (dry_run_finalize E i)"
  "keeps table_rel (recover_candidate i)" "keeps table_rel (open_turn E space_id space)"
proof -
  show "keeps table_rel (reconcile_transaction E space_id space epoch)"
    unfolding reconcile_transaction_def by (intro table_intros)
  show "keeps table_rel (observe_space space epoch)" unfolding observe_space_def by (intro table_intros)
  have outcome: "keeps table_rel (case out of
       DidPrepare _ \<Rightarrow>
         tx_bind (tx_read (published_generation space)) (\<lambda>published.
         tx_then (record_envelope i \<lparr>en_receipt = receipt_id i, en_epoch_state = Active,
             en_generation = published, en_verdict = None\<rparr>)
         (tx_then (bump space_id ''candidates_prepared'' 1)
         (tx_then (bump space_id ''shadow_turns'' 1) (tx_return (Some (PreparedTurn i))))))
     | ClaimRefused r \<Rightarrow> tx_return (Some (Requeued i (''claim refused on root '' @ r)))
     | LeaseHeld \<Rightarrow> tx_return None
     | NotDue \<Rightarrow> tx_return None)" for out
    by (cases out; simp; intro table_intros)
  show a: "keeps table_rel (attempt_prepare E space_id space i proposal)"
    unfolding attempt_prepare_def by (intro outcome table_intros)
  show "keeps table_rel (prepare_one E space_id space epoch proposal i)"
    unfolding prepare_one_def by (intro a table_intros)
  show g: "keeps table_rel (gate_holds E c en g)" for c en g
    by (cases g) (auto simp: e1_lease_ownership_def intro!: table_intros)
  show f: "keeps table_rel (first_refusal E c en gs)" for c gs en
    by (induction gs) (auto intro!: g table_intros)
  show "keeps table_rel (dry_run_finalize E i)"
    unfolding dry_run_finalize_def evaluate_gates_def by (intro f table_intros)
  show "keeps table_rel (recover_candidate i)"
    unfolding recover_candidate_def lease_is_live_def e1_lease_ownership_def by (intro table_intros)
  show "keeps table_rel (open_turn E space_id space)" unfolding open_turn_def by (intro table_intros)
qed

lemma table_admitted [table_intros]: "keeps table_rel (admitted_proposals E space_id)"
  by (rule keepsI) (auto dest: admitted_quiet intro: tabling.store_refl)

lemma table_turn:
  assumes "run_genesis_shadow_turn E sh s = (r, sh', s')"
  shows "table_rel s s'"
proof -
  have each: "ses_keeps table_rel (recover_each is report)" for "is" report
    by (induction "is" arbitrary: report) (auto intro!: tabling.ses_rules table_intros)
  have recovery: "ses_keeps table_rel recovery_scan"
    unfolding recovery_scan_def by (intro tabling.ses_rules table_intros each)
  have prepare: "ses_keeps table_rel (prepare_each E space_id space epoch ps)" for space_id space epoch ps
    by (induction ps) (auto split: option.split intro!: tabling.ses_rules table_intros)
  have final: "keeps table_rel (case outcome of
         DryRunPassed \<Rightarrow>
           tx_then (bump space_id ''dry_run_passed'' 1)
           (tx_then (bump space_id ''shadow_turns'' 1) (tx_return (Some (DryRunPassedTurn i))))
       | DryRunRefused g \<Rightarrow>
           tx_then (bump space_id (''dry_run_refused_'' @ gate_as_str g) 1)
           (tx_then (bump space_id ''shadow_turns'' 1) (tx_return (Some (DryRunRefusedTurn i g))))
       | NotEligible \<Rightarrow> tx_return None)" for i outcome space_id
    by (cases outcome; simp; intro table_intros)
  have option: "(\<And>x. ses_keeps table_rel (k x)) \<Longrightarrow> ses_keeps table_rel n
      \<Longrightarrow> ses_keeps table_rel (case opt of None \<Rightarrow> n | Some x \<Rightarrow> k x)" for opt n and k :: "'x \<Rightarrow> (json, 'y) sessions"
    by (cases opt) simp_all
  have pair: "(\<And>x y. ses_keeps table_rel (k x y)) \<Longrightarrow> ses_keeps table_rel (case p of (x, y) \<Rightarrow> k x y)"
    for p and k :: "'x \<Rightarrow> 'z \<Rightarrow> (json, 'y) sessions"
    by (cases p) simp
  have "ses_keeps table_rel (space_turn E b space_id space)" for b space_id space
    unfolding space_turn_def sample_oracle_def reconcile_turn_def prepare_turn_def finalize_one_def
    by (intro tabling.ses_rules table_intros prepare final option pair)
  then have "table_rel s s1" if "space_turn E b i n s = (x, s1)" for b i n x s1
    using that by (blast dest: ses_keepsD)
  moreover have "table_rel s s1" if "recovery_scan s = (x, s1)" for x s1
    using recovery that by (blast dest: ses_keepsD)
  ultimately show ?thesis using assms tabling.store_refl unfolding run_genesis_shadow_turn_def Let_def
    by (fastforce split: if_splits sum.splits prod.splits)
qed

section \<open>The steps of the driver and its surroundings\<close>

text \<open>What other parts of the daemon write: evidence, pages, the graph and the spaces, never the genesis tables;
  a root once in a group stays there.\<close>

definition evidence_change :: "'p store \<Rightarrow> 'p store \<Rightarrow> bool" where
  "evidence_change s s' \<longleftrightarrow> s' = s\<lparr>s_roots := s_roots s', s_edges := s_edges s', s_graph := s_graph s',
       s_page_claims := s_page_claims s', s_pages := s_pages s', s_page_truth := s_page_truth s', s_links := s_links s',
       s_anchors := s_anchors s', s_communities := s_communities s', s_members := s_members s',
       s_subscriptions := s_subscriptions s', s_spaces := s_spaces s',
       s_outbox := s_outbox s'\<rparr>
     \<and> (\<forall>r g. root_group s r = Some g \<longrightarrow> root_group s' r = Some g)"

definition started :: shadow_state where
  "started = \<lparr>sh_recovery = None, sh_rotation = 0, sh_turns = 0\<rparr>"

text \<open>Turns of one process after another, as long as no refused claim was committed.\<close>

inductive shadow_step :: "shadow_state \<times> gstore \<Rightarrow> shadow_state \<times> gstore \<Rightarrow> bool" where
  turn: "run_genesis_shadow_turn E sh s = (r, sh', s') \<Longrightarrow> turn_clean r
    \<Longrightarrow> shadow_step (sh, s) (sh', s')"
| evidence: "evidence_change s s' \<Longrightarrow> shadow_step (sh, s) (sh, s')"
| restart: "shadow_step (sh, s) (started, s)"

text \<open>
  The turns and every operation, refused claims included. Renaming or merging a space
  (\<open>db/space_rename.rs\<close>), which rewrites the space column of these tables, is not a step: what follows
  holds between two of them.
\<close>

inductive genesis_step :: "shadow_state \<times> gstore \<Rightarrow> shadow_state \<times> gstore \<Rightarrow> bool" where
  any_turn: "run_genesis_shadow_turn E sh s = (r, sh', s') \<Longrightarrow> genesis_step (sh, s) (sh', s')"
| operation: "genesis_step (sh, s) (sh, committed (op_tx op) s)"
| any_evidence: "evidence_change s s' \<Longrightarrow> genesis_step (sh, s) (sh, s')"
| any_restart: "genesis_step (sh, s) (started, s)"

inductive_cases shadow_step_cases: "shadow_step x y"
inductive_cases genesis_step_cases: "genesis_step x y"

lemma evidence_frame:
  assumes "evidence_change s s'"
  shows "s_candidates s' = s_candidates s" "s_claims s' = s_claims s" "s_coverage s' = s_coverage s"
    "s_frontier s' = s_frontier s" "s_cards s' = s_cards s" "s_suppressions s' = s_suppressions s"
    "s_quarantines s' = s_quarantines s" "s_leases s' = s_leases s"
proof -
  have eq: "s' = s\<lparr>s_roots := s_roots s', s_edges := s_edges s', s_graph := s_graph s',
       s_page_claims := s_page_claims s', s_pages := s_pages s', s_page_truth := s_page_truth s', s_links := s_links s',
       s_anchors := s_anchors s', s_communities := s_communities s', s_members := s_members s',
       s_subscriptions := s_subscriptions s', s_spaces := s_spaces s',
       s_outbox := s_outbox s'\<rparr>"
    using assms by (simp add: evidence_change_def)
  from arg_cong [OF eq, of s_candidates] arg_cong [OF eq, of s_claims] arg_cong [OF eq, of s_coverage]
    arg_cong [OF eq, of s_frontier] arg_cong [OF eq, of s_cards] arg_cong [OF eq, of s_suppressions]
    arg_cong [OF eq, of s_quarantines] arg_cong [OF eq, of s_leases]
  show "s_candidates s' = s_candidates s" "s_claims s' = s_claims s" "s_coverage s' = s_coverage s"
    "s_frontier s' = s_frontier s" "s_cards s' = s_cards s" "s_suppressions s' = s_suppressions s"
    "s_quarantines s' = s_quarantines s" "s_leases s' = s_leases s" by simp_all
qed

lemma evidence_settles:
  assumes "evidence_change s s'"
  shows "settled_rel s s'"
proof -
  note tables = evidence_frame [OF assms]
  have "shadow_only s' = shadow_only s" by (simp add: shadow_only_def tables)
  moreover have "claims_follow s \<Longrightarrow> claims_follow s'"
    using assms by (auto simp: claims_follow_def tables evidence_change_def)
  moreover have "reason_count s' k = reason_count s k" for k
    by (simp add: reason_count_def all_homes_def tables)
  ultimately show ?thesis
    using booked_same_tables(1) [of s' s] tables by (auto simp: settled_rel_def shadow_ok_def)
qed

lemma evidence_tables: "evidence_change s s' \<Longrightarrow> table_rel s s'"
  by (rule table_frameI) (rule evidence_frame, assumption)+

lemma shadow_step_settles: "shadow_step x y \<Longrightarrow> settled_rel (snd x) (snd y)"
  by (erule shadow_step.cases) (auto intro: settles_turn evidence_settles settling.store_refl)

lemma genesis_step_tables: "genesis_step x y \<Longrightarrow> table_rel (snd x) (snd y)"
proof (erule genesis_step.cases)
  fix s sh op assume "x = (sh, s)" "y = (sh, committed (op_tx op) s)"
  then show "table_rel (snd x) (snd y)"
    using keepsD [OF table_op, of op s] by (auto simp: committed_def tabling.store_refl split: sum.split)
qed (auto intro: table_turn evidence_tables tabling.store_refl)

interpretation shadow_machine: invariant_machine shadow_step "\<lambda>x. settled_rel s0 (snd x)" for s0
  by unfold_locales (blast intro: settling.store_trans shadow_step_settles)

interpretation genesis_machine: invariant_machine genesis_step "\<lambda>x. table_rel s0 (snd x)" for s0
  by unfold_locales (blast intro: tabling.store_trans genesis_step_tables)

text \<open>C2 (invariant). From tables in which every group is accounted for at no more than one home, no group has left the
  frontier and the claims, and the claims follow their roots, the turns of the shadow driver, across restarts and
  whatever is written about evidence in between, lead to such tables again: no group ever has two homes, and one that
  has a home is never lost. Turns that commit a refused claim are left out: they break this, as
  \<open>double_booked_space_stalls_the_driver\<close> shows.\<close>

theorem shadow_turns_keep_every_group_accounted:
  assumes "accounted s" "shadow_only s" "claims_follow s" "shadow_step\<^sup>*\<^sup>* (sh, s) (sh', s')"
  shows "accounted s' \<and> shadow_only s' \<and> claims_follow s' \<and> (\<forall>k. reason_count s k = 1 \<longrightarrow> reason_count s' k = 1)"
proof -
  have "shadow_ok s" using assms(1-3) by (simp add: shadow_ok_def accounted_iff)
  moreover have "settled_rel s s'"
    using shadow_machine.inv_reach [OF assms(4), of s] settling.store_refl [of s] by simp
  ultimately show ?thesis by (simp add: settled_rel_def shadow_ok_def accounted_iff)
qed

theorem shadow_turns_keep_every_group_accounted_witness:
  "\<exists>sh' s'. run_genesis_shadow_turn genesis_demo_env genesis_demo_driver demo_cluster = (Inr (PreparedTurn ''6162''), sh', s')
    \<and> accounted s' \<and> reason_count s' (''work'', ''g1'', 1) = 1"
proof -
  obtain sh' s' where turn: "run_genesis_shadow_turn genesis_demo_env genesis_demo_driver demo_cluster
      = (Inr (PreparedTurn ''6162''), sh', s')" using demo_prepare by blast
  have "shadow_step (genesis_demo_driver, demo_cluster) (sh', s')" using turn by (rule shadow_step.turn) (simp add: turn_clean_def)
  then have steps: "shadow_step\<^sup>*\<^sup>* (genesis_demo_driver, demo_cluster) (sh', s')" by blast
  have "shadow_only demo_cluster" "claims_follow demo_cluster"
    by (simp_all add: shadow_only_def claims_follow_def genesis_demo_defs)
  from shadow_turns_keep_every_group_accounted [OF demo_cluster_accounted this steps]
  have "accounted s' \<and> (\<forall>k. reason_count demo_cluster k = 1 \<longrightarrow> reason_count s' k = 1)" by blast
  moreover have "reason_count demo_cluster (''work'', ''g1'', 1) = 1"
    by (simp add: reason_count_def all_homes_def) (simp add: genesis_demo_defs fr_key_def)
  ultimately show ?thesis using turn by blast
qed

text \<open>C10 (safety). If each phase of a space has at most one lease row, then after whatever turns, operations and
  restarts two holders of a lease that both own it are the same holder, with the same input generation.\<close>

theorem a_lease_has_one_owner:
  assumes "single_holder phase s" "genesis_step\<^sup>*\<^sup>* (sh, s) (sh', s')"
    and "lease_owns phase space g a s' = Inr (True, s1)" "lease_owns phase space h b s' = Inr (True, s2)"
  shows "a = b \<and> g = h"
proof -
  have "table_rel s s'" using genesis_machine.inv_reach [OF assms(2), of s] tabling.store_refl [of s] by simp
  then have "single_holder phase s'" using assms(1) by (simp add: table_rel_def holder_kept_def)
  then show ?thesis using assms(3,4) by (rule one_owner)
qed

definition demo_leased :: gstore where
  "demo_leased = demo_observed\<lparr>s_leases := [\<lparr>le_phase = ''genesis'', le_space = ''work'', le_generation = 0, le_token = ''t'',
     le_expires = 1900, le_attempt = 0\<rparr>]\<rparr>"

theorem a_lease_has_one_owner_witness:
  "lease_owns GenesisPhase ''work'' 0 ''t'' demo_leased = Inr (True, demo_leased\<lparr>s_tick := 1\<rparr>)
    \<and> \<not> (\<exists>b h s2. b \<noteq> ''t'' \<and> lease_owns GenesisPhase ''work'' h b demo_leased = Inr (True, s2))"
proof -
  have own: "lease_owns GenesisPhase ''work'' 0 ''t'' demo_leased = Inr (True, demo_leased\<lparr>s_tick := 1\<rparr>)"
    by (simp add: owns_iff demo_leased_def demo_observed_def genesis_demo_defs lease_key_def)
  have single: "single_holder GenesisPhase demo_leased" by (simp add: single_holder_def unique_key_def demo_leased_def)
  have steps: "genesis_step\<^sup>*\<^sup>* (genesis_demo_driver, demo_leased) (started, demo_leased)" by (blast intro: genesis_step.any_restart)
  from a_lease_has_one_owner [OF single steps _ own] own show ?thesis by blast
qed

lemma terminal_is_final: "transition_is_legal\<^sup>*\<^sup>* a b \<Longrightarrow> is_terminal a \<Longrightarrow> b = a"
proof (induction rule: rtranclp_induct)
  case (step b c)
  then have "transition_is_legal a c" "is_terminal a" by simp_all
  then show ?case by (cases a) (auto simp: is_terminal_def terminal_states_def transition_is_legal_def candidate_transitions_def)
qed simp

text \<open>C11 (invariant). Whatever turns and operations write the genesis tables, a candidate's row stays, keeps its identity, space, epoch, signal and
  digest, and its state moves along the transitions of the state machine; a terminal state is final.\<close>

theorem candidates_follow_the_state_machine:
  assumes "genesis_step\<^sup>*\<^sup>* (sh, s) (sh', s')" "candidate_row i s = Some c"
  shows "\<exists>d. candidate_row i s' = Some d \<and> same_identity c d \<and> transition_is_legal\<^sup>*\<^sup>* (ca_state c) (ca_state d)
    \<and> (if is_terminal (ca_state c) then ca_state d = ca_state c else True)"
proof -
  have "table_rel s s'" using genesis_machine.inv_reach [OF assms(1), of s] tabling.store_refl [of s] by simp
  then obtain d where "candidate_row i s' = Some d" "follows_machine c d" using assms(2) by (auto simp: table_rel_def)
  then show ?thesis using terminal_is_final by (auto simp: follows_machine_def)
qed

text \<open>C25 (type). A table of candidate rows whose columns go with their states (a lease token exactly while the row is
  prepared, in inference, in validation or waiting for a retry; a due time exactly while it waits or is stale; a reason
  exactly once it is stale, in review, suppressed or superseded; none published) is such a table again after any turns
  and operations.\<close>

theorem candidate_rows_stay_well_formed:
  assumes "genesis_step\<^sup>*\<^sup>* (sh, s) (sh', s')" "list_all row_ok (s_candidates s)"
  shows "list_all row_ok (s_candidates s')"
  using genesis_machine.inv_reach [OF assms(1), of s] assms(2) tabling.store_refl [of s] by (simp add: table_rel_def)

theorem candidate_rows_stay_well_formed_witness:
  "list_all row_ok (s_candidates (committed (op_tx (PrepareCandidate ''t'' ''c1'' [\<lparr>rv_root = ''r1'', rv_group = ''g1''\<rparr>])) demo_observed))"
proof (rule candidate_rows_stay_well_formed)
  show "genesis_step\<^sup>*\<^sup>* (genesis_demo_driver, demo_observed) (genesis_demo_driver,
      committed (op_tx (PrepareCandidate ''t'' ''c1'' [\<lparr>rv_root = ''r1'', rv_group = ''g1''\<rparr>])) demo_observed)"
    by (blast intro: genesis_step.operation)
  show "list_all row_ok (s_candidates demo_observed)" by (simp add: demo_observed_def row_ok_def)
qed

theorem candidates_follow_the_state_machine_witness:
  "\<exists>d. candidate_row ''c1'' (committed (op_tx (PrepareCandidate ''t'' ''c1'' [\<lparr>rv_root = ''r1'', rv_group = ''g1''\<rparr>])) demo_observed)
      = Some d \<and> transition_is_legal\<^sup>*\<^sup>* Observed (ca_state d)"
proof -
  let ?s' = "committed (op_tx (PrepareCandidate ''t'' ''c1'' [\<lparr>rv_root = ''r1'', rv_group = ''g1''\<rparr>])) demo_observed"
  have step: "genesis_step\<^sup>*\<^sup>* (genesis_demo_driver, demo_observed) (genesis_demo_driver, ?s')" by (blast intro: genesis_step.operation)
  have row: "\<exists>c. candidate_row ''c1'' demo_observed = Some c \<and> ca_state c = Observed"
    by (simp add: candidate_row_def demo_observed_def)
  then obtain c where "candidate_row ''c1'' demo_observed = Some c" "ca_state c = Observed" by blast
  with candidates_follow_the_state_machine [OF step this(1)] show ?thesis by auto
qed

end
