(* ===== verification/Genesis_Scan.thy ===== *)
theory Genesis_Scan
  imports Genesis_Machine "HOL-Library.Multiset"
begin

text \<open>
  The sweep of the frontier: its cursor survives the text it is stored as, and a sweep sees every row once.
\<close>

section \<open>The cursor\<close>

definition is_i64 :: "int \<Rightarrow> bool" where
  "is_i64 n \<longleftrightarrow> - (2 ^ 63) \<le> n \<and> n < 2 ^ 63"

lemma digit_not_bar: "c \<in> set (decimal n) \<Longrightarrow> c \<noteq> CHR ''|''"
  using decimal_digits [of c n] by (auto simp: digit_value_def)

lemma int_part_no_bar: "c \<in> set (int_part n) \<Longrightarrow> c \<noteq> CHR ''|''"
  by (auto simp: int_part_def split: if_splits dest: digit_not_bar)

lemma split_once_part: "split_once (int_part n @ ''|'' @ rest) = Some (int_part n, rest)"
proof -
  have "dropWhile (\<lambda>c. c \<noteq> CHR ''|'') (int_part n @ ''|'' @ rest) = ''|'' @ rest"
    using int_part_no_bar [of _ n] by (subst dropWhile_append2) auto
  moreover have "takeWhile (\<lambda>c. c \<noteq> CHR ''|'') (int_part n @ ''|'' @ rest) = int_part n"
    using int_part_no_bar [of _ n] by (subst takeWhile_append2) auto
  ultimately show ?thesis by (simp add: split_once_def)
qed

lemma decimal_head:
  assumes "decimal n = c # cs"
  shows "c \<noteq> CHR ''-''" "c \<noteq> CHR ''+''"
  using assms decimal_digits [of c n] by (auto simp: digit_value_def)

lemma parse_i64_part: "is_i64 n \<Longrightarrow> parse_i64 (int_part n) = Some n"
proof -
  assume n: "is_i64 n"
  obtain c cs where d: "decimal (nat n) = c # cs" using decimal_not_empty by (cases "decimal (nat n)") auto
  show ?thesis
  proof (cases "n < 0")
    case True
    then show ?thesis using n decimal_not_empty
      by (simp add: parse_i64_def int_part_def parse_unsigned_def read_digits_decimal is_i64_def)
  next
    case False
    then have "parse_unsigned (c # cs) = Some (nat n)" using d read_digits_decimal [of "nat n"]
      by (simp add: parse_unsigned_def del: read_digits.simps)
    with False n decimal_head [OF d] show ?thesis
      by (simp add: parse_i64_def int_part_def d is_i64_def)
  qed
qed

definition storable :: "scan_cursor \<Rightarrow> bool" where
  "storable c \<longleftrightarrow> is_i64 (sc_next_scan c) \<and> is_i64 (sc_first_seen c) \<and> sc_group c \<noteq> []"

lemma parse_cursor_text:
  assumes "\<forall>c. cursor = Some c \<longrightarrow> storable c"
  shows "parse_cursor (cursor_text cursor) = cursor"
proof (cases cursor)
  case None
  then show ?thesis by (simp add: cursor_text_def parse_cursor_def split_once_def)
next
  case (Some c)
  with assms have "storable c" by simp
  then have "parse_cursor (cursor_text cursor) = Some \<lparr>sc_next_scan = sc_next_scan c, sc_first_seen = sc_first_seen c, sc_group = sc_group c\<rparr>"
    unfolding Some cursor_text_def parse_cursor_def option.case split_once_part
    by (simp add: storable_def parse_i64_part split_once_part [simplified])
  then show ?thesis using Some by simp
qed

section \<open>The sweep\<close>

text \<open>What a reconciling turn does with the cursor, and a number of such turns.\<close>

definition scan_turn :: "string \<Rightarrow> int \<Rightarrow> ('p, frontier_row list) tx" where
  "scan_turn space epoch =
     tx_bind (read_cursor space) (\<lambda>cursor.
     tx_bind (scan_slice space epoch cursor) (\<lambda>(rows, next_cursor).
     tx_then (write_cursor space next_cursor) (tx_return rows)))"

fun scan_turns :: "nat \<Rightarrow> string \<Rightarrow> int \<Rightarrow> ('p, frontier_row list) tx" where
  "scan_turns 0 space epoch = tx_return []"
| "scan_turns (Suc n) space epoch =
     tx_bind (scan_turns n space epoch) (\<lambda>before.
     tx_bind (scan_turn space epoch) (\<lambda>rows. tx_return (before @ rows)))"

definition scan_order :: "string \<Rightarrow> int \<Rightarrow> 'p store \<Rightarrow> frontier_row list" where
  "scan_order space epoch s = sort_key row_position (filter (\<lambda>x. fr_space x = space \<and> fr_epoch x = epoch) (s_frontier s))"

definition row_cursor :: "frontier_row \<Rightarrow> scan_cursor" where
  "row_cursor x = \<lparr>sc_next_scan = fr_next_scan x, sc_first_seen = fr_first_seen x, sc_group = fr_group x\<rparr>"

lemma cursor_position_row [simp]: "cursor_position (row_cursor x) = row_position x"
  by (simp add: cursor_position_def row_position_def row_cursor_def)

lemma row_cursor_last: "xs \<noteq> [] \<Longrightarrow> row_cursor (last xs) = \<lparr>sc_next_scan = fr_next_scan (last xs),
    sc_first_seen = fr_first_seen (last xs), sc_group = fr_group (last xs)\<rparr>"
  by (simp add: row_cursor_def)

lemma after_position:
  fixes f :: "'x \<Rightarrow> 'k :: linorder"
  assumes "sorted_wrt (\<lambda>x y. f x < f y) xs" "m < length xs"
  shows "filter (\<lambda>x. f (xs ! m) < f x) xs = drop (Suc m) xs"
  using assms
proof (induction xs arbitrary: m)
  case (Cons x xs)
  show ?case
  proof (cases m)
    case 0
    have "filter (\<lambda>y. f x < f y) xs = xs" using Cons.prems(1) by (intro filter_True) simp
    with 0 show ?thesis by simp
  next
    case (Suc k)
    with Cons.prems have "f x < f (xs ! k)" by simp
    then have "\<not> f (xs ! k) < f x" by simp
    with Suc Cons show ?thesis by simp
  qed
qed simp

lemma strict_sort_key:
  fixes f :: "'x \<Rightarrow> 'k :: linorder"
  assumes "distinct (map f xs)"
  shows "sorted_wrt (\<lambda>x y. f x < f y) (sort_key f xs)"
proof -
  have "distinct (map f (sort_key f xs))" using assms by (simp add: distinct_map)
  moreover have "sorted (map f (sort_key f xs))" by simp
  ultimately have "sorted_wrt (<) (map f (sort_key f xs))" by (simp add: strict_sorted_iff)
  then show ?thesis by (simp add: sorted_wrt_map)
qed

lemma scan_order_strict:
  assumes "unique_key fr_key (\<lambda>_. True) (s_frontier s)"
  shows "sorted_wrt (\<lambda>x y. row_position x < row_position y) (scan_order space epoch s)"
proof -
  let ?mine = "filter (\<lambda>x. fr_space x = space \<and> fr_epoch x = epoch) (s_frontier s)"
  have d: "distinct (map fr_key ?mine)"
    using assms distinct_map_filter [of fr_key "s_frontier s"] by (simp add: unique_key_def)
  have "inj_on row_position (set ?mine)"
  proof (rule inj_onI)
    fix x y assume "x \<in> set ?mine" "y \<in> set ?mine" "row_position x = row_position y"
    then show "x = y" using inj_onD [of fr_key "set ?mine" x y] d
      by (simp add: distinct_map row_position_def fr_key_def)
  qed
  with d have "distinct (map row_position ?mine)" by (simp add: distinct_map)
  then show ?thesis unfolding scan_order_def by (rule strict_sort_key)
qed

text \<open>A turn reads the slice after the cursor and leaves the cursor at its end.\<close>

definition cursor_at :: "frontier_row list \<Rightarrow> nat \<Rightarrow> scan_cursor option" where
  "cursor_at xs m = (if m = 0 then None else Some (row_cursor (xs ! (m - 1))))"

lemma scan_slice_at:
  assumes strict: "sorted_wrt (\<lambda>x y. row_position x < row_position y) (scan_order space epoch s)"
    and m: "m \<le> length (scan_order space epoch s)"
  defines "xs \<equiv> scan_order space epoch s"
  shows "scan_slice space epoch (cursor_at xs m) s = Inr ((take frontier_scan_slice_rows (drop m xs),
    if m + frontier_scan_slice_rows \<le> length xs then cursor_at xs (m + frontier_scan_slice_rows) else None), s)"
proof -
  let ?n = frontier_scan_slice_rows
  have n: "?n > 0" by (simp add: frontier_scan_slice_rows_def)
  have after: "sort_key row_position (filter (\<lambda>x. fr_space x = space \<and> fr_epoch x = epoch
      \<and> is_none_or (\<lambda>c. cursor_position c < row_position x) (cursor_at xs m)) (s_frontier s)) = drop m xs"
  proof (cases "m = 0")
    case True
    then show ?thesis by (simp add: cursor_at_def xs_def scan_order_def)
  next
    case False
    have "filter (\<lambda>x. row_position (xs ! (m - 1)) < row_position x) xs = drop m xs"
      using after_position [OF strict, of "m - 1"] m False by (simp add: xs_def)
    then show ?thesis using False
      by (simp add: cursor_at_def xs_def scan_order_def filter_sort conj_commute conj_left_commute)
  qed
  have last: "last (take ?n (drop m xs)) = xs ! (m + ?n - 1)" if "m + ?n \<le> length xs"
  proof -
    have "length (take ?n (drop m xs)) = ?n" using that by simp
    moreover from this n have "take ?n (drop m xs) \<noteq> []" by auto
    ultimately show ?thesis using that n by (simp add: last_conv_nth)
  qed
  have slice: "scan_slice space epoch (cursor_at xs m) s = Inr ((take ?n (drop m xs),
      if length (take ?n (drop m xs)) = ?n then Some (row_cursor (last (take ?n (drop m xs)))) else None), s)"
    unfolding scan_slice_def tx_read_def Let_def after row_cursor_def ..
  have full: "length (take ?n (drop m xs)) = ?n \<longleftrightarrow> m + ?n \<le> length xs" using m n by (auto simp: xs_def)
  show ?thesis unfolding slice full using last n by (simp add: cursor_at_def)
qed

definition rows_storable :: "'p store \<Rightarrow> bool" where
  "rows_storable s \<longleftrightarrow> list_all (\<lambda>x. storable (row_cursor x)) (s_frontier s)"

definition stored_cursor :: "string \<Rightarrow> 'p store \<Rightarrow> scan_cursor option" where
  "stored_cursor space s = Option.bind (s_metadata s (cursor_key space)) parse_cursor"

lemma scan_turn_at:
  assumes "unique_key fr_key (\<lambda>_. True) (s_frontier s)" "rows_storable s"
    and m: "m \<le> length (scan_order space epoch s)" and c: "stored_cursor space s = cursor_at (scan_order space epoch s) m"
  defines "xs \<equiv> scan_order space epoch s"
  shows "\<exists>s'. scan_turn space epoch s = Inr (take frontier_scan_slice_rows (drop m xs), s')
    \<and> s_frontier s' = s_frontier s \<and> stored_cursor space s'
      = (if m + frontier_scan_slice_rows \<le> length xs then cursor_at xs (m + frontier_scan_slice_rows) else None)"
proof -
  let ?after = "if m + frontier_scan_slice_rows \<le> length xs then cursor_at xs (m + frontier_scan_slice_rows) else None"
  have "set xs \<subseteq> set (s_frontier s)" by (auto simp: xs_def scan_order_def)
  then have ok: "storable (row_cursor (xs ! i))" if "i < length xs" for i
    using assms(2) nth_mem [OF that] by (auto simp: rows_storable_def list_all_iff)
  have "\<forall>c. ?after = Some c \<longrightarrow> storable c"
    using ok [of "m + frontier_scan_slice_rows - 1"] by (auto simp: cursor_at_def frontier_scan_slice_rows_def)
  then have stored: "parse_cursor (cursor_text ?after) = ?after" by (rule parse_cursor_text)
  have slice: "scan_slice space epoch (cursor_at xs m) s = Inr ((take frontier_scan_slice_rows (drop m xs), ?after), s)"
    unfolding xs_def using scan_slice_at [OF scan_order_strict [OF assms(1)] m] .
  let ?s' = "s\<lparr>s_metadata := (s_metadata s)(cursor_key space \<mapsto> cursor_text ?after)\<rparr>"
  have "read_cursor space s = Inr (cursor_at xs m, s)"
    using c by (simp add: read_cursor_def tx_read_def stored_cursor_def xs_def)
  then have "scan_turn space epoch s = Inr (take frontier_scan_slice_rows (drop m xs), ?s')"
    by (simp add: scan_turn_def tx_bind_def tx_then_def tx_return_def slice write_cursor_def)
  then show ?thesis using stored by (simp add: stored_cursor_def)
qed

lemma scan_order_frame: "s_frontier s' = s_frontier s \<Longrightarrow> scan_order space epoch s' = scan_order space epoch s"
  by (simp add: scan_order_def)

lemma scan_turns_at:
  fixes epoch :: int
  assumes "unique_key fr_key (\<lambda>_. True) (s_frontier s)" "rows_storable s" "stored_cursor space s = None"
  defines "xs \<equiv> scan_order space epoch s"
  shows "k * frontier_scan_slice_rows \<le> length xs \<Longrightarrow> \<exists>s'. scan_turns k space epoch s
      = Inr (take (k * frontier_scan_slice_rows) xs, s') \<and> s_frontier s' = s_frontier s
      \<and> stored_cursor space s' = cursor_at xs (k * frontier_scan_slice_rows)"
proof (induction k)
  case 0
  then show ?case using assms(3) by (simp add: tx_return_def cursor_at_def)
next
  case (Suc k)
  let ?n = frontier_scan_slice_rows
  from Suc obtain s1 where s1: "scan_turns k space epoch s = Inr (take (k * ?n) xs, s1)" "s_frontier s1 = s_frontier s"
    "stored_cursor space s1 = cursor_at xs (k * ?n)" by auto
  have order: "scan_order space epoch s1 = xs" using scan_order_frame [OF s1(2)] by (simp add: xs_def)
  have "\<exists>s'. scan_turn space epoch s1 = Inr (take ?n (drop (k * ?n) xs), s') \<and> s_frontier s' = s_frontier s1
      \<and> stored_cursor space s' = (if k * ?n + ?n \<le> length xs then cursor_at xs (k * ?n + ?n) else None)"
    using scan_turn_at [of s1 "k * ?n" space epoch] assms(1,2) s1 Suc.prems order by (simp add: rows_storable_def)
  then obtain s2 where "scan_turn space epoch s1 = Inr (take ?n (drop (k * ?n) xs), s2)" "s_frontier s2 = s_frontier s1"
    "stored_cursor space s2 = cursor_at xs (Suc k * ?n)" using Suc.prems by (auto simp: add.commute)
  moreover have "take (k * ?n) xs @ take ?n (drop (k * ?n) xs) = take (Suc k * ?n) xs"
    by (simp only: take_add mult_Suc add.commute [of frontier_scan_slice_rows])
  ultimately show ?case using s1 by (simp add: tx_bind_def tx_return_def)
qed

text \<open>C13 (termination). From a cleared cursor, the turns that scan a space see every frontier row of its epoch exactly
  once, in the order of the scan: after one more turn than there are full slices the rows are all seen and the cursor,
  stored as text in between, is cleared again.\<close>

theorem a_sweep_sees_every_row_once:
  assumes "unique_key fr_key (\<lambda>_. True) (s_frontier s)" "rows_storable s" "stored_cursor space s = None"
  shows "\<exists>rows s'. scan_turns (Suc (length (scan_order space epoch s) div 512)) space epoch s = Inr (rows, s')
    \<and> mset rows = mset (filter (\<lambda>x. fr_space x = space \<and> fr_epoch x = epoch) (s_frontier s))
    \<and> sorted (map row_position rows) \<and> s_frontier s' = s_frontier s \<and> stored_cursor space s' = None"
proof -
  let ?n = frontier_scan_slice_rows and ?xs = "scan_order space epoch s"
  let ?k = "length ?xs div ?n"
  have n: "?n = 512" by (simp add: frontier_scan_slice_rows_def)
  have le: "?k * ?n \<le> length ?xs" by simp
  from scan_turns_at [OF assms le] obtain s1 where s1: "scan_turns ?k space epoch s = Inr (take (?k * ?n) ?xs, s1)"
    "s_frontier s1 = s_frontier s" "stored_cursor space s1 = cursor_at ?xs (?k * ?n)" by blast
  have order: "scan_order space epoch s1 = ?xs" using scan_order_frame [OF s1(2)] by simp
  have short: "length ?xs < ?k * ?n + ?n" using n by (metis dividend_less_div_times zero_less_numeral mult.commute add.commute)
  then have "\<exists>s'. scan_turn space epoch s1 = Inr (take ?n (drop (?k * ?n) ?xs), s') \<and> s_frontier s' = s_frontier s1
      \<and> stored_cursor space s' = None"
    using scan_turn_at [of s1 "?k * ?n" space epoch] assms(1,2) s1 order le by (simp add: rows_storable_def)
  then obtain s2 where s2: "scan_turn space epoch s1 = Inr (take ?n (drop (?k * ?n) ?xs), s2)"
    "s_frontier s2 = s_frontier s1" "stored_cursor space s2 = None" by blast
  have "take (?k * ?n) ?xs @ take ?n (drop (?k * ?n) ?xs) = ?xs" using short by simp
  then have "scan_turns (Suc ?k) space epoch s = Inr (?xs, s2)"
    using s1 s2 by (simp add: tx_bind_def tx_return_def)
  then have "scan_turns (Suc (length ?xs div 512)) space epoch s = Inr (?xs, s2)" by (simp only: n)
  moreover have "mset ?xs = mset (filter (\<lambda>x. fr_space x = space \<and> fr_epoch x = epoch) (s_frontier s))"
    and "sorted (map row_position ?xs)" by (simp_all add: scan_order_def)
  moreover have "s_frontier s2 = s_frontier s" using s1(2) s2(2) by simp
  ultimately show ?thesis using s2(3) by blast
qed

theorem a_sweep_sees_every_row_once_witness:
  "\<exists>rows s'. scan_turns 1 ''work'' 1 demo_store = Inr (rows, s') \<and> map fr_group rows = [''g1''] \<and> stored_cursor ''work'' s' = None"
proof -
  have "unique_key fr_key (\<lambda>_. True) (s_frontier demo_store)" "rows_storable demo_store" "stored_cursor ''work'' demo_store = None"
    by (simp_all add: genesis_demo_defs unique_key_def rows_storable_def storable_def row_cursor_def is_i64_def stored_cursor_def)
  from a_sweep_sees_every_row_once [OF this, of 1]
  obtain rows s' where r: "scan_turns (Suc (length (scan_order ''work'' 1 demo_store) div 512)) ''work'' 1 demo_store = Inr (rows, s')"
    "mset rows = mset (filter (\<lambda>x. fr_space x = ''work'' \<and> fr_epoch x = 1) (s_frontier demo_store))"
    "stored_cursor ''work'' s' = None" by blast
  have "length (scan_order ''work'' 1 demo_store) = 1" by (simp add: scan_order_def genesis_demo_defs)
  moreover have "map fr_group rows = [''g1'']" using r(2) by (simp add: genesis_demo_defs)
  ultimately show ?thesis using r(1,3) by auto
qed

end
