(* ===== verification/Genesis_Laws.thy ===== *)
theory Genesis_Laws
  imports Genesis_Scan
begin

text \<open>
  Laws of the values the genesis code stores and derives: the delay of a retry, the envelope of a finalization, and the
  identities of slots and candidates.
\<close>

section \<open>The delay of a retry\<close>

lemma backoff_loop_eq:
  assumes "0 < d" "d \<le> 14400"
  shows "backoff_loop n d = min (d * 4 ^ n) 14400"
  using assms
proof (induction n arbitrary: d)
  case 0
  then show ?case by (simp add: retry_max_delay_seconds_def)
next
  case (Suc n)
  have mul: "saturating_mul_i64 d 4 = d * 4" using Suc.prems by (simp add: saturating_mul_i64_def)
  show ?case
  proof (cases "d * 4 \<ge> 14400")
    case True
    have "d * 1 \<le> d * 4 ^ n" using Suc.prems(1) by (intro mult_left_mono) simp_all
    with True have "14400 \<le> (d * 4 ^ n) * 4" by linarith
    then have "14400 \<le> d * 4 ^ Suc n" by (simp add: mult_ac)
    then have "min (d * 4 ^ Suc n) 14400 = 14400" by (rule min_absorb2)
    then show ?thesis using True mul by (simp add: Let_def retry_max_delay_seconds_def del: power_Suc)
  next
    case False
    with Suc mul show ?thesis by (simp add: Let_def retry_max_delay_seconds_def mult.assoc)
  qed
qed

text \<open>The delay before a retry is a minute for the first attempt and four times as long for each one after
  it, up to four hours; it never overflows, and no attempt charged means no delay.\<close>

theorem retry_delay_is_capped_exponential:
  "retry_backoff_seconds n = (if n \<le> 0 then 0 else min (60 * 4 ^ nat (n - 1)) 14400)"
  by (simp add: retry_backoff_seconds_def retry_base_delay_seconds_def backoff_loop_eq)

section \<open>The envelope\<close>

lemma gate_parse_str: "gate_parse (gate_as_str g) = Some g"
  by (cases g) (simp_all add: gate_parse_def all_gates_def)

lemma gate_not_passed: "gate_as_str g \<noteq> ''passed''"
  by (cases g) simp_all

definition envelope_ok :: "cas_envelope \<Rightarrow> bool" where
  "envelope_ok en \<longleftrightarrow> is_none_or is_i64 (en_generation en)"

lemma envelope_json:
  assumes "envelope_ok en"
  shows "envelope_from_json (envelope_to_json en) = Some en"
proof -
  have v: "verdict_of_json (Some (case en_verdict en of None \<Rightarrow> JNull | Some PassedAll \<Rightarrow> JText ''passed''
         | Some (RefusedBy g) \<Rightarrow> JText (gate_as_str g))) = Some (en_verdict en)"
    by (auto simp: verdict_of_json_def gate_parse_str gate_not_passed split: option.split verdict.split)
  have e: "epoch_parse (epoch_as_str (en_epoch_state en)) = Some (en_epoch_state en)"
    by (cases "en_epoch_state en") (simp_all add: epoch_parse_def)
  have g: "(case Some (case en_generation en of None \<Rightarrow> JNull | Some g \<Rightarrow> JInt g) of
       None \<Rightarrow> Some None | Some JNull \<Rightarrow> Some None | Some v \<Rightarrow> map_option Some (json_i64 v)) = Some (en_generation en)"
    using assms by (cases "en_generation en") (auto simp: envelope_ok_def is_i64_def)
  show ?thesis using v e g by (simp add: envelope_from_json_def envelope_to_json_def)
qed

text \<open>C29 (roundtrip). The envelope a prepare or a dry run records on a candidate is the envelope the next turn reads
  back, whatever its verdict, for every generation the column can hold.\<close>

theorem recorded_envelope_is_read_back:
  assumes "record_envelope i en s = Inr (u, s')" "envelope_ok en"
  shows "read_envelope i s' = Some en"
proof -
  have one: "affected (\<lambda>c. ca_id c = i) (s_candidates s) = 1"
    using assms(1) by (auto simp: record_envelope_def tx_simps)
  then obtain c where c: "candidate_row i s = Some c"
    by (cases "candidate_row i s") (auto simp: candidate_row_def find_None_iff affected_def filter_empty_conv)
  have "candidate_row i s' = map_option (\<lambda>c. if ca_id c = i then c\<lparr>ca_payload := Some (envelope_to_json en),
      ca_receipt := Some (en_receipt en), ca_updated := s_clock s (s_tick s)\<rparr> else c) (candidate_row i s)"
    using assms(1) by (auto simp: record_envelope_def tx_simps candidate_row_def find_update_where)
  then show ?thesis using c candidate_rowD [OF c] envelope_json [OF assms(2)] by (simp add: read_envelope_def)
qed

theorem recorded_envelope_is_read_back_witness:
  "let en = \<lparr>en_receipt = ''r'', en_epoch_state = Active, en_generation = Some (- 7), en_verdict = Some (RefusedBy PageTruth)\<rparr>
   in read_envelope ''c1'' (committed (record_envelope ''c1'' en) demo_observed) = Some en"
proof -
  let ?en = "\<lparr>en_receipt = ''r'', en_epoch_state = Active, en_generation = Some (- 7), en_verdict = Some (RefusedBy PageTruth)\<rparr>"
  have "\<exists>s'. record_envelope ''c1'' ?en demo_observed = Inr ((), s')"
    by (simp add: record_envelope_def tx_bind_def tx_now_def require_one_def tx_return_def affected_def demo_observed_def)
  then obtain s' where s': "record_envelope ''c1'' ?en demo_observed = Inr ((), s')" ..
  from recorded_envelope_is_read_back [OF s'] have "read_envelope ''c1'' s' = Some ?en"
    by (simp add: envelope_ok_def is_i64_def)
  then show ?thesis by (simp add: Let_def committed_def s')
qed

section \<open>Identities\<close>

definition collision :: "(string \<Rightarrow> string) \<Rightarrow> bool" where
  "collision sha \<longleftrightarrow> (\<exists>x y. x \<noteq> y \<and> sha x = sha y)"

lemma hex_char_inject: "m < 16 \<Longrightarrow> n < 16 \<Longrightarrow> hex_char m = hex_char n \<Longrightarrow> m = n"
proof -
  assume mn: "m < 16" "n < 16" "hex_char m = hex_char n"
  have code: "(of_char (hex_char k) :: nat) = (if k < 10 then 48 + k else 87 + k)" if "k < 16" for k
    using that by (simp add: hex_char_def)
  have "(if m < 10 then 48 + m else 87 + m) = (if n < 10 then 48 + n else 87 + n)"
    using code [OF mn(1)] code [OF mn(2)] unfolding mn(3) by simp
  then show "m = n" by (auto split: if_splits)
qed

lemma hex_text_inject: "hex_text xs = hex_text ys \<Longrightarrow> xs = ys"
proof (induction xs arbitrary: ys)
  case Nil
  then show ?case by (cases ys) (simp_all add: hex_text_def)
next
  case (Cons x xs)
  then obtain y ys' where ys: "ys = y # ys'" by (cases ys) (simp_all add: hex_text_def)
  have nibble: "hex_char (of_char x div 16) = hex_char (of_char y div 16)" "hex_char (of_char x mod 16) = hex_char (of_char y mod 16)"
    and rest: "hex_text xs = hex_text ys'" using Cons.prems by (simp_all add: hex_text_def ys)
  have small: "(of_char c :: nat) div 16 < 16" for c :: char
  proof -
    have "(of_char c :: nat) = of_char c mod 256" by simp
    then have "(of_char c :: nat) < 256" by (metis mod_less_divisor zero_less_numeral)
    then show ?thesis by (simp add: div_less_iff_less_mult)
  qed
  have "(of_char x :: nat) div 16 = of_char y div 16" "(of_char x :: nat) mod 16 = of_char y mod 16"
    using hex_char_inject [OF small small nibble(1)] hex_char_inject [OF _ _ nibble(2)] by simp_all
  then have "(of_char x :: nat) = of_char y" by (metis div_mult_mod_eq)
  then show ?case using Cons.IH [OF rest] by (simp add: ys)
qed

lemma m6_digest_inject:
  assumes "m6_digest sha d ps = m6_digest sha e qs"
    and "list_all (\<lambda>p. length p < 2 ^ 64) (d # ps)" "list_all (\<lambda>p. length p < 2 ^ 64) (e # qs)"
  shows "d = e \<and> ps = qs \<or> collision sha"
proof (cases "m6_preimage d ps = m6_preimage e qs")
  case True
  then show ?thesis using digest_preimage_inject [OF assms(2,3)] by blast
next
  case False
  moreover have "sha (m6_preimage d ps) = sha (m6_preimage e qs)"
    using hex_text_inject assms(1) by (simp add: m6_digest_def)
  ultimately show ?thesis by (auto simp: collision_def)
qed

lemma int_part_short: "- (2 ^ 64) < n \<Longrightarrow> n < 2 ^ 64 \<Longrightarrow> length (int_part n) < 2 ^ 64"
proof -
  assume n: "- (2 ^ 64) < n" "n < 2 ^ 64"
  have "length (decimal m) \<le> 20" if "m < 2 ^ 64" for m :: nat
    using that by (intro decimal_length) simp_all
  then show ?thesis using n by (auto simp: int_part_def le_less_trans [of _ 20] Suc_le_eq intro!: le_less_trans [of _ 21])
qed

definition text_ok :: "string \<Rightarrow> bool" where
  "text_ok t \<longleftrightarrow> length t < 2 ^ 64"

lemma sorted_set_eq_iff: "sorted_set xs = sorted_set ys \<longleftrightarrow> set xs = set ys"
proof
  assume "set xs = set ys"
  then have "remdups (sort xs) = remdups (sort ys)"
    by (intro sorted_distinct_set_unique) simp_all
  then show "sorted_set xs = sorted_set ys" by (simp add: sorted_set_def Let_def)
qed (rule sorted_set_inject)

lemma sorted_set_ok: "list_all text_ok xs \<Longrightarrow> length xs < 2 ^ 64 \<Longrightarrow> list_all (\<lambda>p. length p < 2 ^ 64) (sorted_set xs)"
proof -
  assume xs: "list_all text_ok xs" "length xs < 2 ^ 64"
  have "length (remdups (sort xs)) \<le> length xs" using length_remdups_leq [of "sort xs"] by simp
  then have "length (int_part (int (length (remdups (sort xs))))) < 2 ^ 64"
    using xs(2) by (intro int_part_short) simp_all
  then show ?thesis using xs(1) by (simp add: sorted_set_def Let_def list_all_iff text_ok_def)
qed

text \<open>C14 (equivalence). Up to a collision of SHA-256, the slot of an evidence cluster is its space and the set of its
  groups, in whatever order and however often they are listed; and a candidate is its slot and its coverage epoch.\<close>

theorem identities_are_what_they_name:
  assumes "list_all text_ok (a # b # p # q # gs @ hs)" "length gs < 2 ^ 64" "length hs < 2 ^ 64" "is_i64 e" "is_i64 f"
  shows "((slot_id_evidence_cluster sha a gs = slot_id_evidence_cluster sha b hs) = (a = b \<and> set gs = set hs) \<or> collision sha)
    \<and> ((candidate_id sha p e = candidate_id sha q f) = (p = q \<and> e = f) \<or> collision sha)"
proof -
  have tag: "length (signal_tag k) < 2 ^ 64" for k by (cases k) simp_all
  have ok: "text_ok a" "text_ok b" "text_ok p" "text_ok q" "list_all text_ok gs" "list_all text_ok hs" using assms(1) by simp_all
  have parts: "list_all (\<lambda>p. length p < 2 ^ 64) (domain_slot # common_frame EvidenceCluster x @ sorted_set xs)"
    if "text_ok x" "list_all text_ok xs" "length xs < 2 ^ 64" for x xs
    using that sorted_set_ok [OF that(2,3)] tag by (simp add: common_frame_def text_ok_def domain_slot_def)
  have slot: "(slot_id_evidence_cluster sha a gs = slot_id_evidence_cluster sha b hs) = (a = b \<and> set gs = set hs) \<or> collision sha"
  proof (cases "a = b \<and> set gs = set hs")
    case True
    then have "sorted_set gs = sorted_set hs" by (simp add: sorted_set_eq_iff)
    with True show ?thesis by (simp add: slot_id_evidence_cluster_def)
  next
    case False
    with m6_digest_inject [OF _ parts [OF ok(1,5) assms(2)] parts [OF ok(2,6) assms(3)], of sha] show ?thesis
      by (auto simp: slot_id_evidence_cluster_def common_frame_def sorted_set_eq_iff)
  qed
  have parts: "list_all (\<lambda>p. length p < 2 ^ 64) (domain_candidate # [x, int_part n])" if "text_ok x" "is_i64 n" for x n
    using that int_part_short [of n] by (simp add: text_ok_def is_i64_def domain_candidate_def)
  have "(candidate_id sha p e = candidate_id sha q f) = (p = q \<and> e = f) \<or> collision sha"
    using m6_digest_inject [OF _ parts [OF ok(3) assms(4)] parts [OF ok(4) assms(5)], of sha]
    by (auto simp: candidate_id_def int_part_inject)
  with slot show ?thesis ..
qed

theorem identities_are_what_they_name_witness:
  "(slot_id_evidence_cluster id ''s'' [''g'', ''h''] = slot_id_evidence_cluster id ''s'' [''h'', ''g'', ''h''])
     = (''s'' = ''s'' \<and> set [''g'', ''h''] = set [''h'', ''g'', ''h'']) \<or> collision (id :: string \<Rightarrow> string)"
  using identities_are_what_they_name [of "''s''" "''s''" "''p''" "''q''" "[''g'', ''h'']" "[''h'', ''g'', ''h'']" 1 2 id]
  by (simp add: text_ok_def is_i64_def)

end
