(* ===== verification/Genesis_Stall.thy ===== *)
theory Genesis_Stall
  imports Genesis_Operations
begin

text \<open>
  What a committed refusal of a claim leads to: a group with a claim and a frontier row, over which the reconciliation
  of its space fails in every later turn.
\<close>

section \<open>A space with a group of two homes\<close>

text \<open>What a reconciliation leaves in place: claims, the rows of the frontier, and the evidence.\<close>

definition holds_rel :: "'p store \<Rightarrow> 'p store \<Rightarrow> bool" where
  "holds_rel s s' \<longleftrightarrow> s_roots s' = s_roots s \<and> s_edges s' = s_edges s \<and> s_claims s' = s_claims s
     \<and> s_candidates s' = s_candidates s \<and> set (s_frontier s) \<subseteq> set (s_frontier s')"

interpretation holding: store_order holds_rel
  by unfold_locales (auto simp: holds_rel_def)

lemma holds_lapse: "keeps holds_rel (reconcile_expired_suppressions sp e)"
proof -
  have i: "keeps holds_rel (insert_frontier r)" for r
    by (auto simp: keeps_def holds_rel_def insert_frontier_def split: if_splits)
  have "keeps holds_rel (lapse_suppression x)" for x
    unfolding lapse_suppression_def
    by (intro holding.keeps_rules i) (auto simp: keeps_def holds_rel_def Let_def)
  then show ?thesis unfolding reconcile_expired_suppressions_def by (intro holding.keeps_rules)
qed

definition double_booked :: "string \<Rightarrow> int \<Rightarrow> 'p store \<Rightarrow> bool" where
  "double_booked sp e s \<longleftrightarrow> list_ex (\<lambda>g. at_home s Claimed (sp, g, e) \<and> at_home s InFrontier (sp, g, e))
     (eligible_groups sp s)"

lemma double_booked_kept: "holds_rel s s' \<Longrightarrow> double_booked sp e s \<Longrightarrow> double_booked sp e s'"
  unfolding double_booked_def list_ex_iff holds_rel_def
  by (auto simp: eligible_groups_def occurs_iff cong: if_cong)

lemma double_booked_counts: "double_booked sp e s \<Longrightarrow> list_ex (\<lambda>(g, n). n > 1) (reason_counts sp e s)"
  by (auto simp: double_booked_def list_ex_iff reason_counts_def reason_count_def all_homes_def simp del: at_home.simps)

lemma double_booked_blocks:
  assumes "double_booked sp e s"
  shows "\<exists>err. reconcile_space sp e s = Inl err"
proof (cases "reconcile_space sp e s")
  case (Inr x)
  then obtain n s1 where l: "reconcile_expired_suppressions sp e s = Inr (n, s1)"
    and free: "\<not> list_ex (\<lambda>(g, n). n > 1) (reason_counts sp e s1)"
    by (cases x) (auto simp: reconcile_space_def tx_simps split: if_splits)
  have "double_booked sp e s1" using double_booked_kept [OF keepsD [OF holds_lapse l] assms] .
  then show ?thesis using double_booked_counts free by blast
qed blast

text \<open>The driver stands before such a space, and no one holds its frontier lease.\<close>

definition stalled :: "shadow_state \<Rightarrow> gstore \<Rightarrow> bool" where
  "stalled sh s \<longleftrightarrow> sh_recovery sh \<noteq> None \<and> s_spaces s \<noteq> []
     \<and> (let spaces = sort_key snd (s_spaces s);
            (space_id, space) = spaces ! (unat (sh_rotation sh) mod length spaces)
        in is_some_and (\<lambda>c. double_booked space (cs_epoch c) s) (find (\<lambda>c. cs_space_id c = space_id) (s_epochs s))
           \<and> \<not> occurs (\<lambda>l. le_phase l = lease_phase_as_str FrontierPhase \<and> le_space l = space) (s_leases s))"

lemma acquire_free:
  assumes "\<not> occurs (\<lambda>l. le_phase l = lease_phase_as_str phase \<and> le_space l = space) (s_leases s)"
  shows "\<exists>s'. lease_acquire token phase space generation attempt s = Inr (Some token, s')
    \<and> (\<exists>n ls. s' = s\<lparr>s_tick := n, s_leases := ls\<rparr>)"
proof -
  have "\<not> occurs (\<lambda>l. lease_key l = (lease_phase_as_str phase, space, generation)) (delete_where P (s_leases s))" for P
    using assms by (auto simp: occurs_iff lease_key_def)
  then show ?thesis
    by (auto simp: lease_acquire_def tx_then_def tx_bind_def tx_now_def intro!: exI)
qed

lemma double_booked_frame [simp]:
  "double_booked sp e (s\<lparr>s_tick := n\<rparr>) = double_booked sp e s"
  "double_booked sp e (s\<lparr>s_leases := ls\<rparr>) = double_booked sp e s"
  "double_booked sp e (s\<lparr>s_counters := cn\<rparr>) = double_booked sp e s"
  by (simp_all add: double_booked_def eligible_groups_def cong: if_cong)

lemma reconcile_transaction_blocked:
  assumes "double_booked space epoch s"
    and "\<not> occurs (\<lambda>l. le_phase l = lease_phase_as_str FrontierPhase \<and> le_space l = space) (s_leases s)"
  shows "\<exists>err. reconcile_transaction E space_id space epoch s = Inl err"
proof -
  obtain s1 n ls where acq: "lease_acquire (tv_token E (s_tick s)) FrontierPhase space (grouping_generation space s) 0 s
      = Inr (Some (tv_token E (s_tick s)), s1)" and s1: "s1 = s\<lparr>s_tick := n, s_leases := ls\<rparr>"
    using acquire_free [OF assms(2)] by blast
  obtain err where "reconcile_space space epoch s1 = Inl err"
    using double_booked_blocks [of space epoch s1] assms(1) s1 by auto
  then show ?thesis by (simp add: reconcile_transaction_def tx_bind_def tx_read_def acq)
qed

lemma stalled_frame:
  "stalled sh s \<Longrightarrow> stalled (sh\<lparr>sh_turns := n\<rparr>) (s\<lparr>s_counters := cn\<rparr>)"
  by (simp add: stalled_def Let_def split_beta)

text \<open>C20 (error). When an eligible group of the space at the rotation has a frontier row beside its claim, as a
  committed refusal of a claim leaves it, the turn fails whatever the signals, the tokens and the digest are; the
  rotation does not move on and the group keeps both rows, so every later turn fails as well.\<close>

theorem double_booked_space_stalls_the_driver:
  assumes "stalled sh s" "run_genesis_shadow_turn E sh s = (r, sh', s')"
  shows "\<exists>err. r = Inl err \<and> stalled sh' s'"
proof -
  let ?sh = "sh\<lparr>sh_turns := sat_inc (sh_turns sh)\<rparr>"
  let ?spaces = "sort_key snd (s_spaces s)"
  obtain space_id space where sp: "?spaces ! (unat (sh_rotation sh) mod length ?spaces) = (space_id, space)"
    by (cases "?spaces ! (unat (sh_rotation sh) mod length ?spaces)")
  obtain c where c: "find (\<lambda>c. cs_space_id c = space_id) (s_epochs s) = Some c" and db: "double_booked space (cs_epoch c) s"
    and free: "\<not> occurs (\<lambda>l. le_phase l = lease_phase_as_str FrontierPhase \<and> le_space l = space) (s_leases s)"
    using assms(1) sp by (auto simp: stalled_def is_some_and_iff)
  define sample where "sample = (unat (sh_turns ?sh) mod unat oracle_sample_turns = 0)"
  have fails: "\<exists>err cn. space_turn E sample space_id space s = (Inl err, s\<lparr>s_counters := cn\<rparr>)"
  proof -
    have opened: "open_turn E space_id space s = (if tv_ready E space s then Inr (c, s) else Inl VectorDb)"
      using c by (simp add: open_turn_def open_coverage_epoch_def read_coverage_state_def tx_bind_def tx_read_def
          tx_return_def tx_fail_def)
    show ?thesis
    proof (cases "tv_ready E space s")
      case False
      then show ?thesis using opened
        by (intro exI [of _ VectorDb] exI [of _ "s_counters s"]) (simp add: space_turn_def ses_bind_def transaction_def)
    next
      case True
      obtain cn where sampled: "(if sample then sample_oracle E space_id else ses_return ()) s = (Inr (), s\<lparr>s_counters := cn\<rparr>)"
      proof -
        have "\<exists>cn. (if sample then sample_oracle E space_id else ses_return ()) s = (Inr (), s\<lparr>s_counters := cn\<rparr>)"
          by (auto simp: sample_oracle_def transaction_def tx_bind_def tx_read_def bump_def tx_return_def ses_return_def
              intro: exI [of _ "s_counters s"])
        then show thesis using that by blast
      qed
      let ?s = "s\<lparr>s_counters := cn\<rparr>"
      obtain err where "reconcile_transaction E space_id space (cs_epoch c) ?s = Inl err"
        using reconcile_transaction_blocked [of space "cs_epoch c" ?s E space_id] db free by auto
      then have "space_turn E sample space_id space s = (Inl err, ?s)"
        using opened True sampled by (simp add: space_turn_def ses_bind_def transaction_def reconcile_turn_def)
      then show ?thesis by blast
    qed
  qed
  then obtain err cn where turn: "space_turn E sample space_id space s = (Inl err, s\<lparr>s_counters := cn\<rparr>)" by blast
  obtain report where "sh_recovery sh = Some report" "s_spaces s \<noteq> []"
    using assms(1) by (auto simp: stalled_def)
  then have "run_genesis_shadow_turn E sh s = (Inl err, ?sh, s\<lparr>s_counters := cn\<rparr>)"
    using sp turn by (simp add: run_genesis_shadow_turn_def Let_def sample_def)
  then show ?thesis using assms(2) stalled_frame [OF assms(1)] by auto
qed

text \<open>An evidence cluster with two roots of one group: the signal proposes both, the second claim is refused, the refusal is committed with the first
  claim, and the driver is stalled before the space.\<close>

lemma demo_refusal:
  "\<exists>sh' s'. run_genesis_shadow_turn genesis_demo_env genesis_demo_driver demo_double
      = (Inr (Requeued ''6162'' ''claim refused on root r2''), sh', s') \<and> stalled sh' s'"
  by (simp add: turn_defs prepare_defs tx_defs genesis_demo_defs cluster_signals_demo clustered_def demo_proposal_def demo_candidate_id frontier_scan_slice_rows_def stalled_def
      double_booked_def)

theorem double_booked_space_stalls_the_driver_witness:
  "\<exists>sh' s'. stalled sh' s' \<and> (\<exists>err. fst (run_genesis_shadow_turn genesis_demo_env sh' s') = Inl err)"
proof -
  obtain sh' s' where "stalled sh' s'" using demo_refusal by blast
  moreover from double_booked_space_stalls_the_driver [OF this, of genesis_demo_env]
  have "\<exists>err. fst (run_genesis_shadow_turn genesis_demo_env sh' s') = Inl err"
    by (cases "run_genesis_shadow_turn genesis_demo_env sh' s'") auto
  ultimately show ?thesis by blast
qed

end
