(* ===== verification/Genesis_Proposals.thy ===== *)
theory Genesis_Proposals
  imports Genesis_Examples "HOL-Library.Multiset"
begin

text \<open>
  What the driver may rely on when it takes up the proposals of the signals: each is backed by evidence, they come in
  the order of their slots, and they depend on the rows of the tables, not on the order a query returns them in.
\<close>

section \<open>Proposals are backed\<close>

text \<open>C7 (safety). Whatever the signals admit for a space, they write nothing, the proposals come in the order of their
  slots, and each clears the floor of three independent groups and lists between one and 64 roots, each once and in
  order, each an active root of its own evidence under a grounded edge that is open and not on an overview page.\<close>

theorem admitted_proposals_are_backed:
  assumes "admitted_proposals E space_id s = Inr (ps, s')"
  shows "s' = s \<and> sorted (map pr_slot ps) \<and> list_all (\<lambda>p. 3 \<le> pr_group_count p \<and> pr_roots p \<noteq> [] \<and> length (pr_roots p) \<le> 64
    \<and> distinct (pr_roots p) \<and> sorted (pr_roots p) \<and> list_all (backed (\<lambda>_. True) s) (pr_roots p)) ps"
proof -
  have r: "signal_proposals E space_id (tv_durable E s) s = Inr (ps, s')"
    using assms by (simp add: admitted_proposals_def tx_simps)
  show ?thesis using signal_proposals_ok [OF r]
    by (auto simp: list_all_iff proposal_ok_def independence_group_floor_def roots_per_candidate_cap_def)
qed

lemma demo_clustered: "clustered [(''r1'', ''g1''), (''r2'', ''g1''), (''r3'', ''g2''), (''r4'', ''g3'')] demo_double"
  by (simp add: clustered_def demo_double_def cluster_store_def fresh_store_def)

theorem admitted_proposals_are_backed_witness:
  "\<exists>p. admitted_proposals genesis_demo_env ''id1'' demo_double = Inr ([p], demo_double)
    \<and> list_all (backed (\<lambda>_. True) demo_double) (pr_roots p) \<and> pr_roots p = [''r1'', ''r2'', ''r3'', ''r4'']"
proof -
  let ?p = "demo_proposal [(''r1'', ''g1''), (''r2'', ''g1''), (''r3'', ''g2''), (''r4'', ''g3'')]"
  have r: "admitted_proposals genesis_demo_env ''id1'' demo_double = Inr ([?p], demo_double)"
    using cluster_signals [OF demo_clustered] by simp
  from admitted_proposals_are_backed [OF r] have "list_all (backed (\<lambda>_. True) demo_double) (pr_roots ?p)" by simp
  then show ?thesis using r by (intro exI [of _ ?p]) (simp add: demo_proposal_def)
qed

section \<open>The order of rows\<close>

text \<open>The same rows in whatever order, where a row is found by its key the key being one.\<close>

definition same_rows :: "'p store \<Rightarrow> 'p store \<Rightarrow> bool" where
  "same_rows s t \<longleftrightarrow> mset (s_roots s) = mset (s_roots t) \<and> mset (s_edges s) = mset (s_edges t)
     \<and> mset (s_pages s) = mset (s_pages t) \<and> mset (s_page_truth s) = mset (s_page_truth t)
     \<and> mset (s_page_claims s) = mset (s_page_claims t) \<and> mset (s_links s) = mset (s_links t)
     \<and> mset (s_anchors s) = mset (s_anchors t) \<and> mset (s_communities s) = mset (s_communities t)
     \<and> mset (s_members s) = mset (s_members t) \<and> mset (s_subscriptions s) = mset (s_subscriptions t)
     \<and> mset (s_spaces s) = mset (s_spaces t)
     \<and> unique_key pg_id (\<lambda>_. True) (s_pages s) \<and> unique_key fst (\<lambda>_. True) (s_spaces s)"

lemma same_rows_sets:
  assumes "same_rows s t"
  shows "set (s_roots s) = set (s_roots t)" "set (s_edges s) = set (s_edges t)" "set (s_pages s) = set (s_pages t)"
    "set (s_page_truth s) = set (s_page_truth t)" "set (s_page_claims s) = set (s_page_claims t)"
    "set (s_links s) = set (s_links t)" "set (s_anchors s) = set (s_anchors t)" "set (s_subscriptions s) = set (s_subscriptions t)"
  using assms by (auto simp: same_rows_def dest: mset_eq_setD)

lemma sort_same: "mset xs = mset ys \<Longrightarrow> sort (map f (filter P xs)) = sort (map f (filter P ys))"
  by (simp add: properties_for_sort)

lemma sort_remdups_same: "set xs = set ys \<Longrightarrow> sort (remdups xs) = sort (remdups ys)"
  by (simp add: sorted_list_of_set_sort_remdups [symmetric])

lemma remdups_sort_same: "set xs = set ys \<Longrightarrow> remdups (sort xs) = remdups (sort ys)"
  by (rule sorted_distinct_set_unique) (simp_all add: sorted_remdups)

lemma find_row: "z \<in> set zs \<Longrightarrow> k z = i \<Longrightarrow> distinct (map k zs) \<Longrightarrow> find (\<lambda>x. k x = i) zs = Some z"
proof (induction zs)
  case (Cons a zs)
  show ?case
  proof (cases "z = a")
    case False
    then have z: "z \<in> set zs" using Cons.prems(1) by simp
    then have "k a \<noteq> i" using Cons.prems(2,3) by (metis distinct.simps(2) image_eqI list.set_map list.simps(9))
    then show ?thesis using Cons z by simp
  qed (use Cons.prems in simp)
qed simp

lemma find_same:
  assumes "mset xs = mset ys" "unique_key k (\<lambda>_. True) xs"
  shows "find (\<lambda>x. k x = i) xs = find (\<lambda>x. k x = i) ys"
proof -
  have d: "distinct (map k xs)" using assms(2) by (simp add: unique_key_def)
  have "distinct (map k ys)" using d assms(1) by (metis mset_eq_imp_distinct_iff mset_map)
  moreover have "set xs = set ys" using assms(1) by (rule mset_eq_setD)
  ultimately show ?thesis
  proof (cases "find (\<lambda>x. k x = i) ys")
    case None
    then have "find (\<lambda>x. k x = i) xs = None" using \<open>set xs = set ys\<close> by (simp add: find_None_iff)
    with None show ?thesis by simp
  next
    case (Some y)
    then have "y \<in> set ys" "k y = i" by (auto simp: find_Some_iff)
    then show ?thesis using Some find_row [OF _ _ d, of y i] \<open>set xs = set ys\<close> by simp
  qed
qed

lemma live_evidence_same:
  assumes "same_rows s t"
  shows "set (live_evidence P s) = set (live_evidence P t)" "set (counted_evidence P s) = set (counted_evidence P t)"
proof -
  show l: "set (live_evidence P s) = set (live_evidence P t)"
    by (simp add: live_evidence_def same_rows_sets [OF assms] cong: if_cong)
  have "touches_overview s = touches_overview t"
    by (simp add: touches_overview_def fun_eq_iff occurs_iff same_rows_sets [OF assms])
  with l show "set (counted_evidence P s) = set (counted_evidence P t)" by (auto simp: counted_evidence_def)
qed

lemma scopes_same:
  assumes "same_rows s t"
  shows "distinct_group_count P s = distinct_group_count P t" "scoped_root_ids P s = scoped_root_ids P t"
    "scoped_group_ids P s = scoped_group_ids P t" "scoped_grounded_node_count P s = scoped_grounded_node_count P t"
proof -
  note e = live_evidence_same [OF assms, of P]
  show "distinct_group_count P s = distinct_group_count P t"
    by (simp add: distinct_group_count_def length_remdups_card_conv e)
  show "scoped_root_ids P s = scoped_root_ids P t"
    unfolding scoped_root_ids_def by (intro arg_cong [where f = "take roots_per_candidate_cap"] sort_remdups_same) (simp add: e)
  show "scoped_group_ids P s = scoped_group_ids P t"
    unfolding scoped_group_ids_def by (intro sort_remdups_same) (simp add: e)
  show "scoped_grounded_node_count P s = scoped_grounded_node_count P t"
    by (simp add: scoped_grounded_node_count_def Let_def length_remdups_card_conv e)
qed

lemma reads_same:
  assumes "same_rows s t"
  shows "current_communities space s = current_communities space t"
    "community_member_node_ids space c a s = community_member_node_ids space c a t"
    "has_active_overview_subscription k i s = has_active_overview_subscription k i t"
    "supports_scope revs s = supports_scope revs t"
    "find (\<lambda>p. pg_id p = page) (s_pages s) = find (\<lambda>p. pg_id p = page) (s_pages t)"
    "find (\<lambda>p. fst p = i) (s_spaces s) = find (\<lambda>p. fst p = i) (s_spaces t)"
  using assms unfolding same_rows_def current_communities_def community_member_node_ids_def
  by (auto simp: has_active_overview_subscription_def supports_scope_def occurs_iff fun_eq_iff same_rows_sets [OF assms]
      intro!: sort_same find_same)

lemma map_filter_option: "List.map_filter f xs = map the (filter (\<lambda>x. x \<noteq> None) (map f xs))"
  by (simp add: List.map_filter_def filter_map comp_def)

lemma set_map_filter: "set (List.map_filter f xs) = {y. Some y \<in> f ` set xs}"
  by (induction xs) (auto simp: List.map_filter_def split: option.splits)

lemma set_push_new: "set (push_new xs ys) = set xs \<union> set ys"
  by (induction xs ys rule: push_new.induct) auto

lemma distinct_push_new: "distinct xs \<Longrightarrow> distinct (push_new xs ys)"
  by (induction xs ys rule: push_new.induct) auto

lemma containing_same:
  assumes "same_rows s t"
  shows "set (containing_revisions E page label s) = set (containing_revisions E page label t)"
  unfolding containing_revisions_def reads_same(5) [OF assms]
  by (simp add: Let_def same_rows_sets [OF assms] cong: if_cong split: option.split)

lemma orphan_rows_same: "same_rows s t \<Longrightarrow> set (orphan_rows space s) = set (orphan_rows space t)"
  by (simp add: orphan_rows_def same_rows_sets cong: if_cong)

lemma orphan_slot_same:
  assumes "same_rows s t" "set ps = set qs"
  shows "orphan_wikilink_slot E i s (label, ps) = orphan_wikilink_slot E i t (label, qs)"
proof -
  have "remdups (sort (concat (map (\<lambda>page. containing_revisions E page label s) ps)))
      = remdups (sort (concat (map (\<lambda>page. containing_revisions E page label t) qs)))"
    by (rule remdups_sort_same) (simp add: containing_same [OF assms(1)] assms(2))
  then show ?thesis
    by (simp only: orphan_wikilink_slot_def Let_def prod.case scopes_same [OF assms(1)] reads_same(4) [OF assms(1)])
qed

text \<open>Each label with its pages, as the signal uses them.\<close>

lemma orphan_pages_same:
  assumes "same_rows s t"
  shows "map (\<lambda>(label, ps). if length ps < n then None else orphan_wikilink_slot E i s (label, ps)) (orphan_candidate_pages U space s)
    = map (\<lambda>(label, ps). if length ps < n then None else orphan_wikilink_slot E i t (label, ps)) (orphan_candidate_pages U space t)"
proof -
  let ?pages = "\<lambda>st label. push_new [] (map fst (filter (\<lambda>r. label_key U (snd r) = Some label) (orphan_rows space st)))"
  have labels: "sort (remdups (List.map_filter (label_key U \<circ> snd) (orphan_rows space s)))
      = sort (remdups (List.map_filter (label_key U \<circ> snd) (orphan_rows space t)))"
    by (rule sort_remdups_same) (simp add: set_map_filter orphan_rows_same [OF assms])
  have pages: "set (?pages s label) = set (?pages t label)" for label
    by (simp add: set_push_new orphan_rows_same [OF assms])
  then have "length (?pages s label) = length (?pages t label)" for label
    by (metis distinct_card distinct_push_new distinct.simps(1))
  with pages show ?thesis
    by (simp add: orphan_candidate_pages_def Let_def labels [unfolded comp_def] comp_def orphan_slot_same [OF assms pages] cong: if_cong)
qed

text \<open>C17 (equivalence). The proposals depend on the rows of the tables only: over the same rows, in whatever order the
  tables hold them, the signals admit the same list, or fail alike.\<close>

theorem proposals_ignore_the_order_of_rows:
  assumes "same_rows s t"
  shows "map_sum id fst (signal_proposals E space_id durable s) = map_sum id fst (signal_proposals E space_id durable t)"
proof -
  note same = scopes_same [OF assms] reads_same [OF assms]
  show ?thesis
  proof (cases "find (\<lambda>p. fst p = space_id) (s_spaces t)")
    case None
    then show ?thesis
      by (simp add: signal_proposals_def space_overview_def resolve_space_name_def tx_bind_def same(10))
  next
    case (Some p)
    then have names: "resolve_space_name space_id s = Inr (snd p, s)" "resolve_space_name space_id t = Inr (snd p, t)"
      by (simp_all add: resolve_space_name_def same(10))
    have "evidence_cluster_of E space_id space s = evidence_cluster_of E space_id space t"
      "community_overview_of E space_id space s = community_overview_of E space_id space t" for space
      by (simp_all add: fun_eq_iff evidence_cluster_of_def community_overview_of_def Let_def same)
    then show ?thesis
      by (simp add: signal_proposals_def space_overview_def evidence_cluster_def community_overview_def orphan_wikilink_def
          tx_bind_def tx_read_def tx_return_def names same Let_def map_filter_option orphan_pages_same [OF assms]
          del: map_map)
  qed
qed

theorem proposals_ignore_the_order_of_rows_witness:
  "map_sum id fst (signal_proposals genesis_demo_env ''id1'' True (demo_double\<lparr>s_edges := rev (s_edges demo_double)\<rparr>))
    = Inr [demo_proposal [(''r1'', ''g1''), (''r2'', ''g1''), (''r3'', ''g2''), (''r4'', ''g3'')]]"
proof -
  have "same_rows demo_double (demo_double\<lparr>s_edges := rev (s_edges demo_double)\<rparr>)"
    by (simp add: same_rows_def unique_key_def demo_double_def cluster_store_def fresh_store_def)
  note same = proposals_ignore_the_order_of_rows [OF this, of genesis_demo_env "''id1''" True]
  have "admitted_proposals genesis_demo_env ''id1'' demo_double
      = Inr ([demo_proposal [(''r1'', ''g1''), (''r2'', ''g1''), (''r3'', ''g2''), (''r4'', ''g3'')]], demo_double)"
    using cluster_signals [OF demo_clustered] by simp
  then have "signal_proposals genesis_demo_env ''id1'' True demo_double
      = Inr ([demo_proposal [(''r1'', ''g1''), (''r2'', ''g1''), (''r3'', ''g2''), (''r4'', ''g3'')]], demo_double)"
    by (simp add: admitted_proposals_def tx_bind_def tx_read_def genesis_demo_env_def)
  with same show ?thesis by simp
qed

section \<open>What is considered, and what drains the cap\<close>

text \<open>A proposal whose candidate is already prepared, published or set aside for good is passed over.\<close>

definition passed_over :: "turn_env \<Rightarrow> int \<Rightarrow> gstore \<Rightarrow> proposal \<Rightarrow> bool" where
  "passed_over E epoch s p \<longleftrightarrow>
     is_some_and (\<lambda>c. \<not> transition_is_legal (ca_state c) Prepared) (candidate_row (candidate_id (tv_sha E) (pr_slot p) epoch) s)"

lemma prepare_one_passed_over:
  "passed_over E epoch s p \<Longrightarrow> prepare_one E space_id space epoch p (candidate_id (tv_sha E) (pr_slot p) epoch) s = Inr (None, s)"
  by (auto simp: passed_over_def is_some_and_iff prepare_one_def observe_candidate_def read_candidate_def tx_bind_def tx_read_def
      tx_return_def transition_is_legal_def candidate_transitions_def split: candidate_state.splits)

lemma prepare_each_passed_over:
  "list_all (passed_over E epoch s) ps \<Longrightarrow> prepare_each E space_id space epoch ps s = (Inr None, s)"
  by (induction ps) (simp_all add: ses_return_def ses_bind_def transaction_def prepare_one_passed_over)

text \<open>Only the first sixteen proposals in slot order are considered: while each of them has a candidate that
  cannot be prepared (again), the turn prepares nothing, changes nothing, and no proposal behind them is ever observed.\<close>

theorem only_the_first_sixteen_are_considered:
  assumes "admitted_proposals E space_id s = Inr (ps, s)" "list_all (passed_over E epoch s) (take 16 ps)"
  shows "prepare_turn E space_id space epoch s = (Inr None, s)"
  using prepare_each_passed_over [OF assms(2)] assms(1)
  by (simp add: prepare_turn_def ses_bind_def transaction_def candidate_prepares_per_cycle_cap_def)

text \<open>The rows that count against the cap of a space.\<close>

definition pending_view :: "'p store \<Rightarrow> (string \<times> bool) list" where
  "pending_view s = map (\<lambda>c. (ca_space c, ca_state c \<in> set pending_states)) (s_candidates s)"

definition pending_rel :: "'p store \<Rightarrow> 'p store \<Rightarrow> bool" where
  "pending_rel s s' \<longleftrightarrow> pending_view s' = pending_view s"

interpretation pending: store_order pending_rel
  by unfold_locales (simp_all add: pending_rel_def pending_view_def)

lemma pending_count_view: "pending_candidate_count space s = length (filter (\<lambda>(sp, b). sp = space \<and> b) (pending_view s))"
  by (simp add: pending_candidate_count_def pending_view_def affected_def filter_map comp_def)

lemma pending_update:
  assumes "\<And>c. P c \<Longrightarrow> ca_space (f c) = ca_space c \<and> (ca_state (f c) \<in> set pending_states \<longleftrightarrow> ca_state c \<in> set pending_states)"
  shows "pending_rel s (s\<lparr>s_candidates := update_where P f (s_candidates s)\<rparr>)"
  using assms by (simp add: pending_rel_def pending_view_def update_where_def)

lemma pending_statements:
  "keeps pending_rel (record_envelope i en)" "keeps pending_rel (mark_retry_wait i charge)"
  "keeps pending_rel (lease_release phase space generation token)" "keeps pending_rel (bump space_id name by)"
  "keeps pending_rel (evaluate_gates E c en)" "keeps pending_rel (read_candidate i)"
proof -
  show "keeps pending_rel (record_envelope i en)"
    unfolding record_envelope_def by (intro pending.keeps_rules) (auto simp: keeps_def intro!: pending_update)
  have get: "keeps pending_rel (get_candidate i)" "keeps pending_rel (guard_transition a b)" for a b
    unfolding get_candidate_def guard_transition_def read_candidate_def by (intro pending.keeps_rules)+
  have update: "keeps pending_rel (update_candidate i sts f)"
    if "\<And>t c. ca_state c \<in> set sts \<Longrightarrow> ca_space (f t c) = ca_space c
        \<and> (ca_state (f t c) \<in> set pending_states \<longleftrightarrow> ca_state c \<in> set pending_states)" for sts f
    unfolding update_candidate_def using that
    by (intro pending.keeps_rules) (auto simp: keeps_def Let_def intro!: pending_update)
  show "keeps pending_rel (mark_retry_wait i charge)"
    unfolding mark_retry_wait_def by (intro pending.keeps_rules get update) (auto simp: pending_states_def)
  show "keeps pending_rel (lease_release phase space generation token)" "keeps pending_rel (bump space_id name by)"
    by (auto simp: keeps_def lease_release_def bump_def Let_def pending_rel_def pending_view_def split: if_splits)
  have gate: "keeps pending_rel (gate_holds E c en g)" for g
    by (cases g) (auto simp: e1_lease_ownership_def lease_owns_def intro!: pending.keeps_rules)
  have "keeps pending_rel (first_refusal E c en gs)" for gs
    by (induction gs) (auto intro!: gate pending.keeps_rules)
  then show "keeps pending_rel (evaluate_gates E c en)" unfolding evaluate_gates_def by simp
  show "keeps pending_rel (read_candidate i)" unfolding read_candidate_def by (intro pending.keeps_rules)
qed

text \<open>C32 (functional). Finalizing a candidate never drains the cap on the pending candidates of a space: whether its dry
  run passes (it stays prepared), is refused (it waits for a retry) or fails, every space has as many pending
  candidates as before.\<close>

theorem finalization_keeps_the_pending_count:
  assumes "finalize_one E space_id space s = (r, s')"
  shows "pending_candidate_count sp s' = pending_candidate_count sp s"
proof -
  have dry: "keeps pending_rel (dry_run_finalize E i)" for i
    unfolding dry_run_finalize_def by (intro pending.keeps_rules pending_statements)
  have outcome: "keeps pending_rel (case outcome of
         DryRunPassed \<Rightarrow>
           tx_then (bump space_id ''dry_run_passed'' 1)
           (tx_then (bump space_id ''shadow_turns'' 1) (tx_return (Some (DryRunPassedTurn i))))
       | DryRunRefused g \<Rightarrow>
           tx_then (bump space_id (''dry_run_refused_'' @ gate_as_str g) 1)
           (tx_then (bump space_id ''shadow_turns'' 1) (tx_return (Some (DryRunRefusedTurn i g))))
       | NotEligible \<Rightarrow> tx_return None)" for i outcome
    by (cases outcome; simp; intro pending.keeps_rules pending_statements)
  have "ses_keeps pending_rel (finalize_one E space_id space)"
    unfolding finalize_one_def by (intro pending.ses_rules pending.keeps_rules dry outcome)
  from ses_keepsD [OF this assms] show ?thesis by (simp add: pending_rel_def pending_count_view)
qed

definition demo_prepared :: gstore where
  "demo_prepared = demo_double\<lparr>s_candidates := [\<lparr>ca_id = ''6162'', ca_slot = ''6162'', ca_page = ''m6p_6162'', ca_space = ''work'',
     ca_signal = EvidenceCluster, ca_epoch = 1, ca_generation = 0, ca_digest = ''d'', ca_state = Prepared, ca_reason = None,
     ca_attempt = 0, ca_next_attempt = None, ca_token = Some ''t'', ca_receipt = None, ca_payload = None, ca_compacted = None,
     ca_created = 900, ca_updated = 900\<rparr>]\<rparr>"

theorem only_the_first_sixteen_are_considered_witness:
  "prepare_turn genesis_demo_env ''id1'' ''work'' 1 demo_prepared = (Inr None, demo_prepared)"
proof (rule only_the_first_sixteen_are_considered)
  let ?rs = "[(''r1'', ''g1''), (''r2'', ''g1''), (''r3'', ''g2''), (''r4'', ''g3'')]"
  have "clustered ?rs demo_prepared" using demo_clustered by (simp add: clustered_def demo_prepared_def)
  then show "admitted_proposals genesis_demo_env ''id1'' demo_prepared = Inr ([demo_proposal ?rs], demo_prepared)"
    by (rule cluster_signals) simp
  show "list_all (passed_over genesis_demo_env 1 demo_prepared) (take 16 [demo_proposal ?rs])"
    by (simp add: passed_over_def genesis_demo_env_def demo_candidate_id candidate_row_def demo_prepared_def
        transition_is_legal_def candidate_transitions_def)
qed

theorem finalization_keeps_the_pending_count_witness:
  "pending_candidate_count ''work'' (snd (finalize_one genesis_demo_env ''id1'' ''work'' demo_prepared)) = 1"
proof -
  obtain r s' where f: "finalize_one genesis_demo_env ''id1'' ''work'' demo_prepared = (r, s')" by fastforce
  have "pending_candidate_count ''work'' demo_prepared = 1"
    by (simp add: pending_candidate_count_def affected_def demo_prepared_def pending_states_def)
  with finalization_keeps_the_pending_count [OF f, of "''work''"] f show ?thesis by simp
qed

text \<open>Grounded nodes are counted over edges that the count of groups leaves out: an edge on an overview page supports no
  group, and its entity is a node.\<close>

lemma overview_edges_count_as_nodes:
  "let s = (cluster_store [(''r1'', ''g1'')])\<lparr>
         s_edges := [(demo_edge ''r1'')\<lparr>ed_src_kind := ''page'', ed_src := ''p''\<rparr>],
         s_pages := [\<lparr>pg_id = ''p'', pg_status = ''active'', pg_version = 1, pg_space = ''work'', pg_title = ''Overview'',
            pg_content = []\<rparr>]\<rparr>
   in distinct_group_count (\<lambda>_. True) s = 0 \<and> scoped_grounded_node_count (\<lambda>_. True) s = 1"
proof -
  have "sql_lower ''Overview'' = ''overview''" by code_simp
  then show ?thesis
    by (simp add: distinct_group_count_def counted_evidence_def live_evidence_def touches_overview_def occurs_def
        scoped_grounded_node_count_def cluster_store_def fresh_store_def demo_edge_def demo_root_def)
qed

end
