(* ===== verification/Ordered_Maps.thy ===== *)
theory Ordered_Maps
  imports Main "HOL-Library.Multiset"
begin

text \<open>
  \<open>BTreeMap\<close> and \<open>BTreeSet\<close> of Rust's standard library: a map is the list of its entries in the order of
  their keys, which is the order in which the library iterates, and a set the list of its elements in
  order. The laws a client relies on are the locale \<open>ordered_map\<close>, interpreted by these lists.
\<close>

section \<open>Maps\<close>

type_synonym ('k, 'v) btree = "('k \<times> 'v) list"

fun bt_insert :: "'k::linorder \<Rightarrow> 'v \<Rightarrow> ('k, 'v) btree \<Rightarrow> ('k, 'v) btree" where
  "bt_insert k v [] = [(k, v)]"
| "bt_insert k v ((l, w) # m) =
     (if k < l then (k, v) # (l, w) # m else if k = l then (k, v) # m else (l, w) # bt_insert k v m)"

definition bt_remove :: "'k \<Rightarrow> ('k, 'v) btree \<Rightarrow> ('k, 'v) btree" where
  "bt_remove k m = filter (\<lambda>e. fst e \<noteq> k) m"

definition bt_ok :: "('k::linorder, 'v) btree \<Rightarrow> bool" where
  "bt_ok m \<longleftrightarrow> sorted_wrt (<) (map fst m)"

text \<open>\<open>get(k).copied().unwrap_or(d)\<close> and \<open>*entry(k).or_insert(d) = f(..)\<close>.\<close>

definition bt_or :: "'v \<Rightarrow> 'k \<Rightarrow> ('k, 'v) btree \<Rightarrow> 'v" where
  "bt_or d k m = (case map_of m k of None \<Rightarrow> d | Some v \<Rightarrow> v)"

definition bt_entry :: "'k::linorder \<Rightarrow> 'v \<Rightarrow> ('v \<Rightarrow> 'v) \<Rightarrow> ('k, 'v) btree \<Rightarrow> ('k, 'v) btree" where
  "bt_entry k d f m = bt_insert k (f (bt_or d k m)) m"

definition bt_collect :: "('k::linorder \<times> 'v) list \<Rightarrow> ('k, 'v) btree" where
  "bt_collect kvs = foldl (\<lambda>m (k, v). bt_insert k v m) [] kvs"

text \<open>A set is its elements in order.\<close>

definition bs_of :: "'k::linorder list \<Rightarrow> 'k list" where
  "bs_of xs = sort (remdups xs)"

lemma set_bs_of [simp]: "set (bs_of xs) = set xs" by (simp add: bs_of_def)

lemma bs_of_sorted [simp]: "sorted (bs_of xs)" "distinct (bs_of xs)" by (simp_all add: bs_of_def)

lemma bs_of_same: "set xs = set ys \<Longrightarrow> bs_of xs = bs_of ys"
  by (metis bs_of_sorted set_bs_of sorted_distinct_set_unique)

definition bs_insert :: "'k::linorder \<Rightarrow> 'k list \<Rightarrow> 'k list" where
  "bs_insert x xs = bs_of (x # xs)"

lemma bs_insert_simps [simp]: "set (bs_insert x xs) = insert x (set xs)" "sorted (bs_insert x xs)" "distinct (bs_insert x xs)"
  by (simp_all add: bs_insert_def)

section \<open>The laws of a map\<close>

locale ordered_map =
  fixes get :: "'m \<Rightarrow> 'k \<Rightarrow> 'v option"
    and put :: "'k \<Rightarrow> 'v \<Rightarrow> 'm \<Rightarrow> 'm"
    and drop :: "'k \<Rightarrow> 'm \<Rightarrow> 'm"
    and ok :: "'m \<Rightarrow> bool"
  assumes get_put: "get (put k v m) = (get m)(k \<mapsto> v)"
    and get_drop: "get (drop k m) = (get m)(k := None)"
    and ok_put: "ok m \<Longrightarrow> ok (put k v m)"
    and ok_drop: "ok m \<Longrightarrow> ok (drop k m)"
    and canonical: "ok m \<Longrightarrow> ok m' \<Longrightarrow> get m = get m' \<Longrightarrow> m = m'"
begin

definition put_all :: "('k \<times> 'v) list \<Rightarrow> 'm \<Rightarrow> 'm" where
  "put_all kvs m = foldl (\<lambda>m (k, v). put k v m) m kvs"

lemma put_all_simps [simp]: "put_all [] m = m" "put_all ((k, v) # kvs) m = put_all kvs (put k v m)"
  by (simp_all add: put_all_def)

lemma ok_put_all: "ok m \<Longrightarrow> ok (put_all kvs m)"
  by (induction kvs arbitrary: m) (auto simp: ok_put)

lemma get_put_all_other: "k \<notin> fst ` set kvs \<Longrightarrow> get (put_all kvs m) k = get m k"
  by (induction kvs arbitrary: m) (auto simp: get_put)

text \<open>Putting back what a map held restores it wherever it was changed.\<close>

lemma get_put_back:
  assumes "\<And>k v. (k, v) \<in> set kvs \<Longrightarrow> get m k = Some v" "k \<in> fst ` set kvs"
  shows "get (put_all kvs m') k = get m k"
  using assms
proof (induction kvs arbitrary: m')
  case (Cons e kvs)
  obtain l w where e: "e = (l, w)" by (cases e) auto
  show ?case
  proof (cases "k \<in> fst ` set kvs")
    case True
    then show ?thesis using Cons by (simp add: e)
  next
    case False
    then have "k = l" using Cons.prems(2) e by auto
    with False Cons.prems(1) [of l w] show ?thesis by (simp add: e get_put_all_other get_put)
  qed
qed simp

lemma put_back:
  assumes "ok m" "ok m'" "\<And>k v. (k, v) \<in> set kvs \<Longrightarrow> get m k = Some v"
    and "\<And>k. k \<notin> fst ` set kvs \<Longrightarrow> get m' k = get m k"
  shows "put_all kvs m' = m"
proof (rule canonical [OF ok_put_all [OF assms(2)] assms(1)], rule ext)
  fix k show "get (put_all kvs m') k = get m k"
    using get_put_back [of kvs m k m'] assms(3,4) get_put_all_other [of k kvs m'] by (cases "k \<in> fst ` set kvs") auto
qed

end

lemma bt_insert_keys [simp]: "fst ` set (bt_insert k v m) = insert k (fst ` set m)"
  by (induction k v m rule: bt_insert.induct) auto

lemma bt_insert_entry: "e \<in> set (bt_insert k v m) \<Longrightarrow> e = (k, v) \<or> e \<in> set m"
  by (induction k v m rule: bt_insert.induct) (auto split: if_splits)

lemma map_of_bt_insert: "map_of (bt_insert k v m) = (map_of m)(k \<mapsto> v)"
  by (induction k v m rule: bt_insert.induct) (auto simp: fun_eq_iff)

lemma bt_ok_insert: "bt_ok m \<Longrightarrow> bt_ok (bt_insert k v m)"
proof (induction k v m rule: bt_insert.induct)
  case (2 k v l w m)
  have "\<forall>x \<in> set m. l < fst x" using "2.prems" by (auto simp: bt_ok_def)
  with 2 show ?case using bt_insert_keys [of k v m] by (auto simp: bt_ok_def)
qed (simp add: bt_ok_def)

lemma map_of_bt_remove: "map_of (bt_remove k m) = (map_of m)(k := None)"
  by (induction m) (auto simp: bt_remove_def fun_eq_iff)

lemma bt_ok_remove: "bt_ok m \<Longrightarrow> bt_ok (bt_remove k m)"
  by (auto simp: bt_ok_def bt_remove_def sorted_wrt_map intro: sorted_wrt_filter)

lemma bt_ok_filter: "bt_ok m \<Longrightarrow> bt_ok (filter P m)"
  by (auto simp: bt_ok_def sorted_wrt_map intro: sorted_wrt_filter)

lemma bt_ok_distinct: "bt_ok m \<Longrightarrow> distinct (map fst m)" "bt_ok m \<Longrightarrow> sorted (map fst m)"
  by (auto simp: bt_ok_def strict_sorted_iff)

lemma bt_canonical:
  assumes "bt_ok m" "bt_ok n" "map_of m = map_of n"
  shows "m = n"
proof -
  have "e \<in> set m \<longleftrightarrow> e \<in> set n" for e
    using map_of_eq_Some_iff [OF bt_ok_distinct(1) [OF assms(1)], of "fst e" "snd e"]
      map_of_eq_Some_iff [OF bt_ok_distinct(1) [OF assms(2)], of "fst e" "snd e"] assms(3) by simp
  then have "set m = set n" by blast
  moreover have "inj_on fst (set n)" "distinct m" "distinct n"
    using bt_ok_distinct(1) [OF assms(1)] bt_ok_distinct(1) [OF assms(2)] by (simp_all add: distinct_map)
  ultimately show ?thesis
    using map_sorted_distinct_set_unique [of fst m n] assms(1,2) by (simp add: bt_ok_distinct)
qed

interpretation bt: ordered_map map_of bt_insert bt_remove bt_ok
  by unfold_locales (auto simp: map_of_bt_insert map_of_bt_remove bt_ok_insert bt_ok_remove intro: bt_canonical)

lemma bt_or_insert: "bt_or d k (bt_insert l v m) = (if k = l then v else bt_or d k m)"
  by (simp add: bt_or_def map_of_bt_insert)

lemma bt_or_entry: "bt_or d k (bt_entry l d f m) = (if k = l then f (bt_or d l m) else bt_or d k m)"
  by (simp add: bt_entry_def bt_or_insert)

lemma bt_or_remove: "bt_or d k (bt_remove l m) = (if k = l then d else bt_or d k m)"
  by (simp add: bt_or_def map_of_bt_remove)

lemma bt_or_Nil [simp]: "bt_or d k [] = d" by (simp add: bt_or_def)

lemma bt_ok_Nil [simp]: "bt_ok []" by (simp add: bt_ok_def)

lemma bt_ok_entry: "bt_ok m \<Longrightarrow> bt_ok (bt_entry k d f m)" by (simp add: bt_entry_def bt_ok_insert)

lemma bt_entry_keys [simp]: "fst ` set (bt_entry k d f m) = insert k (fst ` set m)" by (simp add: bt_entry_def)

lemma bt_or_in: "bt_ok m \<Longrightarrow> (k, v) \<in> set m \<Longrightarrow> bt_or d k m = v"
  by (simp add: bt_or_def bt_ok_distinct)

lemma bt_or_out: "k \<notin> fst ` set m \<Longrightarrow> bt_or d k m = d"
  by (simp add: bt_or_def map_of_eq_None_iff [symmetric])

lemma bt_collect_put: "bt_collect kvs = bt.put_all kvs []"
  by (simp add: bt_collect_def bt.put_all_def)

lemma bt_collect_ok: "bt_ok (bt_collect kvs)" by (simp add: bt_collect_put bt.ok_put_all)

lemma bt_insert_last: "bt_ok (m @ [(k, v)]) \<Longrightarrow> bt_insert k v m = m @ [(k, v)]"
proof (induction m)
  case (Cons e m)
  then show ?case by (cases e) (auto simp: bt_ok_def sorted_wrt_append)
qed simp

lemma bt_collect_sorted: "bt_ok kvs \<Longrightarrow> bt_collect kvs = kvs"
proof (induction kvs rule: rev_induct)
  case (snoc e kvs)
  then have "bt_ok kvs" by (auto simp: bt_ok_def sorted_wrt_append)
  with snoc show ?case by (cases e) (simp add: bt_collect_def bt_insert_last)
qed (simp add: bt_collect_def)

end
