(* ===== verification/Community_Projection.thy ===== *)
theory Community_Projection
  imports Prelude Ordered_Maps "HOL-Library.Char_ord" "HOL-Library.List_Lexorder" "HOL-Library.Product_Lexorder"
begin

text \<open>
  The projection of \<open>community_partition.rs\<close>: grounded edges between entities become a weighted
  undirected graph over the sorted ids of its nodes.

  A weight is an \<open>f64\<close> in the code. The definitions are polymorphic in its type and use nothing but
  its operations, whose classes here have no laws: what is proved without a further class holds for
  floating point, rounding included. What needs the laws of arithmetic is stated for a
  \<open>linordered_field\<close>. \<open>fl\<close> is the conversion of a count or a small literal to a float. Comparing by
  \<open>total_cmp\<close> orders the floats by their \<open>rank\<close>, the reading of the bits as an integer.

  The fields of \<open>graph\<close> are private to the module: every graph is made by \<open>project_grounded_relates\<close>,
  and the indices in it are in range (\<open>graph_ok\<close>), so no index of the code panics.
\<close>

section \<open>The graph\<close>

record 'w projection_config =
  relates_weight :: 'w
  parallel_edge_cap_multiplier :: 'w
  hub_degree_cap :: nat

definition default_projection :: "(nat \<Rightarrow> 'w) \<Rightarrow> 'w projection_config" where
  "default_projection fl = \<lparr>relates_weight = fl 1, parallel_edge_cap_multiplier = fl 3, hub_degree_cap = 50\<rparr>"

record projection_input_edge =
  pi_edge :: string
  pi_src :: string
  pi_dst :: string

record 'w projected_edge =
  pe_src :: nat
  pe_dst :: nat
  pe_weight :: 'w

record 'w graph =
  gr_ids :: "string list"
  gr_fingerprint :: u64
  gr_edges :: "'w projected_edge list"
  gr_adj :: "(nat \<times> 'w) list list"
  gr_degrees :: "'w list"
  gr_total :: 'w

text \<open>FNV-1a over the length and the bytes of every id.\<close>

definition fnv_step :: "u64 \<Rightarrow> u64 \<Rightarrow> u64" where
  "fnv_step hash byte = (xor hash byte) * 0x100000001b3"

definition le_bytes :: "u64 \<Rightarrow> u64 list" where
  "le_bytes x = map (\<lambda>i. and (drop_bit (8 * i) x) 255) [0..<8]"

definition stable_node_order_fingerprint :: "string list \<Rightarrow> u64" where
  "stable_node_order_fingerprint ids =
     foldl (\<lambda>hash i. foldl fnv_step hash (le_bytes (of_nat (length i)) @ map (\<lambda>c. of_nat (of_char c)) i)) 0xcbf29ce484222325 ids"

section \<open>The projection\<close>

definition id_pair :: "projection_input_edge \<Rightarrow> string \<times> string" where
  "id_pair e = (if pi_src e < pi_dst e then (pi_src e, pi_dst e) else (pi_dst e, pi_src e))"

definition cap_weight :: "'w::{zero,plus,ord} \<Rightarrow> 'w \<Rightarrow> 'w \<Rightarrow> 'w" where
  "cap_weight relates cap w = min (w + relates) cap"

definition project_edge ::
    "'w::{zero,plus,ord} \<Rightarrow> 'w \<Rightarrow> string list \<times> (string \<times> string, 'w) btree \<Rightarrow> projection_input_edge
      \<Rightarrow> string list \<times> (string \<times> string, 'w) btree" where
  "project_edge relates cap acc e =
     (if pi_src e = pi_dst e then acc
      else (bs_insert (pi_dst e) (bs_insert (pi_src e) (fst acc)),
            bt_entry (id_pair e) 0 (cap_weight relates cap) (snd acc)))"

definition project_relates ::
    "'w::{zero,plus,times,ord} projection_config \<Rightarrow> projection_input_edge list
      \<Rightarrow> string list \<times> (string \<times> string, 'w) btree" where
  "project_relates cfg input =
     foldl (project_edge (relates_weight cfg) (parallel_edge_cap_multiplier cfg * relates_weight cfg)) ([], [])
       (sort_key pi_edge input)"

definition position_of :: "'a list \<Rightarrow> 'a \<Rightarrow> nat" where
  "position_of ids x = length (takeWhile (\<lambda>y. y \<noteq> x) ids)"

definition add_at :: "nat \<Rightarrow> 'w::plus \<Rightarrow> 'w list \<Rightarrow> 'w list" where
  "add_at i d xs = xs[i := xs ! i + d]"

definition push_at :: "nat \<Rightarrow> 'a \<Rightarrow> 'a list list \<Rightarrow> 'a list list" where
  "push_at i x xss = xss[i := xss ! i @ [x]]"

definition folded_degrees :: "string list \<Rightarrow> (string \<times> string, 'w) btree \<Rightarrow> nat list" where
  "folded_degrees ids folded =
     foldl (\<lambda>ds (s, d). add_at (position_of ids d) 1 (add_at (position_of ids s) 1 ds)) (replicate (length ids) 0)
       (map fst folded)"

definition hub_factor :: "(nat \<Rightarrow> 'w) \<Rightarrow> nat \<Rightarrow> nat \<Rightarrow> 'w::{one,inverse,ord}" where
  "hub_factor fl cap degree = min (fl cap / fl degree) 1"

definition project_pair ::
    "(nat \<Rightarrow> 'w) \<Rightarrow> nat \<Rightarrow> string list \<Rightarrow> nat list \<Rightarrow> (string \<times> string) \<times> 'w::{one,times,inverse,ord} \<Rightarrow> 'w projected_edge" where
  "project_pair fl cap ids degrees = (\<lambda>((src_id, dst_id), weight).
     let src = position_of ids src_id; dst = position_of ids dst_id
     in \<lparr>pe_src = src, pe_dst = dst,
         pe_weight = weight * hub_factor fl cap (degrees ! src) * hub_factor fl cap (degrees ! dst)\<rparr>)"

definition link_edge :: "(nat \<times> 'w) list list \<Rightarrow> 'w projected_edge \<Rightarrow> (nat \<times> 'w) list list" where
  "link_edge adj e = push_at (pe_dst e) (pe_src e, pe_weight e) (push_at (pe_src e) (pe_dst e, pe_weight e) adj)"

definition weigh_edge :: "'w::plus list \<Rightarrow> 'w projected_edge \<Rightarrow> 'w list" where
  "weigh_edge ds e = add_at (pe_dst e) (pe_weight e) (add_at (pe_src e) (pe_weight e) ds)"

definition graph_of :: "string list \<Rightarrow> 'w::{zero,plus} projected_edge list \<Rightarrow> 'w graph" where
  "graph_of ids edges =
     \<lparr>gr_ids = ids, gr_fingerprint = stable_node_order_fingerprint ids, gr_edges = edges,
      gr_adj = map (sort_key fst) (foldl link_edge (replicate (length ids) []) edges),
      gr_degrees = foldl weigh_edge (replicate (length ids) 0) edges,
      gr_total = foldl (\<lambda>t e. t + pe_weight e) 0 edges\<rparr>"

definition project_grounded_relates ::
    "(nat \<Rightarrow> 'w) \<Rightarrow> 'w::{zero,one,plus,times,inverse,ord} projection_config \<Rightarrow> projection_input_edge list \<Rightarrow> 'w graph" where
  "project_grounded_relates fl cfg input =
     (let (ids, folded) = project_relates cfg input
      in graph_of ids (map (project_pair fl (hub_degree_cap cfg) ids (folded_degrees ids folded)) folded))"

section \<open>Modularity\<close>

text \<open>\<open>None\<close> is the failed assertion that the membership covers every node.\<close>

definition square :: "'w \<Rightarrow> 'w::times" where "square x = x * x"

definition add_degree :: "nat list \<Rightarrow> (nat, 'w::{zero,plus}) btree \<Rightarrow> 'w projected_edge \<Rightarrow> (nat, 'w) btree" where
  "add_degree mem m e = bt_entry (mem ! pe_dst e) 0 (\<lambda>x. x + pe_weight e) (bt_entry (mem ! pe_src e) 0 (\<lambda>x. x + pe_weight e) m)"

definition add_internal :: "nat list \<Rightarrow> (nat, 'w::{zero,plus}) btree \<Rightarrow> 'w projected_edge \<Rightarrow> (nat, 'w) btree" where
  "add_internal mem m e =
     (if mem ! pe_src e = mem ! pe_dst e then bt_entry (mem ! pe_src e) 0 (\<lambda>x. x + pe_weight e) m else m)"

definition modularity ::
    "(nat \<Rightarrow> 'w) \<Rightarrow> 'w::{zero,plus,minus,times,inverse,ord} graph \<Rightarrow> nat list \<Rightarrow> 'w option" where
  "modularity fl g mem =
     (if length (gr_ids g) \<noteq> length mem then None
      else if gr_total g \<le> 0 then Some 0
      else let internal = foldl (add_internal mem) [] (gr_edges g); degree = foldl (add_degree mem) [] (gr_edges g)
           in Some (foldl (\<lambda>q (c, d). q + (bt_or 0 c internal / gr_total g - square (d / (fl 2 * gr_total g)))) 0 degree))"

section \<open>Connectedness\<close>

lemma unvisited_less: "node \<notin> set visited \<Longrightarrow> node < n \<Longrightarrow> card ({..<n::nat} - set (node # visited)) < card ({..<n} - set visited)"
proof -
  assume a: "node \<notin> set visited" "node < n"
  have "{..<n} - set (node # visited) = {..<n} - set visited - {node}" by auto
  then show ?thesis using a card_Diff1_less [of "{..<n} - set visited" node] by simp
qed

text \<open>
  The stack of the search, its top first. A node is looked up in the adjacency when it is first
  popped; the code would panic at an index out of range, which no graph and no membership of its
  nodes has.
\<close>

function visit_community ::
    "'w graph \<Rightarrow> nat list \<Rightarrow> nat \<Rightarrow> nat list \<Rightarrow> nat list \<Rightarrow> nat list" where
  "visit_community g mem c visited [] = visited"
| "visit_community g mem c visited (node # stack) =
     (if node \<in> set visited \<or> node \<ge> length (gr_adj g) then visit_community g mem c visited stack
      else visit_community g mem c (node # visited)
             (foldl (\<lambda>st (nb, w). if mem ! nb = c then nb # st else st) stack (gr_adj g ! node)))"
  by pat_completeness auto

termination
  by (relation "measures [\<lambda>(g, mem, c, visited, stack). card ({..<length (gr_adj g)} - set visited),
        \<lambda>(g, mem, c, visited, stack). length stack]")
    (auto simp del: list.set(2) card_Diff_insert simp: unvisited_less not_le)

definition community_is_connected :: "'w graph \<Rightarrow> nat list \<Rightarrow> nat \<Rightarrow> bool" where
  "community_is_connected g mem c =
     (if c \<notin> set mem then True
      else length (visit_community g mem c [] [position_of mem c]) = length (filter (\<lambda>d. d = c) mem))"

definition disconnected_community_count :: "'w graph \<Rightarrow> nat list \<Rightarrow> nat option" where
  "disconnected_community_count g mem =
     (if length (gr_ids g) \<noteq> length mem then None
      else Some (length (filter (\<lambda>c. \<not> community_is_connected g mem c) (bs_of mem))))"

section \<open>Label propagation\<close>

definition neighbor_labels :: "(nat \<times> 'w::{zero,plus}) list \<Rightarrow> nat list \<Rightarrow> (nat, 'w) btree" where
  "neighbor_labels neighbors mem = foldl (\<lambda>m (nb, w). bt_entry (mem ! nb) 0 (\<lambda>x. x + w) m) [] neighbors"

definition heaviest_label :: "(nat, 'w::ord) btree \<Rightarrow> (nat \<times> 'w) option" where
  "heaviest_label weights = foldl (\<lambda>best (c, w).
     if is_none_or (\<lambda>(_, best_weight). best_weight < w) best then Some (c, w) else best) None weights"

definition propagate_node :: "'w::{zero,plus,ord} graph \<Rightarrow> nat list \<times> bool \<Rightarrow> nat \<Rightarrow> nat list \<times> bool" where
  "propagate_node g acc node = (case heaviest_label (neighbor_labels (gr_adj g ! node) (fst acc)) of
     None \<Rightarrow> acc
   | Some (c, _) \<Rightarrow> if fst acc ! node \<noteq> c then ((fst acc)[node := c], True) else acc)"

fun propagate :: "nat \<Rightarrow> 'w::{zero,plus,ord} graph \<Rightarrow> nat list \<Rightarrow> nat list" where
  "propagate 0 g mem = mem"
| "propagate (Suc n) g mem =
     (let (mem1, changed) = foldl (propagate_node g) (mem, False) [0..<length mem]
      in if changed then propagate n g mem1 else mem1)"

definition label_propagation_partition ::
    "(nat \<Rightarrow> 'w) \<Rightarrow> 'w::{zero,plus,minus,times,inverse,ord} graph \<Rightarrow> (nat list \<times> 'w) option" where
  "label_propagation_partition fl g =
     (let mem = propagate 100 g [0..<length (gr_ids g)]
      in map_option (\<lambda>q. (mem, q)) (modularity fl g mem))"

end
