(* ===== verification/Community_Graphs.thy ===== *)
theory Community_Graphs
  imports Community_Projection
begin

text \<open>
  What the projection guarantees: a graph whose indices are in range and whose adjacency is symmetric
  and sorted, that depends on nothing but how many edges join two nodes, and whose hubs are bounded;
  and what the search of a community decides.
\<close>

section \<open>Graphs in range\<close>

definition edges_ok :: "nat \<Rightarrow> 'w projected_edge list \<Rightarrow> bool" where
  "edges_ok n es \<longleftrightarrow> list_all (\<lambda>e. pe_src e < pe_dst e \<and> pe_dst e < n) es \<and> distinct (map (\<lambda>e. (pe_src e, pe_dst e)) es)"

definition incident :: "nat \<Rightarrow> 'w projected_edge list \<Rightarrow> (nat \<times> 'w) list" where
  "incident i es = concat (map (\<lambda>e. (if pe_src e = i then [(pe_dst e, pe_weight e)] else [])
                                 @ (if pe_dst e = i then [(pe_src e, pe_weight e)] else [])) es)"

definition graph_ok :: "'w graph \<Rightarrow> bool" where
  "graph_ok g \<longleftrightarrow> length (gr_adj g) = length (gr_ids g) \<and> length (gr_degrees g) = length (gr_ids g)
     \<and> list_all bt_ok (gr_adj g)
     \<and> (\<forall>i < length (gr_ids g). \<forall>(j, w) \<in> set (gr_adj g ! i). j < length (gr_ids g) \<and> j \<noteq> i \<and> (i, w) \<in> set (gr_adj g ! j))"

lemma incident_Cons: "incident i (e # es) =
    (if pe_src e = i then [(pe_dst e, pe_weight e)] else []) @ (if pe_dst e = i then [(pe_src e, pe_weight e)] else []) @ incident i es"
  by (simp add: incident_def)

lemma set_incident: "set (incident i es) = {(j, w). \<exists>e \<in> set es. pe_weight e = w
    \<and> (pe_src e = i \<and> pe_dst e = j \<or> pe_dst e = i \<and> pe_src e = j)}"
  by (auto simp: incident_def split: if_splits)

lemma length_link [simp]: "length (foldl link_edge adj es) = length adj"
  by (induction es arbitrary: adj) (auto simp: link_edge_def push_at_def)

lemma link_incident:
  "edges_ok n es \<Longrightarrow> i < length adj \<Longrightarrow> n \<le> length adj \<Longrightarrow> foldl link_edge adj es ! i = adj ! i @ incident i es"
proof (induction es arbitrary: adj)
  case (Cons e es)
  then have "link_edge adj e ! i = adj ! i @ incident i [e]"
    by (auto simp: link_edge_def push_at_def incident_def edges_ok_def nth_list_update)
  with Cons show ?case by (simp add: edges_ok_def incident_Cons) (simp add: incident_def link_edge_def push_at_def)
qed (simp add: incident_def)

lemma incident_distinct: "edges_ok n es \<Longrightarrow> distinct (map fst (incident i es))"
proof (induction es)
  case (Cons e es)
  have "pe_src e < pe_dst e" and es: "edges_ok n es" and new: "(pe_src e, pe_dst e) \<notin> (\<lambda>e. (pe_src e, pe_dst e)) ` set es"
    and lt: "\<forall>e \<in> set es. pe_src e < pe_dst e"
    using Cons.prems by (auto simp: edges_ok_def list_all_iff)
  moreover have "pe_src e = i \<Longrightarrow> pe_dst e \<notin> fst ` set (incident i es)" "pe_dst e = i \<Longrightarrow> pe_src e \<notin> fst ` set (incident i es)"
    using new lt \<open>pe_src e < pe_dst e\<close> by (fastforce simp: set_incident image_iff)+
  ultimately show ?case using Cons.IH by (auto simp: incident_Cons)
qed (simp add: incident_def)

lemma bt_ok_sort_key: "distinct (map fst kvs) \<Longrightarrow> bt_ok (sort_key fst kvs)"
  by (simp add: bt_ok_def strict_sorted_iff distinct_map)

lemma length_weigh [simp]: "length (foldl weigh_edge ds es) = length ds"
  by (induction es arbitrary: ds) (auto simp: weigh_edge_def add_at_def)

lemma graph_of_adj:
  assumes "edges_ok (length ids) es" "i < length ids"
  shows "set (gr_adj (graph_of ids es) ! i) = set (incident i es)" "bt_ok (gr_adj (graph_of ids es) ! i)"
  using assms by (simp_all add: graph_of_def link_incident incident_distinct bt_ok_sort_key)

lemma graph_of_ok:
  assumes "edges_ok (length ids) es"
  shows "graph_ok (graph_of ids es)"
proof -
  have "length (gr_adj (graph_of ids es)) = length ids" "gr_ids (graph_of ids es) = ids"
    "length (gr_degrees (graph_of ids es)) = length ids"
    by (simp_all add: graph_of_def)
  moreover have "j < length ids \<and> j \<noteq> i \<and> (i, w) \<in> set (gr_adj (graph_of ids es) ! j)"
    if "i < length ids" "(j, w) \<in> set (gr_adj (graph_of ids es) ! i)" for i j w
  proof -
    have j: "j < length ids" "j \<noteq> i"
      using that assms by (auto simp: graph_of_adj set_incident edges_ok_def list_all_iff)
    then show ?thesis using that assms by (auto simp: graph_of_adj set_incident)
  qed
  ultimately show ?thesis
    using assms by (auto simp: graph_ok_def list_all_length graph_of_adj)
qed

section \<open>What the projection depends on\<close>

definition joining :: "projection_input_edge list \<Rightarrow> (string \<times> string) list" where
  "joining input = map id_pair (filter (\<lambda>e. pi_src e \<noteq> pi_dst e) input)"

lemma joining_snoc: "joining (es @ [e]) = (if pi_src e = pi_dst e then joining es else joining es @ [id_pair e])"
  by (simp add: joining_def)

lemma count_mset_out [simp]: "x \<notin> set xs \<Longrightarrow> count (mset xs) x = 0"
  by (metis count_eq_zero_iff set_mset_mset)

lemma project_edge_cases:
  "pi_src e = pi_dst e \<Longrightarrow> project_edge relates cap acc e = acc"
  "pi_src e \<noteq> pi_dst e \<Longrightarrow> project_edge relates cap acc e = (bs_insert (pi_dst e) (bs_insert (pi_src e) (fst acc)),
     bt_entry (id_pair e) 0 (cap_weight relates cap) (snd acc))"
  by (simp_all add: project_edge_def)

lemma project_fold:
  assumes "foldl (project_edge relates cap) ([], []) es = (ids, folded)"
  shows "sorted ids \<and> distinct ids \<and> bt_ok folded \<and> set ids = fst ` set (joining es) \<union> snd ` set (joining es)
    \<and> map_of folded = (\<lambda>p. let c = count (mset (joining es)) p in if c = 0 then None else Some ((cap_weight relates cap ^^ c) 0))"
  using assms
proof (induction es arbitrary: ids folded rule: rev_induct)
  case (snoc e es)
  obtain ids1 folded1 where f: "foldl (project_edge relates cap) ([], []) es = (ids1, folded1)" by fastforce
  note ih = snoc.IH [OF f]
  show ?case
  proof (cases "pi_src e = pi_dst e")
    case True
    then have "(ids, folded) = (ids1, folded1)" using snoc.prems f by (simp add: project_edge_cases)
    then show ?thesis using ih True by (simp add: joining_snoc)
  next
    case False
    then have "ids = bs_insert (pi_dst e) (bs_insert (pi_src e) ids1)"
      "folded = bt_entry (id_pair e) 0 (cap_weight relates cap) folded1"
      using snoc.prems f by (auto simp: project_edge_cases)
    moreover have "bt_or 0 (id_pair e) folded1 = (cap_weight relates cap ^^ count (mset (joining es)) (id_pair e)) 0"
      using ih by (simp add: bt_or_def Let_def)
    ultimately show ?thesis using ih False
      by (auto simp: joining_snoc bt_ok_insert bt_entry_def map_of_bt_insert fun_eq_iff Let_def id_pair_def)
  qed
qed (simp add: joining_def)

lemma project_relates_spec:
  assumes "project_relates cfg input = (ids, folded)"
  defines "cap \<equiv> parallel_edge_cap_multiplier cfg * relates_weight cfg"
  shows "sorted ids" "distinct ids" "bt_ok folded" "set ids = fst ` set (joining input) \<union> snd ` set (joining input)"
    and "map_of folded = (\<lambda>p. let c = count (mset (joining input)) p in if c = 0 then None
           else Some ((cap_weight (relates_weight cfg) cap ^^ c) 0))"
proof -
  have m: "mset (joining (sort_key pi_edge input)) = mset (joining input)"
    by (simp add: joining_def mset_filter [symmetric] del: mset_filter) (simp add: mset_map mset_filter)
  then have s: "set (joining (sort_key pi_edge input)) = set (joining input)" by (metis set_mset_mset)
  note f = project_fold [OF assms(1) [unfolded project_relates_def]]
  show "sorted ids" "distinct ids" "bt_ok folded" "set ids = fst ` set (joining input) \<union> snd ` set (joining input)"
    using f by (simp_all add: s)
  show "map_of folded = (\<lambda>p. let c = count (mset (joining input)) p in if c = 0 then None
           else Some ((cap_weight (relates_weight cfg) cap ^^ c) 0))"
    unfolding cap_def using f by (simp add: m)
qed

text \<open>C18 (equivalence). The graph depends on nothing of its input but how many edges join each pair of
  distinct nodes: not on the order of the rows, nor on the ids or the direction of the edges. This
  holds for floats, rounding included.
\<close>

theorem projection_counts_parallel_edges:
  assumes "mset (joining input) = mset (joining input')"
  shows "project_grounded_relates fl cfg input = project_grounded_relates fl cfg input'"
proof -
  obtain ids folded ids' folded' where
    r: "project_relates cfg input = (ids, folded)" "project_relates cfg input' = (ids', folded')" by fastforce
  note spec = project_relates_spec [OF r(1)] project_relates_spec [OF r(2)]
  have "set (joining input) = set (joining input')" using assms by (metis set_mset_mset)
  then have "ids = ids'" using spec by (intro sorted_distinct_set_unique) simp_all
  moreover have "folded = folded'" using spec assms by (intro bt_canonical) simp_all
  ultimately show ?thesis by (simp add: project_grounded_relates_def r)
qed

section \<open>The projected graph is in range\<close>

lemma position_of: "x \<in> set ids \<Longrightarrow> position_of ids x < length ids \<and> ids ! position_of ids x = x"
  unfolding position_of_def
  by (induction ids) auto

lemma position_of_mono:
  assumes "sorted ids" "x \<in> set ids" "y \<in> set ids" "x < y"
  shows "position_of ids x < position_of ids y"
proof (rule ccontr)
  assume "\<not> ?thesis"
  then have "ids ! position_of ids y \<le> ids ! position_of ids x"
    using position_of [OF assms(2)] assms(1) by (intro sorted_nth_mono) auto
  with position_of [OF assms(2)] position_of [OF assms(3)] assms(4) show False by simp
qed

lemma joining_pairs: "(a, b) \<in> set (joining input) \<Longrightarrow> a < b"
  by (auto simp: joining_def id_pair_def split: if_splits)

lemma folded_pairs:
  assumes "project_relates cfg input = (ids, folded)" "((a, b), w) \<in> set folded"
  shows "a < b" "a \<in> set ids" "b \<in> set ids" "position_of ids a < position_of ids b" "position_of ids b < length ids"
proof -
  note spec = project_relates_spec [OF assms(1)]
  have "map_of folded (a, b) = Some w" using assms(2) spec(3) by (simp add: bt_ok_distinct)
  then have "count (mset (joining input)) (a, b) \<noteq> 0" using spec(5) by (auto simp: Let_def split: if_splits)
  then have "(a, b) \<in> set (joining input)" by (simp add: count_eq_zero_iff)
  then show "a < b" "a \<in> set ids" "b \<in> set ids" using spec(4) joining_pairs by force+
  then show "position_of ids a < position_of ids b" "position_of ids b < length ids"
    using position_of_mono [OF spec(1)] position_of [of b ids] by auto
qed

lemma projected_edges_ok:
  assumes "project_relates cfg input = (ids, folded)"
  shows "edges_ok (length ids) (map (project_pair fl cap ids degrees) folded)"
proof -
  have "list_all (\<lambda>e. pe_src e < pe_dst e \<and> pe_dst e < length ids) (map (project_pair fl cap ids degrees) folded)"
    using folded_pairs [OF assms] by (auto simp: list_all_iff project_pair_def Let_def)
  moreover have "distinct (map (\<lambda>((a, b), w). (position_of ids a, position_of ids b)) folded)"
  proof -
    have "inj_on (\<lambda>((a, b), w). (position_of ids a, position_of ids b)) (set folded)"
    proof (rule inj_onI, clarsimp)
      fix a b w a' b' w'
      assume e: "((a, b), w) \<in> set folded" "((a', b'), w') \<in> set folded"
        "position_of ids a = position_of ids a'" "position_of ids b = position_of ids b'"
      then have "a = a'" "b = b'" using folded_pairs [OF assms] position_of by metis+
      moreover have "distinct (map fst folded)" using project_relates_spec(3) [OF assms] by (rule bt_ok_distinct)
      ultimately show "a = a' \<and> b = b' \<and> w = w'" using e by (auto dest: eq_key_imp_eq_value)
    qed
    moreover have "distinct folded" using project_relates_spec(3) [OF assms] by (auto dest: bt_ok_distinct simp: distinct_map)
    ultimately show ?thesis by (simp add: distinct_map)
  qed
  moreover have "map (\<lambda>e. (pe_src e, pe_dst e)) (map (project_pair fl cap ids degrees) folded)
      = map (\<lambda>((a, b), w). (position_of ids a, position_of ids b)) folded"
    by (auto simp: project_pair_def Let_def)
  ultimately show ?thesis by (simp only: edges_ok_def)
qed

theorem projection_is_in_range: "graph_ok (project_grounded_relates fl cfg input)"
  by (auto simp: project_grounded_relates_def graph_of_ok projected_edges_ok split: prod.splits)

section \<open>What the search decides\<close>

definition linked_nodes :: "'w graph \<Rightarrow> nat list \<Rightarrow> nat \<Rightarrow> nat \<Rightarrow> nat \<Rightarrow> bool" where
  "linked_nodes g mem c i j \<longleftrightarrow> i < length (gr_adj g) \<and> j \<in> fst ` set (gr_adj g ! i) \<and> mem ! i = c \<and> mem ! j = c"

definition unbroken :: "'w graph \<Rightarrow> nat list \<Rightarrow> nat \<Rightarrow> bool" where
  "unbroken g mem c \<longleftrightarrow> (\<forall>i < length mem. \<forall>j < length mem. mem ! i = c \<longrightarrow> mem ! j = c \<longrightarrow> (linked_nodes g mem c)\<^sup>*\<^sup>* i j)"

lemma set_push: "set (foldl (\<lambda>st (nb, w). if mem ! nb = c then nb # st else st) stack nbs)
    = set stack \<union> {nb \<in> fst ` set nbs. mem ! nb = c}"
proof (induction nbs arbitrary: stack)
  case (Cons e nbs)
  show ?case by (cases e) (simp add: Cons.IH, blast)
qed simp

lemma graph_okD:
  assumes "graph_ok g" "i < length (gr_adj g)" "(j, w) \<in> set (gr_adj g ! i)"
  shows "j < length (gr_adj g)" "j \<noteq> i" "(i, w) \<in> set (gr_adj g ! j)"
  using assms unfolding graph_ok_def by fastforce+

lemma linked_range: "graph_ok g \<Longrightarrow> linked_nodes g mem c i j \<Longrightarrow> j < length (gr_adj g)"
  by (auto simp: linked_nodes_def intro: graph_okD(1))

lemma linked_sym:
  assumes "graph_ok g" "linked_nodes g mem c i j"
  shows "linked_nodes g mem c j i"
proof -
  obtain w where w: "(j, w) \<in> set (gr_adj g ! i)" "i < length (gr_adj g)" "mem ! i = c" "mem ! j = c"
    using assms(2) by (auto simp: linked_nodes_def)
  from graph_okD [OF assms(1) w(2,1)] w show ?thesis by (force simp: linked_nodes_def)
qed

lemma linked_sym_star: "graph_ok g \<Longrightarrow> (linked_nodes g mem c)\<^sup>*\<^sup>* i j \<Longrightarrow> (linked_nodes g mem c)\<^sup>*\<^sup>* j i"
  by (metis linked_sym symp_rtranclp sympI sympD)

text \<open>What a search from the nodes of \<open>start\<close> has found when it ends.\<close>

definition explored :: "'w graph \<Rightarrow> nat list \<Rightarrow> nat \<Rightarrow> nat set \<Rightarrow> nat list \<Rightarrow> bool" where
  "explored g mem c start R \<longleftrightarrow> distinct R \<and> start \<subseteq> set R \<and> (\<forall>i \<in> set R. i < length (gr_adj g) \<and> mem ! i = c)
     \<and> (\<forall>i \<in> set R. \<forall>j. linked_nodes g mem c i j \<longrightarrow> j \<in> set R) \<and> (\<forall>i \<in> set R. \<exists>k \<in> start. (linked_nodes g mem c)\<^sup>*\<^sup>* k i)"

lemma explored_start:
  assumes "explored g mem c start' R" "start \<subseteq> start'" "\<And>k. k \<in> start' \<Longrightarrow> \<exists>k0 \<in> start. (linked_nodes g mem c)\<^sup>*\<^sup>* k0 k"
  shows "explored g mem c start R"
  using assms unfolding explored_def by (meson rtranclp_trans subset_trans)

declare visit_community.simps(2) [simp del]

lemma visit_community_spec:
  assumes "graph_ok g" "distinct visited"
    and "\<forall>i \<in> set visited \<union> set stack. i < length (gr_adj g) \<and> mem ! i = c"
    and "\<forall>i \<in> set visited. \<forall>j. linked_nodes g mem c i j \<longrightarrow> j \<in> set visited \<union> set stack"
  shows "explored g mem c (set visited \<union> set stack) (visit_community g mem c visited stack)"
  using assms
proof (induction g mem c visited stack rule: visit_community.induct)
  case (2 g mem c visited node stack)
  show ?case
  proof (cases "node \<in> set visited")
    case True
    then have "set visited \<union> set (node # stack) = set visited \<union> set stack" by auto
    with 2 True show ?thesis by (simp only: visit_community.simps) simp
  next
    case False
    let ?stack = "foldl (\<lambda>st (nb, w). if mem ! nb = c then nb # st else st) stack (gr_adj g ! node)"
    have node: "node < length (gr_adj g)" "mem ! node = c" using "2.prems" by auto
    have pushed: "set ?stack = set stack \<union> {j. linked_nodes g mem c node j}"
      using node by (auto simp: set_push linked_nodes_def)
    have e: "explored g mem c (set (node # visited) \<union> set ?stack) (visit_community g mem c (node # visited) ?stack)"
    proof (rule "2.IH"(2))
      show "\<not> (node \<in> set visited \<or> length (gr_adj g) \<le> node)" using False node by simp
      show "\<forall>i \<in> set (node # visited) \<union> set ?stack. i < length (gr_adj g) \<and> mem ! i = c"
        using "2.prems"(3) linked_range [OF "2.prems"(1)] unfolding pushed by (auto simp: linked_nodes_def)
      show "\<forall>i \<in> set (node # visited). \<forall>j. linked_nodes g mem c i j \<longrightarrow> j \<in> set (node # visited) \<union> set ?stack"
        using "2.prems"(4) unfolding pushed by auto
    qed (use "2.prems" False in auto)
    have "explored g mem c (set visited \<union> set (node # stack)) (visit_community g mem c (node # visited) ?stack)"
    proof (rule explored_start [OF e])
      show "\<exists>k0 \<in> set visited \<union> set (node # stack). (linked_nodes g mem c)\<^sup>*\<^sup>* k0 k"
        if "k \<in> set (node # visited) \<union> set ?stack" for k
        using that unfolding pushed by auto
    qed (auto simp: pushed)
    then show ?thesis using False node by (simp add: visit_community.simps(2))
  qed
qed (auto simp: explored_def)

lemma length_members: "length (filter (\<lambda>d. d = c) mem) = card {i. i < length mem \<and> mem ! i = c}"
  by (simp add: length_filter_conv_card)

lemma search_decides:
  assumes "graph_ok g" "length mem = length (gr_ids g)"
  shows "community_is_connected g mem c \<longleftrightarrow> unbroken g mem c"
proof (cases "c \<in> set mem")
  case False
  then have "unbroken g mem c" by (auto simp: unbroken_def)
  with False show ?thesis by (simp add: community_is_connected_def)
next
  case True
  let ?n = "length (gr_adj g)"
  let ?first = "position_of mem c"
  let ?R = "visit_community g mem c [] [?first]"
  let ?M = "{i. i < length mem \<and> mem ! i = c}"
  have n: "length mem = ?n" using assms by (simp add: graph_ok_def)
  have first: "?first < ?n" "mem ! ?first = c" using position_of [OF True] n by auto
  have R: "distinct ?R" "?first \<in> set ?R" "\<forall>i \<in> set ?R. i < ?n \<and> mem ! i = c"
    "\<forall>i \<in> set ?R. \<forall>j. linked_nodes g mem c i j \<longrightarrow> j \<in> set ?R" "\<forall>i \<in> set ?R. (linked_nodes g mem c)\<^sup>*\<^sup>* ?first i"
    using visit_community_spec [of g "[]" "[?first]" mem c] assms(1) first by (simp_all add: explored_def)
  have sub: "set ?R \<subseteq> ?M" using R(3) n by auto
  have "community_is_connected g mem c \<longleftrightarrow> card (set ?R) = card ?M"
    using True by (simp add: community_is_connected_def length_members distinct_card [OF R(1)])
  also have "\<dots> \<longleftrightarrow> set ?R = ?M"
  proof
    assume "card (set ?R) = card ?M"
    then show "set ?R = ?M" by (rule card_subset_eq [rotated 2]) (simp_all add: sub)
  qed (rule arg_cong)
  also have "\<dots> \<longleftrightarrow> unbroken g mem c"
  proof
    assume "set ?R = ?M"
    then have from_first: "(linked_nodes g mem c)\<^sup>*\<^sup>* ?first i" if "i < length mem" "mem ! i = c" for i using R(5) that by blast
    have "(linked_nodes g mem c)\<^sup>*\<^sup>* i j" if "i < length mem" "mem ! i = c" "j < length mem" "mem ! j = c" for i j
      using linked_sym_star [OF assms(1) from_first [OF that(1,2)]] from_first [OF that(3,4)] by (rule rtranclp_trans)
    then show "unbroken g mem c" by (simp add: unbroken_def)
  next
    assume c: "unbroken g mem c"
    have "i \<in> set ?R" if "i < length mem" "mem ! i = c" for i
    proof -
      have "(linked_nodes g mem c)\<^sup>*\<^sup>* ?first i" using c that first n by (auto simp: unbroken_def)
      then show ?thesis by (induction rule: rtranclp_induct) (use R(2,4) in auto)
    qed
    then show "set ?R = ?M" using sub by auto
  qed
  finally show ?thesis .
qed

text \<open>C21 (equivalence). The search from the first member decides whether a community is connected: it
  reaches as many nodes as the community has exactly when every member reaches every other through
  members only.
\<close>

theorem search_decides_connectedness:
  assumes "graph_ok g" "length mem = length (gr_ids g)"
  shows "community_is_connected g mem c \<longleftrightarrow> (\<forall>i < length mem. \<forall>j < length mem. mem ! i = c \<longrightarrow> mem ! j = c \<longrightarrow> (linked_nodes g mem c)\<^sup>*\<^sup>* i j)"
  using search_decides [OF assms] by (simp add: unbroken_def)

end
