(* ===== verification/Community_Partition.thy ===== *)
theory Community_Partition
  imports Community_Graphs
begin

text \<open>
  The incremental partition of \<open>community_partition.rs\<close>: the statistics kept between two graphs, the
  frontier of an update, its snapshot, the deltas of the projection and the passes over the frontier.
  The operations of the weights are those of \<open>Community_Projection\<close>, without laws.

  \<open>BTreeMap::get(..).copied().unwrap_or_default()\<close> is \<open>bt_or 0\<close>. The lookups in the sorted adjacency
  of a graph by binary search are \<open>map_of\<close>: its keys are distinct (\<open>graph_ok\<close>). A comparison with zero
  is equality: a difference of two weights of the projection is never the negative zero nor NaN.
\<close>

section \<open>State\<close>

record 'w incremental_config =
  max_dirty_fraction :: 'w
  max_frontier_fraction :: 'w
  max_passes :: nat
  epsilon :: 'w

datatype 'w partition_error =
  MembershipSize nat nat | DirtyNode nat nat | DirtyFraction 'w 'w | FrontierFraction 'w 'w | NodeOrder | DisconnectedCommunity

record 'w partition_state =
  ps_membership :: "nat list"
  ps_modularity :: 'w
  ps_fingerprint :: u64
  ps_adj :: "(nat, 'w) btree list"
  ps_degrees :: "'w list"
  ps_communities :: "(nat, 'w) btree"
  ps_internal :: 'w
  ps_squares :: 'w
  ps_total :: 'w
  ps_next :: nat

record 'w partition_rollback =
  rb_membership :: "(nat \<times> nat) list"
  rb_adj :: "(nat \<times> (nat, 'w) btree) list"
  rb_degrees :: "(nat \<times> 'w) list"
  rb_communities :: "(nat \<times> 'w) list"
  rb_modularity :: 'w
  rb_internal :: 'w
  rb_squares :: 'w
  rb_total :: 'w
  rb_next :: nat

definition modularity_from_totals ::
    "(nat \<Rightarrow> 'w) \<Rightarrow> 'w \<Rightarrow> 'w \<Rightarrow> 'w \<Rightarrow> 'w::{zero,plus,minus,times,inverse,ord}" where
  "modularity_from_totals fl weight internal squares =
     (if weight \<le> 0 then 0 else internal / weight - squares / (fl 4 * square weight))"

definition modularity_move_delta ::
    "(nat \<Rightarrow> 'w) \<Rightarrow> 'w \<Rightarrow> 'w \<Rightarrow> 'w \<Rightarrow> 'w \<Rightarrow> 'w \<Rightarrow> 'w \<Rightarrow> 'w::{plus,minus,times,inverse}" where
  "modularity_move_delta fl weight node_degree from_incident to_incident from_degree to_degree =
     (let internal_delta = (to_incident - from_incident) / weight;
          degree_delta = (square (to_degree + node_degree) - square to_degree + square (from_degree - node_degree) - square from_degree)
                         / (fl 4 * square weight)
      in internal_delta - degree_delta)"

definition new_partition_state ::
    "(nat \<Rightarrow> 'w) \<Rightarrow> 'w::{zero,plus,minus,times,inverse,ord} graph \<Rightarrow> nat list \<Rightarrow> 'w partition_error + 'w partition_state" where
  "new_partition_state fl g mem =
     (if length mem \<noteq> length (gr_ids g) then Inl (MembershipSize (length (gr_ids g)) (length mem))
      else let communities = foldl (\<lambda>m i. bt_entry (mem ! i) 0 (\<lambda>x. x + gr_degrees g ! i) m) [] [0..<length mem];
               squares = foldl (\<lambda>q (c, d). q + square d) 0 communities;
               internal = foldl (\<lambda>q e. q + pe_weight e) 0 (filter (\<lambda>e. mem ! pe_src e = mem ! pe_dst e) (gr_edges g))
           in Inr \<lparr>ps_membership = mem, ps_modularity = modularity_from_totals fl (gr_total g) internal squares,
                   ps_fingerprint = gr_fingerprint g, ps_adj = map bt_collect (gr_adj g), ps_degrees = gr_degrees g,
                   ps_communities = communities, ps_internal = internal, ps_squares = squares, ps_total = gr_total g,
                   ps_next = foldl max 0 mem + 1\<rparr>)"

section \<open>The frontier and its snapshot\<close>

definition fraction :: "(nat \<Rightarrow> 'w) \<Rightarrow> nat \<Rightarrow> nat \<Rightarrow> 'w::{zero,inverse}" where
  "fraction fl part whole = (if whole = 0 then 0 else fl part / fl whole)"

definition incremental_frontier ::
    "(nat \<Rightarrow> 'w) \<Rightarrow> 'w::{zero,inverse,ord} partition_state \<Rightarrow> 'w graph \<Rightarrow> nat list \<Rightarrow> 'w incremental_config
      \<Rightarrow> 'w partition_error + nat list \<times> nat list" where
  "incremental_frontier fl st g dirty_nodes cfg =
     (let n = length (gr_ids g)
      in if length (ps_membership st) \<noteq> n then Inl (MembershipSize n (length (ps_membership st)))
         else if ps_fingerprint st \<noteq> gr_fingerprint g then Inl NodeOrder
         else let dirty = bs_of dirty_nodes
              in case find (\<lambda>i. i \<ge> n) dirty of
                   Some i \<Rightarrow> Inl (DirtyNode i n)
                 | None \<Rightarrow>
                     if max_dirty_fraction cfg < fraction fl (length dirty) n
                     then Inl (DirtyFraction (fraction fl (length dirty) n) (max_dirty_fraction cfg))
                     else let frontier = bs_of (dirty @ concat (map (\<lambda>i. map fst (ps_adj st ! i) @ map fst (gr_adj g ! i)) dirty))
                          in if max_frontier_fraction cfg < fraction fl (length frontier) n
                             then Inl (FrontierFraction (fraction fl (length frontier) n) (max_frontier_fraction cfg))
                             else Inr (dirty, frontier))"

definition touched_communities :: "'w partition_state \<Rightarrow> 'w graph \<Rightarrow> nat list \<Rightarrow> nat list \<Rightarrow> nat list" where
  "touched_communities st g dirty frontier =
     (let mem = ps_membership st
      in bs_of (concat (map (\<lambda>i. mem ! i # map (\<lambda>e. mem ! fst e) (ps_adj st ! i) @ map (\<lambda>e. mem ! fst e) (gr_adj g ! i)) frontier)
                @ map (\<lambda>i. mem ! i) dirty))"

definition rollback_snapshot ::
    "'w partition_state \<Rightarrow> 'w graph \<Rightarrow> nat list \<Rightarrow> nat list \<Rightarrow> 'w partition_rollback" where
  "rollback_snapshot st g dirty frontier =
     \<lparr>rb_membership = map (\<lambda>i. (i, ps_membership st ! i)) frontier,
      rb_adj = map (\<lambda>i. (i, ps_adj st ! i)) frontier,
      rb_degrees = map (\<lambda>i. (i, ps_degrees st ! i)) frontier,
      rb_communities = List.map_filter (\<lambda>c. map_option (\<lambda>d. (c, d)) (map_of (ps_communities st) c)) (touched_communities st g dirty frontier),
      rb_modularity = ps_modularity st, rb_internal = ps_internal st, rb_squares = ps_squares st, rb_total = ps_total st,
      rb_next = ps_next st\<rparr>"

definition write_back :: "(nat \<times> 'x) list \<Rightarrow> 'x list \<Rightarrow> 'x list" where
  "write_back kvs xs = foldl (\<lambda>xs (i, x). xs[i := x]) xs kvs"

definition restore_partition :: "'w partition_rollback \<Rightarrow> 'w partition_state \<Rightarrow> 'w partition_state" where
  "restore_partition rb st = st\<lparr>
     ps_membership := write_back (rb_membership rb) (ps_membership st),
     ps_adj := write_back (rb_adj rb) (ps_adj st),
     ps_degrees := write_back (rb_degrees rb) (ps_degrees st),
     ps_communities := foldl (\<lambda>m (c, d). bt_insert c d m) (filter (\<lambda>(c, d). c < rb_next rb) (ps_communities st)) (rb_communities rb),
     ps_modularity := rb_modularity rb, ps_internal := rb_internal rb, ps_squares := rb_squares rb, ps_total := rb_total rb,
     ps_next := rb_next rb\<rparr>"

definition adjust_community_degree :: "nat \<Rightarrow> 'w::{zero,plus,minus,times} \<Rightarrow> 'w partition_state \<Rightarrow> 'w partition_state" where
  "adjust_community_degree c delta st =
     (let degree = bt_or 0 c (ps_communities st)
      in st\<lparr>ps_squares := (ps_squares st - square degree) + square (degree + delta),
            ps_communities := bt_insert c (degree + delta) (ps_communities st)\<rparr>)"

definition refresh_modularity ::
    "(nat \<Rightarrow> 'w) \<Rightarrow> 'w::{zero,plus,minus,times,inverse,ord} partition_state \<Rightarrow> 'w partition_state" where
  "refresh_modularity fl st =
     st\<lparr>ps_modularity := modularity_from_totals fl (ps_total st) (ps_internal st) (ps_squares st)\<rparr>"

section \<open>The deltas of the projection\<close>

definition ordered_pair :: "nat \<Rightarrow> nat \<Rightarrow> nat \<times> nat" where
  "ordered_pair left right = (if left < right then (left, right) else (right, left))"

definition changed_pairs :: "'w graph \<Rightarrow> 'w partition_state \<Rightarrow> nat list \<Rightarrow> (nat \<times> nat) list" where
  "changed_pairs g st dirty =
     bs_of (concat (map (\<lambda>i. map (\<lambda>e. ordered_pair i (fst e)) (ps_adj st ! i) @ map (\<lambda>e. ordered_pair i (fst e)) (gr_adj g ! i)) dirty))"

definition apply_pair ::
    "'w graph \<Rightarrow> 'w::{zero,plus,minus,times,ord} partition_state \<times> nat list \<Rightarrow> nat \<times> nat \<Rightarrow> 'w partition_state \<times> nat list" where
  "apply_pair g = (\<lambda>(st, touched) (src, dst).
     let old_weight = bt_or 0 dst (ps_adj st ! src); new_weight = bt_or 0 dst (gr_adj g ! src); delta = new_weight - old_weight
     in if delta = 0 then (st, touched)
        else let c = ps_membership st ! src; d = ps_membership st ! dst;
                 touched1 = (if 0 < old_weight \<and> new_weight = 0 \<and> c = d then bs_insert c touched else touched);
                 st1 = st\<lparr>ps_degrees := add_at dst delta (add_at src delta (ps_degrees st))\<rparr>;
                 st2 = adjust_community_degree d delta (adjust_community_degree c delta st1);
                 st3 = st2\<lparr>ps_total := ps_total st2 + delta,
                           ps_internal := (if c = d then ps_internal st2 + delta else ps_internal st2)\<rparr>;
                 adj = ps_adj st3
             in (st3\<lparr>ps_adj :=
                   (if new_weight = 0
                    then let a = adj[src := bt_remove dst (adj ! src)] in a[dst := bt_remove src (a ! dst)]
                    else let a = adj[src := bt_insert dst new_weight (adj ! src)] in a[dst := bt_insert src new_weight (a ! dst)])\<rparr>,
                 touched1))"

definition apply_projection_deltas ::
    "(nat \<Rightarrow> 'w) \<Rightarrow> 'w graph \<Rightarrow> 'w::{zero,plus,minus,times,inverse,ord} partition_state \<Rightarrow> nat list \<Rightarrow> 'w partition_state \<times> nat list" where
  "apply_projection_deltas fl g st dirty =
     (let (st1, touched) = foldl (apply_pair g) (st, []) (changed_pairs g st dirty)
      in (refresh_modularity fl st1, touched))"

section \<open>The passes over the frontier\<close>

definition incident_by_community :: "'w graph \<Rightarrow> 'w::{zero,plus} partition_state \<Rightarrow> nat \<Rightarrow> (nat, 'w) btree" where
  "incident_by_community g st node =
     bt_entry (ps_next st) 0 (\<lambda>x. x) (neighbor_labels (gr_adj g ! node) (ps_membership st))"

definition better_move :: "'w::{plus,minus,abs,ord} \<Rightarrow> nat \<Rightarrow> 'w \<Rightarrow> (nat \<times> 'w) option \<Rightarrow> bool" where
  "better_move eps candidate delta best = is_none_or (\<lambda>(best_community, best_delta).
     best_delta + eps < delta \<or> (abs (delta - best_delta) \<le> eps \<and> candidate < best_community)) best"

definition move_delta ::
    "(nat \<Rightarrow> 'w) \<Rightarrow> 'w graph \<Rightarrow> 'w::{zero,plus,minus,times,inverse} partition_state \<Rightarrow> nat \<Rightarrow> nat \<Rightarrow> 'w" where
  "move_delta fl g st node candidate =
     (let current = ps_membership st ! node; by_community = incident_by_community g st node
      in modularity_move_delta fl (ps_total st) (ps_degrees st ! node) (bt_or 0 current by_community)
           (bt_or 0 candidate by_community) (bt_or 0 current (ps_communities st)) (bt_or 0 candidate (ps_communities st)))"

definition best_move ::
    "(nat \<Rightarrow> 'w) \<Rightarrow> 'w \<Rightarrow> 'w graph \<Rightarrow> 'w::{zero,plus,minus,times,inverse,abs,ord} partition_state \<Rightarrow> nat \<Rightarrow> (nat \<times> 'w) option" where
  "best_move fl eps g st node =
     foldl (\<lambda>best candidate.
        if candidate = ps_membership st ! node then best
        else let delta = move_delta fl g st node candidate
             in if eps < delta \<and> better_move eps candidate delta best then Some (candidate, delta) else best)
       None (map fst (incident_by_community g st node))"

definition move_node ::
    "(nat \<Rightarrow> 'w) \<Rightarrow> 'w graph \<Rightarrow> 'w::{zero,plus,minus,uminus,times,inverse,ord} partition_state \<Rightarrow> nat \<Rightarrow> nat \<Rightarrow> 'w partition_state" where
  "move_node fl g st node candidate =
     (let current = ps_membership st ! node; node_degree = ps_degrees st ! node; by_community = incident_by_community g st node;
          st1 = st\<lparr>ps_membership := (ps_membership st)[node := candidate]\<rparr>;
          st2 = adjust_community_degree candidate node_degree (adjust_community_degree current (- node_degree) st1);
          st3 = st2\<lparr>ps_internal := ps_internal st2 + (bt_or 0 candidate by_community - bt_or 0 current by_community)\<rparr>;
          st4 = refresh_modularity fl st3
      in if candidate = ps_next st4 then st4\<lparr>ps_next := ps_next st4 + 1\<rparr> else st4)"

definition optimize_node ::
    "(nat \<Rightarrow> 'w) \<Rightarrow> 'w \<Rightarrow> 'w graph \<Rightarrow> 'w::{zero,plus,minus,uminus,times,inverse,abs,ord} partition_state \<times> nat list \<times> bool \<Rightarrow> nat
      \<Rightarrow> 'w partition_state \<times> nat list \<times> bool" where
  "optimize_node fl eps g = (\<lambda>(st, touched, changed) node.
     case best_move fl eps g st node of
       None \<Rightarrow> (st, touched, changed)
     | Some (candidate, _) \<Rightarrow>
         (move_node fl g st node candidate, bs_insert candidate (bs_insert (ps_membership st ! node) touched), True))"

fun optimize_passes ::
    "nat \<Rightarrow> (nat \<Rightarrow> 'w) \<Rightarrow> 'w \<Rightarrow> 'w graph \<Rightarrow> nat list \<Rightarrow> 'w::{zero,plus,minus,uminus,times,inverse,abs,ord} partition_state \<times> nat list
      \<Rightarrow> 'w partition_state \<times> nat list" where
  "optimize_passes 0 fl eps g nodes acc = acc"
| "optimize_passes (Suc k) fl eps g nodes (st, touched) =
     (let (st1, touched1, changed) = foldl (optimize_node fl eps g) (st, touched, False) nodes
      in if changed then optimize_passes k fl eps g nodes (st1, touched1) else (st1, touched1))"

record 'w incremental_output =
  io_state :: "'w partition_state"
  io_optimized :: "nat list"

definition incremental_partition_recoverable ::
    "(nat \<Rightarrow> 'w) \<Rightarrow> 'w graph \<Rightarrow> 'w::{zero,plus,minus,uminus,times,inverse,abs,ord} partition_state \<Rightarrow> nat list \<Rightarrow> 'w incremental_config
      \<Rightarrow> 'w partition_error \<times> 'w partition_state + 'w incremental_output \<times> 'w partition_rollback" where
  "incremental_partition_recoverable fl g st dirty_nodes cfg =
     (case incremental_frontier fl st g dirty_nodes cfg of
        Inl e \<Rightarrow> Inl (e, st)
      | Inr (dirty, frontier) \<Rightarrow>
          let rollback = rollback_snapshot st g dirty frontier;
              (st1, touched1) = apply_projection_deltas fl g st dirty;
              (st2, touched2) = (if 0 < ps_total st1 then optimize_passes (max_passes cfg) fl (epsilon cfg) g frontier (st1, touched1)
                                 else (st1, touched1))
          in if list_ex (\<lambda>c. \<not> community_is_connected g (ps_membership st2) c) touched2
             then Inl (DisconnectedCommunity, restore_partition rollback st2)
             else Inr (\<lparr>io_state = st2, io_optimized = frontier\<rparr>, rollback))"

definition incremental_partition ::
    "(nat \<Rightarrow> 'w) \<Rightarrow> 'w graph \<Rightarrow> 'w::{zero,plus,minus,uminus,times,inverse,abs,ord} partition_state \<Rightarrow> nat list \<Rightarrow> 'w incremental_config
      \<Rightarrow> 'w partition_error + 'w incremental_output" where
  "incremental_partition fl g st dirty_nodes cfg = map_sum fst fst (incremental_partition_recoverable fl g st dirty_nodes cfg)"

end
