(* ===== verification/Community_Rollback.thy ===== *)
theory Community_Rollback
  imports Community_Partition
begin

text \<open>
  An update writes only to its frontier and to the communities its snapshot saves or that are new, so
  restoring the snapshot gives back the state of before, bit for bit: these proofs use no law of the
  weights' arithmetic and hold for floating point.
\<close>

section \<open>States in range\<close>

definition state_ok :: "'w partition_state \<Rightarrow> bool" where
  "state_ok st \<longleftrightarrow> length (ps_adj st) = length (ps_membership st) \<and> length (ps_degrees st) = length (ps_membership st)
     \<and> list_all bt_ok (ps_adj st)
     \<and> (\<forall>i < length (ps_membership st). \<forall>j \<in> fst ` set (ps_adj st ! i). j < length (ps_membership st))
     \<and> bt_ok (ps_communities st) \<and> (\<forall>c \<in> fst ` set (ps_communities st). c < ps_next st)
     \<and> set (ps_membership st) \<subseteq> fst ` set (ps_communities st)"

lemma foldl_max: "(a::nat) \<le> foldl max a xs \<and> (\<forall>c \<in> set xs. c \<le> foldl max a xs)"
proof (induction xs arbitrary: a)
  case (Cons x xs)
  from Cons [of "max a x"] show ?case by simp
qed simp

lemma community_fold:
  "bt_ok m \<Longrightarrow> bt_ok (foldl (\<lambda>m i. bt_entry (f i) 0 (h i) m) m is)
    \<and> fst ` set (foldl (\<lambda>m i. bt_entry (f i) 0 (h i) m) m is) = fst ` set m \<union> f ` set is"
  by (induction "is" arbitrary: m) (auto simp: bt_ok_entry)

lemma new_partition_state_ok:
  assumes "graph_ok g" "new_partition_state fl g mem = Inr st"
  shows "state_ok st" "ps_membership st = mem" "ps_fingerprint st = gr_fingerprint g" "ps_adj st = gr_adj g"
proof -
  have len: "length mem = length (gr_ids g)" "ps_membership st = mem" "ps_fingerprint st = gr_fingerprint g"
    "ps_adj st = map bt_collect (gr_adj g)" "ps_degrees st = gr_degrees g" "ps_next st = foldl max 0 mem + 1"
    "ps_communities st = foldl (\<lambda>m i. bt_entry (mem ! i) 0 (\<lambda>x. x + gr_degrees g ! i) m) [] [0..<length mem]"
    using assms(2) by (auto simp: new_partition_state_def Let_def split: if_splits)
  show adj: "ps_adj st = gr_adj g"
    using assms(1) len by (simp add: graph_ok_def list_all_iff bt_collect_sorted map_idI)
  have comm: "bt_ok (ps_communities st)" "fst ` set (ps_communities st) = set mem"
    unfolding len(7) using community_fold [of "[]" "\<lambda>i. mem ! i" "\<lambda>i x. x + gr_degrees g ! i" "[0..<length mem]"]
    using nth_image [of "length mem" mem] by simp_all
  have "c \<in> set mem \<Longrightarrow> c < ps_next st" for c
    using foldl_max [of 0 mem] by (auto simp: len(6) le_imp_less_Suc)
  with comm adj len assms(1) show "state_ok st" by (fastforce simp: state_ok_def graph_ok_def)
  show "ps_membership st = mem" "ps_fingerprint st = gr_fingerprint g" by (fact len)+
qed

section \<open>The frame of an update\<close>

definition boundary :: "'w graph \<Rightarrow> 'w partition_state \<Rightarrow> nat set \<Rightarrow> nat set \<Rightarrow> bool" where
  "boundary g st F T \<longleftrightarrow> (\<forall>i \<in> F. ps_membership st ! i \<in> T \<and> (\<forall>j \<in> fst ` set (gr_adj g ! i). ps_membership st ! j \<in> T))"

text \<open>A community the update may write to: one that is saved, or one that did not exist.\<close>

abbreviation writable :: "'w partition_state \<Rightarrow> nat set \<Rightarrow> nat \<Rightarrow> bool" where
  "writable st T c \<equiv> c \<in> T \<or> ps_next st \<le> c"

definition kept_outside :: "'w partition_state \<Rightarrow> nat set \<Rightarrow> nat set \<Rightarrow> 'w partition_state \<Rightarrow> bool" where
  "kept_outside st F T st' \<longleftrightarrow>
     length (ps_membership st') = length (ps_membership st) \<and> length (ps_adj st') = length (ps_adj st)
     \<and> length (ps_degrees st') = length (ps_degrees st) \<and> ps_fingerprint st' = ps_fingerprint st
     \<and> (\<forall>i. i \<notin> F \<longrightarrow> ps_membership st' ! i = ps_membership st ! i \<and> ps_adj st' ! i = ps_adj st ! i \<and> ps_degrees st' ! i = ps_degrees st ! i)
     \<and> (\<forall>c. \<not> writable st T c \<longrightarrow> map_of (ps_communities st') c = map_of (ps_communities st) c)
     \<and> bt_ok (ps_communities st') \<and> ps_next st \<le> ps_next st'
     \<and> (\<forall>i \<in> F. writable st T (ps_membership st' ! i))"

lemma frame_refl: "state_ok st \<Longrightarrow> boundary g st F T \<Longrightarrow> kept_outside st F T st"
  by (auto simp: kept_outside_def state_ok_def boundary_def)

lemma frame_community:
  assumes "kept_outside st F T st'" "boundary g st F T" "i \<in> F" "j = i \<or> j \<in> fst ` set (gr_adj g ! i)"
  shows "writable st T (ps_membership st' ! j)"
proof (cases "j \<in> F")
  case False
  then show ?thesis using assms by (auto simp: kept_outside_def boundary_def)
qed (use assms(1) in \<open>auto simp: kept_outside_def\<close>)

lemma frame_adjust:
  "kept_outside st F T st' \<Longrightarrow> writable st T c \<Longrightarrow> kept_outside st F T (adjust_community_degree c delta st')"
  by (auto simp: kept_outside_def adjust_community_degree_def Let_def map_of_bt_insert bt_ok_insert)

lemma frame_totals:
  assumes "kept_outside st F T st'"
  shows "kept_outside st F T (st'\<lparr>ps_total := a\<rparr>)" "kept_outside st F T (st'\<lparr>ps_internal := a\<rparr>)" "kept_outside st F T (st'\<lparr>ps_modularity := a\<rparr>)"
    "ps_next st' \<le> k \<Longrightarrow> kept_outside st F T (st'\<lparr>ps_next := k\<rparr>)"
  using assms by (auto simp: kept_outside_def)

lemma frame_degrees:
  "kept_outside st F T st' \<Longrightarrow> i \<in> F \<Longrightarrow> kept_outside st F T (st'\<lparr>ps_degrees := (ps_degrees st')[i := x]\<rparr>)"
  by (simp add: kept_outside_def) (metis nth_list_update_neq)

lemma frame_adj:
  "kept_outside st F T st' \<Longrightarrow> i \<in> F \<Longrightarrow> kept_outside st F T (st'\<lparr>ps_adj := (ps_adj st')[i := x]\<rparr>)"
  by (simp add: kept_outside_def) (metis nth_list_update_neq)

lemma frame_membership:
  "kept_outside st F T st' \<Longrightarrow> i \<in> F \<Longrightarrow> i < length (ps_membership st) \<Longrightarrow> writable st T c
    \<Longrightarrow> kept_outside st F T (st'\<lparr>ps_membership := (ps_membership st')[i := c]\<rparr>)"
  by (auto simp: kept_outside_def nth_list_update)

lemmas frame_intros = frame_adjust frame_totals frame_degrees frame_adj frame_membership

lemma frame_refresh: "kept_outside st F T st' \<Longrightarrow> kept_outside st F T (refresh_modularity fl st')"
  by (simp add: refresh_modularity_def frame_totals)

section \<open>Restoring a frame\<close>

lemma write_back_same:
  assumes "length ys = length xs" "\<And>i. i < length xs \<Longrightarrow> i \<notin> set is \<Longrightarrow> ys ! i = xs ! i"
  shows "write_back (map (\<lambda>i. (i, xs ! i)) is) ys = xs"
  using assms
proof (induction "is" arbitrary: ys)
  case Nil
  then show ?case by (simp add: write_back_def nth_equalityI)
next
  case (Cons i "is")
  have "write_back (map (\<lambda>i. (i, xs ! i)) is) (ys[i := xs ! i]) = xs"
  proof (rule Cons.IH)
    show "ys[i := xs ! i] ! j = xs ! j" if "j < length xs" "j \<notin> set is" for j
      using that Cons.prems by (cases "j = i") auto
  qed (simp add: Cons.prems)
  then show ?case by (simp add: write_back_def)
qed

lemma map_of_filter_key: "map_of (filter (\<lambda>(c, d). P c) m) c = (if P c then map_of m c else None)"
  by (induction m) auto

lemma restore_kept:
  assumes "state_ok st" "kept_outside st (set frontier) T st'" "T = set (touched_communities st g dirty frontier)"
    and "T \<subseteq> set (ps_membership st)"
  shows "restore_partition (rollback_snapshot st g dirty frontier) st' = st"
proof -
  let ?rb = "rollback_snapshot st g dirty frontier"
  have "foldl (\<lambda>m (c, d). bt_insert c d m) (filter (\<lambda>(c, d). c < ps_next st) (ps_communities st')) (rb_communities ?rb) = ps_communities st"
    unfolding bt.put_all_def [symmetric]
  proof (rule bt.put_back)
    show "bt_ok (ps_communities st)" "bt_ok (filter (\<lambda>(c, d). c < ps_next st) (ps_communities st'))"
      using assms(1,2) by (auto simp: state_ok_def kept_outside_def intro: bt_ok_filter)
    show "map_of (ps_communities st) c = Some d" if "(c, d) \<in> set (rb_communities ?rb)" for c d
      using that by (auto simp: rollback_snapshot_def map_filter_def)
    show "map_of (filter (\<lambda>(c, d). c < ps_next st) (ps_communities st')) c = map_of (ps_communities st) c"
      if c: "c \<notin> fst ` set (rb_communities ?rb)" for c
    proof (cases "c < ps_next st")
      case True
      have "c \<notin> T"
      proof
        assume "c \<in> T"
        then obtain d where "map_of (ps_communities st) c = Some d"
          using assms(1,4) by (fastforce simp: state_ok_def dest: weak_map_of_SomeI)
        with \<open>c \<in> T\<close> c show False
          by (auto simp: rollback_snapshot_def map_filter_def assms(3) image_iff)
      qed
      with True assms(2) show ?thesis by (simp add: map_of_filter_key kept_outside_def)
    next
      case False
      then have "c \<notin> fst ` set (ps_communities st)" using assms(1) by (auto simp: state_ok_def)
      with False show ?thesis by (simp add: map_of_filter_key map_of_eq_None_iff [symmetric])
    qed
  qed
  moreover have "write_back (rb_membership ?rb) (ps_membership st') = ps_membership st"
    "write_back (rb_adj ?rb) (ps_adj st') = ps_adj st" "write_back (rb_degrees ?rb) (ps_degrees st') = ps_degrees st"
    using assms(2) by (auto simp: rollback_snapshot_def kept_outside_def intro!: write_back_same)
  moreover have "rb_next ?rb = ps_next st" "rb_modularity ?rb = ps_modularity st" "rb_internal ?rb = ps_internal st"
    "rb_squares ?rb = ps_squares st" "rb_total ?rb = ps_total st" "ps_fingerprint st' = ps_fingerprint st"
    using assms(2) by (simp_all add: rollback_snapshot_def kept_outside_def)
  ultimately show ?thesis unfolding restore_partition_def by simp
qed

section \<open>An update keeps the frame\<close>

lemma frame_pair:
  assumes "kept_outside st F T st'" "boundary g st F T" "src \<in> F" "dst \<in> F"
  shows "kept_outside st F T (fst (apply_pair g (st', touched) (src, dst)))"
proof -
  have c: "writable st T (ps_membership st' ! src)" "writable st T (ps_membership st' ! dst)"
    using frame_community [OF assms(1,2)] assms(3,4) by blast+
  have deg: "kept_outside st F T (st'\<lparr>ps_degrees := add_at dst d (add_at src d (ps_degrees st'))\<rparr>)" for d
    using frame_degrees [OF frame_degrees [OF assms(1,3)] assms(4)] by (simp add: add_at_def)
  have books: "kept_outside st F T (st2\<lparr>ps_total := a, ps_internal := b, ps_adj := (ps_adj st2)[src := x, dst := y]\<rparr>)"
    "kept_outside st F T (st2\<lparr>ps_total := a, ps_adj := (ps_adj st2)[src := x, dst := y]\<rparr>)"
    if "kept_outside st F T st2" for st2 a b x y
    using that assms(3,4) by (simp_all add: kept_outside_def) (metis nth_list_update_neq)+
  show ?thesis
    by (auto simp: apply_pair_def Let_def assms(1) intro!: books deg c frame_adjust)
qed

lemma frame_pairs:
  "kept_outside st F T st' \<Longrightarrow> boundary g st F T \<Longrightarrow> \<forall>(src, dst) \<in> set pairs. src \<in> F \<and> dst \<in> F
    \<Longrightarrow> kept_outside st F T (fst (foldl (apply_pair g) (st', touched) pairs))"
proof (induction pairs arbitrary: st' touched)
  case (Cons p pairs)
  obtain src dst where p: "p = (src, dst)" by (cases p)
  obtain st1 touched1 where s: "apply_pair g (st', touched) (src, dst) = (st1, touched1)" by fastforce
  have "kept_outside st F T st1" using frame_pair [OF Cons.prems(1,2), of src dst touched] Cons.prems(3) s p by simp
  with Cons show ?case by (simp add: p s)
qed simp

lemma frame_deltas:
  assumes "kept_outside st F T st" "boundary g st F T" "\<forall>(src, dst) \<in> set (changed_pairs g st dirty). src \<in> F \<and> dst \<in> F"
  shows "kept_outside st F T (fst (apply_projection_deltas fl g st dirty))"
  using frame_pairs [OF assms, of "[]"]
  by (auto simp: apply_projection_deltas_def frame_refresh split: prod.splits)

lemma neighbor_labels_keys: "fst ` set (neighbor_labels nbs mem) = (\<lambda>e. mem ! fst e) ` set nbs"
proof -
  have "fst ` set (foldl (\<lambda>m (nb, w). bt_entry (mem ! nb) 0 (\<lambda>x. x + w) m) m nbs) = fst ` set m \<union> (\<lambda>e. mem ! fst e) ` set nbs" for m
  proof (induction nbs arbitrary: m)
    case (Cons e nbs)
    show ?case by (cases e) (simp add: Cons.IH)
  qed simp
  then show ?thesis by (simp add: neighbor_labels_def)
qed

lemma best_move_candidate:
  assumes "best_move fl eps g st node = Some (candidate, delta)"
  shows "candidate \<noteq> ps_membership st ! node" "candidate \<in> fst ` set (incident_by_community g st node)" "eps < delta"
    "delta = move_delta fl g st node candidate"
proof -
  define ok where "ok = (\<lambda>cs (c, d). c \<noteq> ps_membership st ! node \<and> c \<in> set cs \<and> eps < d \<and> d = move_delta fl g st node c)"
  have "is_none_or (ok cs) (foldl (\<lambda>best candidate.
        if candidate = ps_membership st ! node then best
        else let delta = move_delta fl g st node candidate
             in if eps < delta \<and> better_move eps candidate delta best then Some (candidate, delta) else best) None cs)" for cs
  proof (induction cs rule: rev_induct)
    case (snoc c cs)
    then show ?case by (auto simp: ok_def is_none_or_iff Let_def)
  qed simp
  from this [of "map fst (incident_by_community g st node)"] assms
  have "ok (map fst (incident_by_community g st node)) (candidate, delta)" by (simp add: best_move_def)
  then have "candidate \<noteq> ps_membership st ! node \<and> candidate \<in> fst ` set (incident_by_community g st node) \<and> eps < delta
    \<and> delta = move_delta fl g st node candidate" by (auto simp: ok_def)
  then show "candidate \<noteq> ps_membership st ! node" "candidate \<in> fst ` set (incident_by_community g st node)" "eps < delta"
    "delta = move_delta fl g st node candidate" by blast+
qed

lemma candidates: "fst ` set (incident_by_community g st node) = insert (ps_next st) ((\<lambda>e. ps_membership st ! fst e) ` set (gr_adj g ! node))"
  by (simp add: incident_by_community_def neighbor_labels_keys)

lemma frame_move:
  assumes "kept_outside st F T st'" "boundary g st F T" "node \<in> F" "node < length (ps_membership st)"
    and "candidate \<in> fst ` set (incident_by_community g st' node)"
  shows "kept_outside st F T (move_node fl g st' node candidate)"
proof -
  have c: "writable st T candidate"
    using assms(5) frame_community [OF assms(1,2,3)] assms(1) by (auto simp: candidates kept_outside_def)
  have current: "writable st T (ps_membership st' ! node)" using frame_community [OF assms(1,2,3)] by blast
  show ?thesis
    by (auto simp: move_node_def Let_def intro!: frame_totals frame_refresh frame_adjust frame_membership assms(1,3,4) c current)
qed

text \<open>Whatever every accepted move keeps, the passes keep.\<close>

lemma optimize_invariant:
  assumes "\<And>st touched node c d. P st touched \<Longrightarrow> node \<in> N \<Longrightarrow> best_move fl eps g st node = Some (c, d)
      \<Longrightarrow> P (move_node fl g st node c) (bs_insert c (bs_insert (ps_membership st ! node) touched))"
    and "P st touched" "set nodes \<subseteq> N"
  shows "case foldl (optimize_node fl eps g) (st, touched, changed) nodes of (st', touched', changed') \<Rightarrow> P st' touched'"
  using assms(2,3)
proof (induction nodes arbitrary: st touched changed)
  case (Cons node nodes)
  show ?case
  proof (cases "best_move fl eps g st node")
    case None
    with Cons show ?thesis by (simp add: optimize_node_def)
  next
    case (Some m)
    with Cons assms(1) show ?thesis by (cases m) (simp add: optimize_node_def)
  qed
qed simp

lemma passes_invariant:
  assumes "\<And>st touched node c d. P st touched \<Longrightarrow> node \<in> N \<Longrightarrow> best_move fl eps g st node = Some (c, d)
      \<Longrightarrow> P (move_node fl g st node c) (bs_insert c (bs_insert (ps_membership st ! node) touched))"
    and "P st touched" "set nodes \<subseteq> N"
  shows "case optimize_passes k fl eps g nodes (st, touched) of (st', touched') \<Rightarrow> P st' touched'"
  using assms(2)
proof (induction k arbitrary: st touched)
  case (Suc k)
  obtain st1 touched1 changed where f: "foldl (optimize_node fl eps g) (st, touched, False) nodes = (st1, touched1, changed)"
    by (cases "foldl (optimize_node fl eps g) (st, touched, False) nodes") auto
  have "case foldl (optimize_node fl eps g) (st, touched, False) nodes of (st', touched', changed') \<Rightarrow> P st' touched'"
    by (rule optimize_invariant [where P = P and N = N]) (use assms(1,3) Suc.prems in auto)
  then have "P st1 touched1" by (simp add: f)
  with Suc.IH show ?case by (simp add: f)
qed simp

lemma frame_passes:
  assumes "kept_outside st F T st'" "boundary g st F T" "set nodes \<subseteq> F \<inter> {..<length (ps_membership st)}"
  shows "kept_outside st F T (fst (optimize_passes k fl eps g nodes (st', touched)))"
proof -
  have "case optimize_passes k fl eps g nodes (st', touched) of (st2, touched2) \<Rightarrow> kept_outside st F T st2"
  proof (rule passes_invariant [where P = "\<lambda>st' _. kept_outside st F T st'", OF _ assms(1,3)])
    show "kept_outside st F T (move_node fl g st1 node c)"
      if "kept_outside st F T st1" "node \<in> F \<inter> {..<length (ps_membership st)}" "best_move fl eps g st1 node = Some (c, d)" for st1 node c d
      using frame_move [OF that(1) assms(2) _ _ best_move_candidate(2) [OF that(3)]] that(2) by auto
  qed
  then show ?thesis by (simp add: split_def)
qed

section \<open>The update as a whole\<close>

lemma frontier_spec:
  assumes "incremental_frontier fl st g dirty_nodes cfg = Inr (dirty, frontier)"
  shows "length (ps_membership st) = length (gr_ids g)" "ps_fingerprint st = gr_fingerprint g" "dirty = bs_of dirty_nodes"
    "\<forall>i \<in> set dirty. i < length (gr_ids g)"
    "set frontier = set dirty \<union> (\<Union>i \<in> set dirty. fst ` set (ps_adj st ! i) \<union> fst ` set (gr_adj g ! i))"
proof -
  show "length (ps_membership st) = length (gr_ids g)" "ps_fingerprint st = gr_fingerprint g" "dirty = bs_of dirty_nodes"
    using assms by (auto simp: incremental_frontier_def Let_def split: if_splits option.splits)
  show "\<forall>i \<in> set dirty. i < length (gr_ids g)"
    using assms by (auto simp: incremental_frontier_def Let_def find_None_iff not_le split: if_splits option.splits)
  have "frontier = bs_of (dirty @ concat (map (\<lambda>i. map fst (ps_adj st ! i) @ map fst (gr_adj g ! i)) dirty))"
    using assms by (auto simp: incremental_frontier_def Let_def split: if_splits option.splits)
  then show "set frontier = set dirty \<union> (\<Union>i \<in> set dirty. fst ` set (ps_adj st ! i) \<union> fst ` set (gr_adj g ! i))" by simp
qed

lemma frontier_frame:
  assumes "state_ok st" "graph_ok g" "incremental_frontier fl st g dirty_nodes cfg = Inr (dirty, frontier)"
  defines "T \<equiv> set (touched_communities st g dirty frontier)"
  shows "boundary g st (set frontier) T" "T \<subseteq> set (ps_membership st)" "set frontier \<subseteq> {..<length (ps_membership st)}"
    "\<forall>(src, dst) \<in> set (changed_pairs g st dirty). src \<in> set frontier \<and> dst \<in> set frontier"
proof -
  note f = frontier_spec [OF assms(3)]
  show "boundary g st (set frontier) T"
    unfolding boundary_def T_def touched_communities_def by (auto simp: Let_def)
  have range: "i < length (ps_membership st) \<Longrightarrow> j \<in> fst ` set (ps_adj st ! i) \<or> j \<in> fst ` set (gr_adj g ! i) \<Longrightarrow> j < length (ps_membership st)" for i j
    using assms(1,2) f(1) by (fastforce simp: state_ok_def graph_ok_def)
  show fr: "set frontier \<subseteq> {..<length (ps_membership st)}"
  proof
    fix j assume "j \<in> set frontier"
    then obtain i where "j \<in> set dirty \<or> (i \<in> set dirty \<and> (j \<in> fst ` set (ps_adj st ! i) \<or> j \<in> fst ` set (gr_adj g ! i)))"
      using f(5) by blast
    then show "j \<in> {..<length (ps_membership st)}" using range [of i j] f(1,4) by auto
  qed
  show "T \<subseteq> set (ps_membership st)"
  proof
    fix c assume "c \<in> T"
    then have "(\<exists>k \<in> set frontier. c = ps_membership st ! k \<or> c \<in> (\<lambda>e. ps_membership st ! fst e) ` set (ps_adj st ! k)
        \<or> c \<in> (\<lambda>e. ps_membership st ! fst e) ` set (gr_adj g ! k)) \<or> (\<exists>k \<in> set dirty. c = ps_membership st ! k)"
      by (auto simp: T_def touched_communities_def Let_def)
    then obtain k i where "k \<in> set frontier" "c = ps_membership st ! i" "i = k \<or> i \<in> fst ` set (ps_adj st ! k) \<or> i \<in> fst ` set (gr_adj g ! k)"
      using f(5) by blast
    moreover from this have "i < length (ps_membership st)" using fr range [of k i] by auto
    ultimately show "c \<in> set (ps_membership st)" by simp
  qed
  show "\<forall>(src, dst) \<in> set (changed_pairs g st dirty). src \<in> set frontier \<and> dst \<in> set frontier"
    by (auto simp: changed_pairs_def ordered_pair_def f(5) split: if_splits intro: rev_image_eqI)
qed

lemma update_frame:
  assumes "state_ok st" "graph_ok g" "incremental_frontier fl st g dirty_nodes cfg = Inr (dirty, frontier)"
  defines "T \<equiv> set (touched_communities st g dirty frontier)"
  shows "kept_outside st (set frontier) T (fst (apply_projection_deltas fl g st dirty))"
    and "kept_outside st (set frontier) T st1 \<Longrightarrow> kept_outside st (set frontier) T (fst (optimize_passes k fl eps g frontier (st1, touched)))"
proof -
  note f = frontier_frame [OF assms(1-3), folded T_def]
  show "kept_outside st (set frontier) T (fst (apply_projection_deltas fl g st dirty))"
    using frame_refl [OF assms(1) f(1)] f(1,4) by (rule frame_deltas)
  show "kept_outside st (set frontier) T st1 \<Longrightarrow> kept_outside st (set frontier) T (fst (optimize_passes k fl eps g frontier (st1, touched)))"
    using f(1,3) by (intro frame_passes) auto
qed

text \<open>The states an update goes through.\<close>

lemma incremental_cases:
  assumes "incremental_frontier fl st g dirty_nodes cfg = Inr (dirty, frontier)"
    and "apply_projection_deltas fl g st dirty = (st1, touched1)"
    and "(if 0 < ps_total st1 then optimize_passes (max_passes cfg) fl (epsilon cfg) g frontier (st1, touched1) else (st1, touched1)) = (st2, touched2)"
  shows "incremental_partition_recoverable fl g st dirty_nodes cfg =
    (if list_ex (\<lambda>c. \<not> community_is_connected g (ps_membership st2) c) touched2
     then Inl (DisconnectedCommunity, restore_partition (rollback_snapshot st g dirty frontier) st2)
     else Inr (\<lparr>io_state = st2, io_optimized = frontier\<rparr>, rollback_snapshot st g dirty frontier))"
  unfolding incremental_partition_recoverable_def by (simp only: assms(1,2) sum.case prod.case Let_def assms(3))

text \<open>C6 (roundtrip). An incremental update that is rejected, before or after it changed the state, gives
  back the state it was given; one that is accepted can be undone by its snapshot, and moved only
  nodes of its frontier. This holds for floats, rounding included: what is saved is written back, not
  computed back.
\<close>

theorem rejected_update_is_rolled_back:
  assumes "state_ok st" "graph_ok g"
  shows "case incremental_partition_recoverable fl g st dirty_nodes cfg of
      Inl (e, st') \<Rightarrow> st' = st
    | Inr (out, rb) \<Rightarrow> restore_partition rb (io_state out) = st
        \<and> (\<forall>i < length (ps_membership st). i \<notin> set (io_optimized out) \<longrightarrow> ps_membership (io_state out) ! i = ps_membership st ! i)"
proof (cases "incremental_frontier fl st g dirty_nodes cfg")
  case (Inl e)
  then show ?thesis by (simp add: incremental_partition_recoverable_def)
next
  case (Inr p)
  then obtain dirty frontier where f: "incremental_frontier fl st g dirty_nodes cfg = Inr (dirty, frontier)" by (cases p) auto
  obtain st1 touched1 where d: "apply_projection_deltas fl g st dirty = (st1, touched1)" by fastforce
  obtain st2 touched2 where p: "(if 0 < ps_total st1 then optimize_passes (max_passes cfg) fl (epsilon cfg) g frontier (st1, touched1)
      else (st1, touched1)) = (st2, touched2)" by fastforce
  note u = update_frame [OF assms f]
  have st1: "kept_outside st (set frontier) (set (touched_communities st g dirty frontier)) st1" using u(1) d by simp
  have fr: "kept_outside st (set frontier) (set (touched_communities st g dirty frontier)) st2"
    using u(2) [OF st1, of "max_passes cfg" "epsilon cfg" touched1] st1 p by (auto split: if_splits)
  note undo = restore_kept [OF assms(1) fr refl frontier_frame(2) [OF assms f]]
  show ?thesis
    using undo fr by (auto simp: incremental_cases [OF f d p] kept_outside_def)
qed

end
