(* ===== verification/Community_Sums.thy ===== *)
theory Community_Sums
  imports Community_Rollback
begin

text \<open>
  Weights as a symmetric matrix, in exact arithmetic: the sums that the statistics of a partition are,
  and how they change when the weight of one pair changes or one node moves.
\<close>

section \<open>One pair\<close>

definition pair_matrix :: "nat \<Rightarrow> nat \<Rightarrow> 'w \<Rightarrow> nat \<Rightarrow> nat \<Rightarrow> 'w::comm_monoid_add" where
  "pair_matrix s d w i j = (if i = s \<and> j = d then w else 0) + (if i = d \<and> j = s then w else 0)"

lemma pair_matrix_flip: "pair_matrix s d w i j = (if s = i \<and> d = j then w else 0) + (if d = i \<and> s = j then w else 0)"
  unfolding pair_matrix_def by (simp only: eq_commute)

lemma pair_row: "s < n \<Longrightarrow> d < n \<Longrightarrow> (\<Sum>j<n. pair_matrix s d w i j) = (if i = s then w else 0) + (if i = d then w else 0)"
  by (simp add: pair_matrix_def sum.distrib)

lemma pair_total:
  assumes "s < n" "d < n" "R s d \<longleftrightarrow> R d s"
  shows "(\<Sum>i<n. \<Sum>j<n. if R i j then pair_matrix s d w i j else 0) = (if R s d then w + w else 0)"
proof -
  have "(\<Sum>j<n. if R i j then pair_matrix s d w i j else 0)
      = (if i = s \<and> R s d then w else 0) + (if i = d \<and> R d s then w else 0)" for i
  proof -
    have "(if R i j then pair_matrix s d w i j else 0)
        = (if j = d then if i = s \<and> R s d then w else 0 else 0) + (if j = s then if i = d \<and> R d s then w else 0 else 0)" for j
      by (auto simp: pair_matrix_def)
    then show ?thesis using assms(1,2) by (simp add: sum.distrib)
  qed
  moreover have "(\<Sum>i<n. (if i = s \<and> R s d then w else 0) + (if i = d \<and> R d s then w else 0))
      = (\<Sum>i<n. (if i = s then if R s d then w else 0 else 0) + (if i = d then if R d s then w else 0 else 0))"
    by (rule sum.cong) auto
  ultimately show ?thesis using assms by (simp add: sum.distrib)
qed

section \<open>A matrix as lists of neighbours\<close>

abbreviation weight_at :: "(nat, 'w::zero) btree list \<Rightarrow> nat \<Rightarrow> nat \<Rightarrow> 'w" where
  "weight_at adj i j \<equiv> bt_or 0 j (adj ! i)"

lemma sum_list_zero: "(\<And>x. x \<in> set xs \<Longrightarrow> f x = 0) \<Longrightarrow> sum_list (map f xs) = (0::'w::comm_monoid_add)"
  by (induction xs) auto

lemma bt_or_sum_list:
  "distinct (map fst kvs) \<Longrightarrow> bt_or (0::'w::comm_monoid_add) j kvs = (\<Sum>(k, w)\<leftarrow>kvs. if k = j then w else 0)"
proof (induction kvs)
  case (Cons e kvs)
  obtain k w where e: "e = (k, w)" by (cases e)
  have "(\<Sum>(k, w)\<leftarrow>kvs. if k = j then w else 0) = (0::'w)" if "j \<notin> fst ` set kvs"
    using that by (intro sum_list_zero) force
  with Cons show ?case by (auto simp: e bt_or_def)
qed simp

lemma sum_list_mset: "mset xs = mset ys \<Longrightarrow> sum_list (map f xs) = (sum_list (map f ys) :: 'w::comm_monoid_add)"
  by (metis sum_mset_sum_list mset_map)

text \<open>A sum over the neighbours is a sum over all nodes.\<close>

lemma sum_neighbours:
  fixes kvs :: "(nat \<times> 'w::comm_monoid_add) list"
  assumes "distinct (map fst kvs)" "\<forall>k \<in> fst ` set kvs. k < n"
  shows "(\<Sum>(k, w)\<leftarrow>kvs. if P k then w else 0) = (\<Sum>j<n. if P j then bt_or 0 j kvs else 0)"
proof -
  have "(\<Sum>(k, w)\<leftarrow>kvs. if P k then w else 0) = (\<Sum>(k, w)\<leftarrow>kvs. \<Sum>j<n. if k = j then if P j then w else 0 else 0)"
    using assms(2) by (intro arg_cong [where f = sum_list] map_cong) (auto simp: sum.delta)
  also have "\<dots> = (\<Sum>j<n. \<Sum>(k, w)\<leftarrow>kvs. if k = j then if P j then w else 0 else 0)"
    by (induction kvs) (auto simp: sum.distrib split: prod.splits)
  also have "\<dots> = (\<Sum>j<n. if P j then bt_or 0 j kvs else 0)"
  proof (rule sum.cong)
    fix j
    have "(\<Sum>(k, w)\<leftarrow>kvs. if k = j then if P j then w else 0 else 0) = (if P j then \<Sum>(k, w)\<leftarrow>kvs. if k = j then w else 0 else 0)"
      by (cases "P j") (auto intro!: sum_list_zero cong: if_cong)
    then show "(\<Sum>(k, w)\<leftarrow>kvs. if k = j then if P j then w else 0 else 0) = (if P j then bt_or 0 j kvs else 0)"
      using assms(1) by (simp add: bt_or_sum_list)
  qed simp
  finally show ?thesis .
qed

lemma neighbor_labels_weight:
  "bt_or 0 c (neighbor_labels nbs mem) = (\<Sum>(k, w)\<leftarrow>nbs. if mem ! k = c then w else (0::'w::comm_monoid_add))"
proof -
  have "bt_or 0 c (foldl (\<lambda>m (nb, w). bt_entry (mem ! nb) 0 (\<lambda>x. x + w) m) m nbs)
      = bt_or 0 c m + (\<Sum>(k, w)\<leftarrow>nbs. if mem ! k = c then w else 0)" for m
    by (induction nbs arbitrary: m) (auto simp: bt_or_entry add.assoc)
  then show ?thesis by (simp add: neighbor_labels_def)
qed

section \<open>The graph of a projection\<close>

definition projected :: "'w::{zero,plus} graph \<Rightarrow> bool" where
  "projected g \<longleftrightarrow> edges_ok (length (gr_ids g)) (gr_edges g) \<and> g = graph_of (gr_ids g) (gr_edges g)"

lemma projection_projected: "projected (project_grounded_relates fl cfg input)"
proof -
  obtain ids folded where r: "project_relates cfg input = (ids, folded)" by fastforce
  show ?thesis using projected_edges_ok [OF r, of fl "hub_degree_cap cfg" "folded_degrees ids folded"]
    by (simp add: projected_def project_grounded_relates_def r graph_of_def)
qed

lemma projected_ok: "projected g \<Longrightarrow> graph_ok g"
  by (metis graph_of_ok projected_def)

definition edge_matrix :: "'w::comm_monoid_add projected_edge list \<Rightarrow> nat \<Rightarrow> nat \<Rightarrow> 'w" where
  "edge_matrix es i j = (\<Sum>e\<leftarrow>es. pair_matrix (pe_src e) (pe_dst e) (pe_weight e) i j)"

lemma incident_sum: "(\<Sum>(k, w)\<leftarrow>incident i es. if k = j then w else 0) = edge_matrix es i j"
proof (induction es)
  case (Cons e es)
  have "edge_matrix (e # es) i j = pair_matrix (pe_src e) (pe_dst e) (pe_weight e) i j + edge_matrix es i j"
    by (simp add: edge_matrix_def)
  also have "pair_matrix (pe_src e) (pe_dst e) (pe_weight e) i j = (\<Sum>(k, w)\<leftarrow>(if pe_src e = i then [(pe_dst e, pe_weight e)] else [])
      @ (if pe_dst e = i then [(pe_src e, pe_weight e)] else []). if k = j then w else 0)"
    by (cases "pe_src e = i"; cases "pe_dst e = i"; simp add: pair_matrix_flip)
  finally show ?case by (simp only: incident_Cons append_assoc [symmetric] map_append sum_list_append Cons.IH)
qed (simp add: edge_matrix_def incident_def)

lemma projected_weight:
  assumes "projected g" "i < length (gr_ids g)"
  shows "weight_at (gr_adj g) i j = edge_matrix (gr_edges g) i j"
proof -
  have g: "g = graph_of (gr_ids g) (gr_edges g)" "edges_ok (length (gr_ids g)) (gr_edges g)"
    using assms(1) by (simp_all add: projected_def)
  have "gr_adj (graph_of (gr_ids g) (gr_edges g)) ! i = sort_key fst (incident i (gr_edges g))"
    using g(2) assms(2) by (simp add: graph_of_def link_incident)
  then have a: "gr_adj g ! i = sort_key fst (incident i (gr_edges g))" using g(1) by simp
  have "weight_at (gr_adj g) i j = (\<Sum>(k, w)\<leftarrow>sort_key fst (incident i (gr_edges g)). if k = j then w else 0)"
    unfolding a using incident_distinct [OF g(2), of i] by (intro bt_or_sum_list) (simp add: distinct_map)
  also have "\<dots> = (\<Sum>(k, w)\<leftarrow>incident i (gr_edges g). if k = j then w else 0)"
    by (rule sum_list_mset) simp
  finally show ?thesis by (simp only: incident_sum)
qed

lemma edge_matrix_total:
  assumes "edges_ok n es" "\<And>i j. R i j \<longleftrightarrow> R j i"
  shows "(\<Sum>i<n. \<Sum>j<n. if R i j then edge_matrix es i j else 0) = (\<Sum>e\<leftarrow>es. if R (pe_src e) (pe_dst e) then pe_weight e + pe_weight e else 0)"
  using assms(1)
proof (induction es)
  case (Cons e es)
  then have e: "pe_src e < n" "pe_dst e < n" "edges_ok n es" by (auto simp: edges_ok_def)
  have "(if R i j then edge_matrix (e # es) i j else 0) = (if R i j then pair_matrix (pe_src e) (pe_dst e) (pe_weight e) i j else 0)
      + (if R i j then edge_matrix es i j else 0)" for i j
    by (simp add: edge_matrix_def)
  then show ?case using Cons.IH e pair_total [of "pe_src e" n "pe_dst e" R "pe_weight e"] assms(2)
    by (simp add: sum.distrib)
qed (simp add: edge_matrix_def cong: if_cong)

lemma edge_matrix_row:
  assumes "edges_ok n es"
  shows "(\<Sum>j<n. edge_matrix es i j) = (\<Sum>e\<leftarrow>es. (if i = pe_src e then pe_weight e else 0) + (if i = pe_dst e then pe_weight e else 0))"
  using assms
proof (induction es)
  case (Cons e es)
  then have e: "pe_src e < n" "pe_dst e < n" "edges_ok n es" by (auto simp: edges_ok_def)
  have "edge_matrix (e # es) i j = pair_matrix (pe_src e) (pe_dst e) (pe_weight e) i j + edge_matrix es i j" for j
    by (simp add: edge_matrix_def)
  then show ?case using Cons.IH e pair_row [of "pe_src e" n "pe_dst e" "pe_weight e" i] by (simp add: sum.distrib)
qed (simp add: edge_matrix_def)

lemma weigh_row:
  "edges_ok n es \<Longrightarrow> n \<le> length ds \<Longrightarrow> i < n \<Longrightarrow> foldl weigh_edge ds es ! i
    = ds ! i + (\<Sum>e\<leftarrow>es. (if i = pe_src e then pe_weight e else 0) + (if i = pe_dst e then pe_weight e else (0::'w::comm_monoid_add)))"
proof (induction es arbitrary: ds)
  case (Cons e es)
  then have "pe_src e < length ds" "pe_dst e < length ds" "pe_src e \<noteq> pe_dst e" "edges_ok n es" by (auto simp: edges_ok_def)
  with Cons show ?case by (auto simp: weigh_edge_def add_at_def nth_list_update add.assoc)
qed simp

lemma projected_degree:
  assumes "projected g" "i < length (gr_ids g)"
  shows "gr_degrees g ! i = (\<Sum>j<length (gr_ids g). weight_at (gr_adj g) i j)"
proof -
  have g: "g = graph_of (gr_ids g) (gr_edges g)" "edges_ok (length (gr_ids g)) (gr_edges g)"
    using assms(1) by (simp_all add: projected_def)
  have "gr_degrees (graph_of (gr_ids g) (gr_edges g)) ! i = (\<Sum>j<length (gr_ids g). edge_matrix (gr_edges g) i j)"
    using g(2) assms(2) by (simp add: graph_of_def weigh_row edge_matrix_row)
  then show ?thesis using g(1) assms by (simp add: projected_weight)
qed

lemma foldl_sum: "foldl (\<lambda>q e. q + f e) (a::'w::comm_monoid_add) es = a + (\<Sum>e\<leftarrow>es. f e)"
  by (induction es arbitrary: a) (simp_all add: add.assoc)

lemma double_filter:
  "2 * (\<Sum>e\<leftarrow>filter P es. f e) = (\<Sum>e\<leftarrow>es. if P e then f e + f e else (0::'w::comm_semiring_1))"
  by (induction es) (simp_all add: algebra_simps mult_2)

lemma projected_total:
  fixes g :: "'w::comm_semiring_1 graph"
  assumes "projected g" "\<And>i j. R i j \<longleftrightarrow> R j i"
  shows "2 * foldl (\<lambda>q e. q + pe_weight e) 0 (filter (\<lambda>e. R (pe_src e) (pe_dst e)) (gr_edges g))
    = (\<Sum>i<length (gr_ids g). \<Sum>j<length (gr_ids g). if R i j then weight_at (gr_adj g) i j else 0)"
proof -
  have ok: "edges_ok (length (gr_ids g)) (gr_edges g)" using assms(1) by (simp add: projected_def)
  have "2 * foldl (\<lambda>q e. q + pe_weight e) 0 (filter (\<lambda>e. R (pe_src e) (pe_dst e)) (gr_edges g))
      = (\<Sum>e\<leftarrow>gr_edges g. if R (pe_src e) (pe_dst e) then pe_weight e + pe_weight e else 0)"
    by (simp add: foldl_sum double_filter)
  also have "\<dots> = (\<Sum>i<length (gr_ids g). \<Sum>j<length (gr_ids g). if R i j then edge_matrix (gr_edges g) i j else 0)"
    by (rule edge_matrix_total [OF ok assms(2), symmetric])
  also have "\<dots> = (\<Sum>i<length (gr_ids g). \<Sum>j<length (gr_ids g). if R i j then weight_at (gr_adj g) i j else 0)"
    by (intro sum.cong) (simp_all add: projected_weight [OF assms(1)])
  finally show ?thesis .
qed

end
