(* ===== verification/Community_Tallies.thy ===== *)
theory Community_Tallies
  imports Community_Sums
begin

text \<open>
  The statistics of a partition, in exact arithmetic, against the sums they stand for: every pair of
  the deltas and every move of a node keeps them.
\<close>

section \<open>The tallies\<close>

definition squares_ok :: "'w::comm_semiring_1 partition_state \<Rightarrow> bool" where
  "squares_ok st \<longleftrightarrow> ps_squares st = (\<Sum>c \<in> fst ` set (ps_communities st). square (bt_or 0 c (ps_communities st)))"

definition matrix_ok :: "nat \<Rightarrow> (nat, 'w::zero) btree list \<Rightarrow> bool" where
  "matrix_ok n adj \<longleftrightarrow> (\<forall>i<n. \<forall>j<n. weight_at adj i j = weight_at adj j i) \<and> (\<forall>i<n. weight_at adj i i = 0)
     \<and> (\<forall>i<n. \<forall>e \<in> set (adj ! i). snd e \<noteq> 0)"

definition tallies :: "'w::linordered_field partition_state \<Rightarrow> bool" where
  "tallies st \<longleftrightarrow>
     (let n = length (ps_membership st); m = ps_membership st; W = weight_at (ps_adj st)
      in matrix_ok n (ps_adj st) \<and> squares_ok st
         \<and> (\<forall>i<n. ps_degrees st ! i = (\<Sum>j<n. W i j))
         \<and> 2 * ps_total st = (\<Sum>i<n. \<Sum>j<n. W i j)
         \<and> 2 * ps_internal st = (\<Sum>i<n. \<Sum>j<n. if m ! i = m ! j then W i j else 0)
         \<and> (\<forall>c. bt_or 0 c (ps_communities st) = (\<Sum>i<n. if m ! i = c then ps_degrees st ! i else 0)))"

lemma squares_insert:
  assumes "bt_ok m"
  shows "(\<Sum>x \<in> insert c (fst ` set m). square (bt_or 0 x (bt_insert c v m)))
    = (\<Sum>x \<in> fst ` set m. square (bt_or 0 x m)) - square (bt_or 0 c m) + square (v::'w::linordered_field)"
proof -
  have rest: "(\<Sum>x \<in> fst ` set m - {c}. square (bt_or 0 x (bt_insert c v m))) = (\<Sum>x \<in> fst ` set m - {c}. square (bt_or 0 x m))"
    by (rule sum.cong) (auto simp: bt_or_insert)
  have "(\<Sum>x \<in> insert c (fst ` set m). square (bt_or 0 x (bt_insert c v m)))
      = square v + (\<Sum>x \<in> fst ` set m - {c}. square (bt_or 0 x m))"
    using rest by (simp add: sum.insert_remove bt_or_insert)
  also have "(\<Sum>x \<in> fst ` set m - {c}. square (bt_or 0 x m)) = (\<Sum>x \<in> fst ` set m. square (bt_or 0 x m)) - square (bt_or 0 c m)"
    by (cases "c \<in> fst ` set m") (simp_all add: sum_diff1 bt_or_out square_def)
  finally show ?thesis by simp
qed

lemma squares_adjust:
  fixes st :: "'w::linordered_field partition_state"
  assumes "bt_ok (ps_communities st)" "squares_ok st"
  shows "squares_ok (adjust_community_degree c delta st)"
  using assms by (simp add: squares_ok_def adjust_community_degree_def Let_def squares_insert)

lemma adjust_fields [simp]:
  "ps_membership (adjust_community_degree c delta st) = ps_membership st"
  "ps_adj (adjust_community_degree c delta st) = ps_adj st"
  "ps_degrees (adjust_community_degree c delta st) = ps_degrees st"
  "ps_total (adjust_community_degree c delta st) = ps_total st"
  "ps_internal (adjust_community_degree c delta st) = ps_internal st"
  "ps_next (adjust_community_degree c delta st) = ps_next st"
  "ps_fingerprint (adjust_community_degree c delta st) = ps_fingerprint st"
  "ps_modularity (adjust_community_degree c delta st) = ps_modularity st"
  by (simp_all add: adjust_community_degree_def Let_def)

lemma adjust_communities:
  "bt_or 0 x (ps_communities (adjust_community_degree c delta st)) = bt_or 0 x (ps_communities st) + (if x = c then delta else (0::'w::linordered_field))"
  "fst ` set (ps_communities (adjust_community_degree c delta st)) = insert c (fst ` set (ps_communities st))"
  "bt_ok (ps_communities st) \<Longrightarrow> bt_ok (ps_communities (adjust_community_degree c delta st))"
  by (simp_all add: adjust_community_degree_def Let_def bt_or_insert bt_ok_insert)

lemma squares_fields [simp]:
  "squares_ok (st\<lparr>ps_degrees := a\<rparr>) = squares_ok st" "squares_ok (st\<lparr>ps_total := b\<rparr>) = squares_ok st"
  "squares_ok (st\<lparr>ps_internal := b\<rparr>) = squares_ok st" "squares_ok (st\<lparr>ps_adj := d\<rparr>) = squares_ok st"
  "squares_ok (st\<lparr>ps_membership := e\<rparr>) = squares_ok st" "squares_ok (st\<lparr>ps_modularity := b\<rparr>) = squares_ok st"
  "squares_ok (st\<lparr>ps_next := k\<rparr>) = squares_ok st"
  by (simp_all add: squares_ok_def)

section \<open>A pair\<close>

text \<open>What the state is after a pair whose weight changed.\<close>

definition paired :: "nat \<Rightarrow> nat \<Rightarrow> 'w \<Rightarrow> 'w \<Rightarrow> 'w::linordered_field partition_state \<Rightarrow> 'w partition_state" where
  "paired s d w delta st =
     (let c = ps_membership st ! s; e = ps_membership st ! d;
          st2 = adjust_community_degree e delta (adjust_community_degree c delta
                  (st\<lparr>ps_degrees := add_at d delta (add_at s delta (ps_degrees st))\<rparr>))
      in st2\<lparr>ps_total := ps_total st + delta, ps_internal := (if c = e then ps_internal st + delta else ps_internal st),
             ps_adj := (if w = 0 then (ps_adj st)[s := bt_remove d (ps_adj st ! s), d := bt_remove s (ps_adj st ! d)]
                        else (ps_adj st)[s := bt_insert d w (ps_adj st ! s), d := bt_insert s w (ps_adj st ! d)])\<rparr>)"

lemma apply_pair_paired:
  fixes st :: "'w::linordered_field partition_state"
  assumes "s \<noteq> d"
  shows "fst (apply_pair g (st, touched) (s, d)) =
    (if bt_or 0 d (gr_adj g ! s) = bt_or 0 d (ps_adj st ! s) then st
     else paired s d (bt_or 0 d (gr_adj g ! s)) (bt_or 0 d (gr_adj g ! s) - bt_or 0 d (ps_adj st ! s)) st)"
  using assms by (simp add: apply_pair_def paired_def Let_def)

lemma paired_fields:
  "ps_membership (paired s d w delta st) = ps_membership st" "ps_fingerprint (paired s d w delta st) = ps_fingerprint st"
  "ps_next (paired s d w delta st) = ps_next st" "ps_total (paired s d w delta st) = ps_total st + delta"
  "ps_internal (paired s d w delta st) = (if ps_membership st ! s = ps_membership st ! d then ps_internal st + delta else ps_internal st)"
  by (simp_all add: paired_def Let_def)

lemma paired_adj:
  assumes "s < length (ps_adj st)" "d < length (ps_adj st)" "s \<noteq> d"
  shows "length (ps_adj (paired s d w delta st)) = length (ps_adj st)"
    and "ps_adj (paired s d w delta st) ! i = (if i = s then if w = 0 then bt_remove d (ps_adj st ! s) else bt_insert d w (ps_adj st ! s)
           else if i = d then if w = 0 then bt_remove s (ps_adj st ! d) else bt_insert s w (ps_adj st ! d) else ps_adj st ! i)"
  using assms by (auto simp: paired_def Let_def nth_list_update)

lemma paired_weight:
  assumes "s < length (ps_adj st)" "d < length (ps_adj st)" "s \<noteq> d"
  shows "weight_at (ps_adj (paired s d w delta st)) i j = (if i = s \<and> j = d \<or> i = d \<and> j = s then w else weight_at (ps_adj st) i j)"
  using assms by (auto simp: paired_adj(2) bt_or_insert bt_or_remove)

lemma paired_state_ok:
  fixes st :: "'w::linordered_field partition_state"
  assumes "state_ok st" "s < length (ps_membership st)" "d < length (ps_membership st)" "s \<noteq> d"
  shows "state_ok (paired s d w delta st)"
proof -
  have len: "s < length (ps_adj st)" "d < length (ps_adj st)" using assms by (simp_all add: state_ok_def)
  note adj = paired_adj [OF len assms(4)]
  have ok: "bt_ok (ps_adj st ! i)" if "i < length (ps_adj st)" for i using assms(1) that by (simp add: state_ok_def list_all_length)
  have keys: "fst ` set (ps_adj st ! i) \<subseteq> {..<length (ps_membership st)}" if "i < length (ps_membership st)" for i
    using assms(1) that by (auto simp: state_ok_def)
  have a: "list_all bt_ok (ps_adj (paired s d w delta st))"
    using ok len by (simp add: list_all_length adj bt_ok_insert bt_ok_remove)
  have rem: "fst ` set (bt_remove k m) \<subseteq> fst ` set m" for k and m :: "(nat, 'w) btree" by (auto simp: bt_remove_def)
  have b: "fst ` set (ps_adj (paired s d w delta st) ! i) \<subseteq> {..<length (ps_membership st)}" if "i < length (ps_membership st)" for i
  proof -
    have "fst ` set (bt_remove k (ps_adj st ! j)) \<subseteq> {..<length (ps_membership st)}"
      "k < length (ps_membership st) \<Longrightarrow> fst ` set (bt_insert k w (ps_adj st ! j)) \<subseteq> {..<length (ps_membership st)}"
      if "j < length (ps_membership st)" for j k
      using keys [OF that] rem [of k "ps_adj st ! j"] by auto
    then show ?thesis using keys [OF that] assms(2,3) by (simp only: adj(2) if_split) simp
  qed
  have c: "set (ps_membership st) \<subseteq> fst ` set (ps_communities (paired s d w delta st))"
    "fst ` set (ps_communities (paired s d w delta st)) = fst ` set (ps_communities st)"
    "bt_ok (ps_communities (paired s d w delta st))"
    using assms(1) nth_mem [OF assms(2)] nth_mem [OF assms(3)]
    by (auto simp: paired_def Let_def adjust_communities state_ok_def insert_absorb)
  have e: "length (ps_degrees (paired s d w delta st)) = length (ps_degrees st)" by (simp add: paired_def Let_def add_at_def)
  show ?thesis using assms(1) a b c e by (auto simp: state_ok_def adj(1) paired_fields)
qed

lemma paired_tallies:
  assumes "state_ok st" "tallies st" "s < length (ps_membership st)" "d < length (ps_membership st)" "s \<noteq> d"
    and "delta = w - weight_at (ps_adj st) s d"
  shows "tallies (paired s d w delta st)"
proof -
  let ?st = "paired s d w delta st"
  let ?n = "length (ps_membership st)"
  let ?m = "ps_membership st"
  let ?W = "weight_at (ps_adj st)" and ?W' = "weight_at (ps_adj ?st)"
  have len: "s < length (ps_adj st)" "d < length (ps_adj st)" using assms(1,3,4) by (simp_all add: state_ok_def)
  have m: "matrix_ok ?n (ps_adj st)" and t: "squares_ok st" "\<forall>i<?n. ps_degrees st ! i = (\<Sum>j<?n. ?W i j)"
    "2 * ps_total st = (\<Sum>i<?n. \<Sum>j<?n. ?W i j)"
    "2 * ps_internal st = (\<Sum>i<?n. \<Sum>j<?n. if ?m ! i = ?m ! j then ?W i j else 0)"
    "\<forall>c. bt_or 0 c (ps_communities st) = (\<Sum>i<?n. if ?m ! i = c then ps_degrees st ! i else 0)"
    using assms(2) by (simp_all add: tallies_def Let_def)
  have sym: "?W d s = ?W s d" using m assms(3,4) by (simp add: matrix_ok_def)
  have W': "?W' i j = ?W i j + pair_matrix s d delta i j" for i j
    using paired_weight [OF len assms(5), where w = w and delta = delta and i = i and j = j] assms(5,6) sym by (auto simp: pair_matrix_def)
  have bt: "bt_ok (ps_communities st)" using assms(1) by (simp add: state_ok_def)
  have degrees: "ps_degrees ?st ! i = ps_degrees st ! i + ((if i = s then delta else 0) + (if i = d then delta else 0))" if "i < ?n" for i
    using that assms(1,3,4,5) by (auto simp: paired_def Let_def add_at_def nth_list_update state_ok_def)
  have "matrix_ok ?n (ps_adj ?st)"
    using m assms(5) paired_weight [OF len assms(5), where w = w and delta = delta]
    by (auto simp: matrix_ok_def paired_adj(2) [OF len assms(5)] bt_remove_def split: if_splits dest!: bt_insert_entry)
  moreover have "squares_ok ?st"
    using t(1) bt by (auto simp: paired_def Let_def intro!: squares_adjust adjust_communities(3))
  moreover have "\<forall>i<?n. ps_degrees ?st ! i = (\<Sum>j<?n. ?W' i j)"
    using t(2) assms(3,4) by (simp add: degrees W' sum.distrib pair_row)
  moreover have "2 * ps_total ?st = (\<Sum>i<?n. \<Sum>j<?n. ?W' i j)"
    using t(3) pair_total [of s ?n d "\<lambda>_ _. True" delta] assms(3,4)
    by (simp add: W' sum.distrib paired_fields algebra_simps)
  moreover have "2 * ps_internal ?st = (\<Sum>i<?n. \<Sum>j<?n. if ?m ! i = ?m ! j then ?W' i j else 0)"
  proof -
    have "(if ?m ! i = ?m ! j then ?W' i j else 0) = (if ?m ! i = ?m ! j then ?W i j else 0)
        + (if ?m ! i = ?m ! j then pair_matrix s d delta i j else 0)" for i j by (simp add: W')
    then show ?thesis
      using t(4) pair_total [of s ?n d "\<lambda>i j. ?m ! i = ?m ! j" delta] assms(3,4)
      by (simp add: sum.distrib paired_fields algebra_simps)
  qed
  moreover have "bt_or 0 c (ps_communities ?st) = (\<Sum>i<?n. if ?m ! i = c then ps_degrees ?st ! i else 0)" for c
  proof -
    have "(\<Sum>i<?n. if ?m ! i = c then ps_degrees ?st ! i else 0)
        = (\<Sum>i<?n. (if ?m ! i = c then ps_degrees st ! i else 0) + ((if i = s then if ?m ! s = c then delta else 0 else 0)
             + (if i = d then if ?m ! d = c then delta else 0 else 0)))"
      by (rule sum.cong) (auto simp: degrees)
    also have "\<dots> = bt_or 0 c (ps_communities st) + ((if ?m ! s = c then delta else 0) + (if ?m ! d = c then delta else 0))"
      using t(5) assms(3,4) by (simp add: sum.distrib)
    finally show ?thesis by (auto simp: paired_def Let_def adjust_communities)
  qed
  ultimately show ?thesis by (simp add: tallies_def Let_def paired_fields)
qed

section \<open>A move\<close>

lemma internal_split:
  fixes W :: "nat \<Rightarrow> nat \<Rightarrow> 'w::linordered_field"
  assumes "v < n" "\<And>i j. i < n \<Longrightarrow> j < n \<Longrightarrow> W i j = W j i" "W v v = 0"
  shows "(\<Sum>i<n. \<Sum>j<n. if f i = f j then W i j else 0)
    = (\<Sum>i \<in> {..<n} - {v}. \<Sum>j \<in> {..<n} - {v}. if f i = f j then W i j else 0) + 2 * (\<Sum>j \<in> {..<n} - {v}. if f j = f v then W v j else 0)"
proof -
  let ?A = "{..<n} - {v}"
  have row: "(\<Sum>j<n. if f i = f j then W i j else 0) = (if f i = f v then W i v else 0) + (\<Sum>j \<in> ?A. if f i = f j then W i j else 0)" for i
    using assms(1) by (simp add: sum.remove [of "{..<n}" v])
  have "(\<Sum>i<n. \<Sum>j<n. if f i = f j then W i j else 0)
      = (\<Sum>j<n. if f v = f j then W v j else 0) + (\<Sum>i \<in> ?A. \<Sum>j<n. if f i = f j then W i j else 0)"
    using assms(1) by (simp add: sum.remove [of "{..<n}" v])
  also have "(\<Sum>j<n. if f v = f j then W v j else 0) = (\<Sum>j \<in> ?A. if f j = f v then W v j else 0)"
  proof -
    have "(\<Sum>j \<in> ?A. if f v = f j then W v j else 0) = (\<Sum>j \<in> ?A. if f j = f v then W v j else 0)"
      by (rule sum.cong) (auto simp: eq_commute [of "f v"])
    then show ?thesis unfolding row [of v] using assms(3) by simp
  qed
  also have "(\<Sum>i \<in> ?A. \<Sum>j<n. if f i = f j then W i j else 0)
      = (\<Sum>i \<in> ?A. if f i = f v then W v i else 0) + (\<Sum>i \<in> ?A. \<Sum>j \<in> ?A. if f i = f j then W i j else 0)"
    unfolding row sum.distrib using assms(1,2) by (intro arg_cong2 [where f = "(+)"] sum.cong) auto
  finally show ?thesis by simp
qed

lemma move_internal:
  fixes W :: "nat \<Rightarrow> nat \<Rightarrow> 'w::linordered_field"
  assumes "v < n" "\<And>i j. i < n \<Longrightarrow> j < n \<Longrightarrow> W i j = W j i" "W v v = 0" "\<And>j. j \<noteq> v \<Longrightarrow> f' j = f j"
  shows "(\<Sum>i<n. \<Sum>j<n. if f' i = f' j then W i j else 0) = (\<Sum>i<n. \<Sum>j<n. if f i = f j then W i j else 0)
    + 2 * ((\<Sum>j<n. if f j = f' v then W v j else 0) - (\<Sum>j<n. if f j = f v then W v j else 0))"
proof -
  let ?A = "{..<n} - {v}"
  have drop: "(\<Sum>j<n. if f j = c then W v j else 0) = (\<Sum>j \<in> ?A. if f j = c then W v j else 0)" for c
    using assms(1,3) by (simp add: sum.remove [of "{..<n}" v])
  have "(\<Sum>i \<in> ?A. \<Sum>j \<in> ?A. if f' i = f' j then W i j else 0) = (\<Sum>i \<in> ?A. \<Sum>j \<in> ?A. if f i = f j then W i j else 0)"
    "(\<Sum>j \<in> ?A. if f' j = f' v then W v j else 0) = (\<Sum>j \<in> ?A. if f j = f' v then W v j else 0)"
    using assms(4) by (auto intro!: sum.cong)
  then show ?thesis
    unfolding drop internal_split [of v n W f', OF assms(1-3), simplified] internal_split [of v n W f, OF assms(1-3), simplified]
    by (simp add: algebra_simps)
qed

lemma incident_weight:
  fixes st :: "'w::linordered_field partition_state"
  assumes "state_ok st" "v < length (ps_membership st)" "gr_adj g ! v = ps_adj st ! v"
  shows "bt_or 0 c (incident_by_community g st v)
    = (\<Sum>j<length (ps_membership st). if ps_membership st ! j = c then weight_at (ps_adj st) v j else 0)"
proof -
  have "bt_ok (ps_adj st ! v)" "\<forall>k \<in> fst ` set (ps_adj st ! v). k < length (ps_membership st)"
    using assms(1,2) by (auto simp: state_ok_def list_all_length)
  then have "(\<Sum>(k, w)\<leftarrow>ps_adj st ! v. if ps_membership st ! k = c then w else 0)
      = (\<Sum>j<length (ps_membership st). if ps_membership st ! j = c then weight_at (ps_adj st) v j else 0)"
    by (intro sum_neighbours) (simp_all add: bt_ok_distinct)
  moreover have "bt_or 0 c (incident_by_community g st v) = bt_or 0 c (neighbor_labels (ps_adj st ! v) (ps_membership st))"
    by (simp add: incident_by_community_def bt_or_entry assms(3))
  ultimately show ?thesis by (simp only: neighbor_labels_weight)
qed

text \<open>The state after a move, before its modularity is refreshed.\<close>

definition moved_node :: "'w graph \<Rightarrow> 'w::linordered_field partition_state \<Rightarrow> nat \<Rightarrow> nat \<Rightarrow> 'w partition_state" where
  "moved_node g st v b =
     (adjust_community_degree b (ps_degrees st ! v) (adjust_community_degree (ps_membership st ! v) (- (ps_degrees st ! v))
        (st\<lparr>ps_membership := (ps_membership st)[v := b]\<rparr>)))
     \<lparr>ps_internal := ps_internal st + (bt_or 0 b (incident_by_community g st v) - bt_or 0 (ps_membership st ! v) (incident_by_community g st v))\<rparr>"

lemma moved_fields:
  "ps_membership (moved_node g st v b) = (ps_membership st)[v := b]" "ps_adj (moved_node g st v b) = ps_adj st"
  "ps_degrees (moved_node g st v b) = ps_degrees st" "ps_total (moved_node g st v b) = ps_total st" "ps_next (moved_node g st v b) = ps_next st"
  "ps_fingerprint (moved_node g st v b) = ps_fingerprint st"
  "ps_internal (moved_node g st v b) = ps_internal st + (bt_or 0 b (incident_by_community g st v) - bt_or 0 (ps_membership st ! v) (incident_by_community g st v))"
  by (simp_all add: moved_node_def)

lemma move_node_moved:
  "move_node fl g st v b = (refresh_modularity fl (moved_node g st v b))\<lparr>ps_next := (if b = ps_next st then ps_next st + 1 else ps_next st)\<rparr>"
  by (simp add: move_node_def moved_node_def Let_def refresh_modularity_def)

lemma moved_tallies:
  fixes st :: "'w::linordered_field partition_state"
  assumes "state_ok st" "tallies st" "v < length (ps_membership st)" "gr_adj g ! v = ps_adj st ! v"
  shows "tallies (moved_node g st v b)"
proof -
  let ?n = "length (ps_membership st)"
  let ?m = "ps_membership st" and ?m' = "(ps_membership st)[v := b]"
  let ?W = "weight_at (ps_adj st)"
  have mat: "matrix_ok ?n (ps_adj st)" and t: "squares_ok st" "\<forall>i<?n. ps_degrees st ! i = (\<Sum>j<?n. ?W i j)"
    "2 * ps_total st = (\<Sum>i<?n. \<Sum>j<?n. ?W i j)"
    "2 * ps_internal st = (\<Sum>i<?n. \<Sum>j<?n. if ?m ! i = ?m ! j then ?W i j else 0)"
    "\<forall>c. bt_or 0 c (ps_communities st) = (\<Sum>i<?n. if ?m ! i = c then ps_degrees st ! i else 0)"
    using assms(2) by (simp_all add: tallies_def Let_def)
  have bt: "bt_ok (ps_communities st)" using assms(1) by (simp add: state_ok_def)
  have "2 * ps_internal (moved_node g st v b) = (\<Sum>i<?n. \<Sum>j<?n. if ?m' ! i = ?m' ! j then ?W i j else 0)"
  proof -
    have "(\<Sum>i<?n. \<Sum>j<?n. if ?m' ! i = ?m' ! j then ?W i j else 0) = (\<Sum>i<?n. \<Sum>j<?n. if ?m ! i = ?m ! j then ?W i j else 0)
        + 2 * ((\<Sum>j<?n. if ?m ! j = ?m' ! v then ?W v j else 0) - (\<Sum>j<?n. if ?m ! j = ?m ! v then ?W v j else 0))"
      using mat assms(3) by (intro move_internal) (auto simp: matrix_ok_def)
    then show ?thesis
      using t(4) assms(3) by (simp add: moved_fields incident_weight [OF assms(1,3,4)] algebra_simps)
  qed
  moreover have "bt_or 0 c (ps_communities (moved_node g st v b)) = (\<Sum>i<?n. if ?m' ! i = c then ps_degrees st ! i else 0)" for c
  proof -
    have "(\<Sum>i<?n. if ?m' ! i = c then ps_degrees st ! i else 0)
        = (\<Sum>i<?n. (if ?m ! i = c then ps_degrees st ! i else 0)
             + (if i = v then (if b = c then ps_degrees st ! v else 0) - (if ?m ! v = c then ps_degrees st ! v else 0) else 0))"
      using assms(3) by (intro sum.cong) auto
    also have "\<dots> = bt_or 0 c (ps_communities st) + ((if b = c then ps_degrees st ! v else 0) - (if ?m ! v = c then ps_degrees st ! v else 0))"
      using t(5) assms(3) by (simp add: sum.distrib)
    finally show ?thesis by (auto simp: moved_node_def adjust_communities)
  qed
  moreover have "squares_ok (moved_node g st v b)"
    using t(1) bt by (simp add: moved_node_def squares_adjust adjust_communities(3))
  ultimately show ?thesis using mat t(2,3) by (simp add: tallies_def Let_def moved_fields cong: if_cong)
qed

lemma moved_state_ok:
  assumes "state_ok st" "v < length (ps_membership st)" "b \<in> fst ` set (ps_communities st) \<or> b = ps_next st"
  shows "state_ok ((moved_node g st v b)\<lparr>ps_next := (if b = ps_next st then ps_next st + 1 else ps_next st)\<rparr>)"
proof -
  have c: "fst ` set (ps_communities (moved_node g st v b)) = insert b (fst ` set (ps_communities st))" "bt_ok (ps_communities (moved_node g st v b))"
    using assms(1) nth_mem [OF assms(2)] by (auto simp: moved_node_def adjust_communities state_ok_def)
  have m: "set ((ps_membership st)[v := b]) \<subseteq> insert b (set (ps_membership st))" by (rule set_update_subset_insert)
  show ?thesis using assms c m by (auto simp: state_ok_def moved_fields)
qed

lemma moved_modularity:
  fixes st :: "'w::linordered_field partition_state"
  assumes "0 < ps_total st" "b \<noteq> ps_membership st ! v"
    and "ps_modularity st = modularity_from_totals of_nat (ps_total st) (ps_internal st) (ps_squares st)"
  shows "ps_modularity (move_node of_nat g st v b) = ps_modularity st + move_delta of_nat g st v b"
proof -
  let ?t = "ps_total st" and ?k = "ps_degrees st ! v" and ?a = "bt_or 0 (ps_membership st ! v) (ps_communities st)"
  let ?b = "bt_or 0 b (ps_communities st)"
  have sq: "ps_squares (moved_node g st v b) = ps_squares st + (square (?b + ?k) - square ?b + square (?a - ?k) - square ?a)"
    using assms(2) by (simp add: moved_node_def adjust_community_degree_def Let_def bt_or_insert algebra_simps)
  show ?thesis using assms(1,3)
    by (simp add: move_node_moved refresh_modularity_def modularity_from_totals_def moved_fields sq move_delta_def
        modularity_move_delta_def Let_def add_divide_distrib diff_divide_distrib)
qed

end
