(* ===== verification/Community_Exact.thy ===== *)
theory Community_Exact
  imports Community_Tallies
begin

text \<open>
  What a full computation yields in exact arithmetic: the statistics of a fresh state are the sums
  they stand for, they determine each other, and its modularity is Newman's and Girvan's.
\<close>

definition sound :: "'w::linordered_field graph \<Rightarrow> bool" where
  "sound g \<longleftrightarrow> projected g \<and> (\<forall>e \<in> set (gr_edges g). 0 < pe_weight e)"

lemma pair_matrix_sym: "pair_matrix s d w i j = pair_matrix s d w j i"
  unfolding pair_matrix_def conj_commute [of "j = s"] conj_commute [of "j = d"] by (rule add.commute)

lemma edge_matrix_sym: "edge_matrix es i j = edge_matrix es j i"
  unfolding edge_matrix_def by (simp only: pair_matrix_sym [of _ _ _ i j])

lemma edge_matrix_self: "edges_ok n es \<Longrightarrow> edge_matrix es i i = 0"
  unfolding edge_matrix_def by (rule sum_list_zero) (auto simp: pair_matrix_def edges_ok_def list_all_iff)

lemma sound_positive:
  assumes "sound g" "i < length (gr_ids g)" "(j, w) \<in> set (gr_adj g ! i)"
  shows "0 < w"
proof -
  have "g = graph_of (gr_ids g) (gr_edges g)" and e: "edges_ok (length (gr_ids g)) (gr_edges g)"
    using assms(1) by (simp_all add: sound_def projected_def)
  then have "(j, w) \<in> set (incident i (gr_edges g))" using graph_of_adj(1) [OF e assms(2)] assms(3) by metis
  then show ?thesis using assms(1) by (auto simp: set_incident sound_def)
qed

lemma sound_matrix:
  assumes "sound g"
  shows "matrix_ok (length (gr_ids g)) (gr_adj g)"
proof -
  have p: "projected g" "edges_ok (length (gr_ids g)) (gr_edges g)" using assms by (simp_all add: sound_def projected_def)
  show ?thesis
    unfolding matrix_ok_def
    by (auto simp: projected_weight [OF p(1)] edge_matrix_self [OF p(2)] intro: edge_matrix_sym dest: sound_positive [OF assms])
qed

section \<open>A fresh state\<close>

lemma community_degree_fold:
  "bt_or 0 c (foldl (\<lambda>m i. bt_entry (f i) 0 (\<lambda>x. x + h i) m) m is) = bt_or 0 c m + (\<Sum>i\<leftarrow>is. if f i = c then h i else (0::'w::comm_monoid_add))"
  by (induction "is" arbitrary: m) (auto simp: bt_or_entry add.assoc)

lemma sum_entries:
  assumes "bt_ok m"
  shows "(\<Sum>(c, d)\<leftarrow>m. f c d) = (\<Sum>c \<in> fst ` set m. f c (bt_or 0 c m))"
proof -
  have "(\<Sum>(c, d)\<leftarrow>m. f c d) = (\<Sum>e \<in> set m. f (fst e) (snd e))"
    using bt_ok_distinct(1) [OF assms] by (subst sum_list_distinct_conv_sum_set) (auto simp: distinct_map split_def)
  also have "\<dots> = (\<Sum>e \<in> set m. f (fst e) (bt_or 0 (fst e) m))"
    by (rule sum.cong) (auto simp: bt_or_in [OF assms])
  also have "\<dots> = (\<Sum>c \<in> fst ` set m. f c (bt_or 0 c m))"
    using bt_ok_distinct(1) [OF assms] by (subst sum.reindex) (auto simp: distinct_map)
  finally show ?thesis .
qed

lemma foldl_entries: "foldl (\<lambda>q (c, d). q + f c d) (a::'w::comm_monoid_add) m = a + (\<Sum>(c, d)\<leftarrow>m. f c d)"
  by (induction m arbitrary: a) (auto simp: add.assoc)

lemma projected_gr_total: "projected g \<Longrightarrow> gr_total g = foldl (\<lambda>t e. t + pe_weight e) 0 (gr_edges g)"
  by (metis graph.select_convs(6) graph_of_def projected_def)

lemma fresh_state:
  fixes g :: "'w::linordered_field graph"
  assumes "sound g" "new_partition_state of_nat g mem = Inr st"
  shows "tallies st" "state_ok st" "ps_adj st = gr_adj g" "ps_membership st = mem" "ps_fingerprint st = gr_fingerprint g"
    "ps_total st = gr_total g" "ps_modularity st = modularity_from_totals of_nat (ps_total st) (ps_internal st) (ps_squares st)"
    "length mem = length (gr_ids g)" "fst ` set (ps_communities st) = set mem"
proof -
  let ?n = "length (gr_ids g)"
  have p: "projected g" using assms(1) by (simp add: sound_def)
  note ok = new_partition_state_ok [OF projected_ok [OF p] assms(2)]
  show "state_ok st" "ps_adj st = gr_adj g" "ps_membership st = mem" "ps_fingerprint st = gr_fingerprint g" by (fact ok)+
  have f: "length mem = ?n" "ps_degrees st = gr_degrees g" "ps_total st = gr_total g"
    "ps_communities st = foldl (\<lambda>m i. bt_entry (mem ! i) 0 (\<lambda>x. x + gr_degrees g ! i) m) [] [0..<length mem]"
    "ps_squares st = foldl (\<lambda>q (c, d). q + square d) 0 (ps_communities st)"
    "ps_internal st = foldl (\<lambda>q e. q + pe_weight e) 0 (filter (\<lambda>e. mem ! pe_src e = mem ! pe_dst e) (gr_edges g))"
    "ps_modularity st = modularity_from_totals of_nat (ps_total st) (ps_internal st) (ps_squares st)"
    using assms(2) by (auto simp: new_partition_state_def Let_def split: if_splits)
  show "ps_total st = gr_total g" "ps_modularity st = modularity_from_totals of_nat (ps_total st) (ps_internal st) (ps_squares st)"
    "length mem = ?n" by (fact f)+
  have bt: "bt_ok (ps_communities st)" using ok(1) by (simp add: state_ok_def)
  show "fst ` set (ps_communities st) = set mem"
    unfolding f(4) using community_fold [of "[]" "\<lambda>i. mem ! i" "\<lambda>i x. x + gr_degrees g ! i" "[0..<length mem]"] nth_image [of "length mem" mem]
    by simp
  have "squares_ok st"
    unfolding squares_ok_def f(5) foldl_entries using sum_entries [OF bt, of "\<lambda>_. square"] by simp
  moreover have "\<forall>i<?n. ps_degrees st ! i = (\<Sum>j<?n. weight_at (gr_adj g) i j)"
    using projected_degree [OF p] by (simp add: f(2))
  moreover have "2 * ps_total st = (\<Sum>i<?n. \<Sum>j<?n. weight_at (gr_adj g) i j)"
    using projected_total [OF p, of "\<lambda>_ _. True"] by (simp add: f(3) projected_gr_total [OF p])
  moreover have "2 * ps_internal st = (\<Sum>i<?n. \<Sum>j<?n. if mem ! i = mem ! j then weight_at (gr_adj g) i j else 0)"
    unfolding f(6) by (rule projected_total [OF p]) auto
  moreover have "bt_or 0 c (ps_communities st) = (\<Sum>i<?n. if mem ! i = c then ps_degrees st ! i else 0)" for c
    unfolding f(4) community_degree_fold by (simp add: f(1,2) interv_sum_list_conv_sum_set_nat atLeast0LessThan cong: if_cong)
  ultimately show "tallies st"
    using sound_matrix [OF assms(1)] by (simp add: tallies_def Let_def ok f(1))
qed

section \<open>Agreement\<close>

text \<open>
  Two states agree when they differ at most in entries of empty communities and in the next label:
  an update leaves an emptied community behind with the degree zero.
\<close>

definition agrees :: "'w::zero partition_state \<Rightarrow> 'w partition_state \<Rightarrow> bool" where
  "agrees s st \<longleftrightarrow> ps_membership st = ps_membership s \<and> ps_modularity st = ps_modularity s \<and> ps_fingerprint st = ps_fingerprint s
     \<and> ps_adj st = ps_adj s \<and> ps_degrees st = ps_degrees s \<and> ps_internal st = ps_internal s \<and> ps_squares st = ps_squares s
     \<and> ps_total st = ps_total s \<and> (\<forall>c. bt_or 0 c (ps_communities st) = bt_or 0 c (ps_communities s))"

definition exact :: "'w::linordered_field graph \<Rightarrow> 'w partition_state \<Rightarrow> bool" where
  "exact g st \<longleftrightarrow> state_ok st \<and> (\<exists>s. new_partition_state of_nat g (ps_membership st) = Inr s \<and> agrees s st)"

lemma squares_support:
  assumes "squares_ok s" "squares_ok st" "\<And>c. bt_or 0 c (ps_communities st) = bt_or 0 c (ps_communities s)"
  shows "ps_squares st = (ps_squares s :: 'w::linordered_field)"
proof -
  let ?S = "fst ` set (ps_communities s)" and ?T = "fst ` set (ps_communities st)"
  have zero: "c \<notin> ?S \<Longrightarrow> bt_or 0 c (ps_communities s) = 0" "c \<notin> ?T \<Longrightarrow> bt_or 0 c (ps_communities s) = 0" for c
    using assms(3) [of c] by (metis bt_or_out)+
  have "(\<Sum>c \<in> ?S. square (bt_or 0 c (ps_communities s))) = (\<Sum>c \<in> ?S \<union> ?T. square (bt_or 0 c (ps_communities s)))"
    by (rule sum.mono_neutral_left) (auto simp: square_def zero)
  also have "\<dots> = (\<Sum>c \<in> ?T. square (bt_or 0 c (ps_communities s)))"
    by (rule sum.mono_neutral_right) (auto simp: square_def zero)
  finally show ?thesis using assms by (simp add: squares_ok_def)
qed

lemma tallies_exact:
  fixes g :: "'w::linordered_field graph"
  assumes "sound g" "state_ok st" "tallies st" "ps_adj st = gr_adj g" "ps_fingerprint st = gr_fingerprint g"
    and "ps_modularity st = modularity_from_totals of_nat (ps_total st) (ps_internal st) (ps_squares st)"
    and "length (ps_membership st) = length (gr_ids g)"
  shows "exact g st"
proof -
  obtain s where s: "new_partition_state of_nat g (ps_membership st) = Inr s"
    using assms(7) by (simp add: new_partition_state_def Let_def)
  note f = fresh_state [OF assms(1) s]
  have t: "\<forall>i<length (ps_membership st). ps_degrees st ! i = ps_degrees s ! i" "2 * ps_total st = 2 * ps_total s" "2 * ps_internal st = 2 * ps_internal s"
    using assms(3) f(1) by (simp_all add: tallies_def Let_def f(3,4) assms(4))
  have d: "ps_degrees st = ps_degrees s"
    using t(1) assms(2) f(2) by (intro nth_equalityI) (simp_all add: state_ok_def f(4))
  have c: "bt_or 0 c (ps_communities st) = bt_or 0 c (ps_communities s)" for c
    using assms(3) f(1) by (simp add: tallies_def Let_def f(4) d cong: if_cong)
  have q: "ps_squares st = ps_squares s"
    using assms(3) f(1) by (intro squares_support c) (simp_all add: tallies_def Let_def)
  have "agrees s st" using t d c q assms(4,5,6) f by (simp add: agrees_def)
  with s assms(2) show ?thesis by (auto simp: exact_def)
qed

lemma exact_tallies:
  fixes g :: "'w::linordered_field graph"
  assumes "sound g" "exact g st"
  shows "tallies st" "state_ok st" "ps_adj st = gr_adj g" "ps_fingerprint st = gr_fingerprint g"
    "ps_modularity st = modularity_from_totals of_nat (ps_total st) (ps_internal st) (ps_squares st)"
    "length (ps_membership st) = length (gr_ids g)"
proof -
  obtain s where s: "new_partition_state of_nat g (ps_membership st) = Inr s" and a: "agrees s st" using assms(2) by (auto simp: exact_def)
  note f = fresh_state [OF assms(1) s]
  show ok: "state_ok st" using assms(2) by (simp add: exact_def)
  show "ps_adj st = gr_adj g" "ps_fingerprint st = gr_fingerprint g" "length (ps_membership st) = length (gr_ids g)"
    "ps_modularity st = modularity_from_totals of_nat (ps_total st) (ps_internal st) (ps_squares st)"
    using a f by (simp_all add: agrees_def)
  have "squares_ok st"
  proof -
    have eq: "bt_or 0 c (ps_communities st) = bt_or 0 c (ps_communities s)" for c using a by (simp add: agrees_def)
    let ?st = "st\<lparr>ps_squares := (\<Sum>c \<in> fst ` set (ps_communities st). square (bt_or 0 c (ps_communities st)))\<rparr>"
    have "ps_squares ?st = ps_squares s"
      using f(1) eq by (intro squares_support) (simp_all add: tallies_def Let_def squares_ok_def)
    then show ?thesis using a by (simp add: squares_ok_def agrees_def)
  qed
  then show "tallies st" using f(1,4) a by (simp add: tallies_def Let_def agrees_def cong: if_cong)
qed

section \<open>Modularity\<close>

lemma degree_map:
  "bt_or 0 c (foldl (add_degree mem) m es) = bt_or 0 c m
     + (\<Sum>e\<leftarrow>es. (if mem ! pe_src e = c then pe_weight e else 0) + (if mem ! pe_dst e = c then pe_weight e else (0::'w::comm_monoid_add)))"
  by (induction es arbitrary: m) (auto simp: add_degree_def bt_or_entry add_ac)

lemma degree_map_keys:
  "fst ` set (foldl (add_degree mem) m es) = fst ` set m \<union> (\<lambda>e. mem ! pe_src e) ` set es \<union> (\<lambda>e. mem ! pe_dst e) ` set es"
  by (induction es arbitrary: m) (auto simp: add_degree_def)

lemma degree_map_ok: "bt_ok m \<Longrightarrow> bt_ok (foldl (add_degree mem) m es)"
  by (induction es arbitrary: m) (auto simp: add_degree_def bt_ok_entry)

lemma internal_map:
  "bt_or 0 c (foldl (add_internal mem) m es) = bt_or 0 c m
     + (\<Sum>e\<leftarrow>filter (\<lambda>e. mem ! pe_src e = mem ! pe_dst e) es. if mem ! pe_src e = c then pe_weight e else (0::'w::comm_monoid_add))"
  by (induction es arbitrary: m) (auto simp: add_internal_def bt_or_entry add_ac)

lemma sum_over_labels:
  assumes "finite K" "\<And>e. e \<in> set es \<Longrightarrow> f e \<in> K"
  shows "(\<Sum>c \<in> K. \<Sum>e\<leftarrow>es. if f e = c then h e else 0) = (\<Sum>e\<leftarrow>es. h e :: 'w::comm_monoid_add)"
  using assms by (induction es) (auto simp: sum.distrib)

lemma degree_by_edges:
  assumes "edges_ok n es"
  shows "(\<Sum>i<n. if mem ! i = c then \<Sum>e\<leftarrow>es. (if i = pe_src e then pe_weight e else 0) + (if i = pe_dst e then pe_weight e else 0) else 0)
    = (\<Sum>e\<leftarrow>es. (if mem ! pe_src e = c then pe_weight e else 0) + (if mem ! pe_dst e = c then pe_weight e else (0::'w::comm_monoid_add)))"
  using assms
proof (induction es)
  case (Cons e es)
  then have e: "pe_src e < n" "pe_dst e < n" "edges_ok n es" by (auto simp: edges_ok_def)
  have "(if mem ! i = c then \<Sum>x\<leftarrow>e # es. (if i = pe_src x then pe_weight x else 0) + (if i = pe_dst x then pe_weight x else 0) else 0)
      = ((if i = pe_src e then if mem ! pe_src e = c then pe_weight e else 0 else 0) + (if i = pe_dst e then if mem ! pe_dst e = c then pe_weight e else 0 else 0))
        + (if mem ! i = c then \<Sum>x\<leftarrow>es. (if i = pe_src x then pe_weight x else 0) + (if i = pe_dst x then pe_weight x else 0) else 0)" for i
    by auto
  then show ?case using Cons.IH e by (simp add: sum.distrib)
qed (simp cong: if_cong)

text \<open>The modularity a fresh state keeps is the one the definition sums up.\<close>

lemma fresh_modularity:
  fixes g :: "'w::linordered_field graph"
  assumes "sound g" "new_partition_state of_nat g mem = Inr st"
  shows "modularity of_nat g mem = Some (ps_modularity st)"
proof -
  note f = fresh_state [OF assms]
  have p: "projected g" "edges_ok (length (gr_ids g)) (gr_edges g)" using assms(1) by (simp_all add: sound_def projected_def)
  let ?t = "gr_total g" and ?D = "foldl (add_degree mem) [] (gr_edges g)" and ?I = "foldl (add_internal mem) [] (gr_edges g)"
  let ?K = "fst ` set ?D"
  have ok: "bt_ok ?D" by (rule degree_map_ok) simp
  have deg: "bt_or 0 c ?D = bt_or 0 c (ps_communities st)" for c
  proof -
    have "bt_or 0 c (ps_communities st) = (\<Sum>i<length (gr_ids g). if mem ! i = c
        then \<Sum>e\<leftarrow>gr_edges g. (if i = pe_src e then pe_weight e else 0) + (if i = pe_dst e then pe_weight e else 0) else 0)"
      using f(1) by (simp add: tallies_def Let_def f(3,4,8) projected_weight [OF p(1)] edge_matrix_row [OF p(2), symmetric] cong: if_cong)
    then show ?thesis using degree_by_edges [OF p(2), of mem c] degree_map [where mem = mem and m = "[]" and es = "gr_edges g" and c = c] by simp
  qed
  have internal: "(\<Sum>c \<in> ?K. bt_or 0 c ?I) = ps_internal st"
  proof -
    have "(\<Sum>c \<in> ?K. bt_or 0 c ?I) = (\<Sum>e\<leftarrow>filter (\<lambda>e. mem ! pe_src e = mem ! pe_dst e) (gr_edges g). pe_weight e)"
      by (simp add: internal_map) (rule sum_over_labels, auto simp: degree_map_keys)
    moreover have "ps_internal st = foldl (\<lambda>q e. q + pe_weight e) 0 (filter (\<lambda>e. mem ! pe_src e = mem ! pe_dst e) (gr_edges g))"
      using assms(2) by (auto simp: new_partition_state_def Let_def split: if_splits)
    ultimately show ?thesis by (simp add: foldl_sum)
  qed
  have squares: "(\<Sum>c \<in> ?K. square (bt_or 0 c ?D)) = ps_squares st"
  proof -
    have zero: "c \<notin> ?K \<Longrightarrow> bt_or 0 c ?D = 0" for c by (rule bt_or_out)
    have "?K \<subseteq> fst ` set (ps_communities st)"
      using p(2) f(8,9) by (auto simp: degree_map_keys edges_ok_def list_all_iff)
    then have "(\<Sum>c \<in> ?K. square (bt_or 0 c ?D)) = (\<Sum>c \<in> fst ` set (ps_communities st). square (bt_or 0 c ?D))"
      by (intro sum.mono_neutral_left) (auto simp: square_def zero)
    then show ?thesis using f(1) by (simp add: deg tallies_def Let_def squares_ok_def)
  qed
  show ?thesis
  proof (cases "?t \<le> 0")
    case True
    then show ?thesis using f(6,7,8) by (simp add: modularity_def modularity_from_totals_def)
  next
    case False
    have "(\<Sum>(c, d)\<leftarrow>?D. bt_or 0 c ?I / ?t - square (d / (of_nat 2 * ?t)))
        = (\<Sum>c \<in> ?K. bt_or 0 c ?I / ?t - square (bt_or 0 c ?D / (of_nat 2 * ?t)))"
      by (rule sum_entries [OF ok])
    also have "\<dots> = (\<Sum>c \<in> ?K. bt_or 0 c ?I) / ?t - (\<Sum>c \<in> ?K. square (bt_or 0 c ?D)) / (of_nat 4 * square ?t)"
      by (simp add: sum_subtractf sum_divide_distrib square_def)
    finally show ?thesis
      using False f(6,7,8) by (simp add: modularity_def modularity_from_totals_def foldl_entries Let_def internal squares)
  qed
qed

lemma exact_modularity:
  fixes g :: "'w::linordered_field graph"
  assumes "sound g" "exact g st"
  shows "modularity of_nat g (ps_membership st) = Some (ps_modularity st)"
  using assms fresh_modularity by (auto simp: exact_def agrees_def)

end
