(* ===== verification/Community_Update.thy ===== *)
theory Community_Update
  imports Community_Exact
begin

text \<open>
  An incremental update against the full computation, in exact arithmetic: its statistics are those of
  the new graph, it never lowers the modularity of the carried partition, and it never leaves a
  community disconnected.
\<close>

section \<open>The deltas\<close>

text \<open>The dirty nodes cover what changed between two graphs over the same nodes.\<close>

definition dirty_covers :: "nat list \<Rightarrow> 'w::zero graph \<Rightarrow> 'w graph \<Rightarrow> bool" where
  "dirty_covers dirty g0 g \<longleftrightarrow> (\<forall>i < length (gr_ids g). \<forall>j < length (gr_ids g). i \<notin> set dirty \<longrightarrow> j \<notin> set dirty
     \<longrightarrow> weight_at (gr_adj g0) i j = weight_at (gr_adj g) i j)"

definition lost :: "'w::linordered_field graph \<Rightarrow> 'w partition_state \<Rightarrow> nat \<times> nat \<Rightarrow> bool" where
  "lost g st p \<longleftrightarrow> 0 < weight_at (ps_adj st) (fst p) (snd p) \<and> weight_at (gr_adj g) (fst p) (snd p) = 0
     \<and> ps_membership st ! fst p = ps_membership st ! snd p"

lemma apply_pair_touched:
  fixes st :: "'w::linordered_field partition_state"
  shows "snd (apply_pair g (st, touched) (s, d)) = (if lost g st (s, d) then bs_insert (ps_membership st ! s) touched else touched)"
  by (auto simp: apply_pair_def lost_def Let_def)

text \<open>Where a pair has its new weight.\<close>

lemma apply_pair_exact:
  fixes st :: "'w::linordered_field partition_state" and touched :: "nat list"
  assumes "state_ok st" "tallies st" "length (ps_membership st) = n" "s < d" "d < n" "matrix_ok n (gr_adj g)"
  defines "st' \<equiv> fst (apply_pair g (st, touched) (s, d))"
  shows "state_ok st'" "tallies st'" "ps_membership st' = ps_membership st" "ps_fingerprint st' = ps_fingerprint st"
    "i < n \<Longrightarrow> j < n \<Longrightarrow> weight_at (ps_adj st') i j = (if ordered_pair i j = (s, d) then weight_at (gr_adj g) i j else weight_at (ps_adj st) i j)"
proof -
  let ?new = "weight_at (gr_adj g) s d" and ?old = "weight_at (ps_adj st) s d"
  have st': "st' = (if ?new = ?old then st else paired s d ?new (?new - ?old) st)"
    using assms(4) by (simp add: st'_def apply_pair_paired)
  show "state_ok st'" "tallies st'" "ps_membership st' = ps_membership st" "ps_fingerprint st' = ps_fingerprint st"
    using assms(1-6) by (auto simp: st' paired_fields intro!: paired_state_ok paired_tallies)
  show "weight_at (ps_adj st') i j = (if ordered_pair i j = (s, d) then weight_at (gr_adj g) i j else weight_at (ps_adj st) i j)"
    if "i < n" "j < n"
  proof -
    have sym: "weight_at (gr_adj g) d s = ?new" "weight_at (ps_adj st) d s = ?old"
      using assms(2-6) by (auto simp: matrix_ok_def tallies_def Let_def)
    have pair: "ordered_pair i j = (s, d) \<longleftrightarrow> i = s \<and> j = d \<or> i = d \<and> j = s"
      using assms(4) by (auto simp: ordered_pair_def)
    have len: "s < length (ps_adj st)" "d < length (ps_adj st)" using assms(1,3,4,5) by (simp_all add: state_ok_def)
    show ?thesis
      unfolding pair st' using paired_weight [OF len, where w = ?new and delta = "?new - ?old" and i = i and j = j] assms(4) sym by auto
  qed
qed

lemma pairs_exact:
  fixes st :: "'w::linordered_field partition_state"
  assumes "state_ok st" "tallies st" "length (ps_membership st) = n" "\<forall>(s, d) \<in> set pairs. s < d \<and> d < n" "distinct pairs"
    and "matrix_ok n (gr_adj g)"
  shows "case foldl (apply_pair g) (st, touched) pairs of (st', touched') \<Rightarrow>
      state_ok st' \<and> tallies st' \<and> ps_membership st' = ps_membership st \<and> ps_fingerprint st' = ps_fingerprint st
      \<and> (\<forall>i<n. \<forall>j<n. weight_at (ps_adj st') i j
           = (if ordered_pair i j \<in> set pairs then weight_at (gr_adj g) i j else weight_at (ps_adj st) i j))
      \<and> set touched \<subseteq> set touched' \<and> (\<forall>p \<in> set pairs. lost g st p \<longrightarrow> ps_membership st ! fst p \<in> set touched')"
  using assms(1-5)
proof (induction pairs arbitrary: st touched)
  case (Cons p pairs)
  obtain s d where p: "p = (s, d)" by (cases p)
  have sd: "s < d" "d < n" using Cons.prems(4) by (auto simp: p)
  obtain st1 touched1 where s: "apply_pair g (st, touched) (s, d) = (st1, touched1)" by fastforce
  have step: "state_ok st1" "tallies st1" "ps_membership st1 = ps_membership st" "ps_fingerprint st1 = ps_fingerprint st"
    "i < n \<Longrightarrow> j < n \<Longrightarrow> weight_at (ps_adj st1) i j = (if ordered_pair i j = (s, d) then weight_at (gr_adj g) i j else weight_at (ps_adj st) i j)" for i j
    using apply_pair_exact [where touched = touched, OF Cons.prems(1-3) sd assms(6)] s by simp_all
  have touched1: "touched1 = (if lost g st (s, d) then bs_insert (ps_membership st ! s) touched else touched)"
    using apply_pair_touched [of g st touched s d] s by simp
  have len1: "length (ps_membership st1) = n" using step(3) Cons.prems(3) by simp
  have rest: "\<forall>(s, d) \<in> set pairs. s < d \<and> d < n" "distinct pairs" using Cons.prems(4,5) by simp_all
  have keep: "lost g st1 q \<longleftrightarrow> lost g st q" if "q \<in> set pairs" for q
  proof -
    obtain a b where q: "q = (a, b)" by (cases q)
    have "a < b" "b < n" "q \<noteq> p" using that Cons.prems(4,5) by (auto simp: q)
    then show ?thesis by (auto simp: lost_def q p step ordered_pair_def)
  qed
  obtain st2 touched2 where f: "foldl (apply_pair g) (st1, touched1) pairs = (st2, touched2)" by fastforce
  note ih = Cons.IH [where touched = touched1, OF step(1,2) len1 rest, unfolded f prod.case]
  have "\<forall>q \<in> set (p # pairs). lost g st q \<longrightarrow> ps_membership st ! fst q \<in> set touched2"
    using ih keep step(3) touched1 by (auto simp: p)
  moreover have "set touched \<subseteq> set touched2" using ih touched1 by (auto split: if_splits)
  ultimately show ?case using ih step(3,4,5) by (auto simp: p s f)
qed simp

lemma refresh_fields [simp]:
  "ps_membership (refresh_modularity fl st) = ps_membership st" "ps_adj (refresh_modularity fl st) = ps_adj st"
  "ps_degrees (refresh_modularity fl st) = ps_degrees st" "ps_total (refresh_modularity fl st) = ps_total st"
  "ps_internal (refresh_modularity fl st) = ps_internal st" "ps_squares (refresh_modularity fl st) = ps_squares st"
  "ps_communities (refresh_modularity fl st) = ps_communities st" "ps_next (refresh_modularity fl st) = ps_next st"
  "ps_fingerprint (refresh_modularity fl st) = ps_fingerprint st"
  "ps_modularity (refresh_modularity fl st) = modularity_from_totals fl (ps_total st) (ps_internal st) (ps_squares st)"
  "squares_ok (refresh_modularity fl st) = squares_ok st"
  by (simp_all add: refresh_modularity_def)

lemma refresh_ok [simp]:
  "state_ok (refresh_modularity fl st) = state_ok st" "tallies (refresh_modularity fl st) = tallies st"
  by (simp_all add: state_ok_def tallies_def cong: if_cong)

lemma next_ok [simp]:
  "tallies (st\<lparr>ps_next := k\<rparr>) = tallies st" "state_ok (refresh_modularity fl st\<lparr>ps_next := k\<rparr>) = state_ok (st\<lparr>ps_next := k\<rparr>)"
  by (simp_all add: state_ok_def tallies_def cong: if_cong)

lemma same_lists:
  assumes "bt_ok a" "bt_ok b" "\<forall>e \<in> set a. snd e \<noteq> 0" "\<forall>e \<in> set b. snd e \<noteq> 0" "\<And>j. bt_or 0 j a = bt_or 0 j b"
  shows "a = b"
proof (rule bt_canonical [OF assms(1,2)], rule ext)
  fix j
  have "map_of m j = (if bt_or 0 j m = 0 then None else Some (bt_or 0 j m))" if "\<forall>e \<in> set m. snd e \<noteq> 0" for m :: "('a, 'b) btree"
    using that by (force simp: bt_or_def split: option.splits dest: map_of_SomeD)
  then show "map_of a j = map_of b j" using assms(3-5) by simp
qed

lemma changed_pairs_range:
  assumes "graph_ok g0" "graph_ok g" "ps_adj st = gr_adj g0" "length (gr_adj g0) = n" "length (gr_adj g) = n" "\<forall>i \<in> set dirty. i < n"
  shows "\<forall>(s, d) \<in> set (changed_pairs g st dirty). s < d \<and> d < n"
    and "i \<in> set dirty \<Longrightarrow> weight_at (ps_adj st) i j \<noteq> weight_at (gr_adj g) i j \<Longrightarrow> ordered_pair i j \<in> set (changed_pairs g st dirty)"
proof -
  show "\<forall>(s, d) \<in> set (changed_pairs g st dirty). s < d \<and> d < n"
  proof clarify
    fix s d assume "(s, d) \<in> set (changed_pairs g st dirty)"
    then have "\<exists>i \<in> set dirty. \<exists>e \<in> set (gr_adj g0 ! i) \<union> set (gr_adj g ! i). (s, d) = ordered_pair i (fst e)"
      using assms(3) by (auto simp: changed_pairs_def)
    then obtain i e where e: "i \<in> set dirty" "e \<in> set (gr_adj g0 ! i) \<union> set (gr_adj g ! i)" "(s, d) = ordered_pair i (fst e)" by blast
    obtain j w where "e = (j, w)" by (cases e)
    with e have i: "i \<in> set dirty" "(j, w) \<in> set (gr_adj g0 ! i) \<or> (j, w) \<in> set (gr_adj g ! i)" "(s, d) = ordered_pair i j" by auto
    then have "j < n" "j \<noteq> i" "i < n"
      using assms(4-6) graph_okD(1,2) [OF assms(1), of i j w] graph_okD(1,2) [OF assms(2), of i j w] by auto
    then show "s < d \<and> d < n" using i(3) by (auto simp: ordered_pair_def split: if_splits)
  qed
  show "ordered_pair i j \<in> set (changed_pairs g st dirty)"
    if "i \<in> set dirty" "weight_at (ps_adj st) i j \<noteq> weight_at (gr_adj g) i j"
  proof -
    have "j \<in> fst ` set (ps_adj st ! i) \<or> j \<in> fst ` set (gr_adj g ! i)" using that(2) by (metis bt_or_out)
    then show ?thesis using that(1) by (auto simp: changed_pairs_def)
  qed
qed

lemma changed_pairs_distinct: "distinct (changed_pairs g st dirty)" by (simp add: changed_pairs_def)

lemma unbroken_mono:
  assumes "unbroken g0 mem c" "length mem' = length mem" "\<And>i. i < length mem \<Longrightarrow> mem' ! i = c \<longleftrightarrow> mem ! i = c"
    and "\<And>i j. linked_nodes g0 mem c i j \<Longrightarrow> linked_nodes g mem' c i j"
  shows "unbroken g mem' c"
proof -
  have "(linked_nodes g mem' c)\<^sup>*\<^sup>* i j" if "(linked_nodes g0 mem c)\<^sup>*\<^sup>* i j" for i j
    using that by (induction rule: rtranclp_induct) (auto intro: rtranclp.rtrancl_into_rtrancl assms(4))
  with assms(1-3) show ?thesis by (simp add: unbroken_def)
qed

lemma deltas_exact:
  fixes g :: "'w::linordered_field graph"
  assumes "sound g0" "sound g" "exact g0 st" "\<forall>i \<in> set dirty. i < length (gr_ids g)" "dirty_covers dirty g0 g"
    and "length (ps_membership st) = length (gr_ids g)" "ps_fingerprint st = gr_fingerprint g"
    and "apply_projection_deltas of_nat g st dirty = (st', touched)"
  shows "exact g st'" "ps_membership st' = ps_membership st"
    "\<forall>c. c \<notin> set touched \<longrightarrow> unbroken g0 (ps_membership st) c \<longrightarrow> unbroken g (ps_membership st) c"
proof -
  let ?n = "length (gr_ids g)"
  note ex = exact_tallies [OF assms(1,3)]
  have ok: "graph_ok g0" "graph_ok g" using assms(1,2) by (simp_all add: sound_def projected_ok)
  have len: "length (gr_adj g0) = ?n" "length (gr_adj g) = ?n" using ok ex(6) assms(6) by (simp_all add: graph_ok_def)
  have mat: "matrix_ok ?n (gr_adj g)" "matrix_ok ?n (gr_adj g0)"
    using sound_matrix [OF assms(2)] sound_matrix [OF assms(1)] ex(6) assms(6) by simp_all
  note range = changed_pairs_range [OF ok ex(3) len assms(4)]
  obtain st1 where f: "foldl (apply_pair g) (st, []) (changed_pairs g st dirty) = (st1, touched)" and st': "st' = refresh_modularity of_nat st1"
    using assms(8) by (auto simp: apply_projection_deltas_def split: prod.splits)
  note p = pairs_exact [where touched = "[]" and pairs = "changed_pairs g st dirty", OF ex(2,1) assms(6) range(1) changed_pairs_distinct mat(1), unfolded f prod.case]
  have unchanged: "weight_at (ps_adj st) i j = weight_at (gr_adj g) i j \<or> ordered_pair i j \<in> set (changed_pairs g st dirty)"
    if "i < ?n" "j < ?n" for i j
  proof (cases "i \<in> set dirty \<or> j \<in> set dirty")
    case True
    have "weight_at (ps_adj st) i j = weight_at (ps_adj st) j i" "weight_at (gr_adj g) i j = weight_at (gr_adj g) j i"
      using mat that ex(3) by (simp_all add: matrix_ok_def)
    moreover have "i \<noteq> j \<Longrightarrow> ordered_pair i j = ordered_pair j i" by (auto simp: ordered_pair_def)
    moreover have "weight_at (ps_adj st) i i = weight_at (gr_adj g) i i" using mat that ex(3) by (simp add: matrix_ok_def)
    ultimately show ?thesis using True range(2) [of i j] range(2) [of j i] by (cases "i = j") auto
  next
    case False
    then show ?thesis using assms(5) that ex(3) by (simp add: dirty_covers_def)
  qed
  have W: "weight_at (ps_adj st1) i j = weight_at (gr_adj g) i j" if "i < ?n" "j < ?n" for i j
    using p unchanged that by (metis)
  have n1: "length (ps_membership st1) = ?n" "length (ps_adj st1) = ?n" using p assms(6) by (simp_all add: state_ok_def)
  have adj: "ps_adj st1 = gr_adj g"
  proof (rule nth_equalityI)
    fix i assume "i < length (ps_adj st1)"
    then have i: "i < ?n" by (simp add: n1)
    have a: "bt_ok (ps_adj st1 ! i)" "\<forall>k \<in> fst ` set (ps_adj st1 ! i). k < ?n" "\<forall>e \<in> set (ps_adj st1 ! i). snd e \<noteq> 0"
      using p i n1 by (auto simp: state_ok_def list_all_length tallies_def Let_def matrix_ok_def)
    have b: "bt_ok (gr_adj g ! i)" "\<forall>k \<in> fst ` set (gr_adj g ! i). k < ?n" "\<forall>e \<in> set (gr_adj g ! i). snd e \<noteq> 0"
      using ok(2) i mat(1) graph_okD(1) [OF ok(2), of i] len by (auto simp: graph_ok_def list_all_length matrix_ok_def)
    show "ps_adj st1 ! i = gr_adj g ! i"
    proof (rule same_lists [OF a(1) b(1) a(3) b(3)])
      show "bt_or 0 j (ps_adj st1 ! i) = bt_or 0 j (gr_adj g ! i)" for j
        using W [OF i, of j] a(2) b(2) bt_or_out [of j "ps_adj st1 ! i" 0] bt_or_out [of j "gr_adj g ! i" 0] by (cases "j < ?n") force+
    qed
  qed (simp add: n1 len)
  show "exact g st'"
  proof (rule tallies_exact [OF assms(2)])
    show "state_ok st'" "tallies st'" using p by (simp_all add: st')
  qed (use p adj assms(7) n1 in \<open>simp_all add: st'\<close>)
  show "ps_membership st' = ps_membership st" using p by (simp add: st')
  show "\<forall>c. c \<notin> set touched \<longrightarrow> unbroken g0 (ps_membership st) c \<longrightarrow> unbroken g (ps_membership st) c"
  proof (intro allI impI)
    fix c assume c: "c \<notin> set touched" "unbroken g0 (ps_membership st) c"
    have "linked_nodes g (ps_membership st) c i j" if l: "linked_nodes g0 (ps_membership st) c i j" for i j
    proof -
      obtain w where w: "(j, w) \<in> set (gr_adj g0 ! i)" "i < ?n" "j < ?n" "ps_membership st ! i = c" "ps_membership st ! j = c" "j \<noteq> i"
        using l len graph_okD(1,2) [OF ok(1)] by (fastforce simp: linked_nodes_def)
      have "0 < w" using sound_positive [OF assms(1)] w(1,2) ex(6) assms(6) by metis
      moreover have "weight_at (ps_adj st) i j = w"
        using w(1,2) ok(1) ex(3,6) assms(6) by (auto simp: graph_ok_def list_all_length intro!: bt_or_in)
      ultimately have old: "0 < weight_at (ps_adj st) i j" by simp
      have "weight_at (gr_adj g) i j \<noteq> 0"
      proof
        assume z: "weight_at (gr_adj g) i j = 0"
        then have pair: "ordered_pair i j \<in> set (changed_pairs g st dirty)" using unchanged [OF w(2,3)] old by auto
        have "weight_at (ps_adj st) j i = weight_at (ps_adj st) i j" "weight_at (gr_adj g) j i = weight_at (gr_adj g) i j"
          using mat w(2,3) ex(3) by (simp_all add: matrix_ok_def)
        then have "lost g st (ordered_pair i j)" "ps_membership st ! fst (ordered_pair i j) = c"
          using old z w(4,5) by (auto simp: lost_def ordered_pair_def)
        with p pair c(1) show False by metis
      qed
      then have "j \<in> fst ` set (gr_adj g ! i)" by (metis bt_or_out)
      then show ?thesis using w len by (simp add: linked_nodes_def)
    qed
    then show "unbroken g (ps_membership st) c"
      by (intro unbroken_mono [OF c(2)]) auto
  qed
qed

section \<open>The passes\<close>

lemma candidate_in_range:
  assumes "state_ok st" "ps_adj st = gr_adj g" "graph_ok g" "node < length (ps_membership st)"
    and "candidate \<in> fst ` set (incident_by_community g st node)"
  shows "candidate \<in> fst ` set (ps_communities st) \<or> candidate = ps_next st"
proof -
  have "ps_membership st ! fst e \<in> set (ps_membership st)" if "e \<in> set (gr_adj g ! node)" for e
    using assms(1,2,4) that by (intro nth_mem) (auto simp: state_ok_def)
  then show ?thesis using assms(1,5) by (auto simp: candidates state_ok_def)
qed

lemma move_exact:
  fixes g :: "'w::linordered_field graph"
  assumes "sound g" "exact g st" "node < length (ps_membership st)" "0 < ps_total st"
    and "best_move of_nat eps g st node = Some (candidate, delta)"
  shows "exact g (move_node of_nat g st node candidate)" "ps_total (move_node of_nat g st node candidate) = ps_total st"
    "ps_modularity (move_node of_nat g st node candidate) = ps_modularity st + delta"
    "ps_membership (move_node of_nat g st node candidate) = (ps_membership st)[node := candidate]"
proof -
  note ex = exact_tallies [OF assms(1,2)]
  note best = best_move_candidate [OF assms(5)]
  have ok: "graph_ok g" using assms(1) by (simp add: sound_def projected_ok)
  note range = candidate_in_range [OF ex(2,3) ok assms(3) best(2)]
  note s = moved_state_ok [OF ex(2) assms(3) range]
  show "exact g (move_node of_nat g st node candidate)"
  proof (rule tallies_exact [OF assms(1)])
    show "state_ok (move_node of_nat g st node candidate)" using s by (simp add: move_node_moved)
    show "tallies (move_node of_nat g st node candidate)"
      using moved_tallies [OF ex(2,1) assms(3), of g candidate] ex(3) by (simp add: move_node_moved)
  qed (simp_all add: move_node_moved moved_fields ex)
  show "ps_total (move_node of_nat g st node candidate) = ps_total st"
    "ps_membership (move_node of_nat g st node candidate) = (ps_membership st)[node := candidate]"
    by (simp_all add: move_node_moved moved_fields)
  show "ps_modularity (move_node of_nat g st node candidate) = ps_modularity st + delta"
    using moved_modularity [OF assms(4) best(1) ex(5), of g] best(4) by simp
qed

text \<open>What the passes keep from the state they start in.\<close>

definition improved :: "'w::linordered_field graph \<Rightarrow> 'w partition_state \<Rightarrow> nat list \<Rightarrow> 'w partition_state \<Rightarrow> nat list \<Rightarrow> bool" where
  "improved g st touched st' touched' \<longleftrightarrow> exact g st' \<and> ps_total st' = ps_total st \<and> ps_modularity st \<le> ps_modularity st'
     \<and> length (ps_membership st') = length (ps_membership st) \<and> set touched \<subseteq> set touched'
     \<and> (\<forall>i < length (ps_membership st). \<forall>c. c \<notin> set touched' \<longrightarrow> (ps_membership st' ! i = c \<longleftrightarrow> ps_membership st ! i = c))"

lemma passes_improve:
  fixes g :: "'w::linordered_field graph"
  assumes "sound g" "exact g st" "0 < ps_total st" "0 \<le> eps" "set nodes \<subseteq> {..<length (ps_membership st)}"
    and "optimize_passes k of_nat eps g nodes (st, touched) = (st', touched')"
  shows "improved g st touched st' touched'"
proof -
  have "case optimize_passes k of_nat eps g nodes (st, touched) of (st', touched') \<Rightarrow> improved g st touched st' touched'"
  proof (rule passes_invariant [where P = "improved g st touched", OF _ _ assms(5)])
    show "improved g st touched (move_node of_nat g st1 node c) (bs_insert c (bs_insert (ps_membership st1 ! node) touched1))"
      if i: "improved g st touched st1 touched1" and node: "node \<in> {..<length (ps_membership st)}"
        and best: "best_move of_nat eps g st1 node = Some (c, d)" for st1 touched1 node c d
    proof -
      have s: "exact g st1" "node < length (ps_membership st1)" "0 < ps_total st1" using i node assms(3) by (simp_all add: improved_def)
      note m = move_exact [OF assms(1) s best]
      have "0 < d" using best_move_candidate(3) [OF best] assms(4) by simp
      moreover have "ps_membership st ! node \<in> set touched1 \<or> ps_membership st1 ! node = ps_membership st ! node"
        using i node by (auto simp: improved_def)
      ultimately show ?thesis using i m s(2) by (auto simp: improved_def nth_list_update)
    qed
  qed (use assms(2) in \<open>simp add: improved_def\<close>)
  then show ?thesis using assms(6) by simp
qed

section \<open>The update\<close>

lemma update_spec:
  fixes g :: "'w::linordered_field graph"
  assumes "sound g0" "sound g" "exact g0 st" "dirty_covers dirty_nodes g0 g" "0 \<le> epsilon cfg"
    and "incremental_partition_recoverable of_nat g st dirty_nodes cfg = Inr (out, rb)"
  obtains st1 touched1 touched2 where "exact g st1" "ps_membership st1 = ps_membership st"
    "\<forall>c. c \<notin> set touched1 \<longrightarrow> unbroken g0 (ps_membership st) c \<longrightarrow> unbroken g (ps_membership st) c"
    "improved g st1 touched1 (io_state out) touched2" "\<forall>c \<in> set touched2. community_is_connected g (ps_membership (io_state out)) c"
proof -
  obtain dirty frontier where f: "incremental_frontier of_nat st g dirty_nodes cfg = Inr (dirty, frontier)"
    using assms(6) by (auto simp: incremental_partition_recoverable_def split: sum.splits prod.splits)
  obtain st1 touched1 where d: "apply_projection_deltas of_nat g st dirty = (st1, touched1)" by fastforce
  obtain st2 touched2 where p: "(if 0 < ps_total st1 then optimize_passes (max_passes cfg) of_nat (epsilon cfg) g frontier (st1, touched1)
      else (st1, touched1)) = (st2, touched2)" by fastforce
  have out: "io_state out = st2" "\<forall>c \<in> set touched2. community_is_connected g (ps_membership st2) c"
    using assms(6) by (auto simp: incremental_cases [OF f d p] list_ex_iff split: if_splits)
  note fr = frontier_spec [OF f]
  have g: "graph_ok g" using assms(2) by (simp add: sound_def projected_ok)
  have cover: "dirty_covers dirty g0 g" using assms(4) fr(3) by (simp add: dirty_covers_def)
  note e = deltas_exact [OF assms(1-3) fr(4) cover fr(1,2) d]
  have "improved g st1 touched1 st2 touched2"
  proof (cases "0 < ps_total st1")
    case True
    have "set frontier \<subseteq> {..<length (ps_membership st1)}"
      using frontier_frame(3) [OF exact_tallies(2) [OF assms(1,3)] g f] e(2) by simp
    then show ?thesis using True p by (intro passes_improve [OF assms(2) e(1)]) (auto simp: assms(5))
  next
    case False
    with p e(1) show ?thesis by (simp add: improved_def)
  qed
  with that e out show thesis by simp
qed

text \<open>C4 (equivalence). In exact arithmetic an accepted incremental update leaves the statistics a fresh
  computation over the new graph would give, up to the entries of emptied communities; the modularity
  it reports is the one the reference computation gives its partition, and is at least that of the
  partition it was given.
\<close>

theorem incremental_statistics_are_exact:
  fixes g :: "'w::linordered_field graph"
  assumes "sound g0" "sound g" "exact g0 st" "dirty_covers dirty_nodes g0 g" "0 \<le> epsilon cfg"
    and "incremental_partition_recoverable of_nat g st dirty_nodes cfg = Inr (out, rb)"
  shows "exact g (io_state out)
    \<and> modularity of_nat g (ps_membership (io_state out)) = Some (ps_modularity (io_state out))
    \<and> (\<exists>q. modularity of_nat g (ps_membership st) = Some q \<and> q \<le> ps_modularity (io_state out))"
proof -
  obtain st1 touched1 touched2 where u: "exact g st1" "ps_membership st1 = ps_membership st" "improved g st1 touched1 (io_state out) touched2"
    using update_spec [OF assms] by metis
  have "exact g (io_state out)" "ps_modularity st1 \<le> ps_modularity (io_state out)" using u(3) by (simp_all add: improved_def)
  then show ?thesis using exact_modularity [OF assms(2)] u(1,2) by metis
qed

text \<open>C9 (invariant). In exact arithmetic and for a dirty set that covers the change: if every community was
  connected, every community is connected after an accepted
  update, although only the communities an edge was taken from or a node was moved out of or into are
  searched.
\<close>

theorem no_community_is_disconnected:
  fixes g :: "'w::linordered_field graph"
  assumes "sound g0" "sound g" "exact g0 st" "dirty_covers dirty_nodes g0 g" "0 \<le> epsilon cfg"
    and "\<forall>c. unbroken g0 (ps_membership st) c"
    and "incremental_partition_recoverable of_nat g st dirty_nodes cfg = Inr (out, rb)"
  shows "unbroken g (ps_membership (io_state out)) c"
proof -
  obtain st1 touched1 touched2 where u: "exact g st1" "ps_membership st1 = ps_membership st"
    "\<forall>c. c \<notin> set touched1 \<longrightarrow> unbroken g0 (ps_membership st) c \<longrightarrow> unbroken g (ps_membership st) c"
    "improved g st1 touched1 (io_state out) touched2" "\<forall>c \<in> set touched2. community_is_connected g (ps_membership (io_state out)) c"
    using update_spec [OF assms(1-5,7)] by metis
  let ?mem = "ps_membership (io_state out)" and ?old = "ps_membership st"
  have len: "length ?mem = length (gr_ids g)" "length ?mem = length ?old"
    using u(2,4) exact_tallies(6) [OF assms(2), of "io_state out"] by (simp_all add: improved_def)
  have ok: "graph_ok g" using assms(2) by (simp add: sound_def projected_ok)
  show ?thesis
  proof (cases "c \<in> set touched2")
    case True
    then show ?thesis using u(5) search_decides [OF ok len(1)] by simp
  next
    case False
    have same: "?mem ! i = c \<longleftrightarrow> ?old ! i = c" if "i < length ?old" for i
      using u(2,4) False that by (simp add: improved_def)
    have old: "unbroken g ?old c" using u(3,4) False assms(6) by (auto simp: improved_def)
    have n: "length (gr_adj g) = length ?old" using ok len by (simp add: graph_ok_def)
    show ?thesis
    proof (rule unbroken_mono [OF old len(2)])
      show "?mem ! i = c \<longleftrightarrow> ?old ! i = c" if "i < length ?old" for i using that by (rule same)
      show "linked_nodes g ?mem c i j" if l: "linked_nodes g ?old c i j" for i j
        using l linked_range [OF ok l] same [of i] same [of j] n by (auto simp: linked_nodes_def)
    qed
  qed
qed

end
