(* ===== verification/Community_Hubs.thy ===== *)
theory Community_Hubs
  imports Community_Exact
begin

text \<open>
  The caps of the projection in exact arithmetic: parallel edges count three times at most, and the
  weight of a hub is shared out so that no node weighs more than 150.
\<close>

lemma capped: "0 < relates \<Longrightarrow> 0 < cap \<Longrightarrow> 0 < n \<Longrightarrow> 0 < (cap_weight relates cap ^^ n) (0::'w::linordered_field)
    \<and> (cap_weight relates cap ^^ n) 0 \<le> cap"
proof (induction n)
  case (Suc n)
  then show ?case by (cases "n = 0") (auto simp: cap_weight_def)
qed simp

definition ends_at :: "nat \<Rightarrow> nat \<times> nat \<Rightarrow> nat" where
  "ends_at i p = (if i = fst p then 1 else 0) + (if i = snd p then 1 else 0)"

lemma count_degrees:
  "(\<And>s d. (s, d) \<in> set ps \<Longrightarrow> position_of ids s < length ds \<and> position_of ids d < length ds)
    \<Longrightarrow> foldl (\<lambda>ds (s, d). add_at (position_of ids d) 1 (add_at (position_of ids s) 1 ds)) ds ps ! i
      = (if i < length ds then ds ! i + (\<Sum>(s, d)\<leftarrow>ps. ends_at i (position_of ids s, position_of ids d)) else ds ! i)"
proof (induction ps arbitrary: ds)
  case (Cons p ps)
  obtain s d where p: "p = (s, d)" by (cases p)
  let ?ds = "add_at (position_of ids d) 1 (add_at (position_of ids s) 1 ds)"
  have "position_of ids s < length ds" "position_of ids d < length ds" using Cons.prems by (auto simp: p)
  then have "?ds ! i = (if i < length ds then ds ! i + ends_at i (position_of ids s, position_of ids d) else ds ! i)" "length ?ds = length ds"
    by (auto simp: add_at_def nth_list_update ends_at_def)
  moreover have "foldl (\<lambda>ds (s, d). add_at (position_of ids d) 1 (add_at (position_of ids s) 1 ds)) ?ds ps ! i
      = (if i < length ?ds then ?ds ! i + (\<Sum>(s, d)\<leftarrow>ps. ends_at i (position_of ids s, position_of ids d)) else ?ds ! i)"
  proof (rule Cons.IH)
    show "position_of ids a < length ?ds \<and> position_of ids b < length ?ds" if "(a, b) \<in> set ps" for a b
      using Cons.prems [of a b] that by (simp add: add_at_def)
  qed
  ultimately show ?case by (simp add: p)
qed simp

lemma hub_factor_bounds:
  assumes "0 < cap" "0 < degree"
  shows "0 < (hub_factor of_nat cap degree :: 'w::linordered_field)" "hub_factor of_nat cap degree \<le> (1 :: 'w)"
    "hub_factor of_nat cap degree \<le> (of_nat cap / of_nat degree :: 'w)"
  using assms by (auto simp: hub_factor_def)

lemma of_nat_sum: "of_nat (sum_list (map f xs)) = (\<Sum>x\<leftarrow>xs. of_nat (f x) :: 'w::semiring_1)"
  by (induction xs) simp_all

lemma shared_weight:
  assumes "0 < a" "a \<le> 1" "0 < b" "b \<le> 1" "0 < w" "w \<le> 3" "a \<le> 50 / k" "b \<le> 50 / l"
  shows "0 < w * a * b \<and> w * a * b \<le> 3 \<and> w * a * b \<le> 150 / k \<and> w * a * b \<le> (150 / l :: 'w::linordered_field)"
proof -
  have ab: "a * b \<le> a" "a * b \<le> b" "0 \<le> a * b" using assms(1-4) by (simp_all add: mult_left_le mult_left_le_one_le)
  have "w * (a * b) \<le> 3 * a" "w * (a * b) \<le> 3 * b" using assms(5,6) ab by (intro mult_mono; simp)+
  moreover have "3 * a \<le> 3" "3 * a \<le> 150 / k" "3 * b \<le> 150 / l"
    using assms(2) mult_left_mono [OF assms(7), of 3] mult_left_mono [OF assms(8), of 3] by simp_all
  moreover have "0 < w * a * b" using assms(1,3,5) by simp
  ultimately show ?thesis by (simp add: mult.assoc)
qed

abbreviation default_edges :: "string list \<Rightarrow> (string \<times> string, 'w::linordered_field) btree \<Rightarrow> 'w projected_edge list" where
  "default_edges ids folded \<equiv> map (project_pair of_nat 50 ids (folded_degrees ids folded)) folded"

abbreviation default_graph :: "projection_input_edge list \<Rightarrow> 'w::linordered_field graph" where
  "default_graph \<equiv> project_grounded_relates of_nat (default_projection of_nat)"

lemma default_graph:
  fixes folded :: "(string \<times> string, 'w::linordered_field) btree"
  assumes "project_relates (default_projection of_nat) input = (ids, folded)"
  shows "gr_edges (default_graph input) = default_edges ids folded" "gr_ids (default_graph input :: 'w graph) = ids"
proof -
  have "hub_degree_cap (default_projection of_nat :: 'w projection_config) = 50" by (simp add: default_projection_def)
  then show "gr_edges (default_graph input) = default_edges ids folded" "gr_ids (default_graph input :: 'w graph) = ids"
    by (simp_all add: project_grounded_relates_def assms graph_of_def)
qed

text \<open>The degree by which a hub is told: how many folded edges end at the node.\<close>

lemma folded_degree:
  assumes "project_relates cfg input = (ids, folded)" "i < length ids"
  shows "folded_degrees ids folded ! i = (\<Sum>((s, d), w)\<leftarrow>folded. ends_at i (position_of ids s, position_of ids d))"
proof -
  have "position_of ids s < length ids \<and> position_of ids d < length ids" if "((s, d), w) \<in> set folded" for s d w
    using folded_pairs(4,5) [OF assms(1) that] by (meson less_trans)
  then have "folded_degrees ids folded ! i = (\<Sum>(s, d)\<leftarrow>map fst folded. ends_at i (position_of ids s, position_of ids d))"
    unfolding folded_degrees_def using assms(2) by (subst count_degrees) (auto simp: image_iff)
  then show ?thesis by (simp add: comp_def split_def)
qed

lemma degree_at_end:
  assumes "project_relates cfg input = (ids, folded)" "((s, d), w) \<in> set folded" "i = position_of ids s \<or> i = position_of ids d"
  shows "0 < folded_degrees ids folded ! i"
proof -
  have "ends_at i (position_of ids s, position_of ids d) \<in> set (map (\<lambda>((s, d), w). ends_at i (position_of ids s, position_of ids d)) folded)"
    using assms(2) by force
  then have "ends_at i (position_of ids s, position_of ids d)
      \<le> sum_list (map (\<lambda>((s, d), w). ends_at i (position_of ids s, position_of ids d)) folded)"
    by (rule member_le_sum_list) simp
  moreover have "i < length ids" using folded_pairs(4,5) [OF assms(1,2)] assms(3) by auto
  ultimately have "ends_at i (position_of ids s, position_of ids d) \<le> folded_degrees ids folded ! i"
    by (simp add: folded_degree [OF assms(1)])
  then show ?thesis using assms(3) by (auto simp: ends_at_def split: if_splits)
qed

lemma folded_weight:
  assumes "project_relates (default_projection of_nat :: 'w::linordered_field projection_config) input = (ids, folded)"
    "((s, d), w) \<in> set folded"
  shows "0 < w" "w \<le> 3"
proof -
  note spec = project_relates_spec [OF assms(1)]
  have "map_of folded (s, d) = Some w" using assms(2) spec(3) by (simp add: bt_ok_distinct)
  then show "0 < w" "w \<le> 3"
    using capped [of 1 "3::'w" "count (mset (joining input)) (s, d)"] spec(5)
    by (auto simp: Let_def default_projection_def split: if_splits)
qed

lemma default_edge_weight:
  assumes "project_relates (default_projection of_nat :: 'w::linordered_field projection_config) input = (ids, folded)"
    "e \<in> set (default_edges ids folded)"
  shows "0 < pe_weight e" "pe_weight e \<le> 3"
    "i = pe_src e \<or> i = pe_dst e \<Longrightarrow> pe_weight e \<le> 150 / of_nat (folded_degrees ids folded ! i)"
proof -
  let ?ds = "folded_degrees ids folded"
  obtain s d w where x: "((s, d), w) \<in> set folded" "e = project_pair of_nat 50 ids ?ds ((s, d), w)" using assms(2) by auto
  let ?a = "hub_factor of_nat 50 (?ds ! position_of ids s) :: 'w" and ?b = "hub_factor of_nat 50 (?ds ! position_of ids d) :: 'w"
  have e: "pe_weight e = w * ?a * ?b" "pe_src e = position_of ids s" "pe_dst e = position_of ids d"
    by (simp_all add: x(2) project_pair_def Let_def)
  note at_end = degree_at_end [OF assms(1) x(1)]
  note a = hub_factor_bounds [where 'w = 'w, of 50 "?ds ! position_of ids s", OF _ at_end, simplified]
  note b = hub_factor_bounds [where 'w = 'w, of 50 "?ds ! position_of ids d", OF _ at_end, simplified]
  note all = shared_weight [OF a(1,2) b(1,2) folded_weight [OF assms(1) x(1)] a(3) b(3)]
  show "0 < pe_weight e" "pe_weight e \<le> 3" using all by (simp_all add: e)
  show "pe_weight e \<le> 150 / of_nat (?ds ! i)" if "i = pe_src e \<or> i = pe_dst e" using all that by (auto simp: e)
qed

lemma default_projection_sound:
  "sound (default_graph input)"
proof -
  obtain ids folded where r: "project_relates (default_projection of_nat :: 'a projection_config) input = (ids, folded)" by fastforce
  show ?thesis using projection_projected default_edge_weight(1) [OF r] unfolding sound_def default_graph(1) [OF r] by blast
qed

lemma default_degree:
  assumes "project_relates (default_projection of_nat :: 'w::linordered_field projection_config) input = (ids, folded)" "i < length ids"
  defines "g \<equiv> default_graph input :: 'w graph"
  shows "0 \<le> gr_degrees g ! i" "gr_degrees g ! i \<le> 150"
proof -
  let ?ds = "folded_degrees ids folded" and ?es = "default_edges ids folded"
  have g: "gr_edges g = ?es" "length (gr_ids g) = length ids" by (simp_all add: g_def default_graph [OF assms(1)])
  have p: "projected g" unfolding g_def by (rule projection_projected)
  note e = default_edge_weight [OF assms(1)]
  have "gr_degrees g ! i = (\<Sum>j<length (gr_ids g). edge_matrix ?es i j)"
    using projected_degree [OF p, of i] assms(2) by (simp add: g projected_weight [OF p])
  also have "\<dots> = (\<Sum>e\<leftarrow>?es. (if i = pe_src e then pe_weight e else 0) + (if i = pe_dst e then pe_weight e else 0))"
    using p by (intro edge_matrix_row) (simp add: projected_def g)
  also have "\<dots> = (\<Sum>e\<leftarrow>?es. of_nat (ends_at i (pe_src e, pe_dst e)) * pe_weight e)"
    by (intro arg_cong [where f = sum_list] map_cong) (auto simp: ends_at_def)
  finally have d: "gr_degrees g ! i = (\<Sum>e\<leftarrow>?es. of_nat (ends_at i (pe_src e, pe_dst e)) * pe_weight e)" .
  show "0 \<le> gr_degrees g ! i" unfolding d
  proof (rule sum_list_nonneg)
    fix x assume "x \<in> set (map (\<lambda>e. of_nat (ends_at i (pe_src e, pe_dst e)) * pe_weight e) ?es)"
    then obtain e where "e \<in> set ?es" "x = of_nat (ends_at i (pe_src e, pe_dst e)) * pe_weight e" unfolding set_map by blast
    then show "0 \<le> x" using e(1) by (metis less_imp_le mult_nonneg_nonneg of_nat_0_le_iff)
  qed
  have "gr_degrees g ! i \<le> (\<Sum>e\<leftarrow>?es. of_nat (ends_at i (pe_src e, pe_dst e)) * (150 / of_nat (?ds ! i)))"
    unfolding d
  proof (rule sum_list_mono)
    fix x assume x: "x \<in> set ?es"
    show "of_nat (ends_at i (pe_src x, pe_dst x)) * pe_weight x \<le> of_nat (ends_at i (pe_src x, pe_dst x)) * (150 / of_nat (?ds ! i))"
    proof (cases "i = pe_src x \<or> i = pe_dst x")
      case True
      then have "pe_weight x \<le> 150 / of_nat (?ds ! i)" by (rule e(3) [OF x])
      then show ?thesis by (rule mult_left_mono) simp
    qed (simp add: ends_at_def)
  qed
  also have "\<dots> = of_nat (\<Sum>e\<leftarrow>?es. ends_at i (pe_src e, pe_dst e)) * (150 / of_nat (?ds ! i))"
    by (simp only: sum_list_mult_const of_nat_sum)
  also have "(\<Sum>e\<leftarrow>?es. ends_at i (pe_src e, pe_dst e)) = ?ds ! i"
    unfolding folded_degree [OF assms(1,2)] by (simp add: comp_def split_def project_pair_def Let_def)
  finally show "gr_degrees g ! i \<le> 150" by (simp split: if_splits add: divide_simps)
qed

text \<open>C23 (bounds). The projection of any edges, with the configuration of the service and in exact
  arithmetic (an ordered field; a sum of floats may exceed a bound by its rounding), has positive weights of
  at most three, however many edges join two nodes, and no node weighs more than 150, however many
  neighbours it has.
\<close>

theorem projection_bounds_hubs:
  "let g = project_grounded_relates of_nat (default_projection of_nat) input :: 'w::linordered_field graph
   in sound g \<and> list_all (\<lambda>e. pe_weight e \<le> 3) (gr_edges g) \<and> list_all (\<lambda>d. 0 \<le> d \<and> d \<le> 150) (gr_degrees g)"
proof -
  obtain ids folded where r: "project_relates (default_projection of_nat :: 'w projection_config) input = (ids, folded)" by fastforce
  have "graph_ok (default_graph input :: 'w graph)" by (rule projected_ok [OF projection_projected])
  then have "length (gr_degrees (default_graph input :: 'w graph)) = length ids" by (simp add: graph_ok_def default_graph(2) [OF r])
  then have "list_all (\<lambda>d. 0 \<le> d \<and> d \<le> 150) (gr_degrees (default_graph input :: 'w graph))"
    using default_degree [OF r] by (simp add: list_all_length)
  moreover have "list_all (\<lambda>e. pe_weight e \<le> 3) (gr_edges (default_graph input :: 'w graph))"
    unfolding default_graph(1) [OF r] list_all_iff using default_edge_weight(2) [OF r] by blast
  ultimately show ?thesis using default_projection_sound [where 'a = 'w] by (simp only: Let_def simp_thms)
qed

end
