(* ===== verification/Community_Identity.thy ===== *)
theory Community_Identity
  imports Complex_Main Community_Graphs Genesis_Identity
begin

text \<open>
  The durable identities of communities, from \<open>community_partition.rs\<close> and \<open>community_grouping.rs\<close>: the
  groups of a partition are bound to the ids of the communities they overlap most, nodes outside the
  partition are attached to a community, and splits and merges are told from the two memberships.

  \<open>rank\<close> reads the bits of a float as the integer by which \<open>total_cmp\<close> orders it; \<open>root\<close> is the square
  root. Rust's \<open>assert_eq!\<close> on the lengths is \<open>None\<close>.
\<close>

section \<open>Rebinding\<close>

definition starts_with :: "string \<Rightarrow> string \<Rightarrow> bool" where
  "starts_with p s \<longleftrightarrow> take (length p) s = p"

definition is_new_community_marker :: "string \<Rightarrow> bool" where
  "is_new_community_marker i \<longleftrightarrow> starts_with ''__m4-new-node-'' i \<or> starts_with ''community-m4-new-'' i"

definition fresh_community_id :: "nat \<Rightarrow> string" where
  "fresh_community_id ordinal = ''community-m4-new-'' @ decimal ordinal"

text \<open>The first ordinal from \<open>n\<close> whose id is not used.\<close>

lemma fresh_inject: "fresh_community_id m = fresh_community_id n \<longleftrightarrow> m = n"
  by (simp add: fresh_community_id_def decimal_inject)

function fresh_ordinal :: "string list \<Rightarrow> nat \<Rightarrow> nat" where
  "fresh_ordinal used n = (if fresh_community_id n \<in> set used then fresh_ordinal used (n + 1) else n)"
  by pat_completeness auto

termination
proof (relation "measure (\<lambda>(used, n). card {k. n \<le> k \<and> fresh_community_id k \<in> set used})", simp, clarsimp)
  fix used n assume u: "fresh_community_id n \<in> set used"
  have "inj_on fresh_community_id {k. n \<le> k \<and> fresh_community_id k \<in> set used}" by (simp add: inj_on_def fresh_inject)
  then have "finite {k. n \<le> k \<and> fresh_community_id k \<in> set used}"
    by (rule inj_on_finite [of _ _ "set used"]) auto
  moreover have "{k. Suc n \<le> k \<and> fresh_community_id k \<in> set used} \<subset> {k. n \<le> k \<and> fresh_community_id k \<in> set used}"
    using u by (auto simp: psubset_eq) (metis (mono_tags, lifting) Suc_n_not_le_n mem_Collect_eq order_refl)
  ultimately show "card {k. Suc n \<le> k \<and> fresh_community_id k \<in> set used} < card {k. n \<le> k \<and> fresh_community_id k \<in> set used}"
    by (rule psubset_card_mono)
qed

declare fresh_ordinal.simps [simp del]

definition claim_candidate ::
    "(nat, string) btree \<times> string list \<Rightarrow> 'w \<times> string \<times> nat \<Rightarrow> (nat, string) btree \<times> string list" where
  "claim_candidate acc = (\<lambda>(overlap, old_id, group).
     if map_of (fst acc) group = None \<and> old_id \<notin> set (snd acc)
     then (bt_insert group old_id (fst acc), bs_insert old_id (snd acc)) else acc)"

definition mint_group :: "(nat, string) btree \<times> string list \<times> nat \<Rightarrow> nat \<Rightarrow> (nat, string) btree \<times> string list \<times> nat" where
  "mint_group = (\<lambda>(rebound, used, ordinal) group.
     if map_of rebound group \<noteq> None then (rebound, used, ordinal)
     else let k = fresh_ordinal used ordinal
          in (bt_insert group (fresh_community_id k) rebound, bs_insert (fresh_community_id k) used, k + 1))"

definition rebound_groups ::
    "('w \<Rightarrow> int) \<Rightarrow> string list \<Rightarrow> nat list \<Rightarrow> (nat \<times> string, 'w) btree \<Rightarrow> (nat, string) btree" where
  "rebound_groups rank previous_ids mem overlaps =
     (let candidates = sort_key (\<lambda>(overlap, old_id, group). (- rank overlap, old_id, group))
                         (map (\<lambda>((group, old_id), overlap). (overlap, old_id, group)) overlaps);
          rebound = fst (foldl claim_candidate ([], []) candidates)
      in fst (foldl mint_group (rebound, bs_of previous_ids, 0) (bs_of mem)))"

definition assign_rebound_ids ::
    "('w \<Rightarrow> int) \<Rightarrow> string list \<Rightarrow> nat list \<Rightarrow> (nat \<times> string, 'w) btree \<Rightarrow> string list" where
  "assign_rebound_ids rank previous_ids mem overlaps =
     map (\<lambda>group. the (map_of (rebound_groups rank previous_ids mem overlaps) group)) mem"

definition rebind_durable_ids ::
    "(nat \<Rightarrow> 'w::{zero,plus}) \<Rightarrow> ('w \<Rightarrow> int) \<Rightarrow> string list \<Rightarrow> nat list \<Rightarrow> string list option" where
  "rebind_durable_ids fl rank previous_ids mem =
     (if length previous_ids \<noteq> length mem then None
      else Some (assign_rebound_ids rank previous_ids mem
        (foldl (\<lambda>m node. bt_entry (mem ! node, previous_ids ! node) 0 (\<lambda>x. x + fl 1) m) [] [0..<length mem])))"

text \<open>The weight by which a node reaches the prior communities, and its total.\<close>

definition prior_weights ::
    "string list \<Rightarrow> (nat \<times> 'w) list \<Rightarrow> (string, 'w) btree \<times> 'w::{zero,plus,ord}" where
  "prior_weights previous_ids neighbors = foldl (\<lambda>(m, t) (neighbor, weight).
     if weight \<le> 0 \<or> is_new_community_marker (previous_ids ! neighbor) then (m, t)
     else (bt_entry (previous_ids ! neighbor) 0 (\<lambda>x. x + weight) m, t + weight)) ([], 0) neighbors"

definition add_overlaps ::
    "(nat \<Rightarrow> 'w) \<Rightarrow> string list \<Rightarrow> nat list \<Rightarrow> 'w graph \<Rightarrow> (nat \<times> string, 'w) btree \<Rightarrow> nat
      \<Rightarrow> (nat \<times> string, 'w::{zero,plus,inverse,ord}) btree" where
  "add_overlaps fl previous_ids mem g overlaps node =
     (if is_new_community_marker (previous_ids ! node) then overlaps
      else let (incident_by_old, t) = prior_weights previous_ids (gr_adj g ! node)
           in if 0 < t
              then foldl (\<lambda>m (old_id, weight). bt_entry (mem ! node, old_id) 0 (\<lambda>x. x + weight / t) m) overlaps incident_by_old
              else bt_entry (mem ! node, previous_ids ! node) 0 (\<lambda>x. x + fl 1) overlaps)"

definition rebind_durable_ids_weighted ::
    "(nat \<Rightarrow> 'w) \<Rightarrow> ('w \<Rightarrow> int) \<Rightarrow> string list \<Rightarrow> nat list \<Rightarrow> 'w::{zero,plus,inverse,ord} graph \<Rightarrow> string list option" where
  "rebind_durable_ids_weighted fl rank previous_ids mem g =
     (if length previous_ids \<noteq> length mem \<or> length previous_ids \<noteq> length (gr_ids g) then None
      else Some (assign_rebound_ids rank previous_ids mem (foldl (add_overlaps fl previous_ids mem g) [] [0..<length mem])))"

section \<open>What a rebinding is\<close>

definition claims_ok :: "(nat, string) btree \<Rightarrow> bool" where
  "claims_ok m \<longleftrightarrow> (\<forall>a b i. map_of m a = Some i \<longrightarrow> map_of m b = Some i \<longrightarrow> a = b)"

lemma claims_insert:
  "claims_ok m \<Longrightarrow> map_of m k = None \<Longrightarrow> (\<And>a. map_of m a \<noteq> Some i) \<Longrightarrow> claims_ok (bt_insert k i m)"
  by (auto simp: claims_ok_def map_of_bt_insert)

lemma claim_candidates:
  assumes "claims_ok m" "\<forall>a i. map_of m a = Some i \<longrightarrow> i \<in> set used"
  shows "case foldl claim_candidate (m, used) cs of (m', used') \<Rightarrow> claims_ok m' \<and> (\<forall>a i. map_of m' a = Some i \<longrightarrow> i \<in> set used')
      \<and> set used' \<subseteq> set used \<union> (fst \<circ> snd) ` set cs"
  using assms
proof (induction cs arbitrary: m used)
  case (Cons c cs)
  obtain ov old group where c: "c = (ov, old, group)" by (cases c)
  show ?case
  proof (cases "map_of m group = None \<and> old \<notin> set used")
    case True
    have "claims_ok (bt_insert group old m)" using Cons.prems True by (intro claims_insert) auto
    moreover have "\<forall>a i. map_of (bt_insert group old m) a = Some i \<longrightarrow> i \<in> set (bs_insert old used)"
      using Cons.prems(2) by (auto simp: map_of_bt_insert)
    moreover have "claim_candidate (m, used) c = (bt_insert group old m, bs_insert old used)"
      using True by (simp add: claim_candidate_def c)
    moreover have "set (bs_insert old used) \<union> (fst \<circ> snd) ` set cs = set used \<union> (fst \<circ> snd) ` set (c # cs)" by (auto simp: c)
    ultimately show ?thesis using Cons.IH [of "bt_insert group old m" "bs_insert old used"] by simp
  next
    case False
    then have "claim_candidate (m, used) c = (m, used)" by (auto simp: claim_candidate_def c)
    then show ?thesis using Cons.IH [OF Cons.prems] by (auto split: prod.splits)
  qed
qed simp

lemma fresh_ordinal_unused: "fresh_community_id (fresh_ordinal used n) \<notin> set used"
  by (induction used n rule: fresh_ordinal.induct) (subst fresh_ordinal.simps, simp)

lemma mint_groups:
  assumes "claims_ok m" "\<forall>a i. map_of m a = Some i \<longrightarrow> i \<in> set used"
  shows "case foldl mint_group (m, used, n) gs of (m', used', n') \<Rightarrow> claims_ok m' \<and> (\<forall>a i. map_of m' a = Some i \<longrightarrow> i \<in> set used')
      \<and> (\<forall>a \<in> set gs. map_of m' a \<noteq> None) \<and> (\<forall>a i. map_of m a = Some i \<longrightarrow> map_of m' a = Some i)
      \<and> (\<forall>a i. map_of m' a = Some i \<longrightarrow> map_of m a = Some i \<or> (i \<notin> set used \<and> (\<exists>k. i = fresh_community_id k)))"
  using assms
proof (induction gs arbitrary: m used n)
  case (Cons group gs)
  show ?case
  proof (cases "map_of m group = None")
    case True
    let ?k = "fresh_ordinal used n"
    let ?i = "fresh_community_id ?k"
    have new: "?i \<notin> set used" by (rule fresh_ordinal_unused)
    have "claims_ok (bt_insert group ?i m)" using Cons.prems True new by (intro claims_insert) auto
    moreover have "\<forall>a i. map_of (bt_insert group ?i m) a = Some i \<longrightarrow> i \<in> set (bs_insert ?i used)"
      using Cons.prems(2) by (auto simp: map_of_bt_insert)
    moreover obtain m' used' n' where f: "foldl mint_group (bt_insert group ?i m, bs_insert ?i used, ?k + 1) gs = (m', used', n')"
      by (cases "foldl mint_group (bt_insert group ?i m, bs_insert ?i used, ?k + 1) gs") auto
    ultimately have ih: "claims_ok m'" "\<forall>a i. map_of m' a = Some i \<longrightarrow> i \<in> set used'" "\<forall>a \<in> set gs. map_of m' a \<noteq> None"
      "\<forall>a i. map_of (bt_insert group ?i m) a = Some i \<longrightarrow> map_of m' a = Some i"
      "\<forall>a i. map_of m' a = Some i \<longrightarrow> map_of (bt_insert group ?i m) a = Some i \<or> (i \<notin> set (bs_insert ?i used) \<and> (\<exists>k. i = fresh_community_id k))"
      using Cons.IH [of "bt_insert group ?i m" "bs_insert ?i used" "?k + 1"] by auto
    have "foldl mint_group (m, used, n) (group # gs) = (m', used', n')" using True f by (simp add: mint_group_def Let_def)
    moreover have "map_of (bt_insert group ?i m) a = Some i" if "map_of m a = Some i" for a i
      using True that by (auto simp: map_of_bt_insert)
    then have "\<forall>a i. map_of m a = Some i \<longrightarrow> map_of m' a = Some i" using ih(4) by blast
    moreover have "map_of m' group \<noteq> None" using ih(4) by (auto simp: map_of_bt_insert)
    moreover have "\<forall>a i. map_of m' a = Some i \<longrightarrow> map_of m a = Some i \<or> (i \<notin> set used \<and> (\<exists>k. i = fresh_community_id k))"
      using ih(5) new by (auto simp: map_of_bt_insert split: if_splits)
    ultimately show ?thesis using ih(1-3) by simp
  next
    case False
    then have "mint_group (m, used, n) group = (m, used, n)" by (simp add: mint_group_def)
    moreover have "\<exists>i. map_of m group = Some i" using False by auto
    ultimately show ?thesis using Cons.IH [OF Cons.prems, of n] by (fastforce split: prod.splits)
  qed
qed simp

lemma rebound_groups_spec:
  fixes rank :: "'w \<Rightarrow> int" and mem :: "nat list"
  assumes "\<forall>e \<in> set overlaps. snd (fst e) \<in> set previous_ids"
  defines "m \<equiv> rebound_groups rank previous_ids mem overlaps"
  shows "claims_ok m" "\<forall>a \<in> set mem. map_of m a \<noteq> None"
    "\<forall>a i. map_of m a = Some i \<longrightarrow> i \<in> set previous_ids \<or> (\<exists>k. i = fresh_community_id k)"
proof -
  let ?cs = "sort_key (\<lambda>(overlap, old_id, group). (- rank overlap, old_id, group)) (map (\<lambda>((group, old_id), overlap). (overlap, old_id, group)) overlaps)"
  obtain m0 used0 where c: "foldl claim_candidate ([], []) ?cs = (m0, used0)" by fastforce
  have "(fst \<circ> snd) ` set ?cs \<subseteq> set previous_ids" using assms(1) by force
  moreover have "claims_ok m0" "\<forall>a i. map_of m0 a = Some i \<longrightarrow> i \<in> set used0" "set used0 \<subseteq> (fst \<circ> snd) ` set ?cs"
    using claim_candidates [of "[]" "[]" ?cs, unfolded c prod.case] by (simp_all add: claims_ok_def)
  ultimately have m0: "claims_ok m0" "\<forall>a i. map_of m0 a = Some i \<longrightarrow> i \<in> set (bs_of previous_ids)" unfolding set_bs_of by blast+
  obtain m1 used1 n1 where f: "foldl mint_group (m0, bs_of previous_ids, 0) (bs_of mem) = (m1, used1, n1)"
    by (cases "foldl mint_group (m0, bs_of previous_ids, 0) (bs_of mem)") auto
  have "m = m1" unfolding m_def rebound_groups_def Let_def c fst_conv f by (rule refl)
  then show "claims_ok m" "\<forall>a \<in> set mem. map_of m a \<noteq> None"
    "\<forall>a i. map_of m a = Some i \<longrightarrow> i \<in> set previous_ids \<or> (\<exists>k. i = fresh_community_id k)"
    using mint_groups [OF m0, where n = 0 and gs = "bs_of mem"] m0(2) f by (auto 0 3)
qed

lemma prior_weights_ids:
  assumes "prior_weights previous_ids neighbors = (m, t)" "\<forall>e \<in> set neighbors. fst e < length previous_ids"
  shows "fst ` set m \<subseteq> set previous_ids"
proof -
  have "fst ` set (fst (foldl (\<lambda>(m, t) (neighbor, weight).
     if weight \<le> 0 \<or> is_new_community_marker (previous_ids ! neighbor) then (m, t)
     else (bt_entry (previous_ids ! neighbor) 0 (\<lambda>x. x + weight) m, t + weight)) acc neighbors)) \<subseteq> fst ` set (fst acc) \<union> set previous_ids" for acc
    using assms(2)
  proof (induction neighbors arbitrary: acc)
    case (Cons e neighbors)
    obtain nb w m0 t0 where e: "e = (nb, w)" "acc = (m0, t0)" by (cases e, cases acc) auto
    then show ?case using Cons.prems Cons.IH [of "(m0, t0)"] Cons.IH [of "(bt_entry (previous_ids ! nb) 0 (\<lambda>x. x + w) m0, t0 + w)"]
      by (auto simp: e)
  qed simp
  from this [of "([], 0)"] assms(1) show ?thesis by (simp add: prior_weights_def)
qed

lemma add_overlaps_ids:
  fixes g :: "'w::{zero,plus,inverse,ord} graph"
  assumes "graph_ok g" "length previous_ids = length (gr_ids g)" "node < length (gr_ids g)"
  shows "(snd \<circ> fst) ` set (add_overlaps fl previous_ids mem g overlaps node)
    \<subseteq> (snd \<circ> fst) ` set overlaps \<union> set previous_ids"
proof -
  have keys: "(\<lambda>x. snd (fst x)) ` set (bt_entry (c, old) d f m) = insert old ((\<lambda>x. snd (fst x)) ` set m)"
    for c old d f and m :: "(nat \<times> string, 'w) btree"
    unfolding image_image [symmetric, of snd fst] by (simp only: bt_entry_keys image_insert snd_conv)
  have fold: "(\<lambda>x. snd (fst x)) ` set (foldl (\<lambda>m (old_id, weight). bt_entry (c, old_id) 0 (\<lambda>x. x + weight / t) m) m ws)
      = (\<lambda>x. snd (fst x)) ` set m \<union> fst ` set ws" for c :: nat and t m and ws :: "(string \<times> 'w) list"
    by (induction ws arbitrary: m) (simp_all add: keys case_prod_beta)
  obtain m t where p: "prior_weights previous_ids (gr_adj g ! node) = (m, t)" by fastforce
  have "\<forall>e \<in> set (gr_adj g ! node). fst e < length previous_ids"
    using assms graph_okD(1) [OF assms(1)] by (fastforce simp: graph_ok_def)
  then have "fst ` set m \<subseteq> set previous_ids" by (rule prior_weights_ids [OF p])
  then show ?thesis using assms(2,3) unfolding comp_def by (simp add: add_overlaps_def p keys fold Let_def) blast
qed

lemma assigned_ids:
  fixes rank :: "'w \<Rightarrow> int" and mem :: "nat list"
  assumes "\<forall>e \<in> set overlaps. snd (fst e) \<in> set previous_ids"
  defines "ids \<equiv> assign_rebound_ids rank previous_ids mem overlaps"
  shows "length ids = length mem" "i < length mem \<Longrightarrow> j < length mem \<Longrightarrow> ids ! i = ids ! j \<longleftrightarrow> mem ! i = mem ! j"
    "set ids \<subseteq> set previous_ids \<union> range fresh_community_id"
proof -
  define m where "m = rebound_groups rank previous_ids mem overlaps"
  note spec = rebound_groups_spec [OF assms(1), where rank = rank and mem = mem, folded m_def]
  have ids: "ids = map (\<lambda>c. the (map_of m c)) mem" by (simp add: ids_def assign_rebound_ids_def m_def)
  show "length ids = length mem" by (simp add: ids)
  show "set ids \<subseteq> set previous_ids \<union> range fresh_community_id" using spec(2,3) by (fastforce simp: ids)
  assume "i < length mem" "j < length mem"
  moreover from this obtain a b where "map_of m (mem ! i) = Some a" "map_of m (mem ! j) = Some b"
    using spec(2) by (meson nth_mem option.exhaust)
  ultimately show "ids ! i = ids ! j \<longleftrightarrow> mem ! i = mem ! j"
    using spec(1) unfolding claims_ok_def ids by (metis nth_map option.sel)
qed

text \<open>C15 (safety). Rebinding gives the nodes of a graph durable ids that tell the groups of the new
  partition apart exactly: two nodes get one id if and only if they are in one group, and every id
  is one of the previous ids or freshly made.
\<close>

theorem rebinding_separates_communities:
  assumes "graph_ok g" "rebind_durable_ids_weighted fl rank previous_ids mem g = Some ids"
  shows "length ids = length mem
    \<and> (\<forall>i < length mem. \<forall>j < length mem. ids ! i = ids ! j \<longleftrightarrow> mem ! i = mem ! j)
    \<and> set ids \<subseteq> set previous_ids \<union> range fresh_community_id"
proof -
  have len: "length previous_ids = length mem" "length previous_ids = length (gr_ids g)"
    and ids: "ids = assign_rebound_ids rank previous_ids mem (foldl (add_overlaps fl previous_ids mem g) [] [0..<length mem])"
    using assms(2) by (auto simp: rebind_durable_ids_weighted_def split: if_splits)
  have "(snd \<circ> fst) ` set (foldl (add_overlaps fl previous_ids mem g) m [0..<k]) \<subseteq> (snd \<circ> fst) ` set m \<union> set previous_ids"
    if "k \<le> length (gr_ids g)" for k m
    using that by (induction k) (auto dest!: subsetD [OF add_overlaps_ids [OF assms(1) len(2), simplified]] simp: Suc_le_eq)
  from this [of "length mem" "[]"] have "\<forall>e \<in> set (foldl (add_overlaps fl previous_ids mem g) [] [0..<length mem]). snd (fst e) \<in> set previous_ids"
    using len by force
  from assigned_ids [OF this, where mem = mem and rank = rank, folded ids] show ?thesis by blast
qed

lemma rebinding_separates_communities_witness:
  "let ids = [''a'', ''a'', ''community-m4-new-0''] in
   length ids = length [0, 0, 1::nat]
    \<and> (\<forall>i < 3. \<forall>j < 3. ids ! i = ids ! j \<longleftrightarrow> [0, 0, 1::nat] ! i = [0, 0, 1] ! j)
    \<and> set ids \<subseteq> set [''a'', ''a'', ''a''] \<union> range fresh_community_id"
proof -
  have ok: "graph_ok (graph_of [''x'', ''y'', ''z''] [\<lparr>pe_src = 0, pe_dst = 1, pe_weight = 1 :: rat\<rparr>])"
    by (rule graph_of_ok) (simp_all add: edges_ok_def)
  have "rebind_durable_ids_weighted of_nat floor [''a'', ''a'', ''a''] [0, 0, 1]
     (graph_of [''x'', ''y'', ''z''] [\<lparr>pe_src = 0, pe_dst = 1, pe_weight = 1 :: rat\<rparr>]) = Some [''a'', ''a'', ''community-m4-new-0'']"
    by code_simp
  from rebinding_separates_communities [OF ok this] show ?thesis by (simp add: numeral_3_eq_3)
qed

end
