(* ===== verification/Community_Examples.thy ===== *)
theory Community_Examples
  imports Community_Update Community_Hubs Community_Identity
begin

text \<open>
  Witnesses of the properties of the communities: two pairs of entities, each joined by an edge, and
  then three further edges. The update finds the two pairs.
\<close>

definition demo_row :: "string \<Rightarrow> string \<Rightarrow> string \<Rightarrow> projection_input_edge" where
  "demo_row i s d = \<lparr>pi_edge = i, pi_src = s, pi_dst = d\<rparr>"

definition demo_rows :: "projection_input_edge list" where
  "demo_rows = [demo_row ''1'' ''a'' ''b'', demo_row ''2'' ''c'' ''d'']"

definition demo_old :: "rat graph" where
  "demo_old = project_grounded_relates of_nat (default_projection of_nat) demo_rows"

definition demo_new :: "rat graph" where
  "demo_new = project_grounded_relates of_nat (default_projection of_nat)
     (demo_rows @ [demo_row ''3'' ''b'' ''a'', demo_row ''4'' ''c'' ''a'', demo_row ''5'' ''b'' ''c''])"

definition demo_config :: "rat incremental_config" where
  "demo_config = \<lparr>max_dirty_fraction = 1, max_frontier_fraction = 1, max_passes = 8, epsilon = 1 / 1000000\<rparr>"

lemma demo_ids: "gr_ids demo_old = [''a'', ''b'', ''c'', ''d'']" "gr_ids demo_new = gr_ids demo_old" by code_simp+

definition demo_state :: "rat partition_state" where
  "demo_state = (case new_partition_state of_nat demo_old [0, 1, 2, 3] of Inr st \<Rightarrow> st)"

definition demo_update :: "rat partition_error \<times> rat partition_state + rat incremental_output \<times> rat partition_rollback" where
  "demo_update = incremental_partition_recoverable of_nat demo_new demo_state [0, 1, 2] demo_config"

lemma demo_made: "new_partition_state of_nat demo_old [0, 1, 2, 3] = Inr demo_state"
proof -
  have "length (gr_ids demo_old) = 4" by (simp add: demo_ids)
  then show ?thesis unfolding demo_state_def by (simp add: new_partition_state_def Let_def)
qed

lemma demo_sound: "sound demo_old" "sound demo_new"
  unfolding demo_old_def demo_new_def by (rule default_projection_sound)+

lemma demo_exact: "exact demo_old demo_state"
  using fresh_state [OF demo_sound(1) demo_made] demo_made by (auto simp: exact_def agrees_def)

lemma demo_membership: "ps_membership demo_state = [0, 1, 2, 3]"
  by (rule fresh_state(4) [OF demo_sound(1) demo_made])

lemma demo_adj: "gr_adj demo_old = [[(1, 1)], [(0, 1)], [(3, 1)], [(2, 1)]]"
    "gr_adj demo_new = [[(1, 2), (2, 1)], [(0, 2), (2, 1)], [(0, 1), (1, 1), (3, 1)], [(2, 1)]]"
  by code_simp+

lemma demo_covers: "dirty_covers [0, 1, 2] demo_old demo_new"
proof -
  have "i < 4 \<longleftrightarrow> i = 0 \<or> i = 1 \<or> i = 2 \<or> i = (3::nat)" for i by auto
  then show ?thesis by (auto simp: dirty_covers_def demo_adj demo_ids)
qed

lemma demo_epsilon: "0 \<le> epsilon demo_config" by (simp add: demo_config_def)

lemma demo_accepted:
  obtains out rb where "incremental_partition_recoverable of_nat demo_new demo_state [0, 1, 2] demo_config = Inr (out, rb)"
    "ps_membership (io_state out) = [1, 1, 3, 3]"
proof -
  have r: "map_sum (\<lambda>_. ()) (\<lambda>(out, rb). ps_membership (io_state out)) demo_update = Inr [1, 1, 3, 3]" by code_simp
  obtain y where "demo_update = Inr y"
  proof (cases demo_update)
    case (Inl x)
    have False using r unfolding Inl by simp
    then show ?thesis ..
  qed
  moreover obtain out rb where "y = (out, rb)" by (cases y)
  ultimately have "demo_update = Inr (out, rb)" by simp
  then show thesis using r that by (simp add: demo_update_def)
qed

lemmas demo_hypotheses = demo_sound demo_exact demo_covers demo_epsilon

lemma demo_singletons: "unbroken demo_old (ps_membership demo_state) c"
  by (auto simp: unbroken_def demo_membership nth_Cons split: nat.splits)

section \<open>Witnesses\<close>

lemma projection_counts_parallel_edges_witness:
  "demo_new = project_grounded_relates of_nat (default_projection of_nat)
     ([demo_row ''9'' ''c'' ''b'', demo_row ''7'' ''a'' ''c'', demo_row ''8'' ''d'' ''d''] @ rev demo_rows @ [demo_row ''6'' ''b'' ''a''])"
  unfolding demo_new_def
  by (rule projection_counts_parallel_edges) (simp add: joining_def id_pair_def demo_rows_def demo_row_def)

lemma search_decides_connectedness_witness:
  "community_is_connected demo_new [1, 1, 3, 3] 1
    \<longleftrightarrow> (\<forall>i < length [1, 1, 3, 3::nat]. \<forall>j < length [1, 1, 3, 3::nat].
          [1, 1, 3, 3] ! i = (1::nat) \<longrightarrow> [1, 1, 3, 3] ! j = (1::nat) \<longrightarrow> (linked_nodes demo_new [1, 1, 3, 3] 1)\<^sup>*\<^sup>* i j)"
proof (rule search_decides_connectedness)
  show "graph_ok demo_new" using demo_sound(2) by (simp add: sound_def projected_ok)
  show "length [1, 1, 3, 3::nat] = length (gr_ids demo_new)" by (simp add: demo_ids)
qed

lemma rejected_update_is_rolled_back_witness:
  "case incremental_partition_recoverable of_nat demo_new demo_state [0, 1, 2] demo_config of
     Inl (e, st') \<Rightarrow> st' = demo_state
   | Inr (out, rb) \<Rightarrow> restore_partition rb (io_state out) = demo_state
       \<and> (\<forall>i < length (ps_membership demo_state). i \<notin> set (io_optimized out)
            \<longrightarrow> ps_membership (io_state out) ! i = ps_membership demo_state ! i)"
proof (rule rejected_update_is_rolled_back)
  show "state_ok demo_state" using demo_exact by (simp add: exact_def)
  show "graph_ok demo_new" using demo_sound(2) by (simp add: sound_def projected_ok)
qed

lemma incremental_statistics_are_exact_witness:
  "\<exists>out :: rat incremental_output. ps_membership (io_state out) = [1, 1, 3, 3] \<and> exact demo_new (io_state out)
    \<and> modularity of_nat demo_new (ps_membership (io_state out)) = Some (ps_modularity (io_state out))
    \<and> (\<exists>q. modularity of_nat demo_new (ps_membership demo_state) = Some q \<and> q \<le> ps_modularity (io_state out))"
proof -
  obtain out rb where r: "incremental_partition_recoverable of_nat demo_new demo_state [0, 1, 2] demo_config = Inr (out, rb)"
    "ps_membership (io_state out) = [1, 1, 3, 3]" by (rule demo_accepted)
  show ?thesis using incremental_statistics_are_exact [OF demo_hypotheses r(1)] r(2) by blast
qed

lemma no_community_is_disconnected_witness:
  "unbroken demo_new [1, 1, 3, 3] 1"
proof -
  obtain out rb where r: "incremental_partition_recoverable of_nat demo_new demo_state [0, 1, 2] demo_config = Inr (out, rb)"
    "ps_membership (io_state out) = [1, 1, 3, 3]" by (rule demo_accepted)
  have "\<forall>c. unbroken demo_old (ps_membership demo_state) c" by (simp add: demo_singletons)
  from no_community_is_disconnected [OF demo_hypotheses this r(1)] show ?thesis by (simp only: r(2))
qed

end
