(* ===== verification/Spec2Isabelle.thy ===== *)
theory Spec2Isabelle
  imports Coordinator_Properties Resource_Policy Ambient_Schedule Import_Priority Automatic_Triggers
    Reverse_Protocol Reverse_Peer_Tasks Reverse_Peer_Delivery Genesis_Laws Genesis_Stall Genesis_Proposals
    Community_Examples
begin

text \<open>
  A verification library for wenlan: the scheduler of its daemon, the coordinator that keeps repairs
  and background writers apart, the genesis of pages from evidence, and the reverse relay of its
  desktop application.

  \<^bold>\<open>The program.\<close> The daemon (\<open>crates/wenlan-server\<close>) runs one loop, \<open>spawn_scheduler\<close> of
  \<open>scheduler.rs\<close>. Every tick it samples the host, decides what the resource policy admits, serves a
  requested import first, then the automatic triggers (bursts of writes, idleness, daily and
  backstop steeps, maintenance rounds), then a lap of the ambient jobs. Everything that writes
  in the background, every analysis and every approved repair goes through one
  \<open>MaintenanceCoordinator\<close>. The genesis subsystem (\<open>crates/wenlan-core/src/m6\<close>) decides which groups of
  independent evidence become candidates for a page: a driver takes one turn at a time, reconciles
  the homes of the groups of a space, reads the signals, prepares a candidate and rehearses its
  publication, all in transactions over a dozen tables. The desktop application (\<open>app\<close>) connects the local MCP server to a relay:
  frames of a fixed wire protocol arrive over an authenticated socket, and the peer forwards them to
  two fixed local paths with credits for each chunk of a response.

  \<^bold>\<open>The theories.\<close>
  \<^item> \<open>Prelude\<close>: machine words and instants, saturating counters, token issuers, option combinators,
    and the locale \<open>invariant_machine\<close> (a step relation with an invariant), interpreted by every
    state machine below.
  \<^item> \<open>Maintenance_Coordinator\<close>: \<open>maintenance_coordinator.rs\<close> operation by operation, and the apply
    request of \<open>wenlan-types/src/repair.rs\<close>. The record \<open>coordinator\<close> is \<open>CoordinatorState\<close>; a wake-up of
    the waiters is counted in \<open>notify_calls\<close>. \<open>Coordinator_System\<close> composes the operations with the
    guards that are alive, the calls that wait and the expiry tasks into one step relation;
    \<open>Coordinator_Invariant\<close> proves its invariant and \<open>Coordinator_Properties\<close> what follows from it:
    exclusion, gating of approved repairs, finality of a committed resumption, expiry of
    reservations, and that no wake-up is lost.
  \<^item> \<open>Resource_Policy\<close>: the resource and thermal policies, the probe, the admission counter and the gate
    predicates of \<open>scheduler.rs\<close>, \<open>host_activity.rs\<close> and \<open>import_priority.rs\<close>. Readings of the host are
    arguments; a float is a rational, infinite or not a number.
  \<^item> \<open>Ambient_Schedule\<close>: \<open>scheduler/ambient.rs\<close>, the schedule of the ambient jobs, and the lap of the loop
    that runs them. What a job does is an argument: its report.
  \<^item> \<open>Import_Priority\<close>: \<open>scheduler/import_priority.rs\<close>, the lane a fresh import opens, and the section of
    the loop that serves it. One tick is \<open>lane_tick\<close>.
  \<^item> \<open>Automatic_Triggers\<close>: the write signal, the selection of a due trigger, the batches of phases and
    rounds of stages with their durable cursors, and the automatic section of the loop. An
    \<open>expect\<close> of the code is an \<open>option\<close>: \<open>None\<close> is the panic.
  \<^item> \<open>Reverse_Protocol\<close>: \<open>app/src/remote_relay/reverse_protocol.rs\<close>, the frames, their numbers, their
    validation, encoding and decoding, from an object or from an array as the derived reader allows. The
    JSON and base64 engines are arguments; the laws of a
    base64 engine are the locale \<open>base64_engine\<close>, interpreted by the standard alphabet. \<open>Reverse_Json\<close>
    spells out compact JSON, states the law of a printer that writes no more than that, and shows that
    what a driver sends of its own fits the wire.
  \<^item> \<open>Reverse_Peer\<close>: \<open>reverse_peer.rs\<close>, the driver with its handlers, the request tasks and the queues
    between them as one step relation. \<open>Reverse_Peer_Bounds\<close> proves what every handler keeps,
    \<open>Reverse_Peer_Tasks\<close> that only authorized requests reach the local server.
    \<open>Reverse_Peer_Streams\<close> states the protocol one stream follows (a request, a response, chunks each
    paid by a credit, an end or a cancel) and proves that the driver refines it for every id.
    \<open>Reverse_Peer_Agreement\<close> relates the phase of a pending request with the state of its task, its
    queued events and what has been sent; \<open>Reverse_Peer_Session\<close> proves that every step keeps this,
    and \<open>Reverse_Peer_Delivery\<close> draws what the relay can rely on.
  \<^item> \<open>Genesis_Store\<close>: the tables of the genesis subsystem as one record of row lists, the transaction
    (\<open>tx\<close>: an error or a value and the store) and the session of several transactions, the errors of
    the unique indexes and triggers, and the locale \<open>store_order\<close>: a preorder on stores with the rules
    by which a transaction, a loop and a session keep it. Every preservation proof below is an
    interpretation of it and its rules.
  \<^item> \<open>Genesis_Leases\<close>, \<open>Genesis_Identity\<close>, \<open>Genesis_Frontier\<close> and \<open>Genesis_Candidates\<close>: \<open>leases.rs\<close>;
    \<open>digest.rs\<close> and \<open>identity.rs\<close>; \<open>frontier_policy.rs\<close> and \<open>frontier.rs\<close>; \<open>candidates.rs\<close>, operation by
    operation.
  \<^item> \<open>Label_Key\<close> and \<open>Wikilinks\<close>: \<open>label_key.rs\<close> over the scalars of a UTF-8 string, and the wikilinks of
    \<open>sources/obsidian.rs\<close> (the code blocks and a matcher for the regular expression of a link), with
    the round trip of written links and the spans.
  \<^item> \<open>Genesis_Signals\<close>: \<open>independence.rs\<close> and the four signals of \<open>signals.rs\<close>; \<open>Genesis_Proposals\<close> proves
    what the driver may rely on when it takes up their proposals.
  \<^item> \<open>Genesis_Driver\<close>: \<open>finalize.rs\<close>, \<open>recovery.rs\<close> and \<open>shadow.rs\<close>; one turn is
    \<open>run_genesis_shadow_turn\<close>.
  \<^item> \<open>Genesis_Placement\<close>, \<open>Genesis_Claims\<close> and \<open>Genesis_Accounting\<close> state where a group may be (one of six
    homes) as an abstract placement, and prove that the statements, the claims and the operations
    refine its steps; \<open>Genesis_Shadow\<close> and \<open>Genesis_Turns\<close> carry this to the transactions and to
    whole turns. \<open>Genesis_Examples\<close> holds small databases and their turns. \<open>Genesis_Operations\<close> has
    every operation as one transaction and the refinement theorem, \<open>Genesis_Tables\<close> what every
    operation keeps of the leases and the candidate rows, and \<open>Genesis_Machine\<close> the step relation of
    turns, operations, restarts and outside writes with what holds in every state it reaches.
    \<open>Genesis_Stall\<close> shows the one way out of the accounting, a committed refusal of a claim, and that
    it stops the driver. \<open>Genesis_Scan\<close> proves that the sweep of the frontier ends and sees every row
    once, \<open>Genesis_Laws\<close> the delays, the envelope and the identities.
  \<^item> \<open>Ordered_Maps\<close>: Rust's ordered maps and sets as sorted association lists, with the laws of a map in
    the locale \<open>ordered_map\<close>.
  \<^item> \<open>Community_Projection\<close> and \<open>Community_Partition\<close>: \<open>community_partition.rs\<close>, the projection of the
    grounded edges into a weighted graph, modularity, the search of a community, label propagation,
    and the incremental update of a partition with its snapshot. \<open>Community_Graphs\<close> and
    \<open>Community_Hubs\<close> prove what the projection guarantees, \<open>Community_Rollback\<close> that a rejected update
    leaves no trace, and \<open>Community_Sums\<close>, \<open>Community_Tallies\<close>, \<open>Community_Exact\<close> and
    \<open>Community_Update\<close> that the incremental statistics are those of a fresh computation.
    \<open>Community_Identity\<close> has the rebinding of groups to durable ids, \<open>Community_Examples\<close> a graph and
    its update.

  \<^bold>\<open>Bounds and fuel.\<close> No definition uses fuel: a loop of the modelled code is structural over the
  list it walks, or has a measure (the rest of a text). \<open>scan_turns\<close>, which takes a number of slices,
  is no loop of the code but the sequence of turns a sweep needs; its theorem gives the number.
  Counters the code keeps in machine words are words; a call that could wait is a step that is not
  enabled. The tags of the peer's tasks are words and may wrap; statements about them hold for
  sessions of fewer than \<open>2 ^ 64\<close> requests. Integers of the genesis tables are SQLite's and are
  unbounded here; the arithmetic the code saturates is saturated.

  \<^bold>\<open>Parameters.\<close> What the code takes from elsewhere is an argument: SHA-256 (assumed free of collisions
  where a theorem says so), fresh tokens, the clock, Unicode's tables, the JSON and base64 engines
  (\<open>serde_json\<close> is assumed to write compact JSON where the size of a frame matters),
  the readings of the host, the outcome of a job, phase or slice. In the turn of the genesis driver
  also the sampled oracle of a finalization (\<open>oracle.rs\<close>), the readiness note of a turn and whether a
  community is durable (\<open>community_gate.rs\<close>). The weights of the communities are floats: their
  operations are those of an arbitrary type whose classes have no laws, and what is proved without a
  further class holds for floats; what needs the laws of arithmetic is stated for an ordered field
  (\<open>exact\<close>) and says what the code computes up to rounding.

  \<^bold>\<open>Not modelled.\<close> The Leiden partition of a whole graph is a library's; of the communities also the
  grouping cycle around the partition is not. The database engine, its schema and the queries outside the genesis subsystem; of
  that subsystem the oracle, the readiness note, the relevance and refresh of published pages and
  the remaining substrate, which the shadow driver does not reach or takes as an argument. The renaming
  and merging of spaces (\<open>db/space_rename.rs\<close>) rewrites the space of rows of the genesis tables and drops
  leases: it is no step of \<open>genesis_step\<close>, and what holds over all steps holds between such rewrites. The repair
  contracts beyond the apply request and the lint catalogue (plans and reports over queries). The
  language and embedding models and what retrieval and synthesis ask of them, the HTTP routes and
  the MCP adapter (glue over axum), the command line, the shell of the desktop application, the
  relay's socket, runtime and files, the frontend and the benchmarks. Of the Obsidian source only
  the wikilinks: frontmatter, tags and the scan of a vault rest on a YAML engine and the file system.
\<close>

end
